(* ===== verification/Prelude.thy ===== *)
theory Prelude
  imports Complex_Main "HOL-Library.Word" "HOL-Library.AList" "HOL-Library.List_Lexorder"
    "HOL-Library.Char_ord" "HOL-Library.Multiset" "HOL-Library.Product_Lexorder"
begin

text \<open>
  Shared vocabulary of the development: Go's \<open>time.Time\<close> and \<open>time.Duration\<close>, wrapping
  64-bit arithmetic, truncating division, the formatting verbs of \<open>fmt.Sprintf\<close> the program
  uses, Go maps whose iteration order is explicit, and the stable sort behind
  \<open>sort.SliceStable\<close> and \<open>sort.Slice\<close>.
\<close>

named_theorems go_maps \<open>lookup, update and delete on Go maps\<close>
named_theorems wp \<open>weakest preconditions of the effect operations\<close>

section \<open>Time\<close>

text \<open>
  A \<open>time.Time\<close> is the number of nanoseconds since the Unix epoch, a \<open>time.Duration\<close> a
  number of nanoseconds. The zero \<open>time.Time\<close> is January 1 of year 1. \<open>Time.Sub\<close> saturates
  at the range of a 64-bit duration.
\<close>

type_synonym gotime = int
type_synonym duration = int

definition second :: duration where "second = 10 ^ 9"
definition millisecond :: duration where "millisecond = 10 ^ 6"
definition minute :: duration where "minute = 60 * second"
definition hour :: duration where "hour = 60 * minute"

lemmas duration_defs = second_def millisecond_def minute_def hour_def

definition zero_time :: gotime where "zero_time = - 62135596800 * 10 ^ 9"

definition max_duration :: duration where "max_duration = 2 ^ 63 - 1"
definition min_duration :: duration where "min_duration = - (2 ^ 63)"

definition time_sub :: "gotime \<Rightarrow> gotime \<Rightarrow> duration" where
  "time_sub t u = max min_duration (min max_duration (t - u))"

definition unix_seconds :: "gotime \<Rightarrow> int" where
  "unix_seconds t = t div 10 ^ 9"

lemma time_sub_nonneg: "u \<le> t \<Longrightarrow> 0 \<le> time_sub t u"
  by (simp add: time_sub_def max_duration_def)

lemma time_sub_pos: "0 < time_sub t u \<longleftrightarrow> u < t"
  by (auto simp: time_sub_def max_duration_def min_duration_def)

lemma time_sub_bounded: "time_sub t u \<le> max_duration"
  by (simp add: time_sub_def max_duration_def min_duration_def)

lemma time_sub_exact:
  "t - u \<le> max_duration \<Longrightarrow> min_duration \<le> t - u \<Longrightarrow> time_sub t u = t - u"
  by (simp add: time_sub_def)

lemma time_sub_le_iff: "d < max_duration \<Longrightarrow> min_duration \<le> d \<Longrightarrow> time_sub t u \<le> d \<longleftrightarrow> t - u \<le> d"
  by (auto simp: time_sub_def)

section \<open>Machine integers\<close>

text \<open>Two's complement wrap-around of \<open>int64\<close> (and \<open>int\<close> on a 64-bit platform).\<close>

definition wrap64 :: "int \<Rightarrow> int" where
  "wrap64 x = (x + 2 ^ 63) mod 2 ^ 64 - 2 ^ 63"

lemma wrap64_id: "- (2 ^ 63) \<le> x \<Longrightarrow> x < 2 ^ 63 \<Longrightarrow> wrap64 x = x"
  by (simp add: wrap64_def)

lemma wrap64_range: "- (2 ^ 63) \<le> wrap64 x \<and> wrap64 x < 2 ^ 63"
proof -
  have "0 \<le> (x + 2 ^ 63) mod 2 ^ 64" "(x + 2 ^ 63) mod 2 ^ 64 < (2 ^ 64 :: int)"
    by simp_all
  then show ?thesis by (simp add: wrap64_def)
qed

text \<open>Go's integer division truncates towards zero.\<close>

definition go_div :: "int \<Rightarrow> int \<Rightarrow> int" where
  "go_div a b = sgn a * sgn b * (\<bar>a\<bar> div \<bar>b\<bar>)"

lemma go_div_nonneg: "0 \<le> a \<Longrightarrow> 0 < b \<Longrightarrow> go_div a b = a div b"
  by (cases "a = 0") (simp_all add: go_div_def)

section \<open>Formatting\<close>

text \<open>The verb \<open>%d\<close>.\<close>

fun dec_nat :: "nat \<Rightarrow> string" where
  "dec_nat n = (if n < 10 then [char_of (48 + n)] else dec_nat (n div 10) @ [char_of (48 + n mod 10)])"

declare dec_nat.simps [simp del]

definition dec_int :: "int \<Rightarrow> string" where
  "dec_int i = (if i < 0 then ''-'' @ dec_nat (nat (- i)) else dec_nat (nat i))"

text \<open>
  The verb \<open>%q\<close> (\<open>strconv.Quote\<close>): quotes, backslashes and control characters are
  escaped. Bytes above 127 are parts of printable UTF-8 sequences and stay as they are.
\<close>

definition hex_digit :: "nat \<Rightarrow> char" where
  "hex_digit n = (if n < 10 then char_of (48 + n) else char_of (87 + n))"

definition quote_char :: "char \<Rightarrow> string" where
  "quote_char c = (let n = of_char c :: nat in
     if n = 34 then [CHR 0x5C, CHR 0x22]
     else if n = 92 then [CHR 0x5C, CHR 0x5C]
     else if n = 7 then [CHR 0x5C, CHR ''a'']
     else if n = 8 then [CHR 0x5C, CHR ''b'']
     else if n = 12 then [CHR 0x5C, CHR ''f'']
     else if n = 10 then [CHR 0x5C, CHR ''n'']
     else if n = 13 then [CHR 0x5C, CHR ''r'']
     else if n = 9 then [CHR 0x5C, CHR ''t'']
     else if n = 11 then [CHR 0x5C, CHR ''v'']
     else if n < 32 \<or> n = 127 then [CHR 0x5C, CHR ''x'', hex_digit (n div 16), hex_digit (n mod 16)]
     else [c])"

definition quote :: "string \<Rightarrow> string" where
  "quote s = CHR 0x22 # concat (map quote_char s) @ [CHR 0x22]"

text \<open>The verbs \<open>%-12s\<close> and \<open>%-5d\<close>: left justified in a field.\<close>

definition pad_right :: "nat \<Rightarrow> string \<Rightarrow> string" where
  "pad_right n s = s @ replicate (n - length s) (CHR '' '')"

text \<open>\<open>strings.Join\<close>.\<close>

fun join :: "string \<Rightarrow> string list \<Rightarrow> string" where
  "join sep [] = []"
| "join sep [s] = s"
| "join sep (s # t # ss) = s @ sep @ join sep (t # ss)"

definition newline :: string where "newline = [CHR 0x0A]"

text \<open>
  \<open>time.Duration.String\<close> (the verb \<open>%v\<close>): the fraction is printed without trailing zeros,
  units from nanoseconds (micro sign in UTF-8) up to hours.
\<close>

fun drop_zeros :: "nat \<Rightarrow> nat \<Rightarrow> string" where
  "drop_zeros 0 v = []"
| "drop_zeros (Suc p) v =
     (if v mod 10 = 0 then drop_zeros p (v div 10)
      else (let rest = v div 10 in
        (if p = 0 then [] else replicate (p - length (dec_nat rest)) (CHR ''0'') @ dec_nat rest)
        @ [char_of (48 + v mod 10)]))"

definition fmt_frac :: "nat \<Rightarrow> nat \<Rightarrow> string" where
  "fmt_frac prec v = (let f = v mod 10 ^ prec in
     dec_nat (v div 10 ^ prec) @ (if f = 0 then [] else CHR ''.'' # drop_zeros prec f))"

definition dur_string :: "duration \<Rightarrow> string" where
  "dur_string d = (let u = nat \<bar>d\<bar>; sign = (if d < 0 then ''-'' else []) in
     if u = 0 then ''0s''
     else if u < 10 ^ 3 then sign @ dec_nat u @ ''ns''
     else if u < 10 ^ 6 then sign @ fmt_frac 3 u @ [CHR 0xC2, CHR 0xB5] @ ''s''
     else if u < 10 ^ 9 then sign @ fmt_frac 6 u @ ''ms''
     else (let secs = u div 10 ^ 9; frac = u mod 10 ^ 9; m = secs div 60; h = m div 60;
               s = fmt_frac 9 ((secs mod 60) * 10 ^ 9 + frac) @ ''s''
           in sign @ (if m = 0 then s
                      else if h = 0 then dec_nat (m mod 60) @ ''m'' @ s
                      else dec_nat h @ ''h'' @ dec_nat (m mod 60) @ ''m'' @ s)))"

section \<open>Go maps\<close>

text \<open>
  A Go map is modelled by the association list of its bindings in the order in which a
  \<open>range\<close> loop happens to visit them. The order is arbitrary in Go, so a theorem about any
  such list holds for every iteration order. Reading a missing key yields the zero value of the
  value type, here for strings the empty one.
\<close>

type_synonym ('k, 'v) gomap = "('k \<times> 'v) list"

abbreviation go_get :: "('k, 'v) gomap \<Rightarrow> 'k \<Rightarrow> 'v option" where
  "go_get \<equiv> map_of"

abbreviation go_put :: "'k \<Rightarrow> 'v \<Rightarrow> ('k, 'v) gomap \<Rightarrow> ('k, 'v) gomap" where
  "go_put \<equiv> AList.update"

abbreviation go_delete :: "'k \<Rightarrow> ('k, 'v) gomap \<Rightarrow> ('k, 'v) gomap" where
  "go_delete \<equiv> AList.delete"

definition get_str :: "('k, string) gomap \<Rightarrow> 'k \<Rightarrow> string" where
  "get_str m k = (case go_get m k of None \<Rightarrow> [] | Some v \<Rightarrow> v)"

definition wf_map :: "('k, 'v) gomap \<Rightarrow> bool" where
  "wf_map m = distinct (map fst m)"

lemma go_get_put [go_maps]: "go_get (go_put k v m) k' = (if k = k' then Some v else go_get m k')"
  by (simp add: update_conv' map_upd_Some_unfold)

lemma go_get_delete [go_maps]: "go_get (go_delete k m) k' = (if k = k' then None else go_get m k')"
  by (simp add: delete_conv')

lemma wf_map_put [go_maps]: "wf_map m \<Longrightarrow> wf_map (go_put k v m)"
  by (simp add: wf_map_def distinct_update)

lemma wf_map_delete [go_maps]: "wf_map m \<Longrightarrow> wf_map (go_delete k m)"
  by (simp add: wf_map_def distinct_delete)

lemma wf_map_Nil [go_maps]: "wf_map []"
  by (simp add: wf_map_def)

lemma dom_go_put: "fst ` set (go_put k v m) = insert k (fst ` set m)"
  by (auto simp: dom_update)

lemma go_get_in_keys: "go_get m k = Some v \<Longrightarrow> k \<in> fst ` set m"
  by (metis domI dom_map_of_conv_image_fst)

lemma wf_map_get: "wf_map m \<Longrightarrow> (k, v) \<in> set m \<Longrightarrow> go_get m k = Some v"
  by (simp add: wf_map_def)

text \<open>The loop \<open>for k, v := range m { out[k] = v }\<close>.\<close>

definition go_copy :: "('k, 'v) gomap \<Rightarrow> ('k, 'v) gomap \<Rightarrow> ('k, 'v) gomap" where
  "go_copy m out = fold (\<lambda>(k, v). go_put k v) m out"

lemma go_get_copy [go_maps]:
  "wf_map m \<Longrightarrow> go_get (go_copy m out) k = (case go_get m k of Some v \<Rightarrow> Some v | None \<Rightarrow> go_get out k)"
proof (induction m arbitrary: out)
  case Nil
  then show ?case by (simp add: go_copy_def)
next
  case (Cons kv m)
  obtain k' v' where kv: "kv = (k', v')" by (cases kv)
  have "wf_map m" "k' \<notin> fst ` set m" using Cons.prems kv by (auto simp: wf_map_def)
  moreover from this(2) have "go_get m k' = None" by (simp add: map_of_eq_None_iff)
  ultimately show ?case using Cons.IH [of "go_put k' v' out"]
    by (auto simp: go_copy_def kv go_get_put split: option.splits)
qed

lemma wf_map_copy [go_maps]: "wf_map out \<Longrightarrow> wf_map (go_copy m out)"
  by (induction m arbitrary: out) (auto simp: go_copy_def wf_map_put)

section \<open>Stable sorting by a less function\<close>

fun insert_by :: "('a \<Rightarrow> 'a \<Rightarrow> bool) \<Rightarrow> 'a \<Rightarrow> 'a list \<Rightarrow> 'a list" where
  "insert_by lt x [] = [x]"
| "insert_by lt x (y # ys) = (if lt y x then y # insert_by lt x ys else x # y # ys)"

definition stable_sort :: "('a \<Rightarrow> 'a \<Rightarrow> bool) \<Rightarrow> 'a list \<Rightarrow> 'a list" where
  "stable_sort lt xs = foldr (insert_by lt) xs []"

lemma mset_insert_by [simp]: "mset (insert_by lt x xs) = add_mset x (mset xs)"
  by (induction xs) auto

lemma mset_stable_sort [simp]: "mset (stable_sort lt xs) = mset xs"
  by (induction xs) (simp_all add: stable_sort_def)

lemma set_insert_by [simp]: "set (insert_by lt x xs) = insert x (set xs)"
  by (induction xs) auto

lemma set_stable_sort [simp]: "set (stable_sort lt xs) = set xs"
  by (metis mset_stable_sort set_mset_mset)

lemma length_stable_sort [simp]: "length (stable_sort lt xs) = length xs"
  by (metis mset_stable_sort size_mset)

lemma distinct_stable_sort: "distinct (map f (stable_sort lt xs)) = distinct (map f xs)"
  by (metis mset_map mset_stable_sort distinct_count_atmost_1 mset_eq_imp_distinct_iff)

text \<open>The contract a less function owes to Go's sort package: a strict weak order.\<close>

locale strict_weak_order =
  fixes lt :: "'a \<Rightarrow> 'a \<Rightarrow> bool"
  assumes lt_asym: "lt x y \<Longrightarrow> \<not> lt y x"
    and lt_cotrans: "lt x z \<Longrightarrow> lt x y \<or> lt y z"
begin

lemma not_lt_trans: "\<not> lt y x \<Longrightarrow> \<not> lt z y \<Longrightarrow> \<not> lt z x"
  using lt_cotrans by blast

lemma sorted_insert_by:
  "sorted_wrt (\<lambda>x y. \<not> lt y x) xs \<Longrightarrow> sorted_wrt (\<lambda>x y. \<not> lt y x) (insert_by lt a xs)"
proof (induction xs)
  case Nil
  then show ?case by simp
next
  case (Cons b xs)
  show ?case
  proof (cases "lt b a")
    case True
    with Cons show ?thesis by (simp add: lt_asym)
  next
    case False
    with Cons.prems have "\<forall>y \<in> set xs. \<not> lt y a"
      by (auto dest: not_lt_trans [OF False])
    with False Cons.prems show ?thesis by simp
  qed
qed

lemma sorted_stable_sort: "sorted_wrt (\<lambda>x y. \<not> lt y x) (stable_sort lt xs)"
  by (induction xs) (simp_all add: stable_sort_def sorted_insert_by)

lemma insert_by_incomparable:
  "\<not> lt a x \<Longrightarrow> \<not> lt x a \<Longrightarrow>
   filter (\<lambda>y. \<not> lt a y \<and> \<not> lt y a) (insert_by lt x xs)
     = x # filter (\<lambda>y. \<not> lt a y \<and> \<not> lt y a) xs"
proof (induction xs)
  case Nil
  then show ?case by simp
next
  case (Cons b xs)
  show ?case
  proof (cases "lt b x")
    case True
    with Cons.prems(1) have "lt b a" using lt_cotrans [of b x a] by blast
    with True Cons show ?thesis by simp
  next
    case False
    with Cons.prems show ?thesis by simp
  qed
qed

lemma insert_by_comparable:
  "lt a x \<or> lt x a \<Longrightarrow>
   filter (\<lambda>y. \<not> lt a y \<and> \<not> lt y a) (insert_by lt x xs)
     = filter (\<lambda>y. \<not> lt a y \<and> \<not> lt y a) xs"
  by (induction xs) auto

lemma stable_sort_stable:
  "filter (\<lambda>y. \<not> lt a y \<and> \<not> lt y a) (stable_sort lt xs)
     = filter (\<lambda>y. \<not> lt a y \<and> \<not> lt y a) xs"
proof (induction xs)
  case Nil
  then show ?case by (simp add: stable_sort_def)
next
  case (Cons b xs)
  have "stable_sort lt (b # xs) = insert_by lt b (stable_sort lt xs)"
    by (simp add: stable_sort_def)
  with Cons show ?case
    by (cases "lt a b \<or> lt b a") (auto simp: insert_by_comparable insert_by_incomparable)
qed

lemma stable_sort_least:
  assumes "x \<in> set xs" and "\<And>y. y \<in> set xs \<Longrightarrow> y \<noteq> x \<Longrightarrow> lt x y"
  shows "\<exists>ys. stable_sort lt xs = x # ys"
proof -
  obtain h ys where hys: "stable_sort lt xs = h # ys"
    using assms(1) by (metis list.exhaust list.set(1) set_stable_sort empty_iff)
  have "h = x"
  proof (rule ccontr)
    assume ne: "h \<noteq> x"
    have "h \<in> set xs" by (metis hys list.set_intros(1) set_stable_sort)
    with ne assms(2) have "lt x h" by blast
    moreover from ne hys assms(1) have "x \<in> set ys"
      by (metis set_ConsD set_stable_sort)
    with sorted_stable_sort [of xs] hys have "\<not> lt x h" by simp
    ultimately show False by simp
  qed
  with hys show ?thesis by blast
qed

end

text \<open>A less function that compares keys of a linear order is one.\<close>

lemma strict_weak_order_key: "(\<And>x y. lt x y \<longleftrightarrow> key x < (key y :: 'k :: linorder)) \<Longrightarrow> strict_weak_order lt"
  by unfold_locales (auto simp: not_less)

text \<open>Sorting strings (\<open>sort.Strings\<close>): the bytewise lexicographic order.\<close>

interpretation str_order: strict_weak_order "(<) :: string \<Rightarrow> string \<Rightarrow> bool"
  by unfold_locales auto

definition sort_strings :: "string list \<Rightarrow> string list" where
  "sort_strings = stable_sort (<)"

lemma sorted_sort_strings: "sorted (sort_strings xs)"
  using str_order.sorted_stable_sort [of xs]
  by (simp add: sort_strings_def sorted_wrt_iff_nth_less not_less)

lemma set_sort_strings [simp]: "set (sort_strings xs) = set xs"
  by (simp add: sort_strings_def)

text \<open>Any two sorts of the same keys agree, so the visiting order of a map does not matter.\<close>

lemma sort_strings_unique: "mset xs = mset ys \<Longrightarrow> sort_strings xs = sort_strings ys"
  by (metis mset_stable_sort properties_for_sort sort_strings_def sorted_sort_strings)

end
