(* ===== verification/Framework.thy ===== *)
theory Framework
  imports Prelude
begin

text \<open>
  Package \<open>pkg/framework\<close>: the filter and score pipeline. A plugin is a name with a function; a
  profile lists filters and weighted scorers; \<open>Schedule\<close> is a pure function of the request, the
  candidates and a stream of random draws. Scores are \<open>int64\<close> values with wrap-around.
\<close>

section \<open>Data\<close>

definition MaxScore :: int where "MaxScore = 100"

record candidate =
  cProvider :: string
  cReachable :: bool
  cWarmCapacity :: int
  cElastic :: bool
  cElasticWarmScore :: int
  cInFlightCold :: int
  cAttributes :: "(string, string) gomap"
  cTemplates :: "(string, string) gomap"
  cCostPerHour :: rat

definition Attr :: "candidate \<Rightarrow> string \<Rightarrow> string" where
  "Attr c key = (if cAttributes c = [] then [] else get_str (cAttributes c) key)"

definition HasTemplate :: "candidate \<Rightarrow> string \<Rightarrow> bool" where
  "HasTemplate c name = (if cTemplates c = [] then False else get_str (cTemplates c) name \<noteq> [])"

record sched_request =
  rqName :: string
  rqTemplate :: string
  rqWarmOnly :: bool
  rqRequires :: "(string, string) gomap"
  rqPreferProvider :: string

text \<open>The interfaces \<open>Filter\<close> and \<open>Scorer\<close>: a name and a method.\<close>

record filter_plugin =
  fName :: string
  fFilter :: "sched_request \<Rightarrow> candidate \<Rightarrow> bool \<times> string"

record scorer_plugin =
  sName :: string
  sScore :: "sched_request \<Rightarrow> candidate \<Rightarrow> int"

record weighted_scorer =
  wsScorer :: scorer_plugin
  wsWeight :: int

record score_detail =
  sdScorer :: string
  sdRaw :: int
  sdWeight :: int
  sdWeighted :: int

record candidate_result =
  resProvider :: string
  resFiltered :: bool
  resReason :: string
  resTotal :: int
  resDetails :: "score_detail list"

record decision =
  dProvider :: string
  dScore :: int
  dTieBreak :: string
  dResults :: "candidate_result list"

record profile =
  pName :: string
  pFilters :: "filter_plugin list"
  pScorers :: "weighted_scorer list"

section \<open>Explanations\<close>

definition detail_string :: "score_detail \<Rightarrow> string" where
  "detail_string d = sdScorer d @ ''='' @ dec_int (sdRaw d) @ ''*'' @ dec_int (sdWeight d)"

definition result_line :: "candidate_result \<Rightarrow> string" where
  "result_line r =
     (if resFiltered r then ''  '' @ pad_right 12 (resProvider r) @ '' filtered: '' @ resReason r @ newline
      else ''  '' @ pad_right 12 (resProvider r) @ '' score '' @ pad_right 5 (dec_int (resTotal r)) @ '' ''
        @ join '' '' (map detail_string (resDetails r)) @ newline)"

definition ExplainResults :: "candidate_result list \<Rightarrow> string" where
  "ExplainResults rs = concat (map result_line rs)"

definition Explain :: "decision \<Rightarrow> string" where
  "Explain d = (let head = ''placed on '' @ quote (dProvider d) @ '' (score '' @ dec_int (dScore d) @ '')'' @ newline;
       head = (if dTieBreak d \<noteq> [] then head @ ''  tie: '' @ dTieBreak d @ newline else head)
     in head @ ExplainResults (dResults d))"

text \<open>\<open>ErrNoCandidates.Error\<close>.\<close>

definition no_candidates_string :: "candidate_result list \<Rightarrow> string" where
  "no_candidates_string rs =
     (if rs = [] then ''no providers configured''
      else ''no provider satisfied the request: ''
        @ join ''; '' (map (\<lambda>r. resProvider r @ '': '' @ resReason r) rs))"

section \<open>Filtering and scoring one candidate\<close>

text \<open>The reason recorded by the first filter that rejects, if one does.\<close>

fun run_filters :: "filter_plugin list \<Rightarrow> sched_request \<Rightarrow> candidate \<Rightarrow> string option" where
  "run_filters [] req c = None"
| "run_filters (f # fs) req c =
     (case fFilter f req c of (ok, reason) \<Rightarrow>
        if \<not> ok then Some (fName f @ '': '' @ (if reason = [] then ''rejected by '' @ fName f else reason))
        else run_filters fs req c)"

definition clamp_score :: "int \<Rightarrow> int" where
  "clamp_score raw = (let raw = (if raw < 0 then 0 else raw) in if raw > MaxScore then MaxScore else raw)"

fun run_scorers :: "weighted_scorer list \<Rightarrow> sched_request \<Rightarrow> candidate \<Rightarrow> int \<Rightarrow> score_detail list
    \<Rightarrow> int \<times> score_detail list" where
  "run_scorers [] req c tot details = (tot, details)"
| "run_scorers (ws # wss) req c tot details =
     (let raw = clamp_score (sScore (wsScorer ws) req c);
          weighted = wrap64 (raw * wsWeight ws)
      in run_scorers wss req c (wrap64 (tot + weighted))
           (details @ [\<lparr>sdScorer = sName (wsScorer ws), sdRaw = raw, sdWeight = wsWeight ws,
                        sdWeighted = weighted\<rparr>]))"

definition evaluate :: "profile \<Rightarrow> sched_request \<Rightarrow> candidate \<Rightarrow> candidate_result" where
  "evaluate p req c =
     (case run_filters (pFilters p) req c of
        Some reason \<Rightarrow> \<lparr>resProvider = cProvider c, resFiltered = True, resReason = reason,
                        resTotal = 0, resDetails = []\<rparr>
      | None \<Rightarrow> (case run_scorers (pScorers p) req c 0 [] of (tot, details) \<Rightarrow>
          \<lparr>resProvider = cProvider c, resFiltered = False, resReason = [],
           resTotal = tot, resDetails = details\<rparr>))"

section \<open>Choosing the winner\<close>

text \<open>\<open>Rand(n)\<close>: the \<open>k\<close>-th draw of the stream, uniform over \<open>[0, n)\<close>.\<close>

definition intn :: "(nat \<Rightarrow> nat) \<Rightarrow> nat \<Rightarrow> nat \<Rightarrow> nat" where
  "intn rnd k n = rnd k mod n"

definition better :: "candidate_result list \<Rightarrow> nat \<Rightarrow> nat \<Rightarrow> nat" where
  "better results best idx =
     (if resTotal (results ! idx) > resTotal (results ! best) \<or>
         (resTotal (results ! idx) = resTotal (results ! best) \<and>
          resProvider (results ! idx) < resProvider (results ! best))
      then idx else best)"

definition best_index :: "candidate_result list \<Rightarrow> nat list \<Rightarrow> nat" where
  "best_index results feasible = foldl (better results) (hd feasible) (tl feasible)"

definition tied_indices :: "candidate_result list \<Rightarrow> nat list \<Rightarrow> nat \<Rightarrow> nat list" where
  "tied_indices results feasible best =
     filter (\<lambda>idx. resTotal (results ! idx) = resTotal (results ! best)) feasible"

text \<open>The two sampled positions: both when two tie, otherwise two different random ones.\<close>

definition sample_two :: "(nat \<Rightarrow> nat) \<Rightarrow> nat list \<Rightarrow> nat \<times> nat \<times> nat \<times> string" where
  "sample_two rnd tied =
     (if 2 < length tied then
        (let i = intn rnd 0 (length tied);
             j = intn rnd 1 (length tied - 1);
             j = (if i \<le> j then j + 1 else j)
         in (tied ! i, tied ! j, 2, ''sampled 2 of '' @ dec_nat (length tied)))
      else (tied ! 0, tied ! 1, 0, ''compared both''))"

definition pick :: "(nat \<Rightarrow> nat) \<Rightarrow> candidate_result list \<Rightarrow> nat list \<Rightarrow> candidate list \<Rightarrow> nat \<times> string" where
  "pick rnd results feasible candidates =
     (let best = best_index results feasible;
          tied = tied_indices results feasible best;
          cold = (\<forall>idx \<in> set tied. cWarmCapacity (candidates ! idx) \<le> 0)
      in if length tied = 1 then (best, [])
         else if \<not> cold then (best, dec_nat (length tied) @ '' candidates tied; broke on provider name'')
         else (case sample_two rnd tied of (a, b, k, how) \<Rightarrow>
           let na = cInFlightCold (candidates ! a);
               nb = cInFlightCold (candidates ! b);
               equal = (na = nb);
               (a, b) = (if nb < na \<or> (equal \<and> intn rnd k 2 = 1) then (b, a) else (a, b));
               why = (if equal then ''; equal, chose at random'' else [])
           in (a, ''cold candidates tied; '' @ how @ '': '' @ quote (cProvider (candidates ! a)) @ '' has ''
                @ dec_int (cInFlightCold (candidates ! a)) @ '' cold starts in flight, ''
                @ quote (cProvider (candidates ! b)) @ '' has ''
                @ dec_int (cInFlightCold (candidates ! b)) @ why)))"

text \<open>The order of the reported results: unfiltered first, best first, the winner first in its tie.\<close>

definition result_less :: "string \<Rightarrow> candidate_result \<Rightarrow> candidate_result \<Rightarrow> bool" where
  "result_less winner x y =
     (if resFiltered x \<noteq> resFiltered y then \<not> resFiltered x
      else if resTotal x \<noteq> resTotal y then resTotal x > resTotal y
      else if (resProvider x = winner) \<noteq> (resProvider y = winner) then resProvider x = winner
      else resProvider x < resProvider y)"

definition feasible_indices :: "candidate_result list \<Rightarrow> nat list" where
  "feasible_indices results = filter (\<lambda>i. \<not> resFiltered (results ! i)) [0..<length results]"

text \<open>\<open>Inl\<close> carries the results of \<open>ErrNoCandidates\<close>.\<close>

definition Schedule :: "(nat \<Rightarrow> nat) \<Rightarrow> profile \<Rightarrow> sched_request \<Rightarrow> candidate list
    \<Rightarrow> candidate_result list + decision" where
  "Schedule rnd p req candidates =
     (let results = map (evaluate p req) candidates;
          feasible = feasible_indices results
      in if feasible = [] then Inl results
         else (case pick rnd results feasible candidates of (best, tieBreak) \<Rightarrow>
           let winner = resProvider (results ! best) in
           Inr \<lparr>dProvider = winner, dScore = resTotal (results ! best), dTieBreak = tieBreak,
                dResults = stable_sort (result_less winner) results\<rparr>))"

section \<open>One candidate\<close>

lemma evaluate_provider [simp]: "resProvider (evaluate p req c) = cProvider c"
  by (simp add: evaluate_def split: option.splits prod.splits)

lemma evaluate_filtered: "resFiltered (evaluate p req c) \<longleftrightarrow> run_filters (pFilters p) req c \<noteq> None"
  by (simp add: evaluate_def split: option.splits prod.splits)

lemma run_filters_None: "run_filters fs req c = None \<longleftrightarrow> (\<forall>f \<in> set fs. fst (fFilter f req c))"
  by (induction fs) (auto split: prod.splits)

lemma evaluate_passes:
  "\<not> resFiltered (evaluate p req c) \<longleftrightarrow> (\<forall>f \<in> set (pFilters p). fst (fFilter f req c))"
  by (simp add: evaluate_filtered run_filters_None)

lemma run_filters_Some:
  "run_filters fs req c = Some r \<Longrightarrow> \<exists>f \<in> set fs. \<not> fst (fFilter f req c) \<and>
     r = fName f @ '': '' @ (if snd (fFilter f req c) = [] then ''rejected by '' @ fName f else snd (fFilter f req c))"
  by (induction fs) (auto split: prod.splits if_splits)

lemma clamp_score_bounds: "0 \<le> clamp_score x \<and> clamp_score x \<le> MaxScore"
  by (simp add: clamp_score_def MaxScore_def)

lemma clamp_score_id: "0 \<le> x \<Longrightarrow> x \<le> MaxScore \<Longrightarrow> clamp_score x = x"
  by (simp add: clamp_score_def)

text \<open>
  As long as the weights are not negative and their sum stays below \<open>2 ^ 63 / 100\<close> nothing wraps:
  the total is the weighted sum of the clamped scores.
\<close>

definition sane_weights :: "weighted_scorer list \<Rightarrow> bool" where
  "sane_weights wss \<longleftrightarrow> (\<forall>ws \<in> set wss. 0 \<le> wsWeight ws) \<and> MaxScore * sum_list (map wsWeight wss) < 2 ^ 63"

definition weighted_sum :: "weighted_scorer list \<Rightarrow> sched_request \<Rightarrow> candidate \<Rightarrow> int" where
  "weighted_sum wss req c = sum_list (map (\<lambda>ws. clamp_score (sScore (wsScorer ws) req c) * wsWeight ws) wss)"

lemma weighted_sum_bounds:
  "(\<forall>ws \<in> set wss. 0 \<le> wsWeight ws) \<Longrightarrow>
   0 \<le> weighted_sum wss req c \<and> weighted_sum wss req c \<le> MaxScore * sum_list (map wsWeight wss)"
proof (induction wss)
  case Nil
  then show ?case by (simp add: weighted_sum_def)
next
  case (Cons ws wss)
  let ?s = "clamp_score (sScore (wsScorer ws) req c)"
  have "0 \<le> ?s * wsWeight ws" "?s * wsWeight ws \<le> MaxScore * wsWeight ws"
    using clamp_score_bounds Cons.prems by (simp_all add: mult_right_mono)
  with Cons show ?case by (simp add: weighted_sum_def distrib_left)
qed

lemma run_scorers_total:
  assumes "\<forall>ws \<in> set wss. 0 \<le> wsWeight ws" and "0 \<le> tot"
    and "tot + MaxScore * sum_list (map wsWeight wss) < 2 ^ 63"
  shows "fst (run_scorers wss req c tot details) = tot + weighted_sum wss req c"
  using assms
proof (induction wss arbitrary: tot details)
  case Nil
  then show ?case by (simp add: weighted_sum_def)
next
  case (Cons ws wss)
  let ?w = "clamp_score (sScore (wsScorer ws) req c) * wsWeight ws"
  have w: "0 \<le> ?w" "?w \<le> MaxScore * wsWeight ws"
    using clamp_score_bounds Cons.prems by (simp_all add: mult_right_mono)
  have rest: "0 \<le> sum_list (map wsWeight wss)"
    using Cons.prems(1) by (intro sum_list_nonneg) auto
  have le: "tot + ?w + MaxScore * sum_list (map wsWeight wss) < 2 ^ 63"
    using Cons.prems(3) w(2) by (simp add: distrib_left)
  moreover have "0 \<le> MaxScore * sum_list (map wsWeight wss)"
    using rest by (simp add: MaxScore_def)
  ultimately have "wrap64 ?w = ?w" "wrap64 (tot + ?w) = tot + ?w"
    using w Cons.prems(2) by (simp_all add: wrap64_id)
  then show ?case
    using Cons.IH [of "tot + ?w"] Cons.prems w le by (simp add: weighted_sum_def Let_def)
qed

lemma evaluate_total:
  assumes "sane_weights (pScorers p)" and "\<not> resFiltered (evaluate p req c)"
  shows "resTotal (evaluate p req c) = weighted_sum (pScorers p) req c"
proof -
  have "fst (run_scorers (pScorers p) req c 0 []) = weighted_sum (pScorers p) req c"
    using assms(1) run_scorers_total [of "pScorers p" 0 req c "[]"] by (simp add: sane_weights_def)
  with assms(2) show ?thesis
    by (simp add: evaluate_def split: option.splits prod.splits)
qed


section \<open>Choosing among the feasible candidates\<close>

text \<open>The order \<open>pick\<close> searches by: higher total first, then the lower provider name.\<close>

definition ahead :: "candidate_result \<Rightarrow> candidate_result \<Rightarrow> bool" where
  "ahead x y \<longleftrightarrow> resTotal x > resTotal y \<or> (resTotal x = resTotal y \<and> resProvider x < resProvider y)"

interpretation ahead_order: strict_weak_order ahead
  by unfold_locales (auto simp: ahead_def)

definition result_key :: "string \<Rightarrow> candidate_result \<Rightarrow> bool \<times> int \<times> bool \<times> string" where
  "result_key winner r = (resFiltered r, - resTotal r, resProvider r \<noteq> winner, resProvider r)"

lemma result_less_key: "result_less winner x y \<longleftrightarrow> result_key winner x < result_key winner y"
  unfolding result_less_def result_key_def
  by (cases "resFiltered x"; cases "resFiltered y"; cases "resTotal x" "resTotal y" rule: linorder_cases;
      cases "resProvider x = winner"; cases "resProvider y = winner") simp_all

interpretation result_order: strict_weak_order "result_less winner"
  by (rule strict_weak_order_key, rule result_less_key)

lemma better_ahead: "better results b i = (if ahead (results ! i) (results ! b) then i else b)"
  by (simp add: better_def ahead_def)

lemma foldl_better:
  "foldl (better results) b is \<in> insert b (set is) \<and>
   (\<forall>i \<in> insert b (set is). \<not> ahead (results ! i) (results ! foldl (better results) b is))"
proof (induction "is" arbitrary: b)
  case Nil
  then show ?case using ahead_order.lt_asym by auto
next
  case (Cons i "is")
  let ?b = "better results b i"
  have "\<not> ahead (results ! b) (results ! ?b)" "\<not> ahead (results ! i) (results ! ?b)" "?b \<in> {b, i}"
    using ahead_order.lt_asym by (auto simp: better_ahead)
  with Cons [of ?b] show ?case by (auto dest: ahead_order.not_lt_trans)
qed

lemma best_index_in: "feasible \<noteq> [] \<Longrightarrow> best_index results feasible \<in> set feasible"
  using foldl_better [of results "hd feasible" "tl feasible"]
  by (cases feasible) (auto simp: best_index_def)

lemma best_index_max:
  "i \<in> set feasible \<Longrightarrow> \<not> ahead (results ! i) (results ! best_index results feasible)"
  using foldl_better [of results "hd feasible" "tl feasible"]
  by (cases feasible) (auto simp: best_index_def)

lemma best_index_total:
  "i \<in> set feasible \<Longrightarrow> resTotal (results ! i) \<le> resTotal (results ! best_index results feasible)"
  using best_index_max [of i feasible results] by (auto simp: ahead_def)

lemma best_in_tied:
  "feasible \<noteq> [] \<Longrightarrow> best_index results feasible \<in> set (tied_indices results feasible (best_index results feasible))"
  using best_index_in by (auto simp: tied_indices_def)

lemma two_of_distinct: "distinct xs \<Longrightarrow> length xs \<noteq> 1 \<Longrightarrow> xs \<noteq> [] \<Longrightarrow> 2 \<le> length xs"
  by (cases xs rule: remdups_adj.cases) auto

lemma intn_less: "0 < n \<Longrightarrow> intn rnd k n < n"
  by (simp add: intn_def)

text \<open>The two samples are different members of the tie, and every pair can be drawn.\<close>

lemma sample_two_distinct:
  assumes "distinct tied" and "2 \<le> length tied"
  shows "(case sample_two rnd tied of (a, b, k, how) \<Rightarrow> a \<in> set tied \<and> b \<in> set tied \<and> a \<noteq> b)"
proof (cases "2 < length tied")
  case True
  define i where "i = intn rnd 0 (length tied)"
  define j where "j = intn rnd 1 (length tied - 1)"
  have "i < length tied" "j < length tied - 1"
    using True unfolding i_def j_def by (intro intn_less; linarith)+
  then have "i < length tied" "(if i \<le> j then j + 1 else j) < length tied" "i \<noteq> (if i \<le> j then j + 1 else j)"
    by (auto split: if_splits)
  moreover have "sample_two rnd tied
      = (tied ! i, tied ! (if i \<le> j then j + 1 else j), 2, ''sampled 2 of '' @ dec_nat (length tied))"
    using True unfolding sample_two_def i_def j_def by (simp only: if_True Let_def)
  ultimately show ?thesis
    using assms(1) by (simp only: prod.case nth_mem nth_eq_iff_index_eq) simp
next
  case False
  with assms have "length tied = 2" by simp
  with assms(1) False show ?thesis
    by (auto simp: sample_two_def nth_eq_iff_index_eq)
qed

lemma sample_two_any:
  assumes "2 < length tied" and "i < length tied" and "j < length tied" and "i \<noteq> j"
  shows "\<exists>x y. \<forall>z. (case sample_two (\<lambda>k. if k = 0 then x else if k = 1 then y else z) tied of
    (a, b, k, how) \<Rightarrow> a = tied ! i \<and> b = tied ! j \<and> k = 2)"
proof (intro exI allI)
  fix z
  define y where "y = (if j < i then j else j - 1)"
  have "y < length tied - 1" and "(if i \<le> y then y + 1 else y) = j"
    using assms by (auto simp: y_def)
  then show "(case sample_two (\<lambda>k. if k = 0 then i else if k = 1 then (if j < i then j else j - 1) else z) tied of
    (a, b, k, how) \<Rightarrow> a = tied ! i \<and> b = tied ! j \<and> k = 2)"
    using assms mod_less [of i "length tied"] mod_less [of y "length tied - 1"]
    unfolding sample_two_def intn_def Let_def y_def [symmetric] by (simp split: if_splits)
qed

text \<open>The outcome of \<open>pick\<close> in its three cases.\<close>

definition cold_tie :: "candidate list \<Rightarrow> nat list \<Rightarrow> bool" where
  "cold_tie candidates tied \<longleftrightarrow> (\<forall>i \<in> set tied. cWarmCapacity (candidates ! i) \<le> 0)"

lemma pick_not_cold:
  assumes "length (tied_indices results feasible (best_index results feasible)) = 1 \<or>
    \<not> cold_tie candidates (tied_indices results feasible (best_index results feasible))"
  shows "fst (pick rnd results feasible candidates) = best_index results feasible"
    and "pick rnd results feasible candidates = pick rnd' results feasible candidates"
  using assms unfolding pick_def Let_def cold_tie_def by auto

lemma pick_cold:
  assumes "length (tied_indices results feasible (best_index results feasible)) \<noteq> 1"
    and "cold_tie candidates (tied_indices results feasible (best_index results feasible))"
    and "sample_two rnd (tied_indices results feasible (best_index results feasible)) = (a, b, k, how)"
  shows "fst (pick rnd results feasible candidates) =
    (if cInFlightCold (candidates ! b) < cInFlightCold (candidates ! a) \<or>
        (cInFlightCold (candidates ! a) = cInFlightCold (candidates ! b) \<and> intn rnd k 2 = 1)
     then b else a)"
  using assms unfolding pick_def Let_def cold_tie_def by simp

lemma pick_in_tied:
  assumes "feasible \<noteq> []" and "distinct feasible"
  shows "fst (pick rnd results feasible candidates)
    \<in> set (tied_indices results feasible (best_index results feasible))"
    (is "_ \<in> set ?tied")
proof (cases "length ?tied = 1 \<or> \<not> cold_tie candidates ?tied")
  case True
  then show ?thesis using best_in_tied [OF assms(1), of results] by (simp add: pick_not_cold)
next
  case False
  have "distinct ?tied" using assms(2) by (simp add: tied_indices_def)
  moreover have "?tied \<noteq> []" using best_in_tied [OF assms(1), of results] by auto
  ultimately have two: "2 \<le> length ?tied" using False two_of_distinct by blast
  obtain a b k how where s: "sample_two rnd ?tied = (a, b, k, how)"
    by (metis prod_cases4)
  with sample_two_distinct [OF \<open>distinct ?tied\<close> two, of rnd] False show ?thesis
    by (simp add: pick_cold [OF _ _ s])
qed


section \<open>What a decision promises\<close>

text \<open>
  The abstract contract: the candidates that pass every filter, and among them those of maximal
  total. \<open>Schedule\<close> works on indices into the list of results; \<open>top_candidates\<close> does not.
\<close>

definition passes :: "profile \<Rightarrow> sched_request \<Rightarrow> candidate \<Rightarrow> bool" where
  "passes p req c \<longleftrightarrow> (\<forall>f \<in> set (pFilters p). fst (fFilter f req c))"

definition total_of :: "profile \<Rightarrow> sched_request \<Rightarrow> candidate \<Rightarrow> int" where
  "total_of p req c = resTotal (evaluate p req c)"

definition top_candidates :: "profile \<Rightarrow> sched_request \<Rightarrow> candidate list \<Rightarrow> candidate list" where
  "top_candidates p req cs =
     filter (\<lambda>c. passes p req c \<and> (\<forall>c' \<in> set cs. passes p req c' \<longrightarrow> total_of p req c' \<le> total_of p req c)) cs"

abbreviation results_of :: "profile \<Rightarrow> sched_request \<Rightarrow> candidate list \<Rightarrow> candidate_result list" where
  "results_of p req cs \<equiv> map (evaluate p req) cs"

abbreviation winners :: "profile \<Rightarrow> sched_request \<Rightarrow> candidate list \<Rightarrow> nat list" where
  "winners p req cs \<equiv> tied_indices (results_of p req cs) (feasible_indices (results_of p req cs))
     (best_index (results_of p req cs) (feasible_indices (results_of p req cs)))"

lemma filtered_iff: "resFiltered (evaluate p req c) \<longleftrightarrow> \<not> passes p req c"
  using evaluate_passes [of p req c] unfolding passes_def by blast

lemma feasible_set:
  "set (feasible_indices (results_of p req cs)) = {i. i < length cs \<and> passes p req (cs ! i)}"
  by (auto simp: feasible_indices_def filtered_iff)

lemma feasible_distinct: "distinct (feasible_indices rs)"
  by (simp add: feasible_indices_def)

lemma feasible_empty:
  "feasible_indices (results_of p req cs) = [] \<longleftrightarrow> (\<forall>c \<in> set cs. \<not> passes p req c)"
proof -
  have "feasible_indices (results_of p req cs) = [] \<longleftrightarrow> set (feasible_indices (results_of p req cs)) = {}"
    by simp
  then show ?thesis unfolding feasible_set by (simp add: all_set_conv_all_nth)
qed

lemma filter_nth: "map ((!) xs) (filter (\<lambda>i. P (xs ! i)) [0..<length xs]) = filter P xs"
proof -
  have "filter P xs = filter P (map ((!) xs) [0..<length xs])" by (simp add: map_nth)
  also have "\<dots> = map ((!) xs) (filter (P \<circ> (!) xs) [0..<length xs])" by (rule filter_map)
  finally show ?thesis by (simp add: o_def)
qed

lemma winners_set:
  assumes "\<exists>c \<in> set cs. passes p req c"
  shows "set (winners p req cs) = {i. i < length cs \<and> passes p req (cs ! i) \<and>
    (\<forall>c' \<in> set cs. passes p req c' \<longrightarrow> total_of p req c' \<le> total_of p req (cs ! i))}"
proof -
  let ?f = "feasible_indices (results_of p req cs)"
  let ?b = "best_index (results_of p req cs) ?f"
  have ne: "?f \<noteq> []" using assms by (simp add: feasible_empty)
  then have b: "?b < length cs" "passes p req (cs ! ?b)"
    using best_index_in [OF ne] feasible_set by blast+
  have "total_of p req c' \<le> total_of p req (cs ! ?b)" if c: "c' \<in> set cs" "passes p req c'" for c'
  proof -
    obtain j where j: "j < length cs" "cs ! j = c'" using c(1) by (metis in_set_conv_nth)
    with c(2) have "j \<in> set ?f" by (simp add: feasible_set)
    then have "resTotal (results_of p req cs ! j) \<le> resTotal (results_of p req cs ! ?b)"
      by (rule best_index_total)
    with j b(1) show ?thesis unfolding total_of_def by (simp only: nth_map)
  qed
  note max = this
  have "i \<in> set (winners p req cs) \<longleftrightarrow> i < length cs \<and> passes p req (cs ! i) \<and>
      total_of p req (cs ! i) = total_of p req (cs ! ?b)" for i
  proof (cases "i < length cs")
    case True
    show ?thesis unfolding tied_indices_def set_filter feasible_set total_of_def mem_Collect_eq
        nth_map [OF True] nth_map [OF b(1)] by blast
  next
    case False
    then show ?thesis unfolding tied_indices_def set_filter feasible_set mem_Collect_eq by blast
  qed
  moreover have "total_of p req (cs ! i) = total_of p req (cs ! ?b) \<longleftrightarrow>
      (\<forall>c' \<in> set cs. passes p req c' \<longrightarrow> total_of p req c' \<le> total_of p req (cs ! i))"
    if "i < length cs" "passes p req (cs ! i)" for i
    using max [OF nth_mem [OF that(1)] that(2)] max b nth_mem [OF b(1)] by (metis order_antisym)
  ultimately show ?thesis by blast
qed

lemma winners_map:
  assumes "\<exists>c \<in> set cs. passes p req c"
  shows "map ((!) cs) (winners p req cs) = top_candidates p req cs"
proof -
  have "winners p req cs = filter (\<lambda>i. i \<in> set (winners p req cs)) [0..<length cs]"
    unfolding tied_indices_def feasible_indices_def filter_filter by (rule filter_cong) auto
  also have "\<dots> = filter (\<lambda>i. passes p req (cs ! i) \<and>
      (\<forall>c' \<in> set cs. passes p req c' \<longrightarrow> total_of p req c' \<le> total_of p req (cs ! i))) [0..<length cs]"
    unfolding winners_set [OF assms] by (rule filter_cong) auto
  finally have w: "winners p req cs = filter (\<lambda>i. passes p req (cs ! i) \<and>
      (\<forall>c' \<in> set cs. passes p req c' \<longrightarrow> total_of p req c' \<le> total_of p req (cs ! i))) [0..<length cs]" .
  show ?thesis unfolding w top_candidates_def by (rule filter_nth)
qed

lemma Schedule_Inr:
  assumes "Schedule rnd p req cs = Inr d"
  obtains i where "i \<in> set (winners p req cs)" and "\<exists>c \<in> set cs. passes p req c"
    and "i = fst (pick rnd (results_of p req cs) (feasible_indices (results_of p req cs)) cs)"
    and "dProvider d = cProvider (cs ! i)" and "dScore d = total_of p req (cs ! i)"
    and "dResults d = stable_sort (result_less (dProvider d)) (results_of p req cs)"
    and "i < length cs" and "cs ! i \<in> set (top_candidates p req cs)"
proof -
  let ?rs = "results_of p req cs"
  let ?f = "feasible_indices ?rs"
  have ne: "?f \<noteq> []" using assms by (auto simp: Schedule_def Let_def split: if_splits)
  then have ex: "\<exists>c \<in> set cs. passes p req c" by (simp add: feasible_empty)
  obtain i why where pick: "pick rnd ?rs ?f cs = (i, why)" by fastforce
  have i: "i \<in> set (winners p req cs)"
    using pick_in_tied [OF ne feasible_distinct, of rnd ?rs cs] pick by simp
  then have "i < length cs" "cs ! i \<in> set (top_candidates p req cs)"
    using winners_set [OF ex] by (auto simp: top_candidates_def)
  moreover have "dProvider d = cProvider (cs ! i) \<and> dScore d = total_of p req (cs ! i) \<and>
      dResults d = stable_sort (result_less (dProvider d)) ?rs"
    using assms ne \<open>i < length cs\<close> unfolding Schedule_def Let_def pick by (auto simp: total_of_def)
  moreover have "i = fst (pick rnd ?rs ?f cs)" by (simp only: pick fst_conv)
  ultimately show ?thesis by (intro that [of i] i ex) simp_all
qed

lemma Schedule_Inl: "Schedule rnd p req cs = Inl rs \<longleftrightarrow> rs = results_of p req cs \<and> (\<forall>c \<in> set cs. \<not> passes p req c)"
proof (cases "feasible_indices (results_of p req cs) = []")
  case True
  then show ?thesis using feasible_empty [of p req cs] by (auto simp: Schedule_def)
next
  case False
  then have "\<not> (\<forall>c \<in> set cs. \<not> passes p req c)" using feasible_empty by blast
  with False show ?thesis by (simp add: Schedule_def Let_def split: prod.split)
qed


lemma run_filters_first:
  "run_filters fs req c = Some r \<Longrightarrow> \<exists>pre f post. fs = pre @ f # post \<and>
     (\<forall>g \<in> set pre. fst (fFilter g req c)) \<and> \<not> fst (fFilter f req c) \<and>
     r = fName f @ '': '' @ (if snd (fFilter f req c) = [] then ''rejected by '' @ fName f else snd (fFilter f req c))"
proof (induction fs)
  case Nil
  then show ?case by simp
next
  case (Cons f fs)
  show ?case
  proof (cases "fst (fFilter f req c)")
    case True
    with Cons.prems have "run_filters fs req c = Some r" by (simp split: prod.splits)
    with Cons.IH obtain pre g post where "fs = pre @ g # post" "\<forall>g \<in> set pre. fst (fFilter g req c)"
      "\<not> fst (fFilter g req c)"
      "r = fName g @ '': '' @ (if snd (fFilter g req c) = [] then ''rejected by '' @ fName g else snd (fFilter g req c))"
      by blast
    with True show ?thesis by (intro exI [of _ "f # pre"] exI [of _ g] exI [of _ post]) simp
  next
    case False
    with Cons.prems show ?thesis
      by (intro exI [of _ "[]"] exI [of _ f] exI [of _ fs]) (auto split: prod.splits)
  qed
qed

lemma total_of_sane: "sane_weights (pScorers p) \<Longrightarrow> passes p req c \<Longrightarrow> total_of p req c = weighted_sum (pScorers p) req c"
  by (simp add: total_of_def evaluate_total filtered_iff)

lemma top_candidatesD:
  assumes "c \<in> set (top_candidates p req cs)"
  shows "c \<in> set cs" and "passes p req c"
    and "\<And>c'. c' \<in> set cs \<Longrightarrow> passes p req c' \<Longrightarrow> total_of p req c' \<le> total_of p req c"
  using assms by (auto simp: top_candidates_def)

lemma pick_best_least:
  assumes ne: "feasible_indices (results_of p req cs) \<noteq> []" and c: "c \<in> set (top_candidates p req cs)"
  shows "cProvider (cs ! best_index (results_of p req cs) (feasible_indices (results_of p req cs))) \<le> cProvider c"
proof -
  let ?rs = "results_of p req cs"
  let ?f = "feasible_indices ?rs"
  let ?b = "best_index ?rs ?f"
  have "?b \<in> set ?f" by (rule best_index_in [OF ne])
  then have b: "?b < length cs" "passes p req (cs ! ?b)" unfolding feasible_set by simp_all
  obtain j where j: "j < length cs" "cs ! j = c" using top_candidatesD(1) [OF c] by (metis in_set_conv_nth)
  then have "j \<in> set ?f" using top_candidatesD(2) [OF c] by (simp add: feasible_set)
  then have "\<not> ahead (?rs ! j) (?rs ! ?b)" by (rule best_index_max)
  then have "\<not> ahead (evaluate p req c) (evaluate p req (cs ! ?b))"
    unfolding nth_map [OF j(1)] nth_map [OF b(1)] j(2) .
  moreover have "total_of p req (cs ! ?b) \<le> total_of p req c"
    using top_candidatesD(3) [OF c nth_mem [OF b(1)] b(2)] .
  ultimately show ?thesis by (simp add: ahead_def total_of_def not_less)
qed

lemma winners_warm:
  assumes "c \<in> set (top_candidates p req cs)" and "0 < cWarmCapacity c"
  shows "\<not> cold_tie cs (winners p req cs)"
proof -
  have ex: "\<exists>c \<in> set cs. passes p req c" using top_candidatesD(1,2) [OF assms(1)] by blast
  have "c \<in> (!) cs ` set (winners p req cs)"
    using assms(1) by (simp only: winners_map [OF ex, symmetric] set_map)
  then obtain i where "i \<in> set (winners p req cs)" "c = cs ! i" by blast
  then show ?thesis using assms(2) unfolding cold_tie_def by force
qed

lemma ne_top: "c \<in> set (top_candidates p req cs) \<Longrightarrow> feasible_indices (results_of p req cs) \<noteq> []"
  using top_candidatesD(1,2) feasible_empty by blast

text \<open>The two candidates compared in a cold tie.\<close>

lemma winners_facts:
  assumes "\<exists>c \<in> set cs. passes p req c"
  shows "set (winners p req cs) \<subseteq> {..<length cs}" and "distinct (winners p req cs)"
    and "(!) cs ` set (winners p req cs) = set (top_candidates p req cs)"
    and "length (winners p req cs) = length (top_candidates p req cs)"
proof -
  show "set (winners p req cs) \<subseteq> {..<length cs}" using winners_set [OF assms] by auto
  show "distinct (winners p req cs)" by (simp add: tied_indices_def feasible_distinct)
  show "(!) cs ` set (winners p req cs) = set (top_candidates p req cs)"
    unfolding winners_map [OF assms, symmetric] by simp
  show "length (winners p req cs) = length (top_candidates p req cs)"
    unfolding winners_map [OF assms, symmetric] by simp
qed

lemma cold_pick_light:
  assumes ex: "\<exists>c \<in> set cs. passes p req c" and dist: "distinct cs"
    and cold: "cold_tie cs (winners p req cs)" and two: "2 \<le> length (winners p req cs)"
  shows "\<exists>y \<in> set (top_candidates p req cs).
    y \<noteq> cs ! fst (pick rnd (results_of p req cs) (feasible_indices (results_of p req cs)) cs) \<and>
    cInFlightCold (cs ! fst (pick rnd (results_of p req cs) (feasible_indices (results_of p req cs)) cs))
      \<le> cInFlightCold y"
proof -
  obtain a b k how where s: "sample_two rnd (winners p req cs) = (a, b, k, how)" by (metis prod_cases4)
  then have ab: "a \<in> set (winners p req cs)" "b \<in> set (winners p req cs)" "a \<noteq> b"
    using sample_two_distinct [OF winners_facts(2) [OF ex] two, of rnd] by simp_all
  then have "a < length cs" "b < length cs" using winners_facts(1) [OF ex] by auto
  then have "cs ! a \<noteq> cs ! b" using dist ab(3) by (simp add: nth_eq_iff_index_eq)
  moreover have "cs ! a \<in> set (top_candidates p req cs)" "cs ! b \<in> set (top_candidates p req cs)"
    using ab winners_facts(3) [OF ex] by auto
  moreover define w where "w = fst (pick rnd (results_of p req cs) (feasible_indices (results_of p req cs)) cs)"
  moreover have "length (winners p req cs) \<noteq> 1" using two by linarith
  from pick_cold [OF this cold s]
  have "w = b \<and> cInFlightCold (cs ! b) \<le> cInFlightCold (cs ! a) \<or>
      w = a \<and> cInFlightCold (cs ! a) \<le> cInFlightCold (cs ! b)"
    unfolding w_def by (auto split: if_splits)
  ultimately show ?thesis unfolding w_def [symmetric] by metis
qed

lemma cold_pick_any:
  assumes cold: "cold_tie cs (tied_indices rs feasible (best_index rs feasible))"
    and dist: "distinct (tied_indices rs feasible (best_index rs feasible))"
    and i: "i \<in> set (tied_indices rs feasible (best_index rs feasible))"
    and j: "j \<in> set (tied_indices rs feasible (best_index rs feasible))" and ne: "i \<noteq> j"
    and le: "cInFlightCold (cs ! i) \<le> cInFlightCold (cs ! j)"
  shows "\<exists>rnd. fst (pick rnd rs feasible cs) = i"
proof -
  let ?t = "tied_indices rs feasible (best_index rs feasible)"
  obtain k l where k: "k < length ?t" "?t ! k = i" and l: "l < length ?t" "?t ! l = j"
    using i j by (metis in_set_conv_nth)
  have kl: "k \<noteq> l" using ne k l by blast
  then have n1: "length ?t \<noteq> 1" using k l by auto
  show ?thesis
  proof (cases "2 < length ?t")
    case True
    obtain x y where xy: "\<And>z. case sample_two (\<lambda>k. if k = 0 then x else if k = 1 then y else z) ?t of
      (a, b, k', how) \<Rightarrow> a = ?t ! k \<and> b = ?t ! l \<and> k' = 2"
      using sample_two_any [OF True k(1) l(1) kl] by blast
    let ?r = "\<lambda>k. if k = 0 then x else if k = 1 then y else (0 :: nat)"
    obtain how where "sample_two ?r ?t = (i, j, 2, how)"
      using xy [of 0] k(2) l(2) by (auto split: prod.splits)
    from pick_cold [OF n1 cold this] le have "fst (pick ?r rs feasible cs) = i" by (simp add: intn_def)
    then show ?thesis by blast
  next
    case False
    then have len: "length ?t = 2" using k(1) l(1) kl by linarith
    then have s: "sample_two r ?t = (?t ! 0, ?t ! 1, 0, ''compared both'')" for r
      by (simp add: sample_two_def)
    have "fst (pick (\<lambda>_. k) rs feasible cs) = i"
    proof (cases "k = 0")
      case True
      then have "?t ! 0 = i" "?t ! 1 = j" using k(2) l kl len by (auto simp: less_2_cases_iff)
      then show ?thesis using pick_cold [OF n1 cold s] le True by (simp add: intn_def)
    next
      case False
      then have "k = 1" "?t ! 1 = i" "?t ! 0 = j" using k l kl len by (auto simp: less_2_cases_iff)
      then show ?thesis using pick_cold [OF n1 cold s] le by (simp add: intn_def)
    qed
    then show ?thesis by blast
  qed
qed

section \<open>A concrete profile for the witnesses\<close>

definition ex_candidate :: "string \<Rightarrow> int \<Rightarrow> int \<Rightarrow> candidate" where
  "ex_candidate name warm cold = \<lparr>cProvider = name, cReachable = True, cWarmCapacity = warm, cElastic = False,
     cElasticWarmScore = 0, cInFlightCold = cold, cAttributes = [], cTemplates = [], cCostPerHour = 0\<rparr>"

definition ex_request :: sched_request where
  "ex_request = \<lparr>rqName = ''s'', rqTemplate = [], rqWarmOnly = False, rqRequires = [], rqPreferProvider = []\<rparr>"

definition ex_profile :: profile where
  "ex_profile = \<lparr>pName = ''p'', pFilters = [\<lparr>fName = ''f'', fFilter = \<lambda>req c. (cReachable c, [])\<rparr>],
     pScorers = [\<lparr>wsScorer = \<lparr>sName = ''w'', sScore = \<lambda>req c. cWarmCapacity c\<rparr>, wsWeight = 2\<rparr>]\<rparr>"

lemma ex_passes [simp]: "passes ex_profile req (ex_candidate n w k)"
  by (simp add: passes_def ex_profile_def ex_candidate_def)

lemma ex_candidate_sel [simp]:
  "cProvider (ex_candidate n w k) = n" "cWarmCapacity (ex_candidate n w k) = w" "cInFlightCold (ex_candidate n w k) = k"
  by (simp_all add: ex_candidate_def)

lemma ex_sane: "sane_weights (pScorers ex_profile)"
  by (simp add: sane_weights_def ex_profile_def MaxScore_def)

lemma ex_total [simp]: "total_of ex_profile req (ex_candidate n w k) = 2 * clamp_score w"
  using total_of_sane [OF ex_sane ex_passes, of req n w k] by (simp add: weighted_sum_def ex_profile_def)

lemma ex_schedule: "\<exists>d. Schedule rnd ex_profile req (ex_candidate n w k # cs) = Inr d"
proof (cases "Schedule rnd ex_profile req (ex_candidate n w k # cs)")
  case (Inl rs)
  then show ?thesis by (simp add: Schedule_Inl)
qed blast

section \<open>Properties of a decision\<close>

text \<open>C6: With weights that are not negative and do not overflow, the provider a decision names
  passed every filter, its score is the weighted sum of its clamped raw scores, lies between 0 and
  100 times the sum of the weights, and no candidate that passes every filter scores higher.\<close>

theorem Schedule_best:
  assumes "sane_weights (pScorers p)" and "Schedule rnd p req cs = Inr d"
  shows "\<exists>c \<in> set cs. dProvider d = cProvider c \<and> passes p req c \<and>
    dScore d = weighted_sum (pScorers p) req c \<and>
    0 \<le> dScore d \<and> dScore d \<le> 100 * sum_list (map wsWeight (pScorers p)) \<and>
    (\<forall>c' \<in> set cs. passes p req c' \<longrightarrow> weighted_sum (pScorers p) req c' \<le> dScore d)"
proof -
  from assms(2) obtain i where p: "dProvider d = cProvider (cs ! i)" and s: "dScore d = total_of p req (cs ! i)"
    and t: "cs ! i \<in> set (top_candidates p req cs)" by (rule Schedule_Inr)
  note c = top_candidatesD [OF t]
  have eq: "dScore d = weighted_sum (pScorers p) req (cs ! i)"
    using s total_of_sane [OF assms(1) c(2)] by simp
  moreover have "\<forall>c' \<in> set cs. passes p req c' \<longrightarrow> weighted_sum (pScorers p) req c' \<le> dScore d"
    using c(3) total_of_sane [OF assms(1)] s by metis
  ultimately show ?thesis
    using p c(1,2) weighted_sum_bounds [of "pScorers p" req "cs ! i"] assms(1)
    by (intro bexI [of _ "cs ! i"]) (simp_all add: sane_weights_def MaxScore_def)
qed

theorem Schedule_best_witness:
  "\<exists>d. Schedule (\<lambda>_. 0) ex_profile ex_request [ex_candidate ''b'' 3 0, ex_candidate ''a'' 1 0] = Inr d \<and>
     dScore d = 6"
proof -
  let ?cs = "[ex_candidate ''b'' 3 0, ex_candidate ''a'' 1 0]"
  obtain d where d: "Schedule (\<lambda>_. 0) ex_profile ex_request ?cs = Inr d" using ex_schedule by blast
  have w: "weighted_sum (pScorers ex_profile) ex_request (ex_candidate n w 0) = 2 * clamp_score w" for n w
    by (simp add: weighted_sum_def ex_profile_def)
  from Schedule_best [OF ex_sane d] have "dScore d = 6" by (auto simp: w clamp_score_def MaxScore_def)
  with d show ?thesis by blast
qed

text \<open>Scheduling fails exactly when every candidate is rejected by some filter; the error then
  carries one result per candidate, in order, whose reason names the first filter that rejected it.\<close>

theorem Schedule_error:
  "case Schedule rnd p req cs of
     Inr d \<Rightarrow> list_ex (passes p req) cs
   | Inl rs \<Rightarrow> list_all2 (\<lambda>c r. resProvider r = cProvider c \<and> resFiltered r \<and> resDetails r = [] \<and>
       (\<exists>pre f post reason. pFilters p = pre @ f # post \<and> list_all (\<lambda>g. fst (fFilter g req c)) pre \<and>
          fFilter f req c = (False, reason) \<and>
          resReason r = fName f @ '': '' @ (if reason = [] then ''rejected by '' @ fName f else reason))) cs rs"
proof (cases "Schedule rnd p req cs")
  case (Inl rs)
  then have rs: "rs = results_of p req cs" and none: "\<forall>c \<in> set cs. \<not> passes p req c"
    by (simp_all add: Schedule_Inl)
  have "\<exists>pre f post reason. pFilters p = pre @ f # post \<and> list_all (\<lambda>g. fst (fFilter g req c)) pre \<and>
      fFilter f req c = (False, reason) \<and>
      resReason (evaluate p req c) = fName f @ '': '' @ (if reason = [] then ''rejected by '' @ fName f else reason)"
    and "resDetails (evaluate p req c) = []"
    if "c \<in> set cs" for c
  proof -
    from none that obtain r where r: "run_filters (pFilters p) req c = Some r"
      using filtered_iff [of p req c] evaluate_filtered [of p req c] by auto
    then show "resDetails (evaluate p req c) = []" by (simp add: evaluate_def)
    from run_filters_first [OF r] obtain pre f post where f: "pFilters p = pre @ f # post"
      "\<forall>g \<in> set pre. fst (fFilter g req c)" "\<not> fst (fFilter f req c)"
      "r = fName f @ '': '' @ (if snd (fFilter f req c) = [] then ''rejected by '' @ fName f else snd (fFilter f req c))"
      by blast
    have "resReason (evaluate p req c) = r" using r by (simp add: evaluate_def)
    with f show "\<exists>pre f post reason. pFilters p = pre @ f # post \<and> list_all (\<lambda>g. fst (fFilter g req c)) pre \<and>
      fFilter f req c = (False, reason) \<and>
      resReason (evaluate p req c) = fName f @ '': '' @ (if reason = [] then ''rejected by '' @ fName f else reason)"
      by (intro exI [of _ pre] exI [of _ f] exI [of _ post] exI [of _ "snd (fFilter f req c)"])
        (simp add: list_all_iff prod_eq_iff)
  qed
  then show ?thesis unfolding Inl rs by (simp add: list_all2_conv_all_nth filtered_iff none)
next
  case (Inr d)
  then obtain c where "c \<in> set cs" "passes p req c" by (rule Schedule_Inr) blast
  then show ?thesis by (auto simp: Inr list_ex_iff)
qed

text \<open>The results of a decision are the evaluations of all candidates, none lost or duplicated;
  the first is the winner's, and they are ordered: unfiltered before filtered, then by falling total,
  equal totals by name except that the winner leads.\<close>

theorem Schedule_results:
  assumes "Schedule rnd p req cs = Inr d"
  shows "mset (dResults d) = mset (map (evaluate p req) cs) \<and>
    sorted_wrt (\<lambda>x y. \<not> result_less (dProvider d) y x) (dResults d) \<and>
    (\<exists>r rest. dResults d = r # rest \<and> resProvider r = dProvider d \<and> \<not> resFiltered r \<and> resTotal r = dScore d)"
proof -
  from assms obtain i where p: "dProvider d = cProvider (cs ! i)" and s: "dScore d = total_of p req (cs ! i)"
    and t: "cs ! i \<in> set (top_candidates p req cs)"
    and rs: "dResults d = stable_sort (result_less (dProvider d)) (results_of p req cs)" by (rule Schedule_Inr)
  note c = top_candidatesD [OF t]
  have sorted: "sorted_wrt (\<lambda>x y. \<not> result_less (dProvider d) y x) (dResults d)"
    unfolding rs by (rule result_order.sorted_stable_sort)
  have "set (dResults d) = set (results_of p req cs)" unfolding rs by simp
  with c(1) have w: "evaluate p req (cs ! i) \<in> set (dResults d)" by simp
  then obtain r rest where r: "dResults d = r # rest" by (cases "dResults d") auto
  with \<open>set (dResults d) = _\<close> obtain c' where c': "c' \<in> set cs" "r = evaluate p req c'" by auto
  have least: "\<not> result_less (dProvider d) (evaluate p req (cs ! i)) r"
    using w sorted r result_order.lt_asym by auto
  have wf: "\<not> resFiltered (evaluate p req (cs ! i))" using c(2) by (simp add: filtered_iff)
  then have rf: "\<not> resFiltered r" using least by (auto simp: result_less_def)
  then have "resTotal r \<le> dScore d" using c(3) [OF c'(1)] c'(2) s by (simp add: filtered_iff total_of_def)
  with least wf rf s p have "resTotal r = dScore d" "resProvider r = dProvider d"
    by (auto simp: result_less_def total_of_def split: if_splits)
  moreover have "mset (dResults d) = mset (results_of p req cs)" unfolding rs by (rule mset_stable_sort)
  ultimately show ?thesis using sorted r rf by simp
qed

theorem Schedule_results_witness:
  "\<exists>d. Schedule (\<lambda>_. 0) ex_profile ex_request [ex_candidate ''b'' 3 0, ex_candidate ''a'' 1 0] = Inr d \<and>
     size (mset (dResults d)) = 2 \<and> resProvider (hd (dResults d)) = dProvider d"
proof -
  let ?cs = "[ex_candidate ''b'' 3 0, ex_candidate ''a'' 1 0]"
  obtain d where d: "Schedule (\<lambda>_. 0) ex_profile ex_request ?cs = Inr d" using ex_schedule by blast
  from Schedule_results [OF d] have "size (mset (dResults d)) = 2 \<and> resProvider (hd (dResults d)) = dProvider d"
    by auto
  with d show ?thesis by blast
qed

text \<open>When a candidate of maximal total has warm capacity, the decision does not depend on the
  random draws and names the alphabetically first provider of maximal total.\<close>

theorem Schedule_warm_tie:
  assumes "Schedule rnd p req cs = Inr d" and "c \<in> set (top_candidates p req cs)" and "0 < cWarmCapacity c"
  shows "Schedule rnd' p req cs = Inr d \<and> dProvider d \<in> cProvider ` set (top_candidates p req cs) \<and>
    (\<forall>c' \<in> set (top_candidates p req cs). dProvider d \<le> cProvider c')"
proof -
  let ?rs = "results_of p req cs"
  note warm = winners_warm [OF assms(2,3)]
  from assms(1) obtain i where i: "i = fst (pick rnd ?rs (feasible_indices ?rs) cs)"
    and p: "dProvider d = cProvider (cs ! i)" and t: "cs ! i \<in> set (top_candidates p req cs)"
    by (rule Schedule_Inr)
  have "i = best_index ?rs (feasible_indices ?rs)" unfolding i by (rule pick_not_cold) (use warm in simp)
  with p have "\<forall>c' \<in> set (top_candidates p req cs). dProvider d \<le> cProvider c'"
    using pick_best_least [OF ne_top] by simp
  moreover have "pick rnd' ?rs (feasible_indices ?rs) cs = pick rnd ?rs (feasible_indices ?rs) cs"
    by (rule pick_not_cold) (use warm in simp)
  then have "Schedule rnd' p req cs = Schedule rnd p req cs" unfolding Schedule_def Let_def by simp
  ultimately show ?thesis using assms(1) p t by auto
qed

theorem Schedule_warm_tie_witness:
  "\<exists>d. Schedule (\<lambda>_. 1) ex_profile ex_request [ex_candidate ''b'' 3 0, ex_candidate ''a'' 3 9] = Inr d \<and>
     dProvider d = ''a''"
proof -
  let ?cs = "[ex_candidate ''b'' 3 0, ex_candidate ''a'' 3 9]"
  obtain d where d: "Schedule (\<lambda>_. 0) ex_profile ex_request ?cs = Inr d" using ex_schedule by blast
  have top: "set (top_candidates ex_profile ex_request ?cs) = set ?cs"
    by (auto simp: top_candidates_def)
  have c: "ex_candidate ''b'' 3 0 \<in> set (top_candidates ex_profile ex_request ?cs)" unfolding top by simp
  from Schedule_warm_tie [OF d c, of "\<lambda>_. 1"] have "Schedule (\<lambda>_. 1) ex_profile ex_request ?cs = Inr d"
    and "dProvider d \<in> {''b'', ''a''}" and "dProvider d \<le> ''a''"
    unfolding top by simp_all
  moreover have "\<not> ''b'' \<le> ''a''" by simp
  ultimately show ?thesis by (cases "dProvider d = ''b''") auto
qed

text \<open>When two or more candidates tie on the maximal total and none of them is warm, a tied
  candidate can be chosen (for some random draws) exactly when another tied candidate has at least
  as many cold starts in flight: the strictly most loaded one is never chosen, every other one can be.\<close>

theorem Schedule_cold_tie:
  assumes "distinct (map cProvider cs)" and "x \<in> set (top_candidates p req cs)"
    and "2 \<le> length (top_candidates p req cs)"
    and "\<forall>c \<in> set (top_candidates p req cs). cWarmCapacity c \<le> 0"
  shows "(\<exists>rnd d. Schedule rnd p req cs = Inr d \<and> dProvider d = cProvider x) \<longleftrightarrow>
    (\<exists>y \<in> set (top_candidates p req cs). y \<noteq> x \<and> cInFlightCold x \<le> cInFlightCold y)"
proof -
  let ?rs = "results_of p req cs"
  let ?w = "\<lambda>rnd. fst (pick rnd ?rs (feasible_indices ?rs) cs)"
  have ex: "\<exists>c \<in> set cs. passes p req c" using top_candidatesD(1,2) [OF assms(2)] by blast
  note w = winners_facts [OF ex]
  have inj: "inj_on cProvider (set cs)" and dist: "distinct cs" using assms(1) by (simp_all add: distinct_map)
  have cold: "cold_tie cs (winners p req cs)" unfolding cold_tie_def using assms(4) w(3) by blast
  have two: "2 \<le> length (winners p req cs)" using assms(3) w(4) by simp
  have run: "\<exists>d. Schedule rnd p req cs = Inr d \<and> dProvider d = cProvider (cs ! ?w rnd) \<and>
    cs ! ?w rnd \<in> set (top_candidates p req cs)" for rnd
  proof (cases "Schedule rnd p req cs")
    case (Inl rs)
    then show ?thesis using ex by (simp add: Schedule_Inl)
  next
    case (Inr d)
    then obtain i where "i = ?w rnd" "dProvider d = cProvider (cs ! i)" "cs ! i \<in> set (top_candidates p req cs)"
      by (rule Schedule_Inr)
    with Inr show ?thesis by (intro exI [of _ d]) simp
  qed
  show ?thesis
  proof
    assume "\<exists>rnd d. Schedule rnd p req cs = Inr d \<and> dProvider d = cProvider x"
    then obtain rnd where "cProvider (cs ! ?w rnd) = cProvider x" "cs ! ?w rnd \<in> set (top_candidates p req cs)"
      using run by (metis sum.inject(2))
    then have "cs ! ?w rnd = x" using inj top_candidatesD(1) assms(2) by (meson inj_onD)
    with cold_pick_light [OF ex dist cold two, of rnd]
    show "\<exists>y \<in> set (top_candidates p req cs). y \<noteq> x \<and> cInFlightCold x \<le> cInFlightCold y" by simp
  next
    assume "\<exists>y \<in> set (top_candidates p req cs). y \<noteq> x \<and> cInFlightCold x \<le> cInFlightCold y"
    then obtain y where y: "y \<in> set (top_candidates p req cs)" "y \<noteq> x" "cInFlightCold x \<le> cInFlightCold y" by blast
    have "x \<in> (!) cs ` set (winners p req cs)" "y \<in> (!) cs ` set (winners p req cs)"
      using assms(2) y(1) w(3) by simp_all
    then obtain i j where ij: "i \<in> set (winners p req cs)" "x = cs ! i" "j \<in> set (winners p req cs)" "y = cs ! j"
      by (elim imageE)
    then have "i \<noteq> j" using y(2) by blast
    then obtain rnd where "?w rnd = i"
      using cold_pick_any [OF cold w(2) ij(1,3)] y(3) ij by blast
    with run [of rnd] ij(2) show "\<exists>rnd d. Schedule rnd p req cs = Inr d \<and> dProvider d = cProvider x" by metis
  qed
qed

theorem Schedule_cold_tie_witness:
  "(\<exists>rnd d. Schedule rnd ex_profile ex_request [ex_candidate ''a'' 0 7, ex_candidate ''b'' 0 2] = Inr d \<and>
     dProvider d = ''b'') \<and>
   \<not> (\<exists>rnd d. Schedule rnd ex_profile ex_request [ex_candidate ''a'' 0 7, ex_candidate ''b'' 0 2] = Inr d \<and>
     dProvider d = ''a'')"
proof -
  let ?a = "ex_candidate ''a'' 0 7" and ?b = "ex_candidate ''b'' 0 2"
  have ne: "?a \<noteq> ?b" by (simp add: ex_candidate_def)
  have top: "top_candidates ex_profile ex_request [?a, ?b] = [?a, ?b]"
    by (simp add: top_candidates_def)
  have h: "distinct (map cProvider [?a, ?b])" "2 \<le> length (top_candidates ex_profile ex_request [?a, ?b])"
    "\<forall>c \<in> set (top_candidates ex_profile ex_request [?a, ?b]). cWarmCapacity c \<le> 0"
    "?a \<in> set (top_candidates ex_profile ex_request [?a, ?b])"
    "?b \<in> set (top_candidates ex_profile ex_request [?a, ?b])"
    unfolding top by simp_all
  from Schedule_cold_tie [OF h(1) h(4) h(2,3)] Schedule_cold_tie [OF h(1) h(5) h(2,3)]
  show ?thesis unfolding top using ne by auto
qed

end
