(* ===== verification/Float64.thy ===== *)
theory Float64
  imports Prelude "HOL-Library.Log_Nat"
begin

text \<open>
  The \<open>float64\<close> arithmetic the scheduler performs on costs and on jitter fractions. A value is a
  rational; every operation is the exact one followed by \<open>fl64\<close>, the IEEE 754 rounding of
  binary64 (53 significant bits, to nearest, ties to even, gradual underflow). The program never
  comes near the overflow threshold, which is not modelled.
\<close>

definition fexp :: "rat \<Rightarrow> int" where
  "fexp x = (let (n, d) = quotient_of x;
                 k = int (floorlog 2 (nat n)) - int (floorlog 2 (nat d))
             in if (2 :: rat) powi k \<le> x then k else k - 1)"

definition round_half_even :: "rat \<Rightarrow> int" where
  "round_half_even r = (let f = \<lfloor>r\<rfloor>; d = r - of_int f in
     if d < 1 / 2 then f else if 1 / 2 < d then f + 1 else if even f then f else f + 1)"

definition fl64 :: "rat \<Rightarrow> rat" where
  "fl64 x = (if x = 0 then 0 else
     (let e = max (- 1074) (fexp \<bar>x\<bar> - 52)
      in of_int (round_half_even (x / 2 powi e)) * 2 powi e))"

definition fdiv :: "rat \<Rightarrow> rat \<Rightarrow> rat" where "fdiv x y = fl64 (x / y)"
definition fsub :: "rat \<Rightarrow> rat \<Rightarrow> rat" where "fsub x y = fl64 (x - y)"
definition fmul :: "rat \<Rightarrow> rat \<Rightarrow> rat" where "fmul x y = fl64 (x * y)"

text \<open>Conversion of a \<open>float64\<close> to an integer type truncates towards zero.\<close>

definition trunc :: "rat \<Rightarrow> int" where
  "trunc x = (if 0 \<le> x then \<lfloor>x\<rfloor> else - \<lfloor>- x\<rfloor>)"

lemma powi_pos: "0 < (2 :: rat) powi e"
  by (rule zero_less_power_int) simp

lemma powi_mono: "m \<le> n \<Longrightarrow> (2 :: rat) powi m \<le> 2 powi n"
  by (rule power_int_increasing) simp_all

lemma powi_add: "(2 :: rat) powi (m + n) = 2 powi m * 2 powi n"
  by (rule power_int_add) simp

lemma floorlog_powi:
  assumes "0 < n"
  shows "(2 :: rat) powi (int (floorlog 2 (nat n)) - 1) \<le> of_int n"
    and "of_int n < (2 :: rat) powi (int (floorlog 2 (nat n)))"
proof -
  let ?l = "floorlog 2 (nat n)"
  have b: "2 ^ (?l - 1) \<le> nat n" "nat n < 2 ^ ?l"
    using floorlog_bounds [of "nat n" 2] assms by auto
  have pos: "0 < ?l" using assms by (simp add: floorlog_def)
  have "(2 :: rat) powi (int ?l - 1) = of_nat (2 ^ (?l - 1))"
    using pos by (simp add: power_int_def nat_diff_distrib)
  also have "\<dots> \<le> of_nat (nat n)" using b(1) of_nat_mono by blast
  finally show "(2 :: rat) powi (int ?l - 1) \<le> of_int n" using assms by simp
  have "of_nat (nat n) < (of_nat (2 ^ ?l) :: rat)" using b(2) of_nat_less_iff by blast
  then show "of_int n < (2 :: rat) powi (int ?l)" using assms by (simp add: power_int_def)
qed

lemma fexp_bounds:
  assumes "0 < x"
  shows "(2 :: rat) powi fexp x \<le> x" and "x < 2 powi (fexp x + 1)"
proof -
  obtain n d where q: "quotient_of x = (n, d)" by (cases "quotient_of x")
  have d: "0 < d" by (rule quotient_of_denom_pos [OF q])
  have x: "x = of_int n / of_int d" by (rule quotient_of_div [OF q])
  have n: "0 < n" using assms d x by (simp add: zero_less_divide_iff)
  let ?a = "int (floorlog 2 (nat n))" and ?b = "int (floorlog 2 (nat d))"
  note N = floorlog_powi [OF n] and D = floorlog_powi [OF d]
  have dpos: "(0 :: rat) < of_int d" using d by simp
  have "(2 :: rat) powi (?a - ?b - 1) * of_int d \<le> 2 powi (?a - ?b - 1) * 2 powi ?b"
    using D(2) powi_pos [of "?a - ?b - 1"] by (intro mult_left_mono) auto
  also have "\<dots> = 2 powi (?a - ?b - 1 + ?b)" by (simp only: powi_add)
  also have "?a - ?b - 1 + ?b = ?a - 1" by simp
  also have "(2 :: rat) powi (?a - 1) \<le> of_int n" by (rule N(1))
  finally have lo: "(2 :: rat) powi (?a - ?b - 1) \<le> x"
    using dpos by (simp add: x pos_le_divide_eq)
  have "?a - ?b + 1 + (?b - 1) = ?a" by simp
  then have "of_int n < (2 :: rat) powi (?a - ?b + 1) * 2 powi (?b - 1)"
    using N(2) by (simp only: flip: powi_add)
  also have "\<dots> \<le> 2 powi (?a - ?b + 1) * of_int d"
    using D(1) powi_pos [of "?a - ?b + 1"] by (intro mult_left_mono) auto
  finally have hi: "x < (2 :: rat) powi (?a - ?b + 1)"
    using dpos by (simp add: x pos_divide_less_eq)
  show "(2 :: rat) powi fexp x \<le> x" and "x < 2 powi (fexp x + 1)"
    using lo hi by (auto simp: fexp_def q not_le Let_def)
qed

lemma fexp_mono:
  assumes "0 < x" and "x \<le> y"
  shows "fexp x \<le> fexp y"
proof (rule ccontr)
  assume "\<not> fexp x \<le> fexp y"
  then have "(2 :: rat) powi (fexp y + 1) \<le> 2 powi fexp x"
    by (intro powi_mono) simp
  also have "\<dots> \<le> x" by (rule fexp_bounds(1) [OF assms(1)])
  finally show False using fexp_bounds(2) [of y] assms by simp
qed

lemma rhe_of_int [simp]: "round_half_even (of_int n) = n"
  by (simp add: round_half_even_def)

lemma rhe_numeral [simp]: "round_half_even (numeral k) = numeral k"
  using rhe_of_int [of "numeral k"] by simp

lemma rhe_ge_floor: "\<lfloor>r\<rfloor> \<le> round_half_even r" and rhe_le_floor: "round_half_even r \<le> \<lfloor>r\<rfloor> + 1"
  by (auto simp: round_half_even_def Let_def)

lemma rhe_mono:
  assumes "x \<le> y"
  shows "round_half_even x \<le> round_half_even y"
proof (cases "\<lfloor>x\<rfloor> = \<lfloor>y\<rfloor>")
  case True
  with assms show ?thesis by (auto simp: round_half_even_def Let_def)
next
  case False
  with assms have "\<lfloor>x\<rfloor> + 1 \<le> \<lfloor>y\<rfloor>" by (simp add: floor_mono order_le_neq_trans zless_imp_add1_zle)
  then show ?thesis using rhe_le_floor [of x] rhe_ge_floor [of y] by linarith
qed

lemma rhe_le_int: "r \<le> of_int n \<Longrightarrow> round_half_even r \<le> n"
  using rhe_mono [of r "of_int n"] by simp

lemma rhe_ge_int: "of_int n \<le> r \<Longrightarrow> n \<le> round_half_even r"
  using rhe_mono [of "of_int n" r] by simp

lemma powi_minus: "(2 :: rat) powi (m - n) = 2 powi m / 2 powi n"
  by (rule power_int_diff) simp

lemma fl64_pos: "0 < x \<Longrightarrow>
  fl64 x = (let e = max (- 1074) (fexp x - 52) in of_int (round_half_even (x / 2 powi e)) * 2 powi e)"
  by (simp add: fl64_def)

lemma fl64_0 [simp]: "fl64 0 = 0"
  by (simp add: fl64_def)

lemma fl64_nonneg: "0 \<le> x \<Longrightarrow> 0 \<le> fl64 x"
  using rhe_ge_int [of 0] powi_pos
  by (cases "x = 0") (auto simp: fl64_pos Let_def intro!: mult_nonneg_nonneg less_imp_le)

lemma significand_bound:
  assumes "0 < x"
  shows "x / 2 powi (max (- 1074) (fexp x - 52)) \<le> of_int (2 ^ 53)"
proof -
  let ?e = "max (- 1074) (fexp x - 52)"
  have "x \<le> 2 powi (fexp x + 1)" using fexp_bounds(2) [OF assms] by simp
  also have "\<dots> \<le> 2 powi (53 + ?e)" by (rule powi_mono) simp
  also have "\<dots> = 2 ^ 53 * 2 powi ?e" by (simp only: powi_add) simp
  finally show ?thesis using powi_pos [of ?e] by (simp add: pos_divide_le_eq)
qed

text \<open>Rounding to nearest is monotone, although the spacing of the values changes with size.\<close>

lemma fl64_mono:
  assumes "0 \<le> x" and "x \<le> y"
  shows "fl64 x \<le> fl64 y"
proof (cases "x = 0")
  case True
  then show ?thesis using assms fl64_nonneg [of y] by simp
next
  case False
  with assms have x: "0 < x" and y: "0 < y" by auto
  let ?e = "max (- 1074) (fexp x - 52)" and ?f = "max (- 1074) (fexp y - 52)"
  have ef: "?e \<le> ?f" using fexp_mono [OF x assms(2)] by simp
  have fx: "fl64 x = of_int (round_half_even (x / 2 powi ?e)) * 2 powi ?e"
    and fy: "fl64 y = of_int (round_half_even (y / 2 powi ?f)) * 2 powi ?f"
    using x y by (simp_all add: fl64_pos Let_def)
  show ?thesis
  proof (cases "?e = ?f")
    case True
    have "x / 2 powi ?f \<le> y / 2 powi ?f"
      using assms(2) powi_pos [of ?f] by (simp add: divide_right_mono)
    then have "round_half_even (x / 2 powi ?f) \<le> round_half_even (y / 2 powi ?f)"
      by (rule rhe_mono)
    then show ?thesis
      unfolding fx fy True using powi_pos [of ?f] by (intro mult_right_mono) auto
  next
    case False
    with ef have lt: "?e + 1 \<le> ?f" by simp
    then have f: "?f = fexp y - 52" by simp
    have "round_half_even (x / 2 powi ?e) \<le> 2 ^ 53"
      using significand_bound [OF x] by (rule rhe_le_int)
    then have "(of_int (round_half_even (x / 2 powi ?e)) :: rat) \<le> of_int (2 ^ 53)"
      by (simp only: of_int_le_iff)
    then have "fl64 x \<le> of_int (2 ^ 53) * 2 powi ?e"
      unfolding fx using powi_pos [of ?e] by (intro mult_right_mono) auto
    also have "\<dots> = 2 ^ 52 * 2 powi (?e + 1)" by (simp only: powi_add) simp
    also have "\<dots> \<le> 2 ^ 52 * 2 powi ?f" using powi_mono [OF lt] by simp
    also have "\<dots> \<le> of_int (round_half_even (y / 2 powi ?f)) * 2 powi ?f"
    proof (rule mult_right_mono)
      have "2 ^ 52 * 2 powi ?f = (2 :: rat) powi (52 + ?f)" by (simp only: powi_add) simp
      also have "52 + ?f = fexp y" using f by simp
      also have "(2 :: rat) powi fexp y \<le> y" by (rule fexp_bounds(1) [OF y])
      finally have "of_int (2 ^ 52) \<le> y / 2 powi ?f"
        using powi_pos [of ?f] by (simp add: pos_le_divide_eq)
      then have "2 ^ 52 \<le> round_half_even (y / 2 powi ?f)" by (rule rhe_ge_int)
      then have "of_int (2 ^ 52) \<le> (of_int (round_half_even (y / 2 powi ?f)) :: rat)"
        by (simp only: of_int_le_iff)
      then show "2 ^ 52 \<le> (of_int (round_half_even (y / 2 powi ?f)) :: rat)" by simp
    qed (use powi_pos [of ?f] in simp)
    finally show ?thesis unfolding fy .
  qed
qed

lemma powi_nonpos: "e \<le> 0 \<Longrightarrow> (2 :: rat) powi e = 1 / 2 ^ nat (- e)"
  by (cases "e = 0") (auto simp: power_int_def power_one_over inverse_eq_divide)

text \<open>Integers of up to 53 bits are represented exactly.\<close>

lemma fl64_of_nat:
  assumes "n \<le> 2 ^ 53"
  shows "fl64 (of_nat n) = of_nat n"
proof (cases "n = 0")
  case False
  let ?x = "of_nat n :: rat"
  have x: "0 < ?x" using False by simp
  have "fexp ?x \<le> 53"
  proof (rule ccontr)
    assume "\<not> fexp ?x \<le> 53"
    then have "(2 :: rat) powi 54 \<le> 2 powi fexp ?x" by (intro powi_mono) simp
    also have "\<dots> \<le> ?x" by (rule fexp_bounds(1) [OF x])
    also have "\<dots> \<le> of_nat (2 ^ 53)" using assms by (simp only: of_nat_le_iff)
    finally show False by (simp add: power_int_def)
  qed
  show ?thesis
  proof (cases "fexp ?x \<le> 52")
    case True
    define e where "e = max (- 1074) (fexp ?x - 52)"
    have "e \<le> 0" using True by (simp add: e_def)
    then have p: "(2 :: rat) powi e = 1 / 2 ^ nat (- e)" by (rule powi_nonpos)
    have q: "?x / 2 powi e = of_int (int n * 2 ^ nat (- e))" unfolding p by simp
    have "fl64 ?x = of_int (round_half_even (?x / 2 powi e)) * 2 powi e"
      using x by (simp only: fl64_pos Let_def e_def)
    also have "\<dots> = of_int (int n * 2 ^ nat (- e)) * 2 powi e" unfolding q rhe_of_int ..
    also have "\<dots> = ?x" unfolding p by simp
    finally show ?thesis .
  next
    case False
    with \<open>fexp ?x \<le> 53\<close> have f: "fexp ?x = 53" by simp
    have "(2 :: rat) powi 53 \<le> ?x" using fexp_bounds(1) [OF x] f by simp
    then have "of_nat (2 ^ 53) \<le> ?x" by (simp add: power_int_def)
    then have n: "n = 2 ^ 53" using assms by (simp only: of_nat_le_iff)
    have "?x / 2 powi 1 = of_int (2 ^ 52)" by (simp add: n)
    then show ?thesis using x f n by (simp add: fl64_pos Let_def)
  qed
qed simp

lemma fl64_numeral [simp]: "fl64 1 = 1" "fl64 100 = 100"
  using fl64_of_nat [of 1] fl64_of_nat [of 100] by simp_all

lemma fl64_le_nat: "0 \<le> x \<Longrightarrow> x \<le> of_nat n \<Longrightarrow> n \<le> 2 ^ 53 \<Longrightarrow> fl64 x \<le> of_nat n"
  using fl64_mono [of x "of_nat n"] by (simp add: fl64_of_nat)

lemma trunc_mono: "0 \<le> x \<Longrightarrow> x \<le> y \<Longrightarrow> trunc x \<le> trunc y"
  by (simp add: trunc_def floor_mono)

lemma trunc_nonneg: "0 \<le> x \<Longrightarrow> 0 \<le> trunc x"
  by (simp add: trunc_def)

lemma trunc_le: "0 \<le> x \<Longrightarrow> x \<le> of_int n \<Longrightarrow> trunc x \<le> n"
  by (simp add: trunc_def) linarith

end
