(* ===== verification/Plugins.thy ===== *)
theory Plugins
  imports Framework Float64
begin

text \<open>
  Package \<open>pkg/plugins\<close>: the built-in filters and scorers and the default profile. A plugin is a
  value of the framework's interface records. Costs are \<open>float64\<close> values, computed with the
  rounding of theory \<open>Float64\<close>.
\<close>

section \<open>Filters\<close>

definition Reachable_Filter :: "sched_request \<Rightarrow> candidate \<Rightarrow> bool \<times> string" where
  "Reachable_Filter req c =
     (if cReachable c then (True, []) else (False, ''no recent healthy report from this provider''))"

text \<open>The loop over \<open>req.Requires\<close> stops at the first mismatch it meets.\<close>

fun check_requires :: "candidate \<Rightarrow> (string, string) gomap \<Rightarrow> bool \<times> string" where
  "check_requires c [] = (True, [])"
| "check_requires c ((key, want) # rest) =
     (let got = Attr c key in
      if got \<noteq> want then
        (if got = [] then (False, ''requires '' @ key @ ''='' @ want @ '', provider does not declare '' @ key)
         else (False, ''requires '' @ key @ ''='' @ want @ '', provider has '' @ key @ ''='' @ got))
      else check_requires c rest)"

definition RequiredAttributes_Filter :: "sched_request \<Rightarrow> candidate \<Rightarrow> bool \<times> string" where
  "RequiredAttributes_Filter req c = check_requires c (rqRequires req)"

definition TemplateAvailable_Filter :: "sched_request \<Rightarrow> candidate \<Rightarrow> bool \<times> string" where
  "TemplateAvailable_Filter req c =
     (if rqTemplate req = [] then (True, [])
      else if HasTemplate c (rqTemplate req) then (True, [])
      else (False, ''template '' @ quote (rqTemplate req) @ '' is not offered by this provider''))"

definition WarmOnly_Filter :: "sched_request \<Rightarrow> candidate \<Rightarrow> bool \<times> string" where
  "WarmOnly_Filter req c =
     (if \<not> rqWarmOnly req \<or> cWarmCapacity c > 0 then (True, [])
      else (False, ''request requires a warm sandbox, provider has 0 warm''))"

definition Reachable_plugin :: filter_plugin where
  "Reachable_plugin = \<lparr>fName = ''Reachable'', fFilter = Reachable_Filter\<rparr>"

definition RequiredAttributes_plugin :: filter_plugin where
  "RequiredAttributes_plugin = \<lparr>fName = ''RequiredAttributes'', fFilter = RequiredAttributes_Filter\<rparr>"

definition TemplateAvailable_plugin :: filter_plugin where
  "TemplateAvailable_plugin = \<lparr>fName = ''TemplateAvailable'', fFilter = TemplateAvailable_Filter\<rparr>"

definition WarmOnly_plugin :: filter_plugin where
  "WarmOnly_plugin = \<lparr>fName = ''WarmOnly'', fFilter = WarmOnly_Filter\<rparr>"

section \<open>Scorers\<close>

definition DefaultElasticWarmScore :: int where "DefaultElasticWarmScore = 20"

definition WarmCapacity_Score :: "int \<Rightarrow> sched_request \<Rightarrow> candidate \<Rightarrow> int" where
  "WarmCapacity_Score saturation req c =
     (let sat = (if saturation \<le> 0 then 5 else saturation) in
      if cWarmCapacity c \<le> 0 then
        (if cElastic c then
           (if cElasticWarmScore c < 0 then 0
            else if cElasticWarmScore c = 0 then DefaultElasticWarmScore
            else if cElasticWarmScore c > MaxScore then MaxScore
            else cElasticWarmScore c)
         else 0)
      else if cWarmCapacity c \<ge> sat then MaxScore
      else go_div (wrap64 (cWarmCapacity c * MaxScore)) sat)"

text \<open>\<open>NewCost\<close>: the highest cost among the candidates of the pass.\<close>

definition NewCost :: "candidate list \<Rightarrow> rat" where
  "NewCost candidates = foldl (\<lambda>m c. if cCostPerHour c > m then cCostPerHour c else m) 0 candidates"

definition Cost_Score :: "rat \<Rightarrow> sched_request \<Rightarrow> candidate \<Rightarrow> int" where
  "Cost_Score maxCost req c =
     (if maxCost \<le> 0 then MaxScore
      else if cCostPerHour c \<le> 0 then MaxScore
      else if cCostPerHour c \<ge> maxCost then 0
      else trunc (fmul (fsub 1 (fdiv (cCostPerHour c) maxCost)) (of_int MaxScore)))"

definition Affinity_Score :: "sched_request \<Rightarrow> candidate \<Rightarrow> int" where
  "Affinity_Score req c =
     (if rqPreferProvider req \<noteq> [] \<and> rqPreferProvider req = cProvider c then MaxScore else 0)"

definition Reachability_Score :: "sched_request \<Rightarrow> candidate \<Rightarrow> int" where
  "Reachability_Score req c = (if cReachable c then MaxScore else 0)"

definition WarmCapacity_plugin :: "int \<Rightarrow> scorer_plugin" where
  "WarmCapacity_plugin saturation = \<lparr>sName = ''WarmCapacity'', sScore = WarmCapacity_Score saturation\<rparr>"

definition Cost_plugin :: "candidate list \<Rightarrow> scorer_plugin" where
  "Cost_plugin candidates = \<lparr>sName = ''Cost'', sScore = Cost_Score (NewCost candidates)\<rparr>"

definition Affinity_plugin :: scorer_plugin where
  "Affinity_plugin = \<lparr>sName = ''Affinity'', sScore = Affinity_Score\<rparr>"

definition Reachability_plugin :: scorer_plugin where
  "Reachability_plugin = \<lparr>sName = ''Reachability'', sScore = Reachability_Score\<rparr>"

definition DefaultProfile :: "candidate list \<Rightarrow> profile" where
  "DefaultProfile candidates =
     \<lparr>pName = ''default'',
      pFilters = [RequiredAttributes_plugin],
      pScorers = [\<lparr>wsScorer = WarmCapacity_plugin 0, wsWeight = 5\<rparr>,
                  \<lparr>wsScorer = Cost_plugin candidates, wsWeight = 3\<rparr>,
                  \<lparr>wsScorer = Reachability_plugin, wsWeight = 3\<rparr>,
                  \<lparr>wsScorer = Affinity_plugin, wsWeight = 1\<rparr>]\<rparr>"

lemmas plugin_defs = Reachable_plugin_def RequiredAttributes_plugin_def TemplateAvailable_plugin_def
  WarmOnly_plugin_def WarmCapacity_plugin_def Cost_plugin_def Affinity_plugin_def Reachability_plugin_def

section \<open>The scorer contract\<close>

text \<open>
  The interface comment of \<open>Scorer\<close>: implementations return 0 to \<open>MaxScore\<close>. A scorer that
  keeps it is never changed by the clamp.
\<close>

locale bounded_scorer =
  fixes score :: "sched_request \<Rightarrow> candidate \<Rightarrow> int"
  assumes score_nonneg: "0 \<le> score req c"
    and score_max: "score req c \<le> MaxScore"
begin

lemma clamp_score_eq: "clamp_score (score req c) = score req c"
  using score_nonneg score_max by (simp add: clamp_score_id)

lemma weighted_le: "0 \<le> w \<Longrightarrow> score req c * w \<le> MaxScore * w"
  using score_max by (simp add: mult_right_mono)

end

lemma NewCost_foldl: "foldl (\<lambda>m c. if cCostPerHour c > m then cCostPerHour c else m) b cs
  = Max (insert b (cCostPerHour ` set cs))"
proof (induction cs arbitrary: b)
  case (Cons c cs)
  have "max (cCostPerHour c) b = (if cCostPerHour c > b then cCostPerHour c else b)" by (auto simp: max_def)
  with Cons show ?case by (cases "cs = []") (auto simp: insert_commute max.assoc [symmetric] Max.insert_remove)
qed simp

lemma NewCost_Max: "NewCost cs = Max (insert 0 (cCostPerHour ` set cs))"
  by (simp add: NewCost_def NewCost_foldl)

lemma NewCost_ge: "c \<in> set cs \<Longrightarrow> cCostPerHour c \<le> NewCost cs" and NewCost_nonneg: "0 \<le> NewCost cs"
  by (simp_all add: NewCost_Max)

text \<open>The float expression of the cost score.\<close>

definition cost_curve :: "rat \<Rightarrow> rat \<Rightarrow> int" where
  "cost_curve m x = trunc (fmul (fsub 1 (fdiv x m)) (of_int MaxScore))"

lemma fdiv_unit: "0 \<le> x \<Longrightarrow> x \<le> m \<Longrightarrow> 0 < m \<Longrightarrow> 0 \<le> fdiv x m \<and> fdiv x m \<le> 1"
  using fl64_le_nat [of "x / m" 1] by (simp add: fdiv_def fl64_nonneg)

lemma fsub_unit: "0 \<le> y \<Longrightarrow> y \<le> 1 \<Longrightarrow> 0 \<le> fsub 1 y \<and> fsub 1 y \<le> 1"
  using fl64_le_nat [of "1 - y" 1] by (simp add: fsub_def fl64_nonneg)

lemma cost_curve_bounds:
  assumes "0 \<le> x" and "x \<le> m" and "0 < m"
  shows "0 \<le> cost_curve m x" and "cost_curve m x \<le> MaxScore"
proof -
  have "0 \<le> fsub 1 (fdiv x m)" "fsub 1 (fdiv x m) \<le> 1"
    using fsub_unit fdiv_unit [OF assms] by auto
  then have "0 \<le> fmul (fsub 1 (fdiv x m)) 100" "fmul (fsub 1 (fdiv x m)) 100 \<le> 100"
    using fl64_le_nat [of "fsub 1 (fdiv x m) * 100" 100] by (simp_all add: fmul_def fl64_nonneg)
  then show "0 \<le> cost_curve m x" and "cost_curve m x \<le> MaxScore"
    by (simp_all add: cost_curve_def MaxScore_def trunc_nonneg trunc_le)
qed

lemma cost_curve_antimono:
  assumes "0 \<le> x" and "x \<le> y" and "y \<le> m" and "0 < m"
  shows "cost_curve m y \<le> cost_curve m x"
proof -
  have d: "fdiv x m \<le> fdiv y m"
    unfolding fdiv_def using assms by (intro fl64_mono) (simp_all add: divide_right_mono)
  have y: "0 \<le> fdiv y m" "fdiv y m \<le> 1" using fdiv_unit [of y m] assms by auto
  then have "fsub 1 (fdiv y m) \<le> fsub 1 (fdiv x m)"
    unfolding fsub_def using d by (intro fl64_mono) simp_all
  moreover have "0 \<le> fsub 1 (fdiv y m)" using fsub_unit y by blast
  ultimately have "fmul (fsub 1 (fdiv y m)) (of_int MaxScore) \<le> fmul (fsub 1 (fdiv x m)) (of_int MaxScore)"
    and "0 \<le> fmul (fsub 1 (fdiv y m)) (of_int MaxScore)"
    unfolding fmul_def by (auto intro!: fl64_mono fl64_nonneg simp: MaxScore_def)
  then show ?thesis unfolding cost_curve_def by (intro trunc_mono)
qed


lemma Cost_Score_free: "m \<le> 0 \<or> cCostPerHour c \<le> 0 \<Longrightarrow> Cost_Score m req c = MaxScore"
  and Cost_Score_dearest: "0 < m \<Longrightarrow> 0 < cCostPerHour c \<Longrightarrow> m \<le> cCostPerHour c \<Longrightarrow> Cost_Score m req c = 0"
  and Cost_Score_curve: "0 < m \<Longrightarrow> 0 < cCostPerHour c \<Longrightarrow> cCostPerHour c < m \<Longrightarrow>
    Cost_Score m req c = cost_curve m (cCostPerHour c)"
  by (auto simp: Cost_Score_def cost_curve_def)

lemma Cost_Score_bounds: "0 \<le> Cost_Score m req c \<and> Cost_Score m req c \<le> MaxScore"
proof -
  consider "m \<le> 0 \<or> cCostPerHour c \<le> 0" | "0 < m" "0 < cCostPerHour c" "m \<le> cCostPerHour c"
    | "0 < m" "0 < cCostPerHour c" "cCostPerHour c < m" by linarith
  then show ?thesis
  proof cases
    case 1
    then show ?thesis by (simp add: Cost_Score_free MaxScore_def)
  next
    case 2
    then show ?thesis by (simp add: Cost_Score_dearest MaxScore_def)
  next
    case 3
    then show ?thesis using cost_curve_bounds [of "cCostPerHour c" m] by (simp add: Cost_Score_curve)
  qed
qed

interpretation cost: bounded_scorer "Cost_Score maxCost"
  by unfold_locales (simp_all only: Cost_Score_bounds)

text \<open>Below saturation the score is the rounded-down percentage; nothing overflows.\<close>

lemma warm_partial:
  assumes "0 < cWarmCapacity c" and "cWarmCapacity c < sat" and "sat < 2 ^ 56"
  shows "WarmCapacity_Score sat req c = cWarmCapacity c * 100 div sat"
  using assms by (simp add: WarmCapacity_Score_def MaxScore_def wrap64_id go_div_nonneg)

lemma warm_bounded:
  assumes "sat < 2 ^ 56"
  shows "0 \<le> WarmCapacity_Score sat req c" and "WarmCapacity_Score sat req c \<le> MaxScore"
proof -
  let ?s = "if sat \<le> 0 then 5 else sat"
  have "cWarmCapacity c * 100 div ?s \<le> 100" if "0 < cWarmCapacity c" "cWarmCapacity c < ?s"
  proof -
    have "cWarmCapacity c * 100 div ?s \<le> ?s * 100 div ?s"
      using that by (intro zdiv_mono1) simp_all
    then show ?thesis using that by simp
  qed
  moreover have "0 \<le> cWarmCapacity c * 100 div ?s" if "0 < cWarmCapacity c" "cWarmCapacity c < ?s"
    using that by (simp add: pos_imp_zdiv_nonneg_iff)
  moreover have "WarmCapacity_Score sat req c = cWarmCapacity c * 100 div ?s"
    if "0 < cWarmCapacity c" "cWarmCapacity c < ?s"
  proof -
    have "cWarmCapacity c * 100 < 2 ^ 63" using that assms by (auto split: if_splits)
    then have "wrap64 (cWarmCapacity c * 100) = cWarmCapacity c * 100" using that(1) by (simp add: wrap64_id)
    moreover have "0 < ?s" by simp
    ultimately show ?thesis using that unfolding WarmCapacity_Score_def MaxScore_def Let_def
      by (simp only: go_div_nonneg) simp
  qed
  ultimately show "0 \<le> WarmCapacity_Score sat req c" and "WarmCapacity_Score sat req c \<le> MaxScore"
    by (cases "0 < cWarmCapacity c \<and> cWarmCapacity c < ?s";
        auto simp: WarmCapacity_Score_def MaxScore_def DefaultElasticWarmScore_def)+
qed

interpretation warm: bounded_scorer "WarmCapacity_Score 0"
  by unfold_locales (simp_all add: warm_bounded)

interpretation affinity: bounded_scorer Affinity_Score
  by unfold_locales (simp_all add: Affinity_Score_def MaxScore_def)

interpretation reachability: bounded_scorer Reachability_Score
  by unfold_locales (simp_all add: Reachability_Score_def MaxScore_def)

lemmas clamp_scores = warm.clamp_score_eq cost.clamp_score_eq affinity.clamp_score_eq reachability.clamp_score_eq

lemma default_sane: "sane_weights (pScorers (DefaultProfile cs))"
  by (simp add: sane_weights_def DefaultProfile_def MaxScore_def)

definition default_total :: "candidate list \<Rightarrow> sched_request \<Rightarrow> candidate \<Rightarrow> int" where
  "default_total cs req c = 5 * WarmCapacity_Score 0 req c + 3 * Cost_Score (NewCost cs) req c
     + 3 * Reachability_Score req c + Affinity_Score req c"

lemma default_weighted_sum: "weighted_sum (pScorers (DefaultProfile cs)) req c = default_total cs req c"
  by (simp add: weighted_sum_def DefaultProfile_def plugin_defs clamp_scores default_total_def)

lemma check_requires_iff: "fst (check_requires c rs) \<longleftrightarrow> (\<forall>(k, v) \<in> set rs. Attr c k = v)"
proof (induction rs)
  case (Cons kv rs)
  then show ?case by (cases kv; cases "Attr c (fst kv) = snd kv"; cases "Attr c (fst kv) = []") (simp_all add: Let_def)
qed simp

lemma default_passes:
  "passes (DefaultProfile cs) req c \<longleftrightarrow> (\<forall>(k, v) \<in> set (rqRequires req). Attr c k = v)"
  by (simp add: passes_def DefaultProfile_def plugin_defs RequiredAttributes_Filter_def check_requires_iff)

section \<open>Properties\<close>

text \<open>Under the default profile the decision names a candidate whose attributes equal every
  required value exactly, and which maximizes 5 times the warm score plus 3 times the cost score plus
  3 times reachability plus affinity among all such candidates, the cost being scored relative to the
  dearest candidate of this very pass; the outcome lies between 0 and 1200.\<close>

theorem DefaultProfile_decision:
  assumes "Schedule rnd (DefaultProfile cs) req cs = Inr d"
  shows "\<exists>c \<in> set cs. dProvider d = cProvider c \<and> (\<forall>(k, v) \<in> set (rqRequires req). Attr c k = v) \<and>
    dScore d = default_total cs req c \<and> 0 \<le> dScore d \<and> dScore d \<le> 1200 \<and>
    (\<forall>c' \<in> set cs. (\<forall>(k, v) \<in> set (rqRequires req). Attr c' k = v) \<longrightarrow> default_total cs req c' \<le> dScore d)"
proof -
  let ?p = "DefaultProfile cs"
  from assms obtain i where p: "dProvider d = cProvider (cs ! i)" and s: "dScore d = total_of ?p req (cs ! i)"
    and t: "cs ! i \<in> set (top_candidates ?p req cs)" by (rule Schedule_Inr)
  note c = top_candidatesD [OF t]
  have tot: "total_of ?p req c' = default_total cs req c'" if "passes ?p req c'" for c'
    using total_of_sane [OF default_sane that] by (simp only: default_weighted_sum)
  have "0 \<le> weighted_sum (pScorers ?p) req (cs ! i)" "weighted_sum (pScorers ?p) req (cs ! i) \<le> 1200"
    using weighted_sum_bounds [of "pScorers ?p" req "cs ! i"] by (simp_all add: DefaultProfile_def MaxScore_def)
  then have "0 \<le> dScore d \<and> dScore d \<le> 1200 \<and> dScore d = default_total cs req (cs ! i)"
    using s tot [OF c(2)] by (simp add: default_weighted_sum)
  moreover have "default_total cs req c' \<le> dScore d" if "c' \<in> set cs" "passes ?p req c'" for c'
    using c(3) [OF that] tot [OF that(2)] s by simp
  ultimately show ?thesis using p c(1,2) unfolding default_passes by (intro bexI [of _ "cs ! i"]) simp_all
qed

theorem DefaultProfile_decision_witness:
  "\<exists>d. Schedule (\<lambda>_. 0) (DefaultProfile [ex_candidate ''b'' 2 0]) ex_request [ex_candidate ''b'' 2 0] = Inr d \<and>
     dScore d = 800"
proof -
  let ?c = "ex_candidate ''b'' 2 0"
  obtain d where d: "Schedule (\<lambda>_. 0) (DefaultProfile [?c]) ex_request [?c] = Inr d"
  proof (cases "Schedule (\<lambda>_. 0) (DefaultProfile [?c]) ex_request [?c]")
    case (Inl rs)
    then show ?thesis by (simp add: Schedule_Inl default_passes ex_request_def)
  qed blast
  have "default_total [?c] ex_request ?c = 800"
    by (simp add: default_total_def WarmCapacity_Score_def Cost_Score_def NewCost_def Reachability_Score_def
        Affinity_Score_def ex_candidate_def ex_request_def MaxScore_def wrap64_id go_div_nonneg)
  with DefaultProfile_decision [OF d] have "dScore d = 800" by simp
  with d show ?thesis by blast
qed

text \<open>C12: Within one pass a dearer candidate never gets a higher cost score, despite float rounding;
  a free candidate gets 100 and the dearest one 0, unless all are free.\<close>

theorem Cost_Score_antimono:
  assumes "c \<in> set cs" and "c' \<in> set cs" and "cCostPerHour c \<le> cCostPerHour c'"
  shows "Cost_Score (NewCost cs) req c' \<le> Cost_Score (NewCost cs) req c \<and>
    (cCostPerHour c \<le> 0 \<longrightarrow> Cost_Score (NewCost cs) req c = 100) \<and>
    (cCostPerHour c' = NewCost cs \<and> 0 < cCostPerHour c' \<longrightarrow> Cost_Score (NewCost cs) req c' = 0)"
proof -
  let ?m = "NewCost cs" and ?x = "cCostPerHour c" and ?y = "cCostPerHour c'"
  have y: "?y \<le> ?m" using assms(2) by (rule NewCost_ge)
  have anti: "Cost_Score ?m req c' \<le> Cost_Score ?m req c"
  proof (cases "?m \<le> 0 \<or> ?x \<le> 0")
    case True
    then show ?thesis using cost.score_max [of ?m req c'] by (simp add: Cost_Score_free)
  next
    case False
    then have pos: "0 < ?m" "0 < ?x" "0 < ?y" using assms(3) by linarith+
    show ?thesis
    proof (cases "?y < ?m")
      case True
      then have "?x < ?m" using assms(3) by linarith
      with True pos show ?thesis
        using cost_curve_antimono [of ?x ?y ?m] assms(3) by (simp add: Cost_Score_curve)
    next
      case False
      then show ?thesis using pos cost.score_nonneg [of ?m req c] by (simp add: Cost_Score_dearest)
    qed
  qed
  moreover have "?x \<le> 0 \<longrightarrow> Cost_Score ?m req c = 100" by (simp add: Cost_Score_free MaxScore_def)
  moreover have "?y = ?m \<and> 0 < ?y \<longrightarrow> Cost_Score ?m req c' = 0" by (simp add: Cost_Score_dearest)
  ultimately show ?thesis by blast
qed

theorem Cost_Score_antimono_witness:
  "let c = ex_candidate ''a'' 0 0 \<lparr>cCostPerHour := 1\<rparr>; c' = ex_candidate ''b'' 0 0 \<lparr>cCostPerHour := 2\<rparr>
   in Cost_Score (NewCost [c, c']) ex_request c' \<le> Cost_Score (NewCost [c, c']) ex_request c \<and>
      Cost_Score (NewCost [c, c']) ex_request c' = 0"
proof -
  let ?c = "ex_candidate ''a'' 0 0 \<lparr>cCostPerHour := 1\<rparr>"
  let ?d = "ex_candidate ''b'' 0 0 \<lparr>cCostPerHour := 2\<rparr>"
  have "NewCost [?c, ?d] = 2" by (simp add: NewCost_def)
  with Cost_Score_antimono [of ?c "[?c, ?d]" ?d ex_request] show ?thesis by (simp add: Let_def)
qed

text \<open>The warm score of a provider that is not elastic grows with its warm capacity: 0 with none,
  20 points for each of the first five sandboxes, 100 from the fifth on, whatever the pool size.\<close>

theorem WarmCapacity_curve:
  assumes "\<not> cElastic c"
  shows "WarmCapacity_Score 0 req c = 20 * max 0 (min 5 (cWarmCapacity c))"
proof -
  consider "cWarmCapacity c \<le> 0" | "0 < cWarmCapacity c" "cWarmCapacity c < 5" | "5 \<le> cWarmCapacity c" by linarith
  then show ?thesis
  proof cases
    case 2
    then have "WarmCapacity_Score 0 req c = cWarmCapacity c * 100 div 5"
      by (simp add: WarmCapacity_Score_def MaxScore_def wrap64_id go_div_nonneg)
    also have "\<dots> = 20 * cWarmCapacity c" by simp
    finally show ?thesis using 2 by simp
  qed (use assms in \<open>simp_all add: WarmCapacity_Score_def MaxScore_def\<close>)
qed

theorem WarmCapacity_curve_witness:
  "WarmCapacity_Score 0 ex_request (ex_candidate ''a'' 3 0) = 60 \<and>
   WarmCapacity_Score 0 ex_request (ex_candidate ''a'' 50 0) = 100"
  using WarmCapacity_curve [of "ex_candidate ''a'' 3 0" ex_request]
    WarmCapacity_curve [of "ex_candidate ''a'' 50 0" ex_request]
  by (simp add: ex_candidate_def)

end
