(* ===== verification/Policy.thy ===== *)
theory Policy
  imports Plugins
begin

text \<open>
  Package \<open>api/v1alpha1\<close>: the declarative policy and provider objects and their compilation into
  the framework's profile, request and candidate (\<open>convert.go\<close>). Matching a label selector is
  Kubernetes code and a parameter of \<open>SelectPolicy\<close>; so is reading a resource quantity as a
  float, whose result is a field of the provider specification here.
\<close>

section \<open>The objects\<close>

record ScorerConfig =
  scName :: string
  scWeight :: int

record 'sel policy_spec =
  psSelector :: "'sel option"
  psPriority :: int
  psFilters :: "string list"
  psScorers :: "ScorerConfig list"
  psRequires :: "(string, string) gomap"

record 'sel policy =
  poName :: string
  poSpec :: "'sel policy_spec"

record TemplateMapping =
  tmName :: string
  tmRef :: string

record ClaimsSpec =
  csEnabled :: bool
  csMaxInFlight :: "int option"
  csTimeout :: "duration option"
  csMaxRate :: "int option"
  csLookupRate :: "int option"
  csElasticWarmScore :: "int option"

record provider_spec =
  spAdapter :: string
  spEndpoint :: string
  spCredentialsRef :: "string option"
  spTemplates :: "TemplateMapping list"
  spClaims :: "ClaimsSpec option"
  spAttributes :: "(string, string) gomap"
  spCostPerHour :: "rat option"
  spRefreshInterval :: "duration option"
  spDisabled :: bool

record sandbox_provider =
  prName :: string
  prSpec :: provider_spec
  prWarmCapacity :: int

section \<open>Names the build implements\<close>

definition knownFilters :: "(string, filter_plugin) gomap" where
  "knownFilters = [(''RequiredAttributes'', RequiredAttributes_plugin), (''Reachable'', Reachable_plugin),
     (''TemplateAvailable'', TemplateAvailable_plugin), (''WarmOnly'', WarmOnly_plugin)]"

definition knownScorers :: "(string, scorer_plugin) gomap" where
  "knownScorers = [(''WarmCapacity'', WarmCapacity_plugin 0), (''Reachability'', Reachability_plugin),
     (''Affinity'', Affinity_plugin)]"

definition sortedKeys :: "(string, 'v) gomap \<Rightarrow> string list" where
  "sortedKeys m = sort_strings (map fst m)"

definition KnownFilterNames :: "string list" where
  "KnownFilterNames = sortedKeys knownFilters"

definition KnownScorerNames :: "string list" where
  "KnownScorerNames = sort_strings (sortedKeys knownScorers @ [''Cost''])"

text \<open>The verb \<open>%v\<close> on a slice of strings.\<close>

definition show_names :: "string list \<Rightarrow> string" where
  "show_names xs = ''['' @ join '' '' xs @ '']''"

section \<open>Validation\<close>

text \<open>\<open>contains\<close>.\<close>

fun contains_name :: "string list \<Rightarrow> string \<Rightarrow> bool" where
  "contains_name [] needle = False"
| "contains_name (s # ss) needle = (if s = needle then True else contains_name ss needle)"

fun validate_filters :: "string list \<Rightarrow> string option" where
  "validate_filters [] = None"
| "validate_filters (name # rest) =
     (case go_get knownFilters name of
        None \<Rightarrow> Some (''unknown filter '' @ quote name @ '' (available: '' @ show_names KnownFilterNames @ '')'')
      | Some _ \<Rightarrow> validate_filters rest)"

text \<open>The second loop: \<open>seen\<close> are the names of the entries already visited.\<close>

fun validate_scorers :: "string list \<Rightarrow> ScorerConfig list \<Rightarrow> string option" where
  "validate_scorers seen [] = None"
| "validate_scorers seen (sc # rest) =
     (if scName sc \<noteq> ''Cost'' \<and> go_get knownScorers (scName sc) = None then
        Some (''unknown scorer '' @ quote (scName sc) @ '' (available: '' @ show_names KnownScorerNames @ '')'')
      else if scName sc \<in> set seen then Some (''scorer '' @ quote (scName sc) @ '' listed more than once'')
      else if scWeight sc < 0 then
        Some (''scorer '' @ quote (scName sc) @ '' has negative weight '' @ dec_int (scWeight sc))
      else validate_scorers (scName sc # seen) rest)"

text \<open>\<open>SandboxPlacementPolicy.Validate\<close>; \<open>None\<close> is the nil error.\<close>

definition Policy_Validate :: "'sel policy \<Rightarrow> string option" where
  "Policy_Validate p =
     (case validate_filters (psFilters (poSpec p)) of
        Some e \<Rightarrow> Some e
      | None \<Rightarrow> (case validate_scorers [] (psScorers (poSpec p)) of
          Some e \<Rightarrow> Some e
        | None \<Rightarrow>
            (if length (psRequires (poSpec p)) > 0 \<and>
                \<not> contains_name (psFilters (poSpec p)) ''RequiredAttributes'' then
               Some (''spec.requires is set but the RequiredAttributes filter is not enabled, so the requirements would not be enforced'')
             else None)))"

section \<open>Compilation\<close>

text \<open>
  The constructors are functions stored in the maps; calling the nil function of an unknown name
  panics, which is \<open>None\<close> here.
\<close>

definition build_scorer :: "candidate list \<Rightarrow> ScorerConfig \<Rightarrow> weighted_scorer option" where
  "build_scorer candidates sc =
     (let weight = (if scWeight sc = 0 then 1 else scWeight sc);
          scorer = (if scName sc = ''Cost'' then Some (Cost_plugin candidates) else go_get knownScorers (scName sc))
      in map_option (\<lambda>s. \<lparr>wsScorer = s, wsWeight = weight\<rparr>) scorer)"

definition BuildProfile :: "'sel policy \<Rightarrow> candidate list \<Rightarrow> (string + profile) option" where
  "BuildProfile p candidates =
     (case Policy_Validate p of
        Some err \<Rightarrow> Some (Inl err)
      | None \<Rightarrow>
         (case those (map (go_get knownFilters) (psFilters (poSpec p))) of
            None \<Rightarrow> None
          | Some fs \<Rightarrow> (case those (map (build_scorer candidates) (psScorers (poSpec p))) of
              None \<Rightarrow> None
            | Some ss \<Rightarrow> Some (Inr \<lparr>pName = poName p, pFilters = fs, pScorers = ss\<rparr>))))"

definition BuildRequest :: "'sel policy \<Rightarrow> string \<Rightarrow> (string, string) gomap \<Rightarrow> string \<Rightarrow> sched_request" where
  "BuildRequest p name sandboxRequires preferProvider =
     \<lparr>rqName = name, rqTemplate = [], rqWarmOnly = False,
      rqRequires = (if length sandboxRequires > 0 \<or> length (psRequires (poSpec p)) > 0 then
go_copy (psRequires (poSpec p)) (go_copy sandboxRequires [])
        else []),
      rqPreferProvider = preferProvider\<rparr>"

definition policyMatches :: "('sel \<Rightarrow> string + bool) \<Rightarrow> 'sel policy \<Rightarrow> string + bool" where
  "policyMatches matches_sel p =
     (case psSelector (poSpec p) of None \<Rightarrow> Inr True | Some sel \<Rightarrow> matches_sel sel)"

text \<open>
  The loop of \<open>SelectPolicy\<close>. The parameter is \<open>LabelSelectorAsSelector\<close> followed by
  \<open>Matches\<close> on the labels of the object.
\<close>

definition outranks :: "'sel policy \<Rightarrow> 'sel policy \<Rightarrow> bool" where
  "outranks p best \<longleftrightarrow> psPriority (poSpec p) > psPriority (poSpec best) \<or>
     (psPriority (poSpec p) = psPriority (poSpec best) \<and> poName p < poName best)"

fun select_loop :: "('sel \<Rightarrow> string + bool) \<Rightarrow> 'sel policy option \<Rightarrow> 'sel policy list
    \<Rightarrow> string + 'sel policy option" where
  "select_loop m best [] = Inr best"
| "select_loop m best (p # ps) =
     (case policyMatches m p of
        Inl err \<Rightarrow> Inl (''policy '' @ poName p @ '': '' @ err)
      | Inr match \<Rightarrow>
          (if \<not> match then select_loop m best ps
           else (case best of
                   None \<Rightarrow> select_loop m (Some p) ps
                 | Some b \<Rightarrow> select_loop m (if outranks p b then Some p else best) ps)))"

definition SelectPolicy :: "('sel \<Rightarrow> string + bool) \<Rightarrow> 'sel policy list \<Rightarrow> string + 'sel policy option" where
  "SelectPolicy m policies = select_loop m None policies"

definition ProviderCandidate :: "sandbox_provider \<Rightarrow> bool \<Rightarrow> candidate" where
  "ProviderCandidate p reachable =
     \<lparr>cProvider = prName p, cReachable = reachable, cWarmCapacity = prWarmCapacity p, cElastic = False,
      cElasticWarmScore = (case spClaims (prSpec p) of
          None \<Rightarrow> 0
        | Some cl \<Rightarrow> (case csElasticWarmScore cl of
            None \<Rightarrow> 0
          | Some s \<Rightarrow> if s \<le> 0 then -1 else s)),
      cInFlightCold = 0,
      cAttributes = go_copy (spAttributes (prSpec p)) [],
      cTemplates = fold (\<lambda>tm. go_put (tmName tm) (tmRef tm)) (spTemplates (prSpec p)) [],
      cCostPerHour = (case spCostPerHour (prSpec p) of None \<Rightarrow> 0 | Some q \<Rightarrow> q)\<rparr>"

definition DefaultPolicy :: "'sel policy" where
  "DefaultPolicy = \<lparr>poName = ''default'',
     poSpec = \<lparr>psSelector = None, psPriority = 0,
       psFilters = [''RequiredAttributes''],
       psScorers = [\<lparr>scName = ''WarmCapacity'', scWeight = 5\<rparr>, \<lparr>scName = ''Cost'', scWeight = 3\<rparr>,
                    \<lparr>scName = ''Reachability'', scWeight = 3\<rparr>, \<lparr>scName = ''Affinity'', scWeight = 1\<rparr>],
       psRequires = []\<rparr>\<rparr>"


section \<open>What validation guarantees\<close>

lemma go_get_knownFilters: "go_get knownFilters n = Some f \<Longrightarrow> fName f = n"
  by (auto simp: knownFilters_def plugin_defs split: if_splits)

lemma required_attributes_known:
  assumes "''RequiredAttributes'' \<in> S"
  shows "RequiredAttributes_plugin \<in> (\<lambda>n. the (go_get knownFilters n)) ` S"
proof (rule image_eqI)
  show "RequiredAttributes_plugin = the (go_get knownFilters ''RequiredAttributes'')" by (simp add: knownFilters_def)
qed (rule assms)

lemma go_get_knownScorers: "go_get knownScorers n = Some s \<Longrightarrow> sName s = n"
  by (auto simp: knownScorers_def plugin_defs split: if_splits)

lemma contains_name_iff: "contains_name ss n \<longleftrightarrow> n \<in> set ss"
  by (induction ss) auto

lemma validate_filters_None: "validate_filters ns = None \<longleftrightarrow> (\<forall>n \<in> set ns. go_get knownFilters n \<noteq> None)"
  by (induction ns) (auto split: option.splits)

lemma validate_scorers_None:
  "validate_scorers seen scs = None \<longleftrightarrow>
     (\<forall>sc \<in> set scs. (scName sc = ''Cost'' \<or> go_get knownScorers (scName sc) \<noteq> None) \<and> 0 \<le> scWeight sc) \<and>
     distinct (map scName scs) \<and> set (map scName scs) \<inter> set seen = {}"
proof (induction scs arbitrary: seen)
  case (Cons sc scs)
  show ?case
  proof (cases "(scName sc = ''Cost'' \<or> go_get knownScorers (scName sc) \<noteq> None) \<and>
      scName sc \<notin> set seen \<and> 0 \<le> scWeight sc")
    case True
    then have "validate_scorers seen (sc # scs) = validate_scorers (scName sc # seen) scs" by auto
    then have "validate_scorers seen (sc # scs) = None \<longleftrightarrow> (\<forall>sc \<in> set scs. (scName sc = ''Cost'' \<or>
        go_get knownScorers (scName sc) \<noteq> None) \<and> 0 \<le> scWeight sc) \<and>
        distinct (map scName scs) \<and> set (map scName scs) \<inter> set (scName sc # seen) = {}"
      by (simp only: Cons)
    with True show ?thesis by (simp del: validate_scorers.simps, blast)
  next
    case False
    then have "validate_scorers seen (sc # scs) \<noteq> None" by auto
    with False show ?thesis by (simp del: validate_scorers.simps, blast)
  qed
qed simp

lemma those_map_Some:
  "(\<And>x. x \<in> set xs \<Longrightarrow> f x \<noteq> None) \<Longrightarrow> those (map f xs) = Some (map (the \<circ> f) xs)"
  by (induction xs) (auto split: option.splits)

lemma Policy_Validate_None:
  "Policy_Validate p = None \<longleftrightarrow>
     (\<forall>n \<in> set (psFilters (poSpec p)). go_get knownFilters n \<noteq> None) \<and>
     validate_scorers [] (psScorers (poSpec p)) = None \<and>
     (psRequires (poSpec p) \<noteq> [] \<longrightarrow> ''RequiredAttributes'' \<in> set (psFilters (poSpec p)))"
  unfolding Policy_Validate_def contains_name_iff validate_filters_None [symmetric]
  by (auto split: option.splits)

definition built_scorer :: "candidate list \<Rightarrow> ScorerConfig \<Rightarrow> weighted_scorer" where
  "built_scorer cs sc = the (build_scorer cs sc)"

lemma build_scorer_Some:
  assumes "scName sc = ''Cost'' \<or> go_get knownScorers (scName sc) \<noteq> None"
  shows "build_scorer cs sc \<noteq> None" and "sName (wsScorer (built_scorer cs sc)) = scName sc"
    and "wsWeight (built_scorer cs sc) = (if scWeight sc = 0 then 1 else scWeight sc)"
  using assms go_get_knownScorers [of "scName sc"]
  by (cases "scName sc = ''Cost''"; force simp: build_scorer_def built_scorer_def Let_def Cost_plugin_def)+

lemma BuildProfile_valid:
  assumes "Policy_Validate p = None"
  shows "BuildProfile p cs = Some (Inr \<lparr>pName = poName p,
    pFilters = map (\<lambda>n. the (go_get knownFilters n)) (psFilters (poSpec p)),
    pScorers = map (built_scorer cs) (psScorers (poSpec p))\<rparr>)"
proof -
  have f: "those (map (go_get knownFilters) (psFilters (poSpec p)))
      = Some (map (the \<circ> go_get knownFilters) (psFilters (poSpec p)))"
    using assms by (intro those_map_Some) (simp add: Policy_Validate_None)
  have "validate_scorers [] (psScorers (poSpec p)) = None" using assms by (simp add: Policy_Validate_None)
  then have s: "those (map (build_scorer cs) (psScorers (poSpec p)))
      = Some (map (the \<circ> build_scorer cs) (psScorers (poSpec p)))"
    unfolding validate_scorers_None by (intro those_map_Some build_scorer_Some(1)) blast
  show ?thesis unfolding BuildProfile_def assms f s by (simp add: built_scorer_def o_def)
qed


section \<open>Selecting the governing policy\<close>

interpretation rank: strict_weak_order "outranks :: 'sel policy \<Rightarrow> 'sel policy \<Rightarrow> bool"
  by (rule strict_weak_order_key [of _ "\<lambda>p. (- psPriority (poSpec p), poName p)"])
    (auto simp: outranks_def)

lemma outranks_total: "poName p \<noteq> poName q \<Longrightarrow> \<not> outranks p q \<Longrightarrow> outranks q p"
  by (auto simp: outranks_def)

text \<open>The error names a listed policy whose selector is malformed.\<close>

definition selector_error :: "('sel \<Rightarrow> string + bool) \<Rightarrow> 'sel policy set \<Rightarrow> string \<Rightarrow> bool" where
  "selector_error m S e \<longleftrightarrow> (\<exists>p \<in> S. \<exists>err. policyMatches m p = Inl err \<and> e = ''policy '' @ poName p @ '': '' @ err)"

lemma selector_error_insert: "selector_error m S e \<Longrightarrow> selector_error m (insert p S) e"
  unfolding selector_error_def by blast

text \<open>What the loop has chosen, relative to the policies it has seen.\<close>

definition governs :: "('sel \<Rightarrow> string + bool) \<Rightarrow> 'sel policy set \<Rightarrow> 'sel policy option \<Rightarrow> bool" where
  "governs m S r = (case r of
     None \<Rightarrow> \<forall>p \<in> S. policyMatches m p = Inr False
   | Some b \<Rightarrow> b \<in> S \<and> policyMatches m b = Inr True \<and>
       (\<forall>p \<in> S. policyMatches m p = Inr False \<or> policyMatches m p = Inr True \<and> (p = b \<or> outranks b p)))"

lemma governs_unique:
  assumes "governs m S r" and "governs m S r'"
  shows "r = r'"
proof (cases r)
  case None
  then show ?thesis using assms by (cases r') (auto simp: governs_def)
next
  case (Some b)
  then have b: "b \<in> S" "policyMatches m b = Inr True"
    and rest: "\<And>q. q \<in> S \<Longrightarrow> policyMatches m q = Inr False \<or> policyMatches m q = Inr True \<and> (q = b \<or> outranks b q)"
    using assms(1) by (auto simp: governs_def)
  show ?thesis
  proof (cases r')
    case None
    then show ?thesis using assms(2) b by (auto simp: governs_def)
  next
    case b': (Some b')
    then have "b' \<in> S" "policyMatches m b' = Inr True" "b = b' \<or> outranks b' b"
      using assms(2) b by (auto simp: governs_def)
    with rest [of b'] have "b = b'" using rank.lt_asym by auto
    with Some b' show ?thesis by simp
  qed
qed

lemma governs_step:
  assumes "governs m S best" and "policyMatches m p = Inr match" and "poName p \<notin> poName ` S"
  shows "governs m (insert p S) (if \<not> match then best else (case best of None \<Rightarrow> Some p
    | Some b \<Rightarrow> if outranks p b then Some p else best))"
proof (cases best)
  case None
  with assms show ?thesis by (auto simp: governs_def)
next
  case (Some b)
  then have b: "b \<in> S" "policyMatches m b = Inr True"
    and rest: "\<forall>q \<in> S. policyMatches m q = Inr False \<or> policyMatches m q = Inr True \<and> (q = b \<or> outranks b q)"
    using assms(1) by (auto simp: governs_def)
  have ne: "poName p \<noteq> poName b" using b(1) assms(3) by force
  show ?thesis
  proof (cases "match \<and> outranks p b")
    case True
    have "outranks p q" if "outranks b q" for q
      using rank.not_lt_trans True that rank.lt_cotrans rank.lt_asym by meson
    with True assms(2) rest Some show ?thesis by (auto simp: governs_def)
  next
    case False
    with assms(2) b rest Some outranks_total [OF ne] show ?thesis by (cases match) (auto simp: governs_def)
  qed
qed

lemma select_loop_governs:
  assumes "governs m S best" and "distinct (map poName ps)" and "poName ` S \<inter> poName ` set ps = {}"
  shows "case select_loop m best ps of
      Inl e \<Rightarrow> selector_error m (set ps) e
    | Inr r \<Rightarrow> governs m (S \<union> set ps) r"
  using assms
proof (induction ps arbitrary: S best)
  case (Cons p ps)
  show ?case
  proof (cases "policyMatches m p")
    case (Inl err)
    have "selector_error m (set (p # ps)) (''policy '' @ poName p @ '': '' @ err)"
      unfolding selector_error_def using Inl by (intro bexI [of _ p] exI [of _ err]) simp_all
    with Inl show ?thesis by simp
  next
    case (Inr match)
    let ?b = "if \<not> match then best else (case best of None \<Rightarrow> Some p
      | Some b \<Rightarrow> if outranks p b then Some p else best)"
    have "governs m (insert p S) ?b" using governs_step [OF Cons.prems(1) Inr] Cons.prems(3) by auto
    moreover have "poName ` insert p S \<inter> poName ` set ps = {}" using Cons.prems by auto
    ultimately have IH: "case select_loop m ?b ps of
        Inl e \<Rightarrow> selector_error m (set ps) e
      | Inr r \<Rightarrow> governs m (insert p S \<union> set ps) r"
      using Cons.IH Cons.prems(2) by simp
    have "select_loop m best (p # ps) = select_loop m ?b ps" using Inr by (simp split: option.split)
    with IH show ?thesis
      by (cases "select_loop m ?b ps") (simp_all add: selector_error_insert del: select_loop.simps)
  qed
qed simp

section \<open>Properties\<close>

text \<open>C11: Policy selection does not depend on the order of the list: it yields the matching policy of
  highest priority, ties broken by the smaller name, nothing only when no policy matches, and an error
  only when the selector of a listed policy is malformed.\<close>

theorem SelectPolicy_governing:
  assumes "distinct (map poName policies)" and "distinct (map poName policies')"
    and "set policies' = set policies"
  shows "case SelectPolicy m policies of
      Inl e \<Rightarrow> selector_error m (set policies) e \<and>
        (\<exists>e'. SelectPolicy m policies' = Inl e')
    | Inr r \<Rightarrow> governs m (set policies) r \<and> SelectPolicy m policies' = Inr r"
proof -
  let ?R = "\<lambda>ps. case SelectPolicy m ps of
      Inl e \<Rightarrow> selector_error m (set ps) e
    | Inr r \<Rightarrow> governs m (set ps) r"
  have R: "?R ps" if "distinct (map poName ps)" for ps
    using select_loop_governs [of m "{}" None ps, unfolded Un_empty_left] that
    unfolding SelectPolicy_def by (simp add: governs_def [of m "{}"])
  note R1 = R [OF assms(1)] and R2 = R [OF assms(2)]
  have ok: "\<not> governs m S r" if "p \<in> S" "policyMatches m p = Inl err" for p S r err
    using that by (cases r) (force simp: governs_def)+
  show ?thesis
  proof (cases "SelectPolicy m policies")
    case (Inl e)
    with R1 obtain p err where "p \<in> set policies" "policyMatches m p = Inl err" 
      by (auto simp: selector_error_def)
    then have "\<exists>e'. SelectPolicy m policies' = Inl e'"
      using R2 ok assms(3) by (cases "SelectPolicy m policies'") auto
    with Inl R1 show ?thesis by simp
  next
    case (Inr r)
    with R1 have g: "governs m (set policies) r" by simp
    have "SelectPolicy m policies' = Inr r"
    proof (cases "SelectPolicy m policies'")
      case (Inl e)
      with R2 have "selector_error m (set policies) e" by (simp add: assms(3))
      then show ?thesis using ok g unfolding selector_error_def by blast
    next
      case (Inr r')
      with R2 have "governs m (set policies) r'" by (simp add: assms(3))
      with g Inr show ?thesis by (simp add: governs_unique)
    qed
    with Inr g show ?thesis by simp
  qed
qed

theorem SelectPolicy_governing_witness:
  "let a = DefaultPolicy \<lparr>poName := ''a''\<rparr>; b = (DefaultPolicy :: unit policy) \<lparr>poName := ''b''\<rparr>
   in SelectPolicy (\<lambda>_. Inr True) [b, a] = SelectPolicy (\<lambda>_. Inr True) [a, b] \<and>
      SelectPolicy (\<lambda>_. Inr True) [a, b] = Inr (Some a)"
proof -
  let ?a = "DefaultPolicy \<lparr>poName := ''a''\<rparr>" and ?b = "(DefaultPolicy :: unit policy) \<lparr>poName := ''b''\<rparr>"
  have "SelectPolicy (\<lambda>_. Inr True) [?a, ?b] = Inr (Some ?a)"
    by (simp add: SelectPolicy_def policyMatches_def outranks_def DefaultPolicy_def)
  with SelectPolicy_governing [of "[?a, ?b]" "[?b, ?a]" "\<lambda>_. Inr True"] show ?thesis
    by (simp add: Let_def insert_commute)
qed

text \<open>The default policy compiles to exactly the default profile of package plugins.\<close>

theorem DefaultPolicy_profile: "BuildProfile DefaultPolicy cs = Some (Inr (DefaultProfile cs))"
proof -
  have "Policy_Validate DefaultPolicy = None"
    by (simp add: Policy_Validate_def DefaultPolicy_def knownFilters_def knownScorers_def)
  from BuildProfile_valid [OF this] show ?thesis
    by (simp add: DefaultPolicy_def DefaultProfile_def built_scorer_def build_scorer_def
        knownFilters_def knownScorers_def)
qed

text \<open>Building a profile never calls an unknown constructor: it fails exactly with the error of
  validation, and otherwise yields the listed filters and scorers in order, each scorer once, with a
  weight of at least 1, and with the RequiredAttributes filter whenever the policy states requirements.\<close>

theorem BuildProfile_compiles:
  "case BuildProfile p cs of
     None \<Rightarrow> False
   | Some (Inl e) \<Rightarrow> Policy_Validate p = Some e
   | Some (Inr pr) \<Rightarrow> Policy_Validate p = None \<and>
       map fName (pFilters pr) = psFilters (poSpec p) \<and>
       map (sName \<circ> wsScorer) (pScorers pr) = map scName (psScorers (poSpec p)) \<and>
       map wsWeight (pScorers pr) = map (\<lambda>sc. if scWeight sc = 0 then 1 else scWeight sc) (psScorers (poSpec p)) \<and>
       distinct (map scName (psScorers (poSpec p))) \<and>
       list_all (\<lambda>ws. 1 \<le> wsWeight ws) (pScorers pr) \<and>
       (psRequires (poSpec p) = [] \<or> RequiredAttributes_plugin \<in> set (pFilters pr))"
proof (cases "Policy_Validate p")
  case (Some e)
  then show ?thesis by (simp add: BuildProfile_def)
next
  case None
  then have v: "\<forall>n \<in> set (psFilters (poSpec p)). go_get knownFilters n \<noteq> None"
    "validate_scorers [] (psScorers (poSpec p)) = None"
    "psRequires (poSpec p) \<noteq> [] \<longrightarrow> ''RequiredAttributes'' \<in> set (psFilters (poSpec p))"
    unfolding Policy_Validate_None by blast+
  from v(2) have sc: "\<forall>sc \<in> set (psScorers (poSpec p)). (scName sc = ''Cost'' \<or> go_get knownScorers (scName sc) \<noteq> None)
      \<and> 0 \<le> scWeight sc" and dist: "distinct (map scName (psScorers (poSpec p)))"
    unfolding validate_scorers_None by blast+
  have "map (fName \<circ> (\<lambda>n. the (go_get knownFilters n))) (psFilters (poSpec p)) = psFilters (poSpec p)"
    using v(1) go_get_knownFilters by (intro map_idI) force
  moreover have "map (sName \<circ> wsScorer \<circ> built_scorer cs) (psScorers (poSpec p)) = map scName (psScorers (poSpec p))"
    using sc by (intro map_cong) (simp_all add: build_scorer_Some(2))
  moreover have w: "map (wsWeight \<circ> built_scorer cs) (psScorers (poSpec p))
      = map (\<lambda>sc. if scWeight sc = 0 then 1 else scWeight sc) (psScorers (poSpec p))"
    using sc by (intro map_cong) (simp_all add: build_scorer_Some(3))
  moreover have "\<forall>sc \<in> set (psScorers (poSpec p)). 1 \<le> wsWeight (built_scorer cs sc)"
    using sc by (auto simp: build_scorer_Some(3))
  moreover have "psRequires (poSpec p) = [] \<or>
      RequiredAttributes_plugin \<in> (\<lambda>n. the (go_get knownFilters n)) ` set (psFilters (poSpec p))"
    using v(3) required_attributes_known by blast
  ultimately show ?thesis using dist
    unfolding BuildProfile_valid [OF None]
    by (simp only: option.case sum.case profile.simps map_map o_assoc None list_all_iff set_map ball_simps
        simp_thms image_eqI)
qed

text \<open>C7: A provider chosen under a valid policy satisfies every requirement of the policy exactly,
  whatever the sandbox asked for; and, when the RequiredAttributes filter is enabled, also every
  requirement of the sandbox on a key the policy does not mention.\<close>

theorem policy_requirements_enforced:
  assumes "wf_map (psRequires (poSpec p))" and "wf_map sandboxRequires"
    and "BuildProfile p cs = Some (Inr pr)"
    and "Schedule rnd pr (BuildRequest p name sandboxRequires prefer) cs = Inr d"
  shows "\<exists>c \<in> set cs. dProvider d = cProvider c \<and> (\<forall>(k, v) \<in> set (psRequires (poSpec p)). Attr c k = v) \<and>
    (''RequiredAttributes'' \<in> set (psFilters (poSpec p)) \<longrightarrow>
      (\<forall>(k, v) \<in> set sandboxRequires. go_get (psRequires (poSpec p)) k = None \<longrightarrow> Attr c k = v))"
proof -
  let ?req = "BuildRequest p name sandboxRequires prefer"
  have val: "Policy_Validate p = None"
    using assms(3) by (auto simp: BuildProfile_def split: option.splits)
  then have v: "psRequires (poSpec p) \<noteq> [] \<longrightarrow> ''RequiredAttributes'' \<in> set (psFilters (poSpec p))"
    unfolding Policy_Validate_None by blast
  have pr: "pFilters pr = map (\<lambda>n. the (go_get knownFilters n)) (psFilters (poSpec p))"
    using assms(3) by (auto simp: BuildProfile_valid [OF val])
  from assms(4) obtain i where p: "dProvider d = cProvider (cs ! i)" and t: "cs ! i \<in> set (top_candidates pr ?req cs)"
    by (rule Schedule_Inr)
  note c = top_candidatesD(1,2) [OF t]
  have enf: "Attr (cs ! i) k = v" if "''RequiredAttributes'' \<in> set (psFilters (poSpec p))"
    and "go_get (rqRequires ?req) k = Some v" for k v
  proof -
    have "RequiredAttributes_plugin \<in> set (pFilters pr)"
      unfolding pr set_map by (rule required_attributes_known [OF that(1)])
    with c(2) have "fst (fFilter RequiredAttributes_plugin ?req (cs ! i))" unfolding passes_def by blast
    then have "fst (check_requires (cs ! i) (rqRequires ?req))"
      by (simp add: RequiredAttributes_plugin_def RequiredAttributes_Filter_def)
    with map_of_SomeD [OF that(2)] show ?thesis by (auto simp: check_requires_iff)
  qed
  have req: "go_get (rqRequires ?req) k = (case go_get (psRequires (poSpec p)) k of Some v \<Rightarrow> Some v
      | None \<Rightarrow> go_get sandboxRequires k)" for k
    using assms(1,2) by (auto simp: BuildRequest_def go_maps split: option.splits)
  have "Attr (cs ! i) k = v" if "(k, v) \<in> set (psRequires (poSpec p))" for k v
    using enf [of k v] v that wf_map_get [OF assms(1) that] by (auto simp: req)
  moreover have "Attr (cs ! i) k = v" if "''RequiredAttributes'' \<in> set (psFilters (poSpec p))"
    "(k, v) \<in> set sandboxRequires" "go_get (psRequires (poSpec p)) k = None" for k v
    using enf [of k v] that wf_map_get [OF assms(2) that(2)] by (auto simp: req)
  ultimately show ?thesis using p c(1) by blast
qed

definition ex_policy :: "unit policy" where
  "ex_policy = DefaultPolicy \<lparr>poSpec := (poSpec DefaultPolicy) \<lparr>psRequires := [(''gpu'', ''true'')]\<rparr>\<rparr>"

lemma ex_policy_valid: "Policy_Validate ex_policy = None"
  by (simp add: Policy_Validate_def ex_policy_def DefaultPolicy_def knownFilters_def knownScorers_def)

theorem policy_requirements_enforced_witness:
  "\<exists>pr d. BuildProfile ex_policy [ex_candidate ''a'' 1 0 \<lparr>cAttributes := [(''gpu'', ''true'')]\<rparr>] = Some (Inr pr) \<and>
     Schedule (\<lambda>_. 0) pr (BuildRequest ex_policy ''s'' [(''gpu'', ''false'')] [])
       [ex_candidate ''a'' 1 0 \<lparr>cAttributes := [(''gpu'', ''true'')]\<rparr>] = Inr d \<and> dProvider d = ''a''"
proof -
  let ?c = "ex_candidate ''a'' 1 0 \<lparr>cAttributes := [(''gpu'', ''true'')]\<rparr>"
  let ?req = "BuildRequest ex_policy ''s'' [(''gpu'', ''false'')] []"
  obtain pr where pr: "BuildProfile ex_policy [?c] = Some (Inr pr)"
    using BuildProfile_valid [OF ex_policy_valid] by blast
  have "pFilters pr = [RequiredAttributes_plugin]"
    using pr unfolding BuildProfile_valid [OF ex_policy_valid]
    by (auto simp: ex_policy_def DefaultPolicy_def knownFilters_def)
  moreover have "rqRequires ?req = [(''gpu'', ''true'')]"
    by (simp add: BuildRequest_def ex_policy_def go_copy_def)
  ultimately have "passes pr ?req ?c"
    by (simp add: passes_def RequiredAttributes_plugin_def RequiredAttributes_Filter_def Attr_def get_str_def)
  then obtain d where d: "Schedule (\<lambda>_. 0) pr ?req [?c] = Inr d"
    by (cases "Schedule (\<lambda>_. 0) pr ?req [?c]") (auto simp: Schedule_Inl)
  have wf: "wf_map (psRequires (poSpec ex_policy))" "wf_map [(''gpu'', ''false'')]"
    by (simp_all add: ex_policy_def wf_map_def)
  from policy_requirements_enforced [OF wf pr d] pr d show ?thesis by auto
qed

section \<open>Weights that overflow\<close>

text \<open>
  Validation accepts any weight that is not negative. The weight \<open>2 ^ 63 - 1\<close> makes the product
  with the score 100 wrap around to -100, and the provider without warm capacity wins.
\<close>

definition overflow_policy :: "unit policy" where
  "overflow_policy = DefaultPolicy \<lparr>poSpec := (poSpec DefaultPolicy)
     \<lparr>psScorers := [\<lparr>scName = ''WarmCapacity'', scWeight = 2 ^ 63 - 1\<rparr>]\<rparr>\<rparr>"

text \<open>C40: A policy that validation accepts can make the weighted score wrap around: with the single scorer
  WarmCapacity at weight 2^63-1, the provider without warm capacity beats the one with a full score.\<close>

theorem weight_overflow:
  "Policy_Validate overflow_policy = None \<and>
   (\<exists>pr d. BuildProfile overflow_policy [ex_candidate ''a'' 5 0, ex_candidate ''b'' 0 0] = Some (Inr pr) \<and>
      Schedule (\<lambda>_. 0) pr ex_request [ex_candidate ''a'' 5 0, ex_candidate ''b'' 0 0] = Inr d \<and> dProvider d = ''b'')"
proof -
  let ?cs = "[ex_candidate ''a'' 5 0, ex_candidate ''b'' 0 0]"
  define pr where "pr = \<lparr>pName = ''default'', pFilters = [RequiredAttributes_plugin],
    pScorers = [\<lparr>wsScorer = WarmCapacity_plugin 0, wsWeight = 2 ^ 63 - 1\<rparr>]\<rparr>"
  have val: "Policy_Validate overflow_policy = None"
    by (simp add: Policy_Validate_def overflow_policy_def DefaultPolicy_def knownFilters_def knownScorers_def)
  have built: "BuildProfile overflow_policy ?cs = Some (Inr pr)"
    unfolding BuildProfile_valid [OF val]
    by (simp add: pr_def overflow_policy_def DefaultPolicy_def knownFilters_def built_scorer_def build_scorer_def knownScorers_def)
  have pass: "passes pr ex_request (ex_candidate n w 0)" for n w
    by (simp add: pr_def passes_def RequiredAttributes_plugin_def RequiredAttributes_Filter_def ex_request_def)
  have tot: "total_of pr ex_request (ex_candidate n w 0) = (if w = 5 then -100 else 0)" if "w = 5 \<or> w = 0" for n w
    using that by (auto simp: pr_def total_of_def evaluate_def RequiredAttributes_plugin_def RequiredAttributes_Filter_def
        ex_request_def WarmCapacity_plugin_def WarmCapacity_Score_def clamp_score_def MaxScore_def wrap64_def ex_candidate_def)
  obtain d where d: "Schedule (\<lambda>_. 0) pr ex_request ?cs = Inr d"
    using pass by (cases "Schedule (\<lambda>_. 0) pr ex_request ?cs") (auto simp: Schedule_Inl)
  then obtain i where p: "dProvider d = cProvider (?cs ! i)" and t: "?cs ! i \<in> set (top_candidates pr ex_request ?cs)"
    by (rule Schedule_Inr)
  have "set (top_candidates pr ex_request ?cs) = {ex_candidate ''b'' 0 0}"
    by (auto simp: top_candidates_def pass tot)
  with t p have "dProvider d = ''b''" by simp
  with val built d show ?thesis by blast
qed

end
