(* ===== verification/Ledger.thy ===== *)
theory Ledger
  imports Prelude "HOL-Library.Log_Nat"
begin

unbundle bit_operations_syntax

text \<open>
  \<open>pkg/registry/ledger.go\<close>: the count of warm reservations and cold starts of one provider. Words are
  kept at their width: a 64-bit word packs a second with a count, or the warm capacity with the
  outstanding reservations. Each atomic operation of the code is a function on one word; a
  compare-and-swap loop that succeeds is one application of it, because everything such a loop decides
  from is the word it swaps. Theory \<open>LedgerConc\<close> interleaves these steps; the operations here run
  them without interference.
\<close>

type_synonym u32 = "32 word"
type_synonym u64 = "64 word"

section \<open>Packed words\<close>

definition pack :: "u32 \<Rightarrow> u32 \<Rightarrow> u64" where
  "pack hi lo = push_bit 32 (ucast hi) OR ucast lo"

definition unpack :: "u64 \<Rightarrow> u32 \<times> u32" where
  "unpack w = (ucast (drop_bit 32 w), ucast w)"

lemma bit_high [simp]: "\<not> bit (w :: u32) (32 + n)"
  using bit_imp_le_length [of w "32 + n"] by auto

lemma unpack_pack [simp]: "unpack (pack hi lo) = (hi, lo)"
  unfolding unpack_def pack_def
  by (auto intro!: bit_word_eqI simp: bit_simps dest: bit_imp_le_length)

lemma pack_unpack: "unpack w = (hi, lo) \<Longrightarrow> pack hi lo = w"
  unfolding unpack_def pack_def
  by (auto intro!: bit_word_eqI simp: bit_simps dest: bit_imp_le_length)

lemma unpack_0 [simp]: "unpack 0 = (0, 0)"
  by (simp add: unpack_def)

abbreviation hi_of :: "u64 \<Rightarrow> u32" where "hi_of w \<equiv> fst (unpack w)"
abbreviation lo_of :: "u64 \<Rightarrow> u32" where "lo_of w \<equiv> snd (unpack w)"

section \<open>State\<close>

record ring =
  buckets :: "u64 list"
  mask32 :: u32

record ledger =
  l_state :: u64
  l_reservations :: ring
  l_carry :: u64
  l_clearedSec :: u32
  l_cold :: ring
  l_coldWindow :: u32

text \<open>\<open>bits.Len\<close>.\<close>

definition bits_len :: "u64 \<Rightarrow> nat" where
  "bits_len x = floorlog 2 (unat x)"

definition newRing :: "u64 \<Rightarrow> ring" where
  "newRing seconds =
     (let size = push_bit (bits_len (seconds - 1)) (1 :: u32);
          size = (if size < 8 then 8 else size)
      in \<lparr>buckets = replicate (unat size) 0, mask32 = size - 1\<rparr>)"

definition newLedger :: "duration \<Rightarrow> duration \<Rightarrow> duration \<Rightarrow> ledger" where
  "newLedger grace fetchTimeout coldWindow =
     (let window = (word_of_int (go_div coldWindow second) :: u32);
          window = (if window < 1 then 1 else window)
      in \<lparr>l_state = 0,
          l_reservations = newRing (word_of_int (go_div (wrap64 (grace + fetchTimeout)) second) + 2),
          l_carry = 0, l_clearedSec = 0,
          l_cold = newRing (ucast window + 1),
          l_coldWindow = window\<rparr>)"

definition epoch :: "gotime \<Rightarrow> u32" where
  "epoch t = word_of_int (unix_seconds t)"

section \<open>Atomic steps on one word\<close>

text \<open>One bucket counts a second: the new bucket and what could not be kept.\<close>

definition add_word :: "u32 \<Rightarrow> u64 \<Rightarrow> u64 \<times> u32 \<times> u32" where
  "add_word sec old = (case unpack old of (e, c) \<Rightarrow>
     if e = sec then (pack sec (c + 1), 0, 0)
     else if e > sec then (old, sec, 1)
     else (pack sec 1, e, c))"

text \<open>One count leaves a bucket or the carry.\<close>

definition dec_word :: "u64 \<Rightarrow> u64 option" where
  "dec_word old = (case unpack old of (e, c) \<Rightarrow>
     if c = 0 then None else Some (if c > 1 then pack e (c - 1) else 0))"

definition take_at_word :: "u32 \<Rightarrow> u64 \<Rightarrow> u64 option" where
  "take_at_word sec old = (case unpack old of (e, c) \<Rightarrow>
     if c = 0 \<or> e \<noteq> sec then None else Some (if c > 1 then pack e (c - 1) else 0))"

definition take_carry_word :: "u32 \<Rightarrow> u64 \<Rightarrow> u64 option" where
  "take_carry_word minSec old = (case unpack old of (e, c) \<Rightarrow>
     if c = 0 \<or> e < minSec then None else Some (if c > 1 then pack e (c - 1) else 0))"

definition add_carry_word :: "u32 \<Rightarrow> u32 \<Rightarrow> u64 \<Rightarrow> u64" where
  "add_carry_word sec n old = (case unpack old of (e, c) \<Rightarrow> pack (if sec > e then sec else e) (c + n))"

text \<open>A bucket or the carry is dropped if all of it is before the cutoff; what it held is freed.\<close>

definition drop_word :: "u32 \<Rightarrow> u64 \<Rightarrow> u64 \<times> u32" where
  "drop_word sec old = (case unpack old of (e, c) \<Rightarrow> if c = 0 \<or> e \<ge> sec then (old, 0) else (0, c))"

definition set_warm_word :: "int \<Rightarrow> u64 \<Rightarrow> u64" where
  "set_warm_word n old =
     (let warm = (if n > 2 ^ 32 - 1 then - 1 else if n > 0 then word_of_int n else 0 :: u32)
      in pack warm (lo_of old))"

definition reserve_word :: "u64 \<Rightarrow> u64 option" where
  "reserve_word old = (case unpack old of (warm, out) \<Rightarrow> if out \<ge> warm then None else Some (pack warm (out + 1)))"

definition decrement_word :: "u64 \<Rightarrow> u64 option" where
  "decrement_word old = (case unpack old of (warm, out) \<Rightarrow> if out = 0 then None else Some (pack warm (out - 1)))"

definition free_word :: "u32 \<Rightarrow> u64 \<Rightarrow> u64" where
  "free_word freed old = (case unpack old of (warm, out) \<Rightarrow> pack warm (out - freed))"

section \<open>Ring operations\<close>

definition slot :: "ring \<Rightarrow> u32 \<Rightarrow> nat" where
  "slot r sec = unat (sec AND mask32 r)"

definition ring_put :: "ring \<Rightarrow> nat \<Rightarrow> u64 \<Rightarrow> ring" where
  "ring_put r i w = r\<lparr>buckets := (buckets r)[i := w]\<rparr>"

definition ring_add :: "ring \<Rightarrow> u32 \<Rightarrow> ring \<times> u32 \<times> u32" where
  "ring_add r sec = (case add_word sec (buckets r ! slot r sec) of (w, spilledSec, spilled) \<Rightarrow>
     (ring_put r (slot r sec) w, spilledSec, spilled))"

definition sumSince :: "ring \<Rightarrow> u32 \<Rightarrow> int" where
  "sumSince r since = sum_list (map (\<lambda>w. case unpack w of (e, c) \<Rightarrow>
     if c > 0 \<and> e \<ge> since then uint c else 0) (buckets r))"

definition takeAt :: "ring \<Rightarrow> u32 \<Rightarrow> ring option" where
  "takeAt r sec = map_option (ring_put r (slot r sec)) (take_at_word sec (buckets r ! slot r sec))"

fun take_scan :: "ring \<Rightarrow> nat list \<Rightarrow> ring option" where
  "take_scan r [] = None"
| "take_scan r (i # is) =
     (case dec_word (buckets r ! i) of None \<Rightarrow> take_scan r is | Some w \<Rightarrow> Some (ring_put r i w))"

definition takeOne :: "ring \<Rightarrow> u32 \<Rightarrow> ring option" where
  "takeOne r sec = take_scan r (map (\<lambda>step. slot r (sec - word_of_nat step)) [0..<unat (mask32 r) + 1])"

section \<open>Ledger operations\<close>

definition setWarm :: "int \<Rightarrow> ledger \<Rightarrow> ledger" where
  "setWarm n l = l\<lparr>l_state := set_warm_word n (l_state l)\<rparr>"

definition reserved :: "ledger \<Rightarrow> int" where
  "reserved l = uint (lo_of (l_state l))"

definition addCarry :: "u32 \<Rightarrow> u32 \<Rightarrow> ledger \<Rightarrow> ledger" where
  "addCarry sec n l = l\<lparr>l_carry := add_carry_word sec n (l_carry l)\<rparr>"

text \<open>\<open>record\<close> in the code.\<close>

definition record_at :: "u32 \<Rightarrow> ledger \<Rightarrow> ledger" where
  "record_at sec l = (case ring_add (l_reservations l) sec of (r, e, c) \<Rightarrow>
     let l = l\<lparr>l_reservations := r\<rparr> in if c > 0 then addCarry e c l else l)"

definition tryReserve :: "gotime \<Rightarrow> ledger \<Rightarrow> ledger \<times> u32 \<times> bool" where
  "tryReserve now l =
     (case reserve_word (l_state l) of
        None \<Rightarrow> (l, 0, False)
      | Some w \<Rightarrow> let sec = epoch now in (record_at sec (l\<lparr>l_state := w\<rparr>), sec, True))"

definition decrementState :: "ledger \<Rightarrow> ledger \<times> bool" where
  "decrementState l =
     (case decrement_word (l_state l) of None \<Rightarrow> (l, False) | Some w \<Rightarrow> (l\<lparr>l_state := w\<rparr>, True))"

definition takeFromCarryAt :: "u32 \<Rightarrow> ledger \<Rightarrow> ledger option" where
  "takeFromCarryAt minSec l = map_option (\<lambda>w. l\<lparr>l_carry := w\<rparr>) (take_carry_word minSec (l_carry l))"

definition releaseAt :: "u32 \<Rightarrow> ledger \<Rightarrow> ledger \<times> bool" where
  "releaseAt sec l =
     (case takeAt (l_reservations l) sec of
        Some r \<Rightarrow> decrementState (l\<lparr>l_reservations := r\<rparr>)
      | None \<Rightarrow>
          (if sec < l_clearedSec l then (l, False)
           else (case takeFromCarryAt sec l of None \<Rightarrow> (l, False) | Some l' \<Rightarrow> decrementState l')))"

text \<open>\<open>release\<close> in the code.\<close>

definition release_now :: "gotime \<Rightarrow> ledger \<Rightarrow> ledger \<times> bool" where
  "release_now now l =
     (case takeOne (l_reservations l) (epoch now) of
        Some r \<Rightarrow> decrementState (l\<lparr>l_reservations := r\<rparr>)
      | None \<Rightarrow> (case takeFromCarryAt 0 l of None \<Rightarrow> (l, False) | Some l' \<Rightarrow> decrementState l'))"

definition recordCold :: "gotime \<Rightarrow> ledger \<Rightarrow> ledger" where
  "recordCold now l = l\<lparr>l_cold := fst (ring_add (l_cold l) (epoch now))\<rparr>"

definition inFlightCold :: "gotime \<Rightarrow> ledger \<Rightarrow> int" where
  "inFlightCold now l = sumSince (l_cold l) (epoch now - l_coldWindow l + 1)"

definition clearBefore :: "gotime \<Rightarrow> ledger \<Rightarrow> ledger" where
  "clearBefore cutoff l =
     (let sec = epoch cutoff;
          l = (if sec \<le> l_clearedSec l then l else l\<lparr>l_clearedSec := sec\<rparr>);
          bs = buckets (l_reservations l);
          freed = sum_list (map (snd \<circ> drop_word sec) bs) + snd (drop_word sec (l_carry l));
          l = l\<lparr>l_reservations := (l_reservations l)\<lparr>buckets := map (fst \<circ> drop_word sec) bs\<rparr>,
                l_carry := fst (drop_word sec (l_carry l))\<rparr>
      in if freed = 0 then l else l\<lparr>l_state := free_word freed (l_state l)\<rparr>)"

definition available :: "ledger \<Rightarrow> int" where
  "available l = (case unpack (l_state l) of (warm, out) \<Rightarrow> if out \<ge> warm then 0 else uint (warm - out))"


section \<open>Counts\<close>

abbreviation cnt :: "u64 \<Rightarrow> nat" where "cnt w \<equiv> unat (lo_of w)"

lemma u32_bound: "unat (w :: u32) < 2 ^ 32"
  by (rule order_less_le_trans [OF unsigned_less]) simp

lemma unat_inc: "unat (c :: u32) + 1 < 2 ^ 32 \<Longrightarrow> unat (c + 1) = unat c + 1"
  by (simp add: unat_word_ariths(1))

lemma unat_dec: "(c :: u32) \<noteq> 0 \<Longrightarrow> Suc (unat (c - 1)) = unat c"
  using unat_minus_one [of c] unat_gt_0 [of c] by simp

lemma word_gt_1: "(1 :: u32) < c \<longleftrightarrow> c \<noteq> 0 \<and> c \<noteq> 1"
  by unat_arith

lemma unat_add_small: "unat (a :: u32) + unat b < 2 ^ 32 \<Longrightarrow> unat (a + b) = unat a + unat b"
  by (simp add: unat_word_ariths(1))

named_theorems counts \<open>what the word operations do to the counts\<close>

lemma cnt_add_word [counts]:
  assumes "add_word sec w = (w', e, c)" and "cnt w + 1 < 2 ^ 32"
  shows "cnt w' + unat c = cnt w + 1"
  using assms by (auto simp: add_word_def unat_inc split: prod.splits if_splits)

lemma dec_some: "c \<noteq> 0 \<Longrightarrow> unat (c :: u32) = cnt (if c > 1 then pack e (c - 1) else 0) + 1"
  by (simp add: word_gt_1 unat_dec)

lemma cnt_dec_word [counts]: "dec_word w = Some w' \<Longrightarrow> cnt w = cnt w' + 1"
  using dec_some [of "lo_of w" "hi_of w"] by (cases "unpack w") (auto simp: dec_word_def simp del: One_nat_def split: if_split_asm)

lemma cnt_take_at_word [counts]: "take_at_word sec w = Some w' \<Longrightarrow> cnt w = cnt w' + 1"
  using dec_some [of "lo_of w" "hi_of w"] by (cases "unpack w") (auto simp: take_at_word_def simp del: One_nat_def split: if_split_asm)

lemma cnt_take_carry_word [counts]: "take_carry_word sec w = Some w' \<Longrightarrow> cnt w = cnt w' + 1"
  using dec_some [of "lo_of w" "hi_of w"] by (cases "unpack w") (auto simp: take_carry_word_def simp del: One_nat_def split: if_split_asm)

lemma cnt_add_carry_word [counts]: "cnt w + unat n < 2 ^ 32 \<Longrightarrow> cnt (add_carry_word sec n w) = cnt w + unat n"
  by (auto simp: add_carry_word_def unat_add_small split: prod.splits)

lemma cnt_drop_word [counts]: "cnt w = cnt (fst (drop_word sec w)) + unat (snd (drop_word sec w))"
  by (auto simp: drop_word_def split: prod.splits)

lemma cnt_reserve_word [counts]:
  assumes "reserve_word w = Some w'"
  shows "cnt w' = cnt w + 1" and "cnt w < unat (hi_of w)" and "hi_of w' = hi_of w"
proof -
  obtain warm out where u: "unpack w = (warm, out)" by (cases "unpack w")
  with assms have lt: "out < warm" and w': "w' = pack warm (out + 1)"
    by (auto simp: reserve_word_def split: if_splits)
  have "unat out + 1 < 2 ^ 32"
    using lt u32_bound [of warm] by (simp add: word_less_nat_alt)
  then show "cnt w' = cnt w + 1" "cnt w < unat (hi_of w)" "hi_of w' = hi_of w"
    using lt by (simp_all add: u w' unat_inc word_less_nat_alt)
qed

lemma reserve_word_None: "reserve_word w = None \<longleftrightarrow> unat (hi_of w) \<le> cnt w"
  by (auto simp: reserve_word_def word_le_nat_alt split: prod.splits)

lemma cnt_decrement_word [counts]:
  assumes "0 < cnt w"
  shows "\<exists>w'. decrement_word w = Some w' \<and> cnt w' + 1 = cnt w \<and> hi_of w' = hi_of w"
  using assms by (auto simp: decrement_word_def unat_gt_0 unat_dec split: prod.splits)

lemma cnt_free_word [counts]:
  "unat f \<le> cnt w \<Longrightarrow> cnt (free_word f w) + unat f = cnt w \<and> hi_of (free_word f w) = hi_of w"
  by (auto simp: free_word_def unat_sub word_le_nat_alt split: prod.splits)

lemma set_warm_word_cnt [counts]: "cnt (set_warm_word n w) = cnt w"
  by (simp add: set_warm_word_def Let_def)

lemma set_warm_word_hi:
  "0 \<le> n \<Longrightarrow> n < 2 ^ 32 \<Longrightarrow> unat (hi_of (set_warm_word n w)) = nat n"
  by (cases "n = 0") (simp_all add: set_warm_word_def unat_eq_nat_uint unsigned_of_int take_bit_int_eq_self)


section \<open>Rings\<close>

definition wf_ring :: "ring \<Rightarrow> bool" where
  "wf_ring r \<longleftrightarrow> (\<exists>k \<in> {3..31}. length (buckets r) = 2 ^ k \<and> mask32 r = mask k)"

definition ring_cnt :: "ring \<Rightarrow> nat" where
  "ring_cnt r = sum_list (map cnt (buckets r))"

lemma slot_mod: "mask32 r = mask k \<Longrightarrow> slot r sec = unat sec mod 2 ^ k"
  unfolding slot_def by (simp only: take_bit_eq_mask [symmetric] unsigned_take_bit_eq) (simp only: take_bit_eq_mod)

lemma slot_less: "wf_ring r \<Longrightarrow> slot r sec < length (buckets r)"
  by (auto simp: wf_ring_def slot_mod)

lemma ring_put_sel [simp]: "mask32 (ring_put r i w) = mask32 r" "length (buckets (ring_put r i w)) = length (buckets r)"
  "buckets (ring_put r i w) = (buckets r)[i := w]"
  by (simp_all add: ring_put_def)

lemma wf_ring_put [simp]: "wf_ring (ring_put r i w) = wf_ring r"
  by (simp add: wf_ring_def)

lemma ring_cnt_put:
  "i < length (buckets r) \<Longrightarrow> ring_cnt (ring_put r i w) + cnt (buckets r ! i) = ring_cnt r + cnt w"
  using member_le_sum_list [of "cnt (buckets r ! i)" "map cnt (buckets r)"]
  by (simp add: ring_cnt_def map_update sum_list_update)

lemma cnt_le_ring: "i < length (buckets r) \<Longrightarrow> cnt (buckets r ! i) \<le> ring_cnt r"
  unfolding ring_cnt_def by (rule member_le_sum_list) simp_all

lemma unat_2p:
  assumes "n < 32"
  shows "unat (2 ^ n :: u32) = 2 ^ n"
proof -
  have "unat (push_bit n (1 :: u32)) = take_bit 32 (push_bit n 1)"
    using unsigned_push_bit_eq [of n "1 :: u32", where 'a = nat] by (simp only: unsigned_1) simp
  also have "\<dots> = 2 ^ n" using assms by (simp add: take_bit_nat_eq_self)
  finally show ?thesis by simp
qed

lemma newRing_size:
  "\<exists>k \<in> {3..31}. newRing seconds = \<lparr>buckets = replicate (2 ^ k) 0, mask32 = mask k\<rparr> \<and>
     (bits_len (seconds - 1) < 32 \<longrightarrow> bits_len (seconds - 1) \<le> k)"
proof -
  let ?n = "bits_len (seconds - 1)" and ?s = "push_bit (bits_len (seconds - 1)) (1 :: u32)"
  show ?thesis
  proof (cases "3 \<le> ?n \<and> ?n < 32")
    case True
    have "(2 :: nat) ^ 3 \<le> 2 ^ ?n" using True by (intro power_increasing) simp_all
    then have "\<not> ?s < 8" using True by (simp add: word_less_nat_alt unat_2p not_less)
    then have "newRing seconds = \<lparr>buckets = replicate (2 ^ ?n) 0, mask32 = mask ?n\<rparr>"
      using True by (simp add: newRing_def unat_2p) (simp add: mask_eq_exp_minus_1 push_bit_eq_mult)
    with True show ?thesis by (intro bexI [of _ ?n]) simp_all
  next
    case False
    have "?s < 8"
    proof (cases "32 \<le> ?n")
      case True
      then have "(2 :: u32) ^ ?n = 0" by (subst exp_eq_zero_iff) simp
      then show ?thesis by (simp only: push_bit_of_1) simp
    next
      case False
      with \<open>\<not> (3 \<le> ?n \<and> ?n < 32)\<close> have "?n \<le> 2" by simp
      then have "(2 :: nat) ^ ?n \<le> 2 ^ 2" by (intro power_increasing) simp_all
      then show ?thesis using False by (simp add: word_less_nat_alt unat_2p)
    qed
    then have "newRing seconds = \<lparr>buckets = replicate (2 ^ 3) 0, mask32 = mask 3\<rparr>"
      by (simp add: newRing_def mask_eq_exp_minus_1)
    with False show ?thesis by (intro bexI [of _ 3]) auto
  qed
qed

lemma newRing_wf: "wf_ring (newRing seconds)" and newRing_cnt: "ring_cnt (newRing seconds) = 0"
  using newRing_size [of seconds] by (auto simp: wf_ring_def ring_cnt_def sum_list_replicate)

text \<open>\<open>newRing\<close> covers at least the seconds asked for, as long as these fit.\<close>

lemma newRing_covers:
  assumes "0 < seconds" and "unat seconds \<le> 2 ^ 31"
  shows "unat seconds \<le> length (buckets (newRing seconds))"
proof -
  have pos: "unat (seconds - 1) + 1 = unat seconds"
    using assms(1) unat_minus_one [of seconds] unat_gt_0 [of seconds] by (auto simp: word_less_nat_alt)
  have lt: "unat (seconds - 1) < 2 ^ bits_len (seconds - 1)"
    unfolding bits_len_def using floorlog_bounds [of "unat (seconds - 1)" 2]
    by (cases "unat (seconds - 1) = 0") auto
  have "bits_len (seconds - 1) \<le> 31"
    unfolding bits_len_def using assms(2) pos by (intro floorlog_leI) simp_all
  with newRing_size [of seconds] obtain k where k: "newRing seconds = \<lparr>buckets = replicate (2 ^ k) 0, mask32 = mask k\<rparr>"
    "bits_len (seconds - 1) \<le> k" by auto
  have "(2 :: nat) ^ bits_len (seconds - 1) \<le> 2 ^ k" using k(2) by (intro power_increasing) simp_all
  with lt pos have "unat seconds \<le> 2 ^ k" by linarith
  with k(1) show ?thesis by simp
qed

end
