(* ===== verification/ColdStarts.thy ===== *)
theory ColdStarts
  imports Ledger
begin

text \<open>
  The count of recent cold starts. The abstract specification is the list of the seconds at which cold
  placements were recorded; the ring of one-second buckets answers exactly the number of those within
  the window, although a bucket only remembers its latest second.
\<close>

definition secs_at :: "ring \<Rightarrow> nat list \<Rightarrow> nat \<Rightarrow> nat list" where
  "secs_at r S i = filter (\<lambda>s. s mod length (buckets r) = i) S"

definition bucket_word :: "nat list \<Rightarrow> u64" where
  "bucket_word ss = (if ss = [] then 0 else pack (of_nat (last ss)) (of_nat (count_list ss (last ss))))"

text \<open>Each bucket holds the latest second of its residue class with its multiplicity.\<close>

definition represents :: "ring \<Rightarrow> nat list \<Rightarrow> bool" where
  "represents r S \<longleftrightarrow> wf_ring r \<and> sorted S \<and> (\<forall>s \<in> set S. s < 2 ^ 32) \<and> length S < 2 ^ 32 \<and>
     (\<forall>i < length (buckets r). buckets r ! i = bucket_word (secs_at r S i))"

lemma unat_small: "s < 2 ^ 32 \<Longrightarrow> unat (of_nat s :: u32) = s"
  by (simp add: unat_of_nat take_bit_nat_eq_self)

lemma unat_small64: "s < 2 ^ 64 \<Longrightarrow> unat (of_nat s :: u64) = s"
  by (simp add: unat_of_nat take_bit_nat_eq_self)

lemma of_nat_le: "s < 2 ^ 32 \<Longrightarrow> t < 2 ^ 32 \<Longrightarrow> (of_nat s :: u32) \<le> of_nat t \<longleftrightarrow> s \<le> t"
  by (simp add: word_le_nat_alt unat_small)

lemma of_nat_eq: "s < 2 ^ 32 \<Longrightarrow> t < 2 ^ 32 \<Longrightarrow> (of_nat s :: u32) = of_nat t \<longleftrightarrow> s = t"
  using of_nat_le [of s t] of_nat_le [of t s] by (auto intro: antisym)

lemma slot_residue:
  assumes "wf_ring r" and "s < 2 ^ 32"
  shows "slot r (of_nat s) = s mod length (buckets r)"
proof -
  obtain k where "length (buckets r) = 2 ^ k" "mask32 r = mask k" using assms(1) by (auto simp: wf_ring_def)
  with assms(2) show ?thesis by (simp add: slot_mod unat_small)
qed

text \<open>Recording a second not before any earlier one.\<close>

lemma add_word_bucket:
  assumes "sorted (ss @ [s])" and "s < 2 ^ 32" and "length ss < 2 ^ 32 - 1" and "\<forall>t \<in> set ss. t < 2 ^ 32"
  shows "fst (add_word (of_nat s) (bucket_word ss)) = bucket_word (ss @ [s])"
proof (cases "ss = []")
  case True
  then show ?thesis by (auto simp: add_word_def bucket_word_def)
next
  case False
  let ?m = "last ss"
  have m: "?m < 2 ^ 32" "?m \<le> s" using assms(1,4) False by (auto simp: sorted_append)
  have u: "unpack (bucket_word ss) = (of_nat ?m, of_nat (count_list ss ?m))"
    using False by (simp add: bucket_word_def)
  show ?thesis
  proof (cases "?m = s")
    case True
    then show ?thesis using False by (simp add: add_word_def u bucket_word_def add.commute)
  next
    case False
    have "sorted (butlast ss @ [?m])" using assms(1) \<open>ss \<noteq> []\<close> by (simp add: sorted_append)
    then have "\<forall>t \<in> set (butlast ss @ [?m]). t \<le> ?m" unfolding sorted_append by auto
    then have "\<forall>t \<in> set ss. t \<le> ?m" using \<open>ss \<noteq> []\<close> by simp
    with m(2) False have "s \<notin> set ss" by auto
    then have "count_list ss s = 0" by (simp add: count_list_0_iff)
    moreover have "\<not> (of_nat s :: u32) < of_nat ?m" "(of_nat ?m :: u32) \<noteq> of_nat s"
      using m assms(2) False by (simp_all add: not_less of_nat_le of_nat_eq)
    ultimately show ?thesis using \<open>ss \<noteq> []\<close> by (simp add: add_word_def u bucket_word_def)
  qed
qed

lemma secs_at_put [simp]: "secs_at (ring_put r i w) S j = secs_at r S j"
  by (simp add: secs_at_def)

lemma represents_add:
  assumes "represents r S" and "\<forall>t \<in> set S. t \<le> s" and "s < 2 ^ 32" and "length S < 2 ^ 32 - 1"
  shows "represents (fst (ring_add r (of_nat s))) (S @ [s])"
proof -
  let ?i = "s mod length (buckets r)"
  have wf: "wf_ring r" and S: "sorted S" "\<forall>t \<in> set S. t < 2 ^ 32"
    and b: "\<And>i. i < length (buckets r) \<Longrightarrow> buckets r ! i = bucket_word (secs_at r S i)"
    using assms(1) by (auto simp: represents_def)
  have i: "?i < length (buckets r)" using slot_less [OF wf, of "of_nat s"] by (simp add: slot_residue [OF wf assms(3)])
  have put: "fst (ring_add r (of_nat s)) = ring_put r ?i (fst (add_word (of_nat s) (buckets r ! ?i)))"
    by (simp add: ring_add_def slot_residue [OF wf assms(3)] split: prod.splits)
  have sub: "set (secs_at r S ?i) \<subseteq> set S" "length (secs_at r S ?i) \<le> length S" by (auto simp: secs_at_def)
  have "sorted (secs_at r S ?i @ [s])"
    using S(1) assms(2) sub(1) by (auto simp: sorted_append secs_at_def sorted_wrt_filter)
  then have new: "fst (add_word (of_nat s) (buckets r ! ?i)) = bucket_word (secs_at r S ?i @ [s])"
    using add_word_bucket [of "secs_at r S ?i" s] assms(3,4) sub S(2) b [OF i] by auto
  have "buckets (ring_put r ?i (bucket_word (secs_at r S ?i @ [s]))) ! j = bucket_word (secs_at r (S @ [s]) j)"
    if "j < length (buckets r)" for j
    using that i b [OF that] by (cases "j = ?i") (auto simp: secs_at_def)
  then show ?thesis
    unfolding represents_def put new using wf S assms by (auto simp: sorted_append less_imp_le)
qed

section \<open>The window\<close>

lemma sum_classes:
  assumes "0 < (n :: nat)"
  shows "(\<Sum>i<n. length (filter (\<lambda>s. s mod n = i \<and> Q s) S)) = length (filter Q S)"
proof (induction S)
  case (Cons s S)
  have "(\<Sum>i<n. length (filter (\<lambda>s. s mod n = i \<and> Q s) (s # S)))
      = (\<Sum>i<n. (if s mod n = i \<and> Q s then 1 else 0) + length (filter (\<lambda>s. s mod n = i \<and> Q s) S))"
    by (rule sum.cong) auto
  also have "\<dots> = (\<Sum>i<n. if i = s mod n then (if Q s then 1 else 0) else 0) + length (filter Q S)"
    using Cons by (simp add: sum.distrib)
  finally show ?case using assms by simp
qed simp

text \<open>Seconds of one residue class that lie in a window shorter than the ring are all the latest one.\<close>

lemma class_window:
  fixes since :: nat
  assumes "sorted ss" and "\<forall>t \<in> set ss. t mod n = i" and "\<forall>t \<in> set ss. t < since + n" and "ss \<noteq> []"
  shows "length (filter (\<lambda>t. since \<le> t) ss) = (if since \<le> last ss then count_list ss (last ss) else 0)"
proof -
  have "sorted (butlast ss @ [last ss])" using assms(1,4) by simp
  then have "\<forall>t \<in> set (butlast ss @ [last ss]). t \<le> last ss" unfolding sorted_append by auto
  then have le: "\<forall>t \<in> set ss. t \<le> last ss" using assms(4) by simp
  have eq: "since \<le> t \<longleftrightarrow> t = last ss" if "t \<in> set ss" "since \<le> last ss" for t
  proof
    assume "since \<le> t"
    have "last ss \<in> set ss" using assms(4) by simp
    then have "last ss mod n = t mod n" "last ss < since + n" using assms(2,3) that(1) by auto
    then have "n dvd last ss - t" "last ss - t < n"
      using mod_eq_dvd_iff_nat [of t "last ss" n] le that(1) \<open>since \<le> t\<close> by auto
    then have "last ss - t = 0" by (meson dvd_imp_le not_less zero_less_iff_neq_zero)
    with le that(1) show "t = last ss" by auto
  qed (use that(2) in simp)
  show ?thesis
  proof (cases "since \<le> last ss")
    case True
    then have "filter (\<lambda>t. since \<le> t) ss = filter (\<lambda>t. last ss = t) ss"
      using eq by (intro filter_cong) auto
    with True show ?thesis by (simp add: count_list_eq_length_filter)
  next
    case False
    with le have "filter (\<lambda>t. since \<le> t) ss = []" by (auto simp: filter_empty_conv)
    with False show ?thesis by simp
  qed
qed

lemma count_list_pos: "x \<in> set xs \<Longrightarrow> 0 < count_list xs x"
  by (induction xs) auto

lemma sumSince_window:
  assumes "represents r S" and "\<forall>t \<in> set S. t < since + length (buckets r)" and "since < 2 ^ 32"
  shows "sumSince r (of_nat since) = int (length (filter (\<lambda>t. since \<le> t) S))"
proof -
  let ?n = "length (buckets r)"
  let ?f = "\<lambda>w. case unpack w of (e, c) \<Rightarrow> if c > 0 \<and> e \<ge> of_nat since then uint c else 0"
  have S: "sorted S" "\<forall>t \<in> set S. t < 2 ^ 32" "length S < 2 ^ 32"
    and b: "\<And>i. i < ?n \<Longrightarrow> buckets r ! i = bucket_word (secs_at r S i)" and wf: "wf_ring r"
    using assms(1) by (auto simp: represents_def)
  have n: "0 < ?n" using wf by (auto simp: wf_ring_def)
  have f: "?f (buckets r ! i) = int (length (filter (\<lambda>t. t mod ?n = i \<and> since \<le> t) S))" if "i < ?n" for i
  proof (cases "secs_at r S i = []")
    case True
    then have "filter (\<lambda>t. t mod ?n = i \<and> since \<le> t) S = []" by (auto simp: secs_at_def filter_empty_conv)
    moreover have "?f (buckets r ! i) = 0" unfolding b [OF that] True bucket_word_def by simp
    ultimately show ?thesis by (simp only: list.size of_nat_0)
  next
    case False
    let ?ss = "secs_at r S i"
    have ss: "sorted ?ss" "\<forall>t \<in> set ?ss. t mod ?n = i" "\<forall>t \<in> set ?ss. t < since + ?n" "last ?ss < 2 ^ 32"
      using S assms(2) last_in_set [OF False] by (auto simp: secs_at_def sorted_wrt_filter)
    have "count_list ?ss (last ?ss) \<le> length S"
      by (metis (no_types, lifting) count_le_length length_filter_le order_trans secs_at_def)
    then have c: "unat (of_nat (count_list ?ss (last ?ss)) :: u32) = count_list ?ss (last ?ss)"
      using S(3) by (intro unat_small) simp
    then have pos: "(0 :: u32) < of_nat (count_list ?ss (last ?ss))"
      unfolding word_less_nat_alt c using count_list_pos [OF last_in_set [OF False]] by simp
    have "uint (of_nat (count_list ?ss (last ?ss)) :: u32) = int (unat (of_nat (count_list ?ss (last ?ss)) :: u32))"
      by simp
    then have u: "uint (of_nat (count_list ?ss (last ?ss)) :: u32) = int (count_list ?ss (last ?ss))"
      unfolding c .
    have "unpack (buckets r ! i) = (of_nat (last ?ss), of_nat (count_list ?ss (last ?ss)))"
      unfolding b [OF that] bucket_word_def using False by simp
    then have "?f (buckets r ! i) = (if since \<le> last ?ss then int (count_list ?ss (last ?ss)) else 0)"
      using pos u of_nat_le [OF assms(3) ss(4)] by (simp only: prod.case simp_thms)
    also have "\<dots> = int (length (filter (\<lambda>t. since \<le> t) ?ss))"
      using class_window [OF ss(1-3) False] by simp
    also have "filter (\<lambda>t. since \<le> t) ?ss = filter (\<lambda>t. t mod ?n = i \<and> since \<le> t) S"
      by (simp add: secs_at_def conj_commute)
    finally show ?thesis .
  qed
  have "sumSince r (of_nat since) = (\<Sum>i<?n. ?f (buckets r ! i))"
    by (simp add: sumSince_def sum_list_sum_nth atLeast0LessThan)
  also have "\<dots> = (\<Sum>i<?n. int (length (filter (\<lambda>t. t mod ?n = i \<and> since \<le> t) S)))"
    by (rule sum.cong) (simp_all add: f)
  also have "\<dots> = int (length (filter (\<lambda>t. since \<le> t) S))"
    using sum_classes [OF n, of "\<lambda>t. since \<le> t" S] by (simp flip: of_nat_sum)
  finally show ?thesis .
qed

section \<open>The ledger's count of cold starts\<close>

lemma represents_newRing: "represents (newRing seconds) []"
proof -
  obtain k where "newRing seconds = \<lparr>buckets = replicate (2 ^ k) 0, mask32 = mask k\<rparr>"
    using newRing_size [of seconds] by blast
  then show ?thesis using newRing_wf [of seconds] by (simp add: represents_def secs_at_def bucket_word_def)
qed

lemma epoch_nat: "0 \<le> unix_seconds t \<Longrightarrow> epoch t = of_nat (nat (unix_seconds t))"
  by (simp add: epoch_def)

definition secs_of :: "gotime list \<Rightarrow> nat list" where
  "secs_of ts = map (\<lambda>t. nat (unix_seconds t)) ts"

lemma ring_add_length: "length (buckets (fst (ring_add r s))) = length (buckets r)"
  by (simp add: ring_add_def split: prod.splits)

lemma recordCold_sel [simp]: "l_coldWindow (recordCold t l) = l_coldWindow l"
  "length (buckets (l_cold (recordCold t l))) = length (buckets (l_cold l))"
  by (simp_all add: recordCold_def ring_add_length)

lemma fold_recordCold:
  assumes "represents (l_cold l) S" and "sorted (S @ secs_of ts)" and "length S + length ts < 2 ^ 32"
    and "\<forall>t \<in> set ts. 0 \<le> unix_seconds t \<and> unix_seconds t < 2 ^ 32"
  shows "represents (l_cold (fold recordCold ts l)) (S @ secs_of ts) \<and>
    l_coldWindow (fold recordCold ts l) = l_coldWindow l \<and>
    length (buckets (l_cold (fold recordCold ts l))) = length (buckets (l_cold l))"
  using assms
proof (induction ts arbitrary: l S)
  case (Cons t ts)
  let ?s = "nat (unix_seconds t)"
  have s: "?s < 2 ^ 32" "epoch t = of_nat ?s" using Cons.prems(4) by (auto simp: epoch_nat)
  have "represents (fst (ring_add (l_cold l) (of_nat ?s))) (S @ [?s])"
    using Cons.prems s by (intro represents_add) (auto simp: secs_of_def sorted_append)
  then have "represents (l_cold (recordCold t l)) (S @ [?s])" by (simp add: recordCold_def s)
  from Cons.IH [OF this] Cons.prems show ?case by (simp add: secs_of_def)
qed (simp add: secs_of_def)

lemma newLedger_cold:
  assumes "0 \<le> coldWindow" and "coldWindow div second < 2 ^ 31"
  shows "l_coldWindow (newLedger g f coldWindow) = of_nat (nat (max 1 (coldWindow div second)))"
    and "l_cold (newLedger g f coldWindow) = newRing (of_nat (nat (max 1 (coldWindow div second)) + 1))"
proof -
  let ?q = "coldWindow div second"
  have sec: "0 < second" by (simp add: second_def)
  have q0: "0 \<le> ?q" using assms(1) sec by (simp add: pos_imp_zdiv_nonneg_iff)
  have d: "go_div coldWindow second = int (nat ?q)" using assms(1) sec q0 by (simp add: go_div_nonneg)
  have small: "nat ?q < 2 ^ 32" using assms(2) by simp
  have w: "(word_of_int (go_div coldWindow second) :: u32) = of_nat (nat ?q)" unfolding d by simp
  have "(of_nat (nat ?q) :: u32) < 1 \<longleftrightarrow> nat ?q = 0"
    using unat_small [OF small] by (simp add: word_less_nat_alt)
  then have win: "(if (of_nat (nat ?q) :: u32) < 1 then 1 else of_nat (nat ?q)) = of_nat (nat (max 1 ?q))"
    using q0 by (cases "?q = 0") (auto simp: max_def)
  show "l_coldWindow (newLedger g f coldWindow) = of_nat (nat (max 1 ?q))"
    unfolding newLedger_def w Let_def win by simp
  have "nat (max 1 ?q) < 2 ^ 32" using small by (auto simp: max_def)
  then have "(ucast (of_nat (nat (max 1 ?q)) :: u32) :: u64) = of_nat (nat (max 1 ?q))"
    using unat_small [of "nat (max 1 ?q)"] of_nat_unat [of "of_nat (nat (max 1 ?q)) :: u32", where 'a = "64 word"]
    by simp
  then show "l_cold (newLedger g f coldWindow) = newRing (of_nat (nat (max 1 ?q) + 1))"
    unfolding newLedger_def w Let_def win by (simp add: add.commute)
qed

text \<open>C10: When cold placements are recorded in time order, the number of cold starts in flight is exactly
  the number of those recorded in the last window of whole seconds (at least one), the current second
  included: nothing older counts and nothing inside the window is forgotten when buckets are reused.\<close>

theorem inFlightCold_exact:
  assumes "0 \<le> coldWindow" and "coldWindow div second < 2 ^ 31 - 1"
    and "sorted (map unix_seconds (ts @ [now]))" and "length ts < 2 ^ 32"
    and "\<forall>t \<in> set ts. 0 \<le> unix_seconds t"
    and "max 1 (coldWindow div second) \<le> unix_seconds now" and "unix_seconds now < 2 ^ 32"
  shows "inFlightCold now (fold recordCold ts (newLedger grace fetchTimeout coldWindow))
    = int (length (filter (\<lambda>t. unix_seconds now - max 1 (coldWindow div second) < unix_seconds t) ts))"
proof -
  let ?W = "nat (max 1 (coldWindow div second))" and ?n = "nat (unix_seconds now)"
  let ?init = "newLedger grace fetchTimeout coldWindow"
  let ?l = "fold recordCold ts ?init"
  have W: "0 < ?W" "?W \<le> ?n" "?W + 1 \<le> 2 ^ 31" "?n < 2 ^ 32" using assms(2,6,7) by auto
  have rng: "\<forall>t \<in> set ts. 0 \<le> unix_seconds t \<and> unix_seconds t \<le> unix_seconds now"
    using assms(3,5) by (auto simp: sorted_append)
  have srt: "sorted (secs_of ts)"
  proof -
    have "sorted_wrt (\<lambda>x y. unix_seconds x \<le> unix_seconds y) ts"
      using assms(3) by (simp add: sorted_append sorted_map)
    then show ?thesis unfolding secs_of_def sorted_map
      by (rule sorted_wrt_mono_rel [rotated]) (rule nat_mono)
  qed
  note nl = newLedger_cold [OF assms(1), of grace fetchTimeout]
  have cold: "l_coldWindow ?init = of_nat ?W" "l_cold ?init = newRing (of_nat (?W + 1))"
    using nl assms(2) by simp_all
  have u: "unat (of_nat (?W + 1) :: u64) = ?W + 1"
    by (rule unat_small64) (use W(3) in simp)
  have covers: "?W + 1 \<le> length (buckets (l_cold ?init))"
    using newRing_covers [of "of_nat (?W + 1)"] W(3) unfolding cold word_less_nat_alt u unsigned_0 by linarith
  have F: "represents (l_cold ?l) (secs_of ts)" "l_coldWindow ?l = of_nat ?W"
    "length (buckets (l_cold ?l)) = length (buckets (l_cold ?init))"
  proof -
    have "represents (l_cold ?init) []" unfolding cold by (rule represents_newRing)
    moreover have "\<forall>t \<in> set ts. 0 \<le> unix_seconds t \<and> unix_seconds t < 2 ^ 32"
      using rng assms(7) by (meson order_le_less_trans)
    ultimately have "represents (l_cold ?l) ([] @ secs_of ts) \<and> l_coldWindow ?l = l_coldWindow ?init \<and>
        length (buckets (l_cold ?l)) = length (buckets (l_cold ?init))"
      using srt assms(4) by (intro fold_recordCold) simp_all
    then show "represents (l_cold ?l) (secs_of ts)" "l_coldWindow ?l = of_nat ?W"
      "length (buckets (l_cold ?l)) = length (buckets (l_cold ?init))"
      by (simp_all only: cold append_Nil)
  qed
  have since: "epoch now - of_nat ?W + 1 = (of_nat (?n - ?W + 1) :: u32)"
    using W assms(6) by (simp add: epoch_nat of_nat_diff)
  have win: "\<forall>s \<in> set (secs_of ts). s < (?n - ?W + 1) + length (buckets (l_cold ?l))"
  proof
    fix s assume "s \<in> set (secs_of ts)"
    then have "s \<le> ?n" using rng unfolding secs_of_def by (auto intro: nat_mono)
    then show "s < (?n - ?W + 1) + length (buckets (l_cold ?l))" using covers unfolding F(3) by linarith
  qed
  have "inFlightCold now ?l = int (length (filter (\<lambda>s. ?n - ?W + 1 \<le> s) (secs_of ts)))"
    unfolding inFlightCold_def F(2) since by (rule sumSince_window [OF F(1) win]) (use W in linarith)
  also have "filter (\<lambda>s. ?n - ?W + 1 \<le> s) (secs_of ts)
      = secs_of (filter (\<lambda>t. unix_seconds now - max 1 (coldWindow div second) < unix_seconds t) ts)"
    unfolding secs_of_def filter_map o_def using rng W(2) assms(6)
    by (intro arg_cong [where f = "map _"] filter_cong) auto
  finally show ?thesis by (simp add: secs_of_def)
qed

theorem inFlightCold_exact_witness:
  "inFlightCold (100 * second) (fold recordCold [50 * second, 80 * second, 95 * second, 100 * second]
     (newLedger second second (30 * second))) = 3"
proof -
  have u: "unix_seconds (n * second) = n" for n by (simp add: unix_seconds_def second_def)
  have w: "30 * second div second = 30" "(0 :: int) \<le> 30 * second" by (simp_all add: second_def)
  have "inFlightCold (100 * second) (fold recordCold [50 * second, 80 * second, 95 * second, 100 * second]
      (newLedger second second (30 * second)))
    = int (length (filter (\<lambda>t. unix_seconds (100 * second) - max 1 (30 * second div second) < unix_seconds t)
        [50 * second, 80 * second, 95 * second, 100 * second]))"
    by (rule inFlightCold_exact) (simp_all add: u w)
  then show ?thesis by (simp add: u w)
qed

end
