(* ===== verification/LedgerConc.thy ===== *)
theory LedgerConc
  imports Ledger
begin

text \<open>
  The lock-free protocol of the ledger: every operation of \<open>pkg/registry/ledger.go\<close> is cut at its
  atomic operations, and the operations of any number of goroutines interleave. A configuration is the
  shared ledger and the multiset of the steps that goroutines still owe. A failed compare-and-swap
  changes nothing and is retried, so only the successful ones are steps.
\<close>

section \<open>Steps\<close>

datatype pending =
    PRecord u32              \<comment> \<open>\<open>record(sec)\<close>: the state word is already raised\<close>
  | PCarry u32 u32           \<comment> \<open>\<open>addCarry(e, c)\<close>\<close>
  | PTakeAt u32              \<comment> \<open>\<open>releaseAt(sec)\<close> before \<open>takeAt\<close>\<close>
  | PCheck u32               \<comment> \<open>\<open>releaseAt(sec)\<close> before reading \<open>clearedSec\<close>\<close>
  | PScan u32 nat            \<comment> \<open>\<open>takeOne(sec)\<close> at loop index \<open>step\<close>\<close>
  | PTakeCarry u32           \<comment> \<open>\<open>takeFromCarryAt(minSec)\<close>\<close>
  | PDec                     \<comment> \<open>\<open>decrementState\<close>\<close>
  | PClear u32 nat u32       \<comment> \<open>\<open>clearBefore\<close> at bucket \<open>i\<close>, \<open>freed\<close> so far\<close>
  | PFree u32                \<comment> \<open>\<open>clearBefore\<close> before the final subtraction\<close>

type_synonym config = "ledger \<times> pending multiset"

inductive lstep :: "config \<Rightarrow> config \<Rightarrow> bool" where
  set_warm: "lstep (l, P) (setWarm n l, P)"
| reserve: "reserve_word (l_state l) = Some w \<Longrightarrow>
    lstep (l, P) (l\<lparr>l_state := w\<rparr>, add_mset (PRecord sec) P)"
| record_add: "ring_add (l_reservations l) sec = (r, e, c) \<Longrightarrow>
    lstep (l, add_mset (PRecord sec) P)
      (l\<lparr>l_reservations := r\<rparr>, if c > 0 then add_mset (PCarry e c) P else P)"
| carry: "lstep (l, add_mset (PCarry e c) P) (addCarry e c l, P)"
| release_at: "lstep (l, P) (l, add_mset (PTakeAt sec) P)"
| take_at: "takeAt (l_reservations l) sec = Some r \<Longrightarrow>
    lstep (l, add_mset (PTakeAt sec) P) (l\<lparr>l_reservations := r\<rparr>, add_mset PDec P)"
| take_at_fail: "takeAt (l_reservations l) sec = None \<Longrightarrow>
    lstep (l, add_mset (PTakeAt sec) P) (l, add_mset (PCheck sec) P)"
| check_cleared: "sec < l_clearedSec l \<Longrightarrow> lstep (l, add_mset (PCheck sec) P) (l, P)"
| check_open: "\<not> sec < l_clearedSec l \<Longrightarrow>
    lstep (l, add_mset (PCheck sec) P) (l, add_mset (PTakeCarry sec) P)"
| release_now: "lstep (l, P) (l, add_mset (PScan sec 0) P)"
| scan_hit: "step \<le> unat (mask32 (l_reservations l)) \<Longrightarrow>
    i = slot (l_reservations l) (sec - word_of_nat step) \<Longrightarrow>
    dec_word (buckets (l_reservations l) ! i) = Some w \<Longrightarrow>
    lstep (l, add_mset (PScan sec step) P) (l\<lparr>l_reservations := ring_put (l_reservations l) i w\<rparr>, add_mset PDec P)"
| scan_next: "step \<le> unat (mask32 (l_reservations l)) \<Longrightarrow>
    dec_word (buckets (l_reservations l) ! slot (l_reservations l) (sec - word_of_nat step)) = None \<Longrightarrow>
    lstep (l, add_mset (PScan sec step) P) (l, add_mset (PScan sec (Suc step)) P)"
| scan_end: "\<not> step \<le> unat (mask32 (l_reservations l)) \<Longrightarrow>
    lstep (l, add_mset (PScan sec step) P) (l, add_mset (PTakeCarry 0) P)"
| take_carry: "takeFromCarryAt minSec l = Some l' \<Longrightarrow>
    lstep (l, add_mset (PTakeCarry minSec) P) (l', add_mset PDec P)"
| take_carry_fail: "takeFromCarryAt minSec l = None \<Longrightarrow> lstep (l, add_mset (PTakeCarry minSec) P) (l, P)"
| dec: "decrementState l = (l', ok) \<Longrightarrow> lstep (l, add_mset PDec P) (l', P)"
| clear: "lstep (l, P) (if sec \<le> l_clearedSec l then l else l\<lparr>l_clearedSec := sec\<rparr>, add_mset (PClear sec 0 0) P)"
| clear_bucket: "i < length (buckets (l_reservations l)) \<Longrightarrow>
    drop_word sec (buckets (l_reservations l) ! i) = (w, f) \<Longrightarrow>
    lstep (l, add_mset (PClear sec i freed) P)
      (l\<lparr>l_reservations := ring_put (l_reservations l) i w\<rparr>, add_mset (PClear sec (Suc i) (freed + f)) P)"
| clear_carry: "\<not> i < length (buckets (l_reservations l)) \<Longrightarrow> drop_word sec (l_carry l) = (w, f) \<Longrightarrow>
    lstep (l, add_mset (PClear sec i freed) P)
      (l\<lparr>l_carry := w\<rparr>, if freed + f = 0 then P else add_mset (PFree (freed + f)) P)"
| free: "lstep (l, add_mset (PFree freed) P) (l\<lparr>l_state := free_word freed (l_state l)\<rparr>, P)"
| cold: "lstep (l, P) (recordCold now l, P)"

section \<open>The invariant\<close>

text \<open>Reservations held in the ring and the carry, and the counts in transit.\<close>

definition held :: "ledger \<Rightarrow> nat" where
  "held l = ring_cnt (l_reservations l) + cnt (l_carry l)"

fun transit :: "pending \<Rightarrow> nat" where
  "transit (PRecord sec) = 1"
| "transit (PCarry e c) = unat c"
| "transit PDec = 1"
| "transit (PClear sec i freed) = unat freed"
| "transit (PFree freed) = unat freed"
| "transit _ = 0"

definition in_transit :: "pending multiset \<Rightarrow> nat" where
  "in_transit P = sum_mset (image_mset transit P)"

lemma in_transit_simps [simp]:
  "in_transit {#} = 0" "in_transit (add_mset p P) = transit p + in_transit P"
  by (simp_all add: in_transit_def)

abbreviation outstanding :: "ledger \<Rightarrow> nat" where "outstanding l \<equiv> cnt (l_state l)"

text \<open>The outstanding count is exactly what is held plus what is in transit.\<close>

definition linv :: "config \<Rightarrow> bool" where
  "linv s \<longleftrightarrow> (case s of (l, P) \<Rightarrow> wf_ring (l_reservations l) \<and> outstanding l = held l + in_transit P)"

lemma linv_bound: "linv (l, P) \<Longrightarrow> held l + in_transit P < 2 ^ 32"
  using u32_bound [of "lo_of (l_state l)"] by (simp add: linv_def)

lemma wf_ring_add: "ring_add r sec = (r', e, c) \<Longrightarrow> wf_ring r' = wf_ring r"
  by (auto simp: ring_add_def split: prod.splits)

lemma ring_cnt_add:
  assumes "wf_ring r" and "ring_add r sec = (r', e, c)" and "ring_cnt r + 1 < 2 ^ 32"
  shows "ring_cnt r' + unat c = ring_cnt r + 1"
proof -
  let ?i = "slot r sec"
  obtain w where w: "add_word sec (buckets r ! ?i) = (w, e, c)" and r': "r' = ring_put r ?i w"
    using assms(2) by (auto simp: ring_add_def split: prod.splits)
  have i: "?i < length (buckets r)" using assms(1) by (rule slot_less)
  have "cnt w + unat c = cnt (buckets r ! ?i) + 1"
    using cnt_add_word [OF w] cnt_le_ring [OF i] assms(3) by simp
  then show ?thesis using ring_cnt_put [OF i, of w] r' by simp
qed

lemma ring_cnt_takeAt:
  assumes "wf_ring r" and "takeAt r sec = Some r'"
  shows "ring_cnt r = ring_cnt r' + 1" and "wf_ring r'"
proof -
  obtain w where w: "take_at_word sec (buckets r ! slot r sec) = Some w" "r' = ring_put r (slot r sec) w"
    using assms(2) by (auto simp: takeAt_def)
  then show "ring_cnt r = ring_cnt r' + 1" "wf_ring r'"
    using ring_cnt_put [OF slot_less [OF assms(1)], of sec w] cnt_take_at_word [OF w(1)] assms(1) by simp_all
qed

lemma held_carry:
  "takeFromCarryAt m l = Some l' \<Longrightarrow> held l = held l' + 1 \<and> l_reservations l' = l_reservations l \<and> l_state l' = l_state l"
  by (auto simp: takeFromCarryAt_def held_def dest: cnt_take_carry_word)

lemma decrementState_exact:
  "0 < outstanding l \<Longrightarrow> \<exists>w. decrementState l = (l\<lparr>l_state := w\<rparr>, True) \<and> cnt w + 1 = outstanding l"
  using cnt_decrement_word [of "l_state l"] by (auto simp: decrementState_def)

lemma held_upd [simp]: "held (l\<lparr>l_state := w\<rparr>) = held l" "held (l\<lparr>l_clearedSec := s\<rparr>) = held l"
  "held (l\<lparr>l_cold := c\<rparr>) = held l"
  by (simp_all add: held_def)

theorem lstep_linv:
  assumes "lstep s s'" and "linv s"
  shows "linv s'"
  using assms
proof (induction rule: lstep.induct)
  case (record_add l sec r e c P)
  then have wf: "wf_ring (l_reservations l)" and b: "ring_cnt (l_reservations l) + 1 < 2 ^ 32"
    using linv_bound [OF record_add(2)] by (auto simp: linv_def held_def)
  with record_add show ?case
    using ring_cnt_add [OF wf record_add(1) b] wf_ring_add [OF record_add(1)] by (auto simp: linv_def held_def unat_gt_0 word_greater_zero_iff)
next
  case (carry l e c P)
  have "cnt (l_carry l) + unat c < 2 ^ 32" using linv_bound [OF carry] by (simp add: held_def)
  with carry show ?case by (simp add: linv_def held_def addCarry_def cnt_add_carry_word)
next
  case (clear_bucket i l sec w f freed P)
  have c: "cnt (buckets (l_reservations l) ! i) = cnt w + unat f"
    using cnt_drop_word [of "buckets (l_reservations l) ! i" sec] clear_bucket(2) by simp
  have "unat freed + unat f < 2 ^ 32"
    using linv_bound [OF clear_bucket(3)] cnt_le_ring [OF clear_bucket(1)] c by (simp add: held_def)
  then show ?case using clear_bucket(3) ring_cnt_put [OF clear_bucket(1), of w] c
    by (simp add: linv_def held_def unat_add_small)
next
  case (clear_carry i l sec w f freed P)
  have c: "cnt (l_carry l) = cnt w + unat f"
    using cnt_drop_word [of "l_carry l" sec] clear_carry(2) by simp
  have "unat freed + unat f < 2 ^ 32"
    using linv_bound [OF clear_carry(3)] c by (simp add: held_def)
  then have "unat (freed + f) = unat freed + unat f" by (rule unat_add_small)
  then show ?case using clear_carry(3) c by (auto simp: linv_def held_def)
next
  case (free l freed P)
  then show ?case using cnt_free_word [of freed "l_state l"] by (simp add: linv_def)
next
  case (dec l l' ok P)
  then show ?case using decrementState_exact [of l] by (auto simp: linv_def)
next
  case (take_at l sec r P)
  then show ?case using ring_cnt_takeAt [of "l_reservations l" sec r] by (simp add: linv_def held_def)
next
  case (scan_hit step l i sec w P)
  then show ?case using ring_cnt_put [of i "l_reservations l" w] cnt_dec_word [OF scan_hit(3)] slot_less
    by (simp add: linv_def held_def)
next
  case (take_carry m l l' P)
  then show ?case using held_carry [of m l l'] by (simp add: linv_def)
qed (auto simp: linv_def setWarm_def recordCold_def counts)


section \<open>Reachable configurations\<close>

lemma newLedger_linv: "linv (newLedger grace fetchTimeout coldWindow, {#})"
  by (simp add: linv_def newLedger_def Let_def newRing_wf newRing_cnt held_def)

definition reachable :: "duration \<Rightarrow> duration \<Rightarrow> duration \<Rightarrow> config \<Rightarrow> bool" where
  "reachable grace fetchTimeout coldWindow s \<longleftrightarrow> lstep\<^sup>*\<^sup>* (newLedger grace fetchTimeout coldWindow, {#}) s"

lemma linv_steps: "lstep\<^sup>*\<^sup>* s s' \<Longrightarrow> linv s \<Longrightarrow> linv s'"
  by (induction rule: rtranclp_induct) (auto intro: lstep_linv)

lemma reachable_linv: "reachable g f w s \<Longrightarrow> linv s"
  unfolding reachable_def using linv_steps newLedger_linv by blast

text \<open>The reservations that are live: granted, and neither released nor cleared.\<close>

fun live_transit :: "pending \<Rightarrow> nat" where
  "live_transit (PRecord sec) = 1"
| "live_transit (PCarry e c) = unat c"
| "live_transit _ = 0"

definition live :: "config \<Rightarrow> nat" where
  "live s = (case s of (l, P) \<Rightarrow> held l + sum_mset (image_mset live_transit P))"

lemma live_le_transit: "sum_mset (image_mset live_transit P) \<le> in_transit P"
proof (induction P)
  case (add p P)
  then show ?case by (cases p) auto
qed simp

lemma live_outstanding: "linv (l, P) \<Longrightarrow> live (l, P) \<le> outstanding l"
  using live_le_transit [of P] by (simp add: linv_def live_def)

lemma linv_pending: "linv (l, add_mset p P) \<Longrightarrow> transit p \<le> outstanding l"
  by (simp add: linv_def)

section \<open>The sequential operations are runs of the protocol\<close>

lemma record_at_steps: "lstep\<^sup>*\<^sup>* (l, add_mset (PRecord sec) P) (record_at sec l, P)"
proof -
  obtain r e c where r: "ring_add (l_reservations l) sec = (r, e, c)" by (metis prod_cases3)
  have 1: "lstep (l, add_mset (PRecord sec) P) (l\<lparr>l_reservations := r\<rparr>, if c > 0 then add_mset (PCarry e c) P else P)"
    by (rule lstep.record_add [OF r])
  show ?thesis
  proof (cases "c > 0")
    case True
    have "lstep (l\<lparr>l_reservations := r\<rparr>, add_mset (PCarry e c) P) (addCarry e c (l\<lparr>l_reservations := r\<rparr>), P)"
      by (rule lstep.carry)
    with 1 True r show ?thesis by (simp add: record_at_def converse_rtranclp_into_rtranclp)
  next
    case False
    with 1 r show ?thesis by (simp add: record_at_def)
  qed
qed

lemma tryReserve_steps: "lstep\<^sup>*\<^sup>* (l, P) (fst (tryReserve now l), P)"
proof (cases "reserve_word (l_state l)")
  case None
  then show ?thesis by (simp add: tryReserve_def)
next
  case (Some w)
  have "lstep (l, P) (l\<lparr>l_state := w\<rparr>, add_mset (PRecord (epoch now)) P)" by (rule lstep.reserve [OF Some])
  with record_at_steps [of "l\<lparr>l_state := w\<rparr>" "epoch now" P] Some show ?thesis
    by (simp add: tryReserve_def Let_def converse_rtranclp_into_rtranclp)
qed

lemma dec_steps: "lstep\<^sup>*\<^sup>* (l, add_mset PDec P) (fst (decrementState l), P)"
  by (cases "decrementState l") (auto intro: lstep.dec)

lemma take_carry_steps:
  "lstep\<^sup>*\<^sup>* (l, add_mset (PTakeCarry m) P)
     (case takeFromCarryAt m l of None \<Rightarrow> l | Some l' \<Rightarrow> fst (decrementState l'), P)"
proof (cases "takeFromCarryAt m l")
  case None
  then show ?thesis using lstep.take_carry_fail [OF None] by auto
next
  case (Some l')
  from lstep.take_carry [OF this] have "lstep (l, add_mset (PTakeCarry m) P) (l', add_mset PDec P)" .
  with dec_steps [of l' P] Some show ?thesis by (simp add: converse_rtranclp_into_rtranclp)
qed

lemma releaseAt_steps: "lstep\<^sup>*\<^sup>* (l, P) (fst (releaseAt sec l), P)"
proof -
  have s: "lstep (l, P) (l, add_mset (PTakeAt sec) P)" by (rule lstep.release_at)
  have "lstep\<^sup>*\<^sup>* (l, add_mset (PTakeAt sec) P) (fst (releaseAt sec l), P)"
  proof (cases "takeAt (l_reservations l) sec")
    case (Some r)
    from lstep.take_at [OF this]
    have "lstep (l, add_mset (PTakeAt sec) P) (l\<lparr>l_reservations := r\<rparr>, add_mset PDec P)" .
    with dec_steps [of "l\<lparr>l_reservations := r\<rparr>" P] Some show ?thesis
      by (simp add: releaseAt_def converse_rtranclp_into_rtranclp)
  next
    case None
    from lstep.take_at_fail [OF this]
    have f: "lstep (l, add_mset (PTakeAt sec) P) (l, add_mset (PCheck sec) P)" .
    show ?thesis
    proof (cases "sec < l_clearedSec l")
      case True
      with f None show ?thesis using lstep.check_cleared [OF True, of P]
        by (simp add: releaseAt_def converse_rtranclp_into_rtranclp)
    next
      case False
      have "fst (releaseAt sec l) = (case takeFromCarryAt sec l of None \<Rightarrow> l | Some l' \<Rightarrow> fst (decrementState l'))"
        using None False by (simp add: releaseAt_def split: option.split)
      with f lstep.check_open [OF False, of P] take_carry_steps [of l sec P] show ?thesis
        by (simp add: converse_rtranclp_into_rtranclp)
    qed
  qed
  with s show ?thesis by (rule converse_rtranclp_into_rtranclp)
qed

lemma scan_steps:
  assumes "step \<le> unat (mask32 (l_reservations l)) + 1"
  shows "lstep\<^sup>*\<^sup>* (l, add_mset (PScan sec step) P)
    (case take_scan (l_reservations l) (map (\<lambda>step. slot (l_reservations l) (sec - word_of_nat step))
       [step..<unat (mask32 (l_reservations l)) + 1]) of
       Some r \<Rightarrow> (l\<lparr>l_reservations := r\<rparr>, add_mset PDec P)
     | None \<Rightarrow> (l, add_mset (PTakeCarry 0) P))"
  using assms
proof (induction "unat (mask32 (l_reservations l)) + 1 - step" arbitrary: step)
  case 0
  then have "\<not> step \<le> unat (mask32 (l_reservations l))" by simp
  from lstep.scan_end [OF this, of sec P] 0 show ?case by auto
next
  case (Suc n)
  let ?r = "l_reservations l"
  have le: "step \<le> unat (mask32 ?r)" using Suc by simp
  let ?i = "slot ?r (sec - word_of_nat step)"
  have upt: "[step..<unat (mask32 ?r) + 1] = step # [Suc step..<unat (mask32 ?r) + 1]"
    using le by (simp add: upt_conv_Cons)
  show ?case
  proof (cases "dec_word (buckets ?r ! ?i)")
    case None
    from lstep.scan_next [OF le this] have "lstep (l, add_mset (PScan sec step) P) (l, add_mset (PScan sec (Suc step)) P)" .
    moreover have "n = unat (mask32 ?r) + 1 - Suc step" "Suc step \<le> unat (mask32 ?r) + 1" using Suc(2) le by simp_all
    note Suc(1) [OF this]
    ultimately show ?thesis using None unfolding upt by (simp add: converse_rtranclp_into_rtranclp)
  next
    case (Some w)
    from lstep.scan_hit [OF le refl this, of P] Some show ?thesis unfolding upt by auto
  qed
qed

lemma release_now_steps: "lstep\<^sup>*\<^sup>* (l, P) (fst (release_now now l), P)"
proof -
  let ?r = "l_reservations l"
  have s: "lstep (l, P) (l, add_mset (PScan (epoch now) 0) P)" by (rule lstep.release_now)
  have c: "lstep\<^sup>*\<^sup>* (l, add_mset (PScan (epoch now) 0) P) (case takeOne ?r (epoch now) of
      Some r \<Rightarrow> (l\<lparr>l_reservations := r\<rparr>, add_mset PDec P) | None \<Rightarrow> (l, add_mset (PTakeCarry 0) P))"
    using scan_steps [of 0 l "epoch now" P] by (simp add: takeOne_def)
  have "lstep\<^sup>*\<^sup>* (l, add_mset (PScan (epoch now) 0) P) (fst (release_now now l), P)"
  proof (cases "takeOne ?r (epoch now)")
    case (Some r)
    with c dec_steps [of "l\<lparr>l_reservations := r\<rparr>" P] show ?thesis
      by (simp add: release_now_def)
  next
    case None
    have "fst (release_now now l) = (case takeFromCarryAt 0 l of None \<Rightarrow> l | Some l' \<Rightarrow> fst (decrementState l'))"
      using None by (simp add: release_now_def split: option.split)
    with c None take_carry_steps [of l 0 P] show ?thesis by simp
  qed
  with s show ?thesis by (rule converse_rtranclp_into_rtranclp)
qed


text \<open>\<open>clearBefore\<close>: after \<open>i\<close> buckets the first \<open>i\<close> are dropped and what they held is freed.\<close>

definition cleared_upto :: "u32 \<Rightarrow> nat \<Rightarrow> ledger \<Rightarrow> ledger" where
  "cleared_upto sec i l = l\<lparr>l_reservations := (l_reservations l)\<lparr>buckets :=
     map (fst \<circ> drop_word sec) (take i (buckets (l_reservations l))) @ drop i (buckets (l_reservations l))\<rparr>\<rparr>"

definition freed_upto :: "u32 \<Rightarrow> nat \<Rightarrow> ledger \<Rightarrow> u32" where
  "freed_upto sec i l = sum_list (map (snd \<circ> drop_word sec) (take i (buckets (l_reservations l))))"

lemma cleared_step:
  assumes "i < length (buckets (l_reservations l))"
  shows "lstep (cleared_upto sec i l, add_mset (PClear sec i (freed_upto sec i l)) P)
    (cleared_upto sec (Suc i) l, add_mset (PClear sec (Suc i) (freed_upto sec (Suc i) l)) P)"
proof -
  let ?bs = "buckets (l_reservations l)"
  let ?c = "cleared_upto sec i l"
  obtain w f where wf: "drop_word sec (?bs ! i) = (w, f)" by (cases "drop_word sec (?bs ! i)")
  have len: "i < length (buckets (l_reservations ?c))" using assms by (simp add: cleared_upto_def)
  have nth: "buckets (l_reservations ?c) ! i = ?bs ! i" using assms by (simp add: cleared_upto_def nth_append)
  have step: "lstep (?c, add_mset (PClear sec i (freed_upto sec i l)) P)
      (?c\<lparr>l_reservations := ring_put (l_reservations ?c) i w\<rparr>, add_mset (PClear sec (Suc i) (freed_upto sec i l + f)) P)"
    by (rule lstep.clear_bucket [OF len]) (simp add: nth wf)
  have "?c\<lparr>l_reservations := ring_put (l_reservations ?c) i w\<rparr> = cleared_upto sec (Suc i) l"
    using assms wf by (simp add: cleared_upto_def ring_put_def take_Suc_conv_app_nth list_update_append
        Cons_nth_drop_Suc [symmetric])
  moreover have "freed_upto sec i l + f = freed_upto sec (Suc i) l"
    using assms wf by (simp add: freed_upto_def take_Suc_conv_app_nth)
  ultimately show ?thesis using step by simp
qed

lemma cleared_steps:
  "i \<le> length (buckets (l_reservations l)) \<Longrightarrow>
   lstep\<^sup>*\<^sup>* (l, add_mset (PClear sec 0 0) P) (cleared_upto sec i l, add_mset (PClear sec i (freed_upto sec i l)) P)"
proof (induction i)
  case 0
  then show ?case by (simp add: cleared_upto_def freed_upto_def)
next
  case (Suc i)
  then show ?case using cleared_step [of i l sec P] by (simp add: rtranclp.rtrancl_into_rtrancl)
qed

lemma clearBefore_steps: "lstep\<^sup>*\<^sup>* (l, P) (clearBefore cutoff l, P)"
proof -
  let ?sec = "epoch cutoff"
  define l1 where "l1 = (if ?sec \<le> l_clearedSec l then l else l\<lparr>l_clearedSec := ?sec\<rparr>)"
  let ?n = "length (buckets (l_reservations l1))"
  let ?f = "freed_upto ?sec ?n l1"
  obtain w f where wf: "drop_word ?sec (l_carry l1) = (w, f)" by (cases "drop_word ?sec (l_carry l1)")
  have l1: "buckets (l_reservations l1) = buckets (l_reservations l)" "l_carry l1 = l_carry l" "l_state l1 = l_state l"
    by (auto simp: l1_def)
  have start: "lstep (l, P) (l1, add_mset (PClear ?sec 0 0) P)" unfolding l1_def by (rule lstep.clear)
  let ?c = "cleared_upto ?sec ?n l1"
  have c: "lstep\<^sup>*\<^sup>* (l1, add_mset (PClear ?sec 0 0) P) (?c, add_mset (PClear ?sec ?n ?f) P)"
    by (rule cleared_steps) simp
  have carry: "lstep (?c, add_mset (PClear ?sec ?n ?f) P)
      (?c\<lparr>l_carry := w\<rparr>, if ?f + f = 0 then P else add_mset (PFree (?f + f)) P)"
    by (rule lstep.clear_carry) (simp_all add: cleared_upto_def wf)
  let ?l2 = "?c\<lparr>l_carry := w\<rparr>"
  have "lstep\<^sup>*\<^sup>* (l, P) (?l2, if ?f + f = 0 then P else add_mset (PFree (?f + f)) P)"
    using start c carry by (simp add: converse_rtranclp_into_rtranclp rtranclp.rtrancl_into_rtrancl)
  moreover have "clearBefore cutoff l = (if ?f + f = 0 then ?l2 else ?l2\<lparr>l_state := free_word (?f + f) (l_state ?l2)\<rparr>)"
    using wf by (simp add: clearBefore_def Let_def l1_def [symmetric] cleared_upto_def freed_upto_def l1)
  moreover have "lstep (?l2, add_mset (PFree (?f + f)) P) (?l2\<lparr>l_state := free_word (?f + f) (l_state ?l2)\<rparr>, P)"
    by (rule lstep.free)
  ultimately show ?thesis by (cases "?f + f = 0") (auto simp: rtranclp.rtrancl_into_rtrancl)
qed

section \<open>Quiescent ledgers\<close>

definition quiet :: "ledger \<Rightarrow> bool" where "quiet l = linv (l, {#})"

lemma quiet_def': "quiet l \<longleftrightarrow> wf_ring (l_reservations l) \<and> outstanding l = held l"
  by (simp add: quiet_def linv_def)

lemma quiet_steps: "lstep\<^sup>*\<^sup>* (l, {#}) (l', {#}) \<Longrightarrow> quiet l \<Longrightarrow> quiet l'"
  unfolding quiet_def by (rule linv_steps)

lemma quiet_ops [intro]:
  assumes "quiet l"
  shows "quiet (setWarm n l)" and "quiet (fst (tryReserve now l))" and "quiet (fst (releaseAt sec l))"
    and "quiet (fst (release_now now l))" and "quiet (clearBefore now l)" and "quiet (recordCold now l)"
  using assms lstep.set_warm lstep.cold
  by (auto intro!: quiet_steps [OF _ assms] tryReserve_steps releaseAt_steps release_now_steps clearBefore_steps)

lemma available_eq: "available l = int (unat (hi_of (l_state l)) - outstanding l)"
proof (cases "unpack (l_state l)")
  case (Pair warm out)
  show ?thesis
  proof (cases "out \<ge> warm")
    case True
    then show ?thesis by (simp add: available_def Pair word_le_nat_alt)
  next
    case False
    then have "unat (warm - out) = unat warm - unat out" by (intro unat_sub) simp
    moreover have "uint (warm - out) = int (unat (warm - out))" by simp
    ultimately have "uint (warm - out) = int (unat warm - unat out)" by (simp only:)
    with False show ?thesis unfolding available_def Pair by (simp only: prod.case if_False fst_conv snd_conv)
  qed
qed

lemma available_nonneg: "0 \<le> available l"
  unfolding available_eq by (rule of_nat_0_le_iff)

lemma reserved_eq: "reserved l = int (outstanding l)"
  by (simp add: reserved_def)

lemma record_at_state [simp]: "l_state (record_at sec l) = l_state l"
  by (simp add: record_at_def addCarry_def Let_def split: prod.splits)

lemma tryReserve_ok: "snd (snd (tryReserve now l)) \<longleftrightarrow> 0 < available l"
proof (cases "reserve_word (l_state l)")
  case None
  then show ?thesis using reserve_word_None [of "l_state l"] by (simp add: tryReserve_def available_eq)
next
  case (Some w)
  have "0 < available l" unfolding available_eq of_nat_0_less_iff using cnt_reserve_word(2) [OF Some] by simp
  with Some show ?thesis by (simp add: tryReserve_def Let_def)
qed

lemma tryReserve_available:
  "available (fst (tryReserve now l)) = available l - (if snd (snd (tryReserve now l)) then 1 else 0)"
proof (cases "reserve_word (l_state l)")
  case (Some w)
  from cnt_reserve_word [OF this] show ?thesis
    by (simp add: tryReserve_def Some Let_def available_eq)
qed (simp add: tryReserve_def)

section \<open>The contract of a capacity counter\<close>

text \<open>
  What the registry relies on when it places: a reservation succeeds exactly while something is
  available, and takes one. Everything about bursts follows.
\<close>

locale capacity_counter =
  fixes ok :: "'l \<Rightarrow> bool"
    and avail :: "'l \<Rightarrow> int"
    and reserve :: "gotime \<Rightarrow> 'l \<Rightarrow> 'l \<times> u32 \<times> bool"
  assumes reserve_keeps: "ok l \<Longrightarrow> ok (fst (reserve now l))"
    and reserve_iff: "ok l \<Longrightarrow> snd (snd (reserve now l)) \<longleftrightarrow> 0 < avail l"
    and reserve_avail: "ok l \<Longrightarrow> avail (fst (reserve now l)) = avail l - (if snd (snd (reserve now l)) then 1 else 0)"
    and avail_nonneg: "ok l \<Longrightarrow> 0 \<le> avail l"
begin

fun burst :: "gotime list \<Rightarrow> 'l \<Rightarrow> 'l \<times> bool list" where
  "burst [] l = (l, [])"
| "burst (now # nows) l = (case reserve now l of (l', sec, ok) \<Rightarrow>
     case burst nows l' of (l'', oks) \<Rightarrow> (l'', ok # oks))"

lemma burst_exact:
  "ok l \<Longrightarrow> snd (burst nows l) = replicate (min (length nows) (nat (avail l))) True
      @ replicate (length nows - nat (avail l)) False \<and>
    avail (fst (burst nows l)) = max 0 (avail l - int (length nows)) \<and> ok (fst (burst nows l))"
proof (induction nows arbitrary: l)
  case Nil
  then show ?case using avail_nonneg [of l] by simp
next
  case (Cons now nows)
  obtain l' sec b where r: "reserve now l = (l', sec, b)" by (metis prod_cases3)
  note keep = reserve_keeps [OF Cons.prems, of now] and iff = reserve_iff [OF Cons.prems, of now]
    and av = reserve_avail [OF Cons.prems, of now]
  have l': "ok l'" "b \<longleftrightarrow> 0 < avail l" "avail l' = avail l - (if b then 1 else 0)"
    using keep iff av r by simp_all
  note IH = Cons.IH [OF l'(1)]
  obtain l'' oks where b: "burst nows l' = (l'', oks)" by (cases "burst nows l'")
  show ?case
  proof (cases "0 < avail l")
    case True
    then have "nat (avail l) = Suc (nat (avail l'))" using l' by simp
    with True IH l' show ?thesis by (simp add: r b)
  next
    case False
    then have "avail l = 0" using avail_nonneg [OF Cons.prems] by simp
    with IH l' show ?thesis by (simp add: r b)
  qed
qed

end

interpretation warm_counter: capacity_counter quiet available tryReserve
  by unfold_locales (simp_all only: quiet_ops(2) tryReserve_ok tryReserve_available available_nonneg)

section \<open>Reserve, then release\<close>

lemma decrementState_undo:
  assumes "0 < outstanding l"
  shows "snd (decrementState l)" and "reserved (fst (decrementState l)) = reserved l - 1"
    and "outstanding l \<le> unat (hi_of (l_state l)) \<Longrightarrow> available (fst (decrementState l)) = available l + 1"
  using cnt_decrement_word [OF assms] by (auto simp: decrementState_def reserved_eq available_eq simp del: of_nat_unat)

lemma record_takeable:
  assumes "wf_ring (l_reservations l)" and "held l + 1 < 2 ^ 32"
  shows "takeAt (l_reservations (record_at sec l)) sec \<noteq> None \<or> takeFromCarryAt sec (record_at sec l) \<noteq> None"
proof -
  let ?r = "l_reservations l" and ?i = "slot (l_reservations l) sec"
  obtain e c where u: "unpack (buckets ?r ! ?i) = (e, c)" by (cases "unpack (buckets ?r ! ?i)")
  obtain ec cc where uc: "unpack (l_carry l) = (ec, cc)" by (cases "unpack (l_carry l)")
  note i = slot_less [OF assms(1), of sec]
  have c1: "unat c + 1 < 2 ^ 32" "unat cc + 1 < 2 ^ 32"
    using cnt_le_ring [OF i] assms(2) by (simp_all add: u uc held_def)
  have n0: "c + 1 \<noteq> 0" "cc + 1 \<noteq> 0" using unat_inc [OF c1(1)] unat_inc [OF c1(2)] by force+
  have slot: "slot (ring_put ?r ?i w) sec = ?i" for w by (simp add: slot_def)
  consider "e = sec" | "e > sec" | "e < sec" by fastforce
  then show ?thesis
  proof cases
    case 1
    then have "l_reservations (record_at sec l) = ring_put ?r ?i (pack sec (c + 1))"
      using u by (simp add: record_at_def ring_add_def add_word_def Let_def)
    then show ?thesis using i n0(1) by (simp add: takeAt_def slot take_at_word_def)
  next
    case 2
    then have "e \<noteq> sec" by auto
    with 2 have "l_carry (record_at sec l) = add_carry_word sec 1 (l_carry l)"
      using u by (simp add: record_at_def ring_add_def add_word_def addCarry_def Let_def)
    then show ?thesis using uc n0(2) by (auto simp: takeFromCarryAt_def add_carry_word_def take_carry_word_def)
  next
    case 3
    then have "l_reservations (record_at sec l) = ring_put ?r ?i (pack sec 1)"
      using u by (auto simp: record_at_def ring_add_def add_word_def Let_def addCarry_def)
    then show ?thesis using i by (simp add: takeAt_def slot take_at_word_def)
  qed
qed

lemma record_at_clearedSec [simp]: "l_clearedSec (record_at sec l) = l_clearedSec l"
  by (simp add: record_at_def addCarry_def Let_def split: prod.splits)

lemma releaseAt_recorded:
  assumes "quiet l" and "0 < outstanding l" and "\<not> sec < l_clearedSec l"
    and "takeAt (l_reservations l) sec \<noteq> None \<or> takeFromCarryAt sec l \<noteq> None"
  obtains l' where "l_state l' = l_state l" and "releaseAt sec l = decrementState l'"
proof (cases "takeAt (l_reservations l) sec")
  case (Some r)
  then show ?thesis by (intro that [of "l\<lparr>l_reservations := r\<rparr>"]) (simp_all add: releaseAt_def)
next
  case None
  with assms(4) obtain l' where l': "takeFromCarryAt sec l = Some l'" by auto
  then have "l_state l' = l_state l" using held_carry by blast
  with None l' assms(3) show ?thesis by (intro that [of l']) (simp_all add: releaseAt_def)
qed

section \<open>Properties\<close>

text \<open>C5: However goroutines interleave reservations, releases, polls and reports, a reservation is
  granted only while fewer reservations are live (granted, and neither released nor cleared) than the
  warm capacity in the state word at that moment: a provider is never overplaced against its report.\<close>

theorem reservations_never_overplace:
  assumes "reachable grace fetchTimeout coldWindow (l, P)" and "reserve_word (l_state l) = Some w"
  shows "live (l, P) < unat (hi_of (l_state l)) \<and>
    live (l\<lparr>l_state := w\<rparr>, add_mset (PRecord sec) P) = live (l, P) + 1"
proof
  show "live (l, P) < unat (hi_of (l_state l))"
    using live_outstanding [OF reachable_linv [OF assms(1)]] cnt_reserve_word(2) [OF assms(2)] by linarith
qed (simp add: live_def)

theorem reservations_never_overplace_witness:
  "let l = setWarm 3 (newLedger second second second) in
     reserve_word (l_state l) = Some (pack 3 1) \<and> live (l, {#}) < unat (hi_of (l_state l))"
proof -
  let ?l = "setWarm 3 (newLedger second second second)"
  have st: "l_state ?l = pack 3 0" by (simp add: setWarm_def set_warm_word_def newLedger_def Let_def)
  have r: "reachable second second second (?l, {#})"
    unfolding reachable_def using lstep.set_warm [of "newLedger second second second" "{#}" 3] by blast
  have w: "reserve_word (l_state ?l) = Some (pack 3 1)" unfolding st by (simp add: reserve_word_def)
  show ?thesis using reservations_never_overplace [OF r w, of 0] w by (simp add: Let_def)
qed

text \<open>C8: In every reachable configuration a pending decrement succeeds and a pending subtraction of
  freed reservations never goes below zero, and once no operation is in flight the reserved count is
  exactly the number of reservations the ring and the carry still hold.\<close>

theorem ledger_counts_exact:
  assumes "reachable grace fetchTimeout coldWindow (l, P)"
  shows "(PDec \<in># P \<longrightarrow> snd (decrementState l)) \<and>
    (\<forall>freed. PFree freed \<in># P \<longrightarrow> unat freed \<le> outstanding l) \<and>
    (P = {#} \<longrightarrow> reserved l = int (held l) \<and>
       available l = max 0 (int (unat (hi_of (l_state l))) - int (held l)))"
proof (intro conjI impI allI)
  note inv = reachable_linv [OF assms]
  show "snd (decrementState l)" if "PDec \<in># P"
  proof -
    from that obtain Q where "P = add_mset PDec Q" by (metis insert_DiffM)
    then have "0 < outstanding l" using linv_pending [of l PDec Q] inv by simp
    then show ?thesis by (rule decrementState_undo(1))
  qed
  show "unat freed \<le> outstanding l" if "PFree freed \<in># P" for freed
  proof -
    from that obtain Q where "P = add_mset (PFree freed) Q" by (metis insert_DiffM)
    then show ?thesis using linv_pending [of l "PFree freed" Q] inv by simp
  qed
  assume "P = {#}"
  with inv have "outstanding l = held l" by (simp add: linv_def)
  then show "reserved l = int (held l)"
    and "available l = max 0 (int (unat (hi_of (l_state l))) - int (held l))"
    by (simp_all add: reserved_eq available_eq del: of_nat_unat)
qed

theorem ledger_counts_exact_witness:
  "reserved (fst (tryReserve 0 (setWarm 3 (newLedger second second second))))
     = int (held (fst (tryReserve 0 (setWarm 3 (newLedger second second second)))))"
proof -
  let ?n = "newLedger second second second"
  have "lstep\<^sup>*\<^sup>* (?n, {#}) (fst (tryReserve 0 (setWarm 3 ?n)), {#})"
    by (rule converse_rtranclp_into_rtranclp [OF lstep.set_warm tryReserve_steps])
  then have "reachable second second second (fst (tryReserve 0 (setWarm 3 ?n)), {#})"
    by (simp add: reachable_def)
  from ledger_counts_exact [OF this] show ?thesis by simp
qed

text \<open>After a report of n warm sandboxes with nothing reserved, a burst of placements at any times
  is granted exactly min(n, burst size) reservations, the first ones, and the rest are refused.\<close>

theorem burst_exact_capacity:
  assumes "0 \<le> n" and "n < 2 ^ 32"
  shows "snd (warm_counter.burst nows (setWarm n (newLedger grace fetchTimeout coldWindow)))
    = replicate (min (length nows) (nat n)) True @ replicate (length nows - nat n) False"
proof -
  let ?l = "setWarm n (newLedger grace fetchTimeout coldWindow)"
  have q: "quiet ?l" using newLedger_linv by (auto simp: quiet_def [symmetric] intro: quiet_ops)
  have "outstanding ?l = 0" by (simp add: setWarm_def set_warm_word_cnt newLedger_def Let_def)
  moreover have "unat (hi_of (l_state ?l)) = nat n"
    using set_warm_word_hi [OF assms] by (simp add: setWarm_def)
  ultimately have "nat (available ?l) = nat n" unfolding available_eq by simp
  with warm_counter.burst_exact [OF q, of nows] show ?thesis by simp
qed

theorem burst_exact_capacity_witness:
  "snd (warm_counter.burst [0, 5, 9] (setWarm 2 (newLedger second second second))) = [True, True, False]"
  using burst_exact_capacity [of 2 "[0, 5, 9]" second second second] by (simp add: numeral_2_eq_2)

text \<open>C9: Releasing a reservation at the second it was recorded undoes it exactly, even when the ring
  slot had been reused and the count went to the carry, unless a poll has cleared that second meanwhile.\<close>

theorem reserve_release_roundtrip:
  assumes "quiet l" and "tryReserve now l = (l1, sec, True)" and "\<not> sec < l_clearedSec l"
  shows "snd (releaseAt sec l1) \<and> reserved (fst (releaseAt sec l1)) = reserved l \<and>
    available (fst (releaseAt sec l1)) = available l"
proof -
  obtain w where w: "reserve_word (l_state l) = Some w" and l1: "l1 = record_at sec (l\<lparr>l_state := w\<rparr>)"
    using assms(2) by (auto simp: tryReserve_def Let_def split: option.splits)
  note c = cnt_reserve_word [OF w]
  have q1: "quiet l1" using quiet_ops(2) [OF assms(1), of now] assms(2) by simp
  have o1: "outstanding l1 = outstanding l + 1" "hi_of (l_state l1) = hi_of (l_state l)"
    using c by (simp_all add: l1)
  have "held l + 1 < 2 ^ 32" using assms(1) c(2) u32_bound [of "hi_of (l_state l)"] by (simp add: quiet_def')
  then have t: "takeAt (l_reservations l1) sec \<noteq> None \<or> takeFromCarryAt sec l1 \<noteq> None"
    using record_takeable [of "l\<lparr>l_state := w\<rparr>" sec] assms(1) by (simp add: l1 quiet_def')
  have "\<not> sec < l_clearedSec l1" using assms(3) by (simp add: l1)
  with q1 o1 t obtain l2 where l2: "l_state l2 = l_state l1" "releaseAt sec l1 = decrementState l2"
    using releaseAt_recorded [of l1 sec] by auto
  have pos: "0 < outstanding l2" "outstanding l2 \<le> unat (hi_of (l_state l2))"
    using o1 c(2) by (simp_all add: l2)
  show ?thesis using decrementState_undo [OF pos(1)] pos(2) o1 c(2) l2
    by (simp add: reserved_eq available_eq del: of_nat_unat)
qed

theorem reserve_release_roundtrip_witness:
  "\<exists>l1 sec. tryReserve 0 (setWarm 3 (newLedger second second second)) = (l1, sec, True) \<and> snd (releaseAt sec l1)"
proof -
  let ?l = "setWarm 3 (newLedger second second second)"
  have q: "quiet ?l" using newLedger_linv by (auto simp: quiet_def [symmetric] intro: quiet_ops)
  have r: "reserve_word (l_state ?l) = Some (pack 3 1)"
    by (simp add: setWarm_def set_warm_word_def newLedger_def Let_def reserve_word_def)
  then have t: "tryReserve 0 ?l = (record_at (epoch 0) (?l\<lparr>l_state := pack 3 1\<rparr>), epoch 0, True)"
    by (simp add: tryReserve_def Let_def)
  have "\<not> epoch 0 < l_clearedSec ?l" by (simp add: setWarm_def newLedger_def Let_def)
  from reserve_release_roundtrip [OF q t this] t show ?thesis by blast
qed

text \<open>After a poll cleared everything before its cutoff, releasing a reservation of an earlier second
  changes nothing: it can not give back a newer reservation. What the poll keeps is exactly what was
  counted under the cutoff second or later.\<close>

theorem cleared_not_released:
  assumes "wf_ring (l_reservations l)" and "sec < epoch cutoff"
  shows "releaseAt sec (clearBefore cutoff l) = (clearBefore cutoff l, False) \<and>
    held (clearBefore cutoff l) = sum_list (map (\<lambda>w. if hi_of w < epoch cutoff then 0 else cnt w)
      (buckets (l_reservations l) @ [l_carry l]))"
proof
  let ?l = "clearBefore cutoff l" and ?s = "epoch cutoff"
  have b: "buckets (l_reservations ?l) = map (fst \<circ> drop_word ?s) (buckets (l_reservations l))"
    and m: "mask32 (l_reservations ?l) = mask32 (l_reservations l)"
    and carry: "l_carry ?l = fst (drop_word ?s (l_carry l))"
    and cs: "?s \<le> l_clearedSec ?l"
    by (auto simp: clearBefore_def Let_def)
  let ?i = "slot (l_reservations l) sec"
  have i: "?i < length (buckets (l_reservations l))" using assms(1) by (rule slot_less)
  have "take_at_word sec (fst (drop_word ?s w)) = None" for w
    using assms(2) by (auto simp: take_at_word_def drop_word_def split: prod.splits)
  then have "takeAt (l_reservations ?l) sec = None"
    using i by (simp add: takeAt_def slot_def m b)
  moreover have "sec < l_clearedSec ?l" using assms(2) cs by simp
  ultimately show "releaseAt sec ?l = (?l, False)" by (simp add: releaseAt_def)
  have w: "cnt (fst (drop_word ?s w)) = (if hi_of w < ?s then 0 else cnt w)" for w
    by (auto simp: drop_word_def split: prod.splits)
  show "held ?l = sum_list (map (\<lambda>w. if hi_of w < ?s then 0 else cnt w) (buckets (l_reservations l) @ [l_carry l]))"
    by (simp add: held_def ring_cnt_def b carry w o_def)
qed

theorem cleared_not_released_witness:
  "releaseAt 5 (clearBefore (10 * second) (newLedger second second second))
     = (clearBefore (10 * second) (newLedger second second second), False)"
proof -
  have "wf_ring (l_reservations (newLedger second second second))"
    by (simp add: newLedger_def Let_def newRing_wf)
  moreover have "(5 :: u32) < epoch (10 * second)"
    by (simp add: epoch_def unix_seconds_def second_def)
  ultimately show ?thesis using cleared_not_released by blast
qed

end
