(* ===== verification/Provider.thy ===== *)
theory Provider
  imports Prelude
begin

text \<open>
  Package \<open>pkg/provider\<close>: the contract between the scheduler and a provider adapter. Reports,
  claim requests and handles are records; the Go \<open>error\<close> values an adapter can return are a
  datatype whose wrapping chain is what \<open>errors.Is\<close> and \<open>errors.As\<close> walk; \<open>KindOf\<close> is the
  classification on which the binder decides to spill, pin or stop. Request validation and the
  pre-image of the spec hash are modelled on strings. The digest itself (SHA-256) is a parameter.
\<close>

section \<open>Reports, requests, handles\<close>

record report =
  repWarmCapacity :: int
  repElastic :: bool
  repAttributes :: "(string, string) gomap"

record claim_request =
  crTemplate :: string
  crKey :: string
  crSpecHash :: string
  crOwner :: string
  crLabels :: "(string, string) gomap"
  crTTL :: duration

record handle =
  hProvider :: string
  hID :: string
  hVersion :: string
  hEndpoint :: string
  hConnect :: "(string, string) gomap"
  hExpiresAt :: gotime

definition empty_handle :: handle where
  "empty_handle = \<lparr>hProvider = [], hID = [], hVersion = [], hEndpoint = [], hConnect = [],
     hExpiresAt = zero_time\<rparr>"

section \<open>Error kinds\<close>

text \<open>\<open>Kind\<close> is an \<open>int\<close> with seven named values; \<open>KindOther\<close> is any other number.\<close>

datatype kind = KindUnknownOutcome | KindNoCapacity | KindUnavailable | KindRejected | KindBusy
  | KindKeyConflict | KindKeyBusy | KindOther int

fun kind_string :: "kind \<Rightarrow> string" where
  "kind_string KindUnknownOutcome = ''unknown_outcome''"
| "kind_string KindNoCapacity = ''no_capacity''"
| "kind_string KindUnavailable = ''unavailable''"
| "kind_string KindRejected = ''rejected''"
| "kind_string KindBusy = ''busy''"
| "kind_string KindKeyConflict = ''key_conflict''"
| "kind_string KindKeyBusy = ''key_busy''"
| "kind_string (KindOther _) = ''unknown_outcome''"

text \<open>
  Error values: the sentinel \<open>ErrNotFound\<close>, the context errors, \<open>errors.New\<close>, a
  \<open>%w\<close> wrapping, a \<open>*ClaimError\<close> with its cause, and a nil \<open>*ClaimError\<close> inside a non-nil
  interface value.
\<close>

datatype go_error = ErrNotFound | DeadlineExceeded | Canceled | NewError string
  | WrapError string go_error | ClaimError kind duration "go_error option" | NilClaimError

fun error_string :: "go_error \<Rightarrow> string" where
  "error_string ErrNotFound = ''provider: no sandbox for key''"
| "error_string DeadlineExceeded = ''context deadline exceeded''"
| "error_string Canceled = ''context canceled''"
| "error_string (NewError m) = m"
| "error_string (WrapError m e) = m @ error_string e"
| "error_string (ClaimError k d None) = ''provider claim error ('' @ kind_string k @ '')''"
| "error_string (ClaimError k d (Some e)) = kind_string k @ '': '' @ error_string e"
| "error_string NilClaimError = ''<nil>''"

text \<open>\<open>errors.Is(err, ErrNotFound)\<close>.\<close>

fun is_not_found :: "go_error \<Rightarrow> bool" where
  "is_not_found ErrNotFound = True"
| "is_not_found (WrapError _ e) = is_not_found e"
| "is_not_found (ClaimError _ _ (Some e)) = is_not_found e"
| "is_not_found _ = False"

text \<open>\<open>errors.As(err, &ce)\<close>: the first \<open>*ClaimError\<close> of the chain, \<open>Some None\<close> if it is nil.\<close>

fun as_claim_error :: "go_error \<Rightarrow> (kind \<times> duration) option option" where
  "as_claim_error (ClaimError k d _) = Some (Some (k, d))"
| "as_claim_error NilClaimError = Some None"
| "as_claim_error (WrapError _ e) = as_claim_error e"
| "as_claim_error _ = None"

definition NoCapacity :: "go_error option \<Rightarrow> go_error" where
  "NoCapacity e = ClaimError KindNoCapacity 0 e"

definition Unavailable :: "go_error option \<Rightarrow> go_error" where
  "Unavailable e = ClaimError KindUnavailable 0 e"

definition Rejected :: "go_error option \<Rightarrow> go_error" where
  "Rejected e = ClaimError KindRejected 0 e"

definition Busy :: "duration \<Rightarrow> go_error option \<Rightarrow> go_error" where
  "Busy after e = ClaimError KindBusy (if after < 0 then 0 else after) e"

definition KeyConflict :: "go_error option \<Rightarrow> go_error" where
  "KeyConflict e = ClaimError KindKeyConflict 0 e"

definition KeyBusy :: "duration \<Rightarrow> go_error option \<Rightarrow> go_error" where
  "KeyBusy after e = ClaimError KindKeyBusy (if after < 0 then 0 else after) e"

lemmas claim_error_defs = NoCapacity_def Unavailable_def Rejected_def Busy_def KeyConflict_def KeyBusy_def

definition KindOf :: "go_error option \<Rightarrow> kind" where
  "KindOf err = (case err of None \<Rightarrow> KindUnknownOutcome
     | Some e \<Rightarrow> (case as_claim_error e of
         Some (Some (k, _)) \<Rightarrow>
           (case k of KindNoCapacity \<Rightarrow> k | KindUnavailable \<Rightarrow> k | KindRejected \<Rightarrow> k
            | KindBusy \<Rightarrow> k | KindKeyConflict \<Rightarrow> k | KindKeyBusy \<Rightarrow> k | _ \<Rightarrow> KindUnknownOutcome)
       | _ \<Rightarrow> KindUnknownOutcome))"

definition RetryAfterOf :: "go_error option \<Rightarrow> duration" where
  "RetryAfterOf err = (case err of None \<Rightarrow> 0
     | Some e \<Rightarrow> (case as_claim_error e of
         Some (Some (_, d)) \<Rightarrow> (if d \<le> 0 then 0 else d)
       | _ \<Rightarrow> 0))"

definition KindFromProto :: "int \<Rightarrow> kind" where
  "KindFromProto code =
     (if code = 0 \<or> code = 1 then KindUnknownOutcome
      else if code = 2 then KindNoCapacity
      else if code = 3 then KindUnavailable
      else if code = 4 then KindRejected
      else if code = 5 then KindBusy
      else if code = 6 then KindKeyConflict
      else if code = 7 then KindKeyBusy
      else KindUnknownOutcome)"

fun ToProtoKind :: "kind \<Rightarrow> int" where
  "ToProtoKind KindUnknownOutcome = 1"
| "ToProtoKind KindNoCapacity = 2"
| "ToProtoKind KindUnavailable = 3"
| "ToProtoKind KindRejected = 4"
| "ToProtoKind KindBusy = 5"
| "ToProtoKind KindKeyConflict = 6"
| "ToProtoKind KindKeyBusy = 7"
| "ToProtoKind (KindOther _) = 1"

text \<open>The kinds on which a claim moves on to the next provider.\<close>

definition spilling_kind :: "kind \<Rightarrow> bool" where
  "spilling_kind k \<longleftrightarrow> k \<in> {KindNoCapacity, KindUnavailable, KindRejected, KindBusy}"

lemma KindOf_not_Other: "KindOf e \<noteq> KindOther n"
  by (auto simp: KindOf_def split: option.splits kind.splits)

lemma RetryAfterOf_nonneg [simp]: "0 \<le> RetryAfterOf e"
  by (auto simp: RetryAfterOf_def split: option.splits)

text \<open>Wrapping an error with \<open>%w\<close> does not change how it is classified.\<close>

lemma KindOf_WrapError [simp]: "KindOf (Some (WrapError m e)) = KindOf (Some e)"
  by (simp add: KindOf_def)

lemma RetryAfterOf_WrapError [simp]: "RetryAfterOf (Some (WrapError m e)) = RetryAfterOf (Some e)"
  by (simp add: RetryAfterOf_def)

lemma KindOf_simps [simp]:
  "KindOf (Some ErrNotFound) = KindUnknownOutcome"
  "KindOf (Some DeadlineExceeded) = KindUnknownOutcome"
  "KindOf (Some Canceled) = KindUnknownOutcome"
  "KindOf (Some (NewError m)) = KindUnknownOutcome"
  "KindOf (Some (NoCapacity e)) = KindNoCapacity"
  "KindOf (Some (Unavailable e)) = KindUnavailable"
  "KindOf (Some (Rejected e)) = KindRejected"
  "KindOf (Some (Busy d e)) = KindBusy"
  "KindOf (Some (KeyConflict e)) = KindKeyConflict"
  "KindOf (Some (KeyBusy d e)) = KindKeyBusy"
  by (simp_all add: KindOf_def claim_error_defs)

section \<open>Patterns\<close>

text \<open>
  The three regular expressions of the package, over a small syntax of patterns: a character
  class, a sequence, an optional part and a bounded repetition. \<open>rests r s\<close> lists what can be
  left of \<open>s\<close> after a prefix that matches \<open>r\<close>; an anchored match leaves nothing.
\<close>

datatype pat = Cls "char \<Rightarrow> bool" | Seq pat pat | Opt pat | Rep pat nat

primrec pat_size :: "pat \<Rightarrow> nat" where
  "pat_size (Cls P) = 0"
| "pat_size (Seq p q) = Suc (pat_size p + pat_size q)"
| "pat_size (Opt p) = Suc (pat_size p)"
| "pat_size (Rep p n) = Suc (pat_size p + n)"

function (sequential) rests :: "pat \<Rightarrow> string \<Rightarrow> string list" where
  "rests (Cls P) s = (case s of [] \<Rightarrow> [] | c # cs \<Rightarrow> if P c then [cs] else [])"
| "rests (Seq p q) s = concat (map (rests q) (rests p s))"
| "rests (Opt p) s = s # rests p s"
| "rests (Rep p 0) s = [s]"
| "rests (Rep p (Suc n)) s = s # concat (map (rests (Rep p n)) (rests p s))"
  by pat_completeness auto
termination
  by (relation "measure (\<lambda>(p, s). pat_size p)") auto

definition matches :: "pat \<Rightarrow> string \<Rightarrow> bool" where
  "matches p s \<longleftrightarrow> [] \<in> set (rests p s)"

definition alnum :: "char \<Rightarrow> bool" where
  "alnum c \<longleftrightarrow> (CHR ''A'' \<le> c \<and> c \<le> CHR ''Z'') \<or> (CHR ''a'' \<le> c \<and> c \<le> CHR ''z'')
     \<or> (CHR ''0'' \<le> c \<and> c \<le> CHR ''9'')"

definition key_char :: "char \<Rightarrow> bool" where
  "key_char c \<longleftrightarrow> alnum c \<or> c \<in> set ''._:-''"

definition name_char :: "char \<Rightarrow> bool" where
  "name_char c \<longleftrightarrow> alnum c \<or> c \<in> set ''-_.''"

definition keyPattern :: pat where
  "keyPattern = Seq (Cls alnum) (Opt (Seq (Rep (Cls key_char) 126) (Cls alnum)))"

definition labelNamePattern :: pat where
  "labelNamePattern = Seq (Cls alnum) (Opt (Seq (Rep (Cls name_char) 61) (Cls alnum)))"

definition labelValuePattern :: pat where
  "labelValuePattern = Opt (Seq (Cls alnum) (Opt (Seq (Rep (Cls name_char) 61) (Cls alnum))))"

lemma rests_Rep_Cls:
  "r \<in> set (rests (Rep (Cls P) n) s) \<longleftrightarrow> (\<exists>pre. s = pre @ r \<and> length pre \<le> n \<and> list_all P pre)"
proof (induction n arbitrary: s)
  case 0
  then show ?case by auto
next
  case (Suc n)
  show ?case
  proof (cases s)
    case Nil
    then show ?thesis by auto
  next
    case (Cons c cs)
    show ?thesis
    proof
      assume "r \<in> set (rests (Rep (Cls P) (Suc n)) s)"
      then consider "r = s" | "P c" "r \<in> set (rests (Rep (Cls P) n) cs)"
        by (auto simp: Cons split: if_splits)
      then show "\<exists>pre. s = pre @ r \<and> length pre \<le> Suc n \<and> list_all P pre"
      proof cases
        case 1
        then show ?thesis by auto
      next
        case 2
        then obtain pre where "cs = pre @ r" "length pre \<le> n" "list_all P pre"
          by (auto simp: Suc.IH)
        with 2 Cons have "s = (c # pre) @ r \<and> length (c # pre) \<le> Suc n \<and> list_all P (c # pre)"
          by simp
        then show ?thesis by blast
      qed
    next
      assume "\<exists>pre. s = pre @ r \<and> length pre \<le> Suc n \<and> list_all P pre"
      then obtain pre where pre: "s = pre @ r" "length pre \<le> Suc n" "list_all P pre" by blast
      show "r \<in> set (rests (Rep (Cls P) (Suc n)) s)"
      proof (cases pre)
        case Nil
        with pre show ?thesis by simp
      next
        case (Cons d ds)
        with pre \<open>s = c # cs\<close> have "d = c" "cs = ds @ r" "length ds \<le> n" "list_all P ds" "P c"
          by auto
        then have "r \<in> set (rests (Rep (Cls P) n) cs)" by (auto simp: Suc.IH)
        with \<open>P c\<close> \<open>s = c # cs\<close> show ?thesis by simp
      qed
    qed
  qed
qed

text \<open>
  The shape the three patterns share: an alphanumeric character, optionally followed by at most
  \<open>n\<close> characters of the class and a final alphanumeric one.
\<close>

lemma matches_segment:
  assumes "\<And>c. alnum c \<Longrightarrow> P c"
  shows "matches (Seq (Cls alnum) (Opt (Seq (Rep (Cls P) n) (Cls alnum)))) s \<longleftrightarrow>
     s \<noteq> [] \<and> length s \<le> n + 2 \<and> alnum (hd s) \<and> alnum (last s) \<and> list_all P s"
proof (cases s)
  case Nil
  then show ?thesis by (simp add: matches_def)
next
  case (Cons c cs)
  have "matches (Seq (Cls alnum) (Opt (Seq (Rep (Cls P) n) (Cls alnum)))) s \<longleftrightarrow>
    alnum c \<and> (cs = [] \<or> (\<exists>pre d. cs = pre @ [d] \<and> length pre \<le> n \<and> list_all P pre \<and> alnum d))"
    by (auto simp: matches_def Cons rests_Rep_Cls split: list.splits if_splits)
  also have "\<dots> \<longleftrightarrow> length s \<le> n + 2 \<and> alnum c \<and> alnum (last s) \<and> list_all P s"
  proof (cases cs rule: rev_cases)
    case Nil
    with assms Cons show ?thesis by auto
  next
    case (snoc pre d)
    with assms \<open>s = c # cs\<close> show ?thesis by auto
  qed
  finally show ?thesis using Cons by simp
qed

lemma matches_keyPattern: "matches keyPattern s \<longleftrightarrow>
    s \<noteq> [] \<and> length s \<le> 128 \<and> alnum (hd s) \<and> alnum (last s) \<and> list_all key_char s"
  using matches_segment [of key_char 126 s] by (simp add: keyPattern_def key_char_def)

lemma matches_labelNamePattern: "matches labelNamePattern s \<longleftrightarrow>
    s \<noteq> [] \<and> length s \<le> 63 \<and> alnum (hd s) \<and> alnum (last s) \<and> list_all name_char s"
  using matches_segment [of name_char 61 s] by (simp add: labelNamePattern_def name_char_def)

lemma matches_labelValuePattern: "matches labelValuePattern s \<longleftrightarrow>
    s = [] \<or> matches labelNamePattern s"
  by (auto simp: matches_def labelValuePattern_def labelNamePattern_def)

section \<open>Request validation\<close>

text \<open>\<open>strings.Cut\<close>, \<open>strings.HasSuffix\<close> and \<open>strings.Split\<close> for a one-character separator.\<close>

definition cut :: "string \<Rightarrow> char \<Rightarrow> string \<times> string \<times> bool" where
  "cut s c = (if c \<in> set s
     then (takeWhile (\<lambda>d. d \<noteq> c) s, tl (dropWhile (\<lambda>d. d \<noteq> c) s), True)
     else (s, [], False))"

definition has_suffix :: "string \<Rightarrow> string \<Rightarrow> bool" where
  "has_suffix s suf \<longleftrightarrow> length suf \<le> length s \<and> drop (length s - length suf) s = suf"

fun split_on :: "char \<Rightarrow> string \<Rightarrow> string list" where
  "split_on c [] = [[]]"
| "split_on c (d # ds) =
     (if d = c then [] # split_on c ds
      else (case split_on c ds of [] \<Rightarrow> [[d]] | w # ws \<Rightarrow> (d # w) # ws))"

definition DefaultAllowedLabelDomain :: string where
  "DefaultAllowedLabelDomain = ''sandbox.users.io''"

text \<open>The loop over the DNS segments of the prefix: the first bad segment, if any.\<close>

definition bad_segment :: "string \<Rightarrow> bool" where
  "bad_segment part \<longleftrightarrow> part = [] \<or> 63 < length part \<or> \<not> matches labelNamePattern part"

definition validateLabel :: "string \<Rightarrow> string \<Rightarrow> string \<Rightarrow> go_error option" where
  "validateLabel key val allowedDomain =
     (case cut key (CHR ''/'') of (prefix, name, ok) \<Rightarrow>
      if \<not> ok \<or> prefix = [] \<or> name = [] then
        Some (NewError (''label key '' @ quote key @ '' must have domain prefix '' @ quote allowedDomain))
      else if 253 < length prefix then
        Some (NewError (''label key '' @ quote key @ '' prefix exceeds 253 characters''))
      else if prefix \<noteq> allowedDomain \<and> \<not> has_suffix prefix (''.'' @ allowedDomain) then
        Some (NewError (''label key '' @ quote key @ '' is outside allowlisted domain '' @ quote allowedDomain))
      else (case find bad_segment (split_on (CHR ''.'') prefix) of
        Some part \<Rightarrow> Some (NewError (''label key '' @ quote key @ '' has invalid domain segment '' @ quote part))
      | None \<Rightarrow>
        if 63 < length name \<or> \<not> matches labelNamePattern name then
          Some (NewError (''label key '' @ quote key @ '' has invalid name segment '' @ quote name))
        else if 63 < length val \<or> \<not> matches labelValuePattern val then
          Some (NewError (''label '' @ quote key @ '' has invalid value '' @ quote val))
        else None))"

text \<open>The \<open>range\<close> loop over the labels: the first error in the visiting order.\<close>

fun validate_labels :: "(string, string) gomap \<Rightarrow> string \<Rightarrow> go_error option" where
  "validate_labels [] dmn = None"
| "validate_labels ((k, v) # ls) dmn =
     (case validateLabel k v dmn of Some e \<Rightarrow> Some e | None \<Rightarrow> validate_labels ls dmn)"

definition ValidateWithDomain :: "claim_request \<Rightarrow> duration \<Rightarrow> string \<Rightarrow> go_error option" where
  "ValidateWithDomain r maxTTL allowedDomain =
     (if crKey r = [] then Some (NewError ''claim key is required'')
      else if 128 < length (crKey r) \<or> \<not> matches keyPattern (crKey r) then
        Some (NewError (''invalid claim key '' @ quote (crKey r) @ '': must be 1..128 characters of '' @
          ''[A-Za-z0-9._:-] starting and ending with an alphanumeric character''))
      else if crTTL r \<le> 0 then
        Some (NewError (''ttl must be positive, got '' @ dur_string (crTTL r)))
      else if 0 < maxTTL \<and> maxTTL < crTTL r then
        Some (NewError (''ttl '' @ dur_string (crTTL r) @ '' exceeds maximum '' @ dur_string maxTTL))
      else (let dmn = (if allowedDomain = [] then DefaultAllowedLabelDomain else allowedDomain) in
        if 64 < length (crLabels r) then
          Some (NewError (''too many labels ('' @ dec_nat (length (crLabels r)) @ '' > 64)''))
        else validate_labels (crLabels r) dmn))"

definition Validate :: "claim_request \<Rightarrow> duration \<Rightarrow> go_error option" where
  "Validate r maxTTL = ValidateWithDomain r maxTTL DefaultAllowedLabelDomain"

lemma validate_labels_None:
  "validate_labels ls dmn = None \<longleftrightarrow> (\<forall>(k, v) \<in> set ls. validateLabel k v dmn = None)"
  by (induction ls) (auto split: option.splits)

lemma split_on_not_Nil [simp]: "split_on c s \<noteq> []"
  by (induction s) (auto split: list.splits)

lemma join_Cons: "join sep ((d # w) # ws) = d # join sep (w # ws)"
  by (cases ws) simp_all

lemma join_Nil_Cons: "ws \<noteq> [] \<Longrightarrow> join sep ([] # ws) = sep @ join sep ws"
  by (cases ws) simp_all

lemma join_split_on: "join [c] (split_on c s) = s"
  by (induction s) (auto simp: join_Cons join_Nil_Cons split: list.splits)

lemma has_suffix_iff: "has_suffix s suf \<longleftrightarrow> (\<exists>pre. s = pre @ suf)"
proof
  assume "has_suffix s suf"
  then have "s = take (length s - length suf) s @ suf"
    by (metis append_take_drop_id has_suffix_def)
  then show "\<exists>pre. s = pre @ suf" by blast
qed (auto simp: has_suffix_def)

lemma cut_True: "cut s c = (p, n, True) \<longleftrightarrow> s = p @ c # n \<and> c \<notin> set p"
proof
  assume a: "cut s c = (p, n, True)"
  then have c: "c \<in> set s" "p = takeWhile (\<lambda>d. d \<noteq> c) s" "n = tl (dropWhile (\<lambda>d. d \<noteq> c) s)"
    by (auto simp: cut_def split: if_splits)
  from c(1) have ne: "dropWhile (\<lambda>d. d \<noteq> c) s \<noteq> []" by auto
  then have "hd (dropWhile (\<lambda>d. d \<noteq> c) s) = c" using hd_dropWhile by fast
  with ne c(3) have "dropWhile (\<lambda>d. d \<noteq> c) s = c # n" by (metis list.collapse)
  with c(2) show "s = p @ c # n \<and> c \<notin> set p"
    by (metis takeWhile_dropWhile_id set_takeWhileD)
next
  assume "s = p @ c # n \<and> c \<notin> set p"
  then show "cut s c = (p, n, True)"
    by (auto simp: cut_def takeWhile_tail dropWhile_append takeWhile_eq_all_conv
        dropWhile_eq_Nil_conv intro!: takeWhile_tail)
qed

text \<open>What an accepted label looks like: \<open>prefix/name\<close>, the prefix inside the allowed domain.\<close>

lemma validateLabel_None:
  "validateLabel key val dmn = None \<longleftrightarrow>
     (\<exists>prefix name. key = prefix @ CHR ''/'' # name \<and> CHR ''/'' \<notin> set prefix
        \<and> prefix \<noteq> [] \<and> length prefix \<le> 253
        \<and> (prefix = dmn \<or> (\<exists>sub. prefix = sub @ ''.'' @ dmn))
        \<and> (\<forall>part \<in> set (split_on (CHR ''.'') prefix). matches labelNamePattern part)
        \<and> matches labelNamePattern name \<and> (val = [] \<or> matches labelNamePattern val))"
proof -
  obtain p n ok where c: "cut key (CHR ''/'') = (p, n, ok)" by (cases "cut key (CHR ''/'')")
  have bad: "find bad_segment xs = None \<longleftrightarrow> (\<forall>x \<in> set xs. matches labelNamePattern x)" for xs
    by (auto simp: find_None_iff bad_segment_def matches_labelNamePattern)
  show ?thesis
  proof (cases ok)
    case True
    then have key: "cut key (CHR ''/'') = (p, n, True)" using c by simp
    have u: "key = p' @ CHR ''/'' # n' \<and> CHR ''/'' \<notin> set p' \<longleftrightarrow> p' = p \<and> n' = n" for p' n'
      unfolding cut_True [symmetric] key by auto
    have ex: "(\<exists>p' n'. key = p' @ CHR ''/'' # n' \<and> CHR ''/'' \<notin> set p' \<and> Q p' n') \<longleftrightarrow> Q p n" for Q
      unfolding conj_assoc [symmetric] u by simp
    have "validateLabel key val dmn = None \<longleftrightarrow> p \<noteq> [] \<and> n \<noteq> [] \<and> length p \<le> 253
        \<and> (p = dmn \<or> has_suffix p (''.'' @ dmn))
        \<and> find bad_segment (split_on (CHR ''.'') p) = None
        \<and> length n \<le> 63 \<and> matches labelNamePattern n
        \<and> length val \<le> 63 \<and> matches labelValuePattern val"
      unfolding validateLabel_def key
      by (cases "find bad_segment (split_on (CHR ''.'') p)") (simp_all add: not_less not_le)
    then show ?thesis
      unfolding ex has_suffix_iff bad
      by (auto simp: matches_labelValuePattern matches_labelNamePattern)
  next
    case False
    then have "\<nexists>p n. key = p @ CHR ''/'' # n \<and> CHR ''/'' \<notin> set p"
      using c cut_True by (metis prod.inject)
    then show ?thesis using c False by (auto simp: validateLabel_def)
  qed
qed

section \<open>The spec hash\<close>

text \<open>
  \<open>SpecHashOf\<close> feeds a byte stream to SHA-256 and keeps sixteen bytes. The stream is modelled
  byte by byte; the digest is the parameter \<open>sha\<close>. A length is written as eight big-endian bytes.
\<close>

fun be_bytes :: "nat \<Rightarrow> nat \<Rightarrow> string" where
  "be_bytes 0 n = []"
| "be_bytes (Suc k) n = be_bytes k (n div 256) @ [char_of (n mod 256)]"

definition write_bytes :: "string \<Rightarrow> string" where
  "write_bytes b = be_bytes 8 (length b) @ b"

text \<open>\<open>Duration.Round(time.Second)\<close>: half away from zero, saturating.\<close>

definition round_second :: "duration \<Rightarrow> duration" where
  "round_second d = (let r = \<bar>d\<bar> mod second in
     if d < 0 then
       (if r + r < second then d + r
        else if min_duration \<le> d - second + r then d - second + r else min_duration)
     else
       (if r + r < second then d - r
        else if d + second - r \<le> max_duration then d + second - r else max_duration))"

definition ttl_seconds :: "duration \<Rightarrow> int" where
  "ttl_seconds ttl = go_div (round_second ttl) second"

definition spec_preimage :: "string \<Rightarrow> (string, string) gomap \<Rightarrow> duration \<Rightarrow> string" where
  "spec_preimage template labels ttl =
     (let keys = sort_strings (map fst labels) in
      write_bytes template @ be_bytes 8 (length keys)
        @ concat (map (\<lambda>k. write_bytes k @ write_bytes (get_str labels k)) keys)
        @ be_bytes 8 (nat (ttl_seconds ttl mod 2 ^ 64)))"

definition hex_encode :: "string \<Rightarrow> string" where
  "hex_encode bs = concat (map (\<lambda>c. let n = of_char c in [hex_digit (n div 16), hex_digit (n mod 16)]) bs)"

definition SpecHashOf :: "(string \<Rightarrow> string) \<Rightarrow> string \<Rightarrow> (string, string) gomap \<Rightarrow> duration \<Rightarrow> string" where
  "SpecHashOf sha template labels ttl = hex_encode (take 16 (sha (spec_preimage template labels ttl)))"

definition owner_preimage :: "string \<Rightarrow> string \<Rightarrow> string \<Rightarrow> string" where
  "owner_preimage fullname ns clusterID = concat (map write_bytes [fullname, ns, clusterID])"

definition OwnerID :: "(string \<Rightarrow> string) \<Rightarrow> string \<Rightarrow> string \<Rightarrow> string \<Rightarrow> string" where
  "OwnerID sha fullname ns clusterID =
     ''ss-'' @ hex_encode (take 8 (sha (owner_preimage fullname ns clusterID)))"

lemma length_be_bytes [simp]: "length (be_bytes k n) = k"
  by (induction k arbitrary: n) auto

lemma be_bytes_inj:
  "n < 256 ^ k \<Longrightarrow> m < 256 ^ k \<Longrightarrow> be_bytes k n = be_bytes k m \<Longrightarrow> n = m"
proof (induction k arbitrary: n m)
  case 0
  then show ?case by simp
next
  case (Suc k)
  then have "be_bytes k (n div 256) = be_bytes k (m div 256)"
    and c: "char_of (n mod 256) = (char_of (m mod 256) :: char)" by auto
  moreover have "n div 256 < 256 ^ k" "m div 256 < 256 ^ k"
    using Suc.prems by (simp_all add: less_mult_imp_div_less mult.commute)
  ultimately have "n div 256 = m div 256" by (intro Suc.IH)
  moreover have "n mod 256 = m mod 256"
    using arg_cong [OF c, of "of_char :: char \<Rightarrow> nat"] by simp
  ultimately show ?case by (metis div_mult_mod_eq)
qed

text \<open>Lengths and counts fit eight bytes: a Go slice is shorter than \<open>2 ^ 63\<close>.\<close>

abbreviation short :: "'a list \<Rightarrow> bool" where
  "short xs \<equiv> length xs < 256 ^ 8"

lemma be_bytes_append:
  assumes "be_bytes 8 n @ x = be_bytes 8 m @ y" and "n < 256 ^ 8" and "m < 256 ^ 8"
  shows "n = m \<and> x = y"
proof -
  have "be_bytes 8 n = be_bytes 8 m" "x = y" using assms(1) by simp_all
  with assms be_bytes_inj show ?thesis by blast
qed

lemma write_bytes_append:
  assumes "write_bytes a @ x = write_bytes b @ y" and "short a" and "short b"
  shows "a = b \<and> x = y"
proof -
  have "be_bytes 8 (length a) @ (a @ x) = be_bytes 8 (length b) @ (b @ y)"
    using assms(1) by (simp add: write_bytes_def)
  with assms(2,3) have "length a = length b \<and> a @ x = b @ y" by (intro be_bytes_append)
  then show ?thesis using append_eq_append_conv [of a b x y] by blast
qed

text \<open>Length prefixes make a sequence of fields uniquely readable.\<close>

lemma fields_append:
  "length xs = length ys \<Longrightarrow> \<forall>s \<in> set xs \<union> set ys. short s \<Longrightarrow>
   concat (map write_bytes xs) @ u = concat (map write_bytes ys) @ v \<Longrightarrow> xs = ys \<and> u = v"
proof (induction xs ys rule: list_induct2)
  case (Cons a xs b ys)
  then have "write_bytes a @ (concat (map write_bytes xs) @ u)
      = write_bytes b @ (concat (map write_bytes ys) @ v)" by simp
  with Cons.prems(1) have "a = b \<and> concat (map write_bytes xs) @ u = concat (map write_bytes ys) @ v"
    by (intro write_bytes_append) auto
  with Cons show ?case by simp
qed simp

definition label_fields :: "(string, string) gomap \<Rightarrow> string list" where
  "label_fields labels = concat (map (\<lambda>k. [k, get_str labels k]) (sort_strings (map fst labels)))"

lemma spec_preimage_fields:
  "spec_preimage template labels ttl = write_bytes template @ be_bytes 8 (length labels)
     @ concat (map write_bytes (label_fields labels)) @ be_bytes 8 (nat (ttl_seconds ttl mod 2 ^ 64))"
proof -
  have "concat (map (\<lambda>k. write_bytes k @ write_bytes (get_str labels k)) ks)
      = concat (map write_bytes (concat (map (\<lambda>k. [k, get_str labels k]) ks)))" for ks
    by (induction ks) auto
  then show ?thesis
    by (simp add: spec_preimage_def label_fields_def Let_def sort_strings_def)
qed

lemma pairs_inj:
  "concat (map (\<lambda>k. [k, f k]) xs) = concat (map (\<lambda>k. [k, g k]) ys) \<Longrightarrow>
   xs = ys \<and> (\<forall>k \<in> set xs. f k = g k)"
proof (induction xs arbitrary: ys)
  case Nil
  then show ?case by (cases ys) auto
next
  case (Cons a xs)
  then show ?case by (cases ys) auto
qed

lemma length_pairs: "length (concat (map (\<lambda>k. [k, f k]) xs)) = 2 * length xs"
  by (induction xs) auto

lemma label_fields_inj:
  assumes "label_fields l = label_fields l'"
  shows "map_of l = map_of l'"
proof
  fix k
  let ?ks = "sort_strings (map fst l)" and ?ks' = "sort_strings (map fst l')"
  have eq: "?ks = ?ks' \<and> (\<forall>k \<in> set ?ks. get_str l k = get_str l' k)"
    using assms unfolding label_fields_def by (rule pairs_inj)
  have v: "k \<in> fst ` set l \<Longrightarrow> get_str l k = get_str l' k" using eq by auto
  have "set ?ks = set ?ks'" using eq by simp
  then have keys: "fst ` set l = fst ` set l'" by simp
  show "map_of l k = map_of l' k"
  proof (cases "k \<in> fst ` set l")
    case True
    with keys obtain a b where "map_of l k = Some a" "map_of l' k = Some b"
      by (metis map_of_eq_None_iff not_None_eq)
    with v [OF True] show ?thesis by (simp add: get_str_def)
  next
    case False
    with keys show ?thesis by (metis map_of_eq_None_iff)
  qed
qed

text \<open>
  Two requests have the same hash input only if they have the same template, the same labels
  (as maps, whatever order their iteration has) and the same lifetime in whole seconds: the
  encoding cannot be confused by where one field ends and the next begins.
\<close>

lemma spec_preimage_inj:
  assumes eq: "spec_preimage t l d = spec_preimage t' l' d'"
    and "short t" "short t'" "short l" "short l'"
    and "\<forall>s \<in> set (label_fields l) \<union> set (label_fields l'). short s"
  shows "t = t' \<and> map_of l = map_of l' \<and> ttl_seconds d mod 2 ^ 64 = ttl_seconds d' mod 2 ^ 64"
proof -
  let ?d = "nat (ttl_seconds d mod 2 ^ 64)" and ?d' = "nat (ttl_seconds d' mod 2 ^ 64)"
  let ?r = "concat (map write_bytes (label_fields l)) @ be_bytes 8 ?d"
  let ?r' = "concat (map write_bytes (label_fields l')) @ be_bytes 8 ?d'"
  have "t = t' \<and> be_bytes 8 (length l) @ ?r = be_bytes 8 (length l') @ ?r'"
    using eq assms(2,3) unfolding spec_preimage_fields by (intro write_bytes_append)
  then have t: "t = t'" and r: "length l = length l' \<and> ?r = ?r'"
    using assms(4,5) be_bytes_append by blast+
  have "length (label_fields l) = length (label_fields l')"
    using r by (simp add: label_fields_def length_pairs sort_strings_def)
  with r assms(6) have f: "label_fields l = label_fields l' \<and> be_bytes 8 ?d = be_bytes 8 ?d'"
    by (intro fields_append) auto
  have "?d < 256 ^ 8" "?d' < 256 ^ 8" by simp_all
  with f have "?d = ?d'" using be_bytes_inj by blast
  then have "ttl_seconds d mod 2 ^ 64 = ttl_seconds d' mod 2 ^ 64" by (simp add: eq_nat_nat_iff)
  with t f label_fields_inj show ?thesis by blast
qed

text \<open>The other direction: the input depends on the labels only as a map.\<close>

lemma spec_preimage_cong:
  assumes "wf_map l" "wf_map l'" "map_of l = map_of l'"
  shows "spec_preimage t l d = spec_preimage t l' d"
proof -
  have "set (map fst l) = set (map fst l')"
    using assms(3) by (metis dom_map_of_conv_image_fst list.set_map)
  then have "mset (map fst l) = mset (map fst l')"
    using assms(1,2) set_eq_iff_mset_eq_distinct unfolding wf_map_def by blast
  then have k: "sort_strings (map fst l) = sort_strings (map fst l')"
    by (rule sort_strings_unique)
  have "get_str l = get_str l'" using assms(3) by (simp add: get_str_def fun_eq_iff)
  with k show ?thesis by (simp add: spec_preimage_def)
qed

lemma ttl_seconds_whole:
  assumes "0 \<le> n" and "n * second \<le> max_duration"
  shows "ttl_seconds (n * second) = n"
proof -
  have s: "0 < second" by (simp add: second_def)
  have "0 \<le> n * second" using assms s by simp
  moreover have "\<bar>n * second\<bar> mod second = 0" using \<open>0 \<le> n * second\<close> by simp
  ultimately have "round_second (n * second) = n * second"
    using s by (simp add: round_second_def Let_def)
  then show ?thesis using assms s by (simp add: ttl_seconds_def go_div_nonneg)
qed

section \<open>Properties\<close>

text \<open>A claim request is accepted exactly when its key has 1 to 128 characters of [A-Za-z0-9._:-] with an
  alphanumeric first and last one, its TTL is positive and within the maximum (if there is one), and it
  has at most 64 labels, each of them \<open>prefix/name\<close> with the prefix equal to the allowed domain or a
  subdomain of it, every DNS segment and the name well formed, and the value empty or well formed.\<close>

theorem ValidateWithDomain_accepts:
  "ValidateWithDomain r maxTTL allowedDomain = None \<longleftrightarrow>
     (crKey r \<noteq> [] \<and> length (crKey r) \<le> 128 \<and> alnum (hd (crKey r)) \<and> alnum (last (crKey r)) \<and>
        list_all key_char (crKey r)) \<and>
     0 < crTTL r \<and> (maxTTL \<le> 0 \<or> crTTL r \<le> maxTTL) \<and> length (crLabels r) \<le> 64 \<and>
     list_all (\<lambda>(key, val). \<exists>prefix name. key = prefix @ CHR ''/'' # name \<and> CHR ''/'' \<notin> set prefix \<and>
        prefix \<noteq> [] \<and> length prefix \<le> 253 \<and>
        (let dmn = (if allowedDomain = [] then ''sandbox.users.io'' else allowedDomain)
         in prefix = dmn \<or> (\<exists>sub. prefix = sub @ ''.'' @ dmn)) \<and>
        list_all (matches labelNamePattern) (split_on (CHR ''.'') prefix) \<and>
        matches labelNamePattern name \<and> (val = [] \<or> matches labelNamePattern val)) (crLabels r)"
proof -
  define dmn where "dmn = (if allowedDomain = [] then ''sandbox.users.io'' else allowedDomain)"
  have d: "(if allowedDomain = [] then DefaultAllowedLabelDomain else allowedDomain) = dmn"
    by (simp add: dmn_def DefaultAllowedLabelDomain_def)
  have l: "validate_labels (crLabels r) dmn = None \<longleftrightarrow>
      list_all (\<lambda>(key, val). \<exists>prefix name. key = prefix @ CHR ''/'' # name \<and> CHR ''/'' \<notin> set prefix \<and>
        prefix \<noteq> [] \<and> length prefix \<le> 253 \<and> (prefix = dmn \<or> (\<exists>sub. prefix = sub @ ''.'' @ dmn)) \<and>
        list_all (matches labelNamePattern) (split_on (CHR ''.'') prefix) \<and>
        matches labelNamePattern name \<and> (val = [] \<or> matches labelNamePattern val)) (crLabels r)"
    unfolding validate_labels_None validateLabel_None list_all_iff by (simp only: case_prod_unfold)
  have "ValidateWithDomain r maxTTL allowedDomain = None \<longleftrightarrow>
      crKey r \<noteq> [] \<and> \<not> (128 < length (crKey r) \<or> \<not> matches keyPattern (crKey r)) \<and> \<not> crTTL r \<le> 0 \<and>
      \<not> (0 < maxTTL \<and> maxTTL < crTTL r) \<and> \<not> 64 < length (crLabels r) \<and> validate_labels (crLabels r) dmn = None"
    unfolding ValidateWithDomain_def d Let_def by (simp only: split: if_split) simp
  then show ?thesis unfolding l matches_keyPattern dmn_def [symmetric] Let_def by (auto simp: not_less not_le)
qed

text \<open>C13: Two requests have the same spec hash exactly when they have the same template, the same labels as
  maps (in whatever order they are visited) and the same TTL in whole seconds, provided SHA-256 cut to
  sixteen bytes does not collide on the two inputs and no field is 2^64 bytes or longer.\<close>

theorem SpecHashOf_identifies:
  assumes "wf_map l" and "wf_map l'" and "short t" and "short t'" and "short l" and "short l'"
    and "\<forall>s \<in> set (label_fields l) \<union> set (label_fields l'). short s"
    and "min_duration \<le> d" and "d \<le> max_duration" and "min_duration \<le> d'" and "d' \<le> max_duration"
    and no_collision: "SpecHashOf sha t l d = SpecHashOf sha t' l' d' \<longrightarrow>
      spec_preimage t l d = spec_preimage t' l' d'"
  shows "SpecHashOf sha t l d = SpecHashOf sha t' l' d' \<longleftrightarrow>
    t = t' \<and> go_get l = go_get l' \<and> ttl_seconds d = ttl_seconds d'"
proof -
  have bound: "\<bar>ttl_seconds x\<bar> < 2 ^ 62" if "min_duration \<le> x" "x \<le> max_duration" for x
  proof -
    have r: "\<bar>round_second x\<bar> \<le> 2 ^ 63 + second"
      using that by (auto simp: round_second_def Let_def second_def min_duration_def max_duration_def)
    have "\<bar>ttl_seconds x\<bar> \<le> \<bar>round_second x\<bar> div second"
      by (auto simp: ttl_seconds_def go_div_def abs_mult second_def sgn_if)
    also have "\<dots> \<le> (2 ^ 63 + second) div second"
      using r by (intro zdiv_mono1) (simp_all add: second_def)
    also have "\<dots> < 2 ^ 62" by (simp add: second_def)
    finally show ?thesis .
  qed
  have eq: "ttl_seconds d = ttl_seconds d'" if "ttl_seconds d mod 2 ^ 64 = ttl_seconds d' mod 2 ^ 64"
  proof -
    have "wrap64 (ttl_seconds d) = wrap64 (ttl_seconds d')"
      unfolding wrap64_def by (metis that mod_add_left_eq)
    moreover have "wrap64 (ttl_seconds d) = ttl_seconds d"
      using bound [OF assms(8,9)] by (intro wrap64_id) auto
    moreover have "wrap64 (ttl_seconds d') = ttl_seconds d'"
      using bound [OF assms(10,11)] by (intro wrap64_id) auto
    ultimately show ?thesis by simp
  qed
  show ?thesis
  proof
    assume "SpecHashOf sha t l d = SpecHashOf sha t' l' d'"
    then have "spec_preimage t l d = spec_preimage t' l' d'" using no_collision by blast
    from spec_preimage_inj [OF this assms(3-7)] eq
    show "t = t' \<and> go_get l = go_get l' \<and> ttl_seconds d = ttl_seconds d'" by blast
  next
    assume a: "t = t' \<and> go_get l = go_get l' \<and> ttl_seconds d = ttl_seconds d'"
    then have "spec_preimage t l d = spec_preimage t' l' d" using spec_preimage_cong [OF assms(1,2)] by simp
    also have "\<dots> = spec_preimage t' l' d'" using a by (simp add: spec_preimage_def)
    finally show "SpecHashOf sha t l d = SpecHashOf sha t' l' d'" by (simp add: SpecHashOf_def)
  qed
qed

theorem SpecHashOf_identifies_witness:
  "SpecHashOf (\<lambda>s. s) [] [(''a'', ''b''), (''c'', [])] second = SpecHashOf (\<lambda>s. s) [] [(''c'', []), (''a'', ''b'')] second"
proof -
  let ?l = "[(''a'', ''b''), (''c'', [])]" and ?m = "[(''c'', []), (''a'', ''b'')]"
  have wf: "wf_map ?l" "wf_map ?m" and g: "go_get ?l = go_get ?m"
    by (auto simp: wf_map_def fun_eq_iff)
  have s: "\<forall>s \<in> set (label_fields ?l) \<union> set (label_fields ?m). short s"
    by (auto simp: label_fields_def get_str_def)
  have c: "spec_preimage [] ?l second = spec_preimage [] ?m second" by (rule spec_preimage_cong [OF wf g])
  have b: "min_duration \<le> second" "second \<le> max_duration"
    by (simp_all add: min_duration_def max_duration_def second_def)
  show ?thesis
    by (rule SpecHashOf_identifies [THEN iffD2]) (use wf g s b c in simp_all)
qed

text \<open>A failure kind survives the trip through its protocol code, and an unknown or unspecified code of a
  newer sidecar never becomes a kind on which a claim spills to another provider.\<close>

theorem KindFromProto_roundtrip:
  "KindFromProto (ToProtoKind (KindOf err)) = KindOf err \<and>
   (spilling_kind (KindFromProto code) \<longleftrightarrow> code \<in> {2, 3, 4, 5})"
proof
  show "KindFromProto (ToProtoKind (KindOf err)) = KindOf err"
    using KindOf_not_Other by (cases "KindOf err") (auto simp: KindFromProto_def)
qed (auto simp: KindFromProto_def spilling_kind_def)

end
