(* ===== verification/Registry.thy ===== *)
theory Registry
  imports Framework LedgerConc Provider
begin

text \<open>
  \<open>pkg/registry/registry.go\<close>: the capacity view. Maps are association lists in visiting order; the
  ledgers are objects shared between the entries and the lock-free view, so they live in a heap and the
  entries hold references. Each method that takes the lock is one function; a fetch is split into its
  start and \<open>poll_result\<close>, with the provider's answer as an argument and anything else in between. The
  clock is an argument of each method, once per reading of it.
\<close>

section \<open>State\<close>

record source =
  soProviderID :: string
  soToken :: nat

record provider_config =
  pcAttributes :: "(string, string) gomap"
  pcTemplates :: "(string, string) gomap"
  pcCostPerHour :: rat
  pcElasticWarmScore :: "int option"

definition empty_config :: provider_config where
  "empty_config = \<lparr>pcAttributes = [], pcTemplates = [], pcCostPerHour = 0, pcElasticWarmScore = None\<rparr>"

definition empty_report :: report where
  "empty_report = \<lparr>repWarmCapacity = 0, repElastic = False, repAttributes = []\<rparr>"

record entry =
  eConfig :: provider_config
  eReport :: report
  eUpdatedAt :: gotime
  eEverReported :: bool
  eLastErr :: "go_error option"
  eLedger :: nat

text \<open>\<open>plCancel\<close> is the fetch whose context the current \<open>cancel\<close> function cancels.\<close>

record polled =
  plSource :: source
  plInterval :: duration
  plNextDue :: gotime
  plInFlight :: bool
  plGen :: nat
  plCancel :: "nat option"

record registry =
  r_entries :: "(string, entry) gomap"
  r_sources :: "(string, polled) gomap"
  r_heap :: "ledger list"
  r_ledgers :: "(string, nat) gomap"
  r_staleAfter :: duration
  r_fetchTimeout :: duration
  r_reservationGrace :: duration
  r_coldStartWindow :: duration
  r_defaultInterval :: duration
  r_wake :: bool
  r_lastGen :: nat
  r_nextFetch :: nat
  r_cancelled :: "nat list"

record reg_options =
  oStaleAfter :: duration
  oFetchTimeout :: duration
  oReservationGrace :: duration
  oColdStartWindow :: duration

definition New_registry :: "reg_options \<Rightarrow> registry" where
  "New_registry opts =
     \<lparr>r_entries = [], r_sources = [], r_heap = [], r_ledgers = [],
      r_staleAfter = (if oStaleAfter opts \<le> 0 then 30 * second else oStaleAfter opts),
      r_fetchTimeout = (if oFetchTimeout opts \<le> 0 then 5 * second else oFetchTimeout opts),
      r_reservationGrace = (if oReservationGrace opts \<le> 0 then 5 * second else oReservationGrace opts),
      r_coldStartWindow = (if oColdStartWindow opts \<le> 0 then 30 * second else oColdStartWindow opts),
      r_defaultInterval = 0, r_wake = False, r_lastGen = 0, r_nextFetch = 0, r_cancelled = []\<rparr>"

section \<open>Entries and their ledgers\<close>

definition publishLedgers :: "registry \<Rightarrow> registry" where
  "publishLedgers r = r\<lparr>r_ledgers := map (\<lambda>(pid, e). (pid, eLedger e)) (r_entries r)\<rparr>"

text \<open>The method \<open>entry\<close>: creates a missing entry with a fresh ledger.\<close>

definition ensure_entry :: "string \<Rightarrow> registry \<Rightarrow> registry" where
  "ensure_entry pid r =
     (case go_get (r_entries r) pid of
        Some e \<Rightarrow> r
      | None \<Rightarrow>
          publishLedgers (r\<lparr>r_heap := r_heap r @ [newLedger (r_reservationGrace r) (r_fetchTimeout r) (r_coldStartWindow r)],
            r_entries := go_put pid \<lparr>eConfig = empty_config, eReport = empty_report, eUpdatedAt = zero_time,
              eEverReported = False, eLastErr = None, eLedger = length (r_heap r)\<rparr> (r_entries r)\<rparr>))"

definition update_entry :: "string \<Rightarrow> (entry \<Rightarrow> entry) \<Rightarrow> registry \<Rightarrow> registry" where
  "update_entry pid f r = r\<lparr>r_entries := map (\<lambda>(k, e). (k, if k = pid then f e else e)) (r_entries r)\<rparr>"

definition update_ledger :: "nat \<Rightarrow> (ledger \<Rightarrow> ledger) \<Rightarrow> registry \<Rightarrow> registry" where
  "update_ledger ref f r = r\<lparr>r_heap := (r_heap r)[ref := f (r_heap r ! ref)]\<rparr>"

definition setReport :: "string \<Rightarrow> report \<Rightarrow> gotime \<Rightarrow> gotime \<Rightarrow> registry \<Rightarrow> registry" where
  "setReport pid rep upd cutoff r =
     (case go_get (r_entries r) pid of
        None \<Rightarrow> r
      | Some e \<Rightarrow>
          update_ledger (eLedger e) (\<lambda>l. clearBefore cutoff (setWarm (repWarmCapacity rep) l))
            (update_entry pid (\<lambda>e. e\<lparr>eReport := rep, eUpdatedAt := upd, eEverReported := True, eLastErr := None\<rparr>) r))"

section \<open>Sources and their schedule\<close>

definition wakeRun :: "registry \<Rightarrow> registry" where
  "wakeRun r = r\<lparr>r_wake := True\<rparr>"

definition intervalOf :: "registry \<Rightarrow> polled \<Rightarrow> duration" where
  "intervalOf r p =
     (if plInterval p > 0 then plInterval p
      else if r_defaultInterval r > 0 then r_defaultInterval r
      else 10 * second)"

text \<open>\<open>retire\<close>: the retired source and the fetches whose context it cancels.\<close>

definition retire :: "polled \<Rightarrow> polled \<times> nat list" where
  "retire p = (p\<lparr>plCancel := None, plInFlight := False\<rparr>, case plCancel p of None \<Rightarrow> [] | Some f \<Rightarrow> [f])"

definition AddSource :: "source \<Rightarrow> registry \<Rightarrow> registry" where
  "AddSource s r =
     (let pid = soProviderID s;
          p0 = (case go_get (r_sources r) pid of
                  Some p \<Rightarrow> p
                | None \<Rightarrow> \<lparr>plSource = s, plInterval = 0, plNextDue = zero_time, plInFlight = False,
                           plGen = 0, plCancel = None\<rparr>);
          gen = r_lastGen r + 1
      in (case retire p0 of (p, cancelled) \<Rightarrow>
            ensure_entry pid (wakeRun (r\<lparr>r_lastGen := gen, r_cancelled := r_cancelled r @ cancelled,
              r_sources := go_put pid (p\<lparr>plGen := gen, plSource := s, plNextDue := zero_time\<rparr>) (r_sources r)\<rparr>))))"

definition HasSource :: "string \<Rightarrow> registry \<Rightarrow> bool" where
  "HasSource pid r = (go_get (r_sources r) pid \<noteq> None)"

definition SetRefreshInterval :: "gotime \<Rightarrow> string \<Rightarrow> duration \<Rightarrow> registry \<Rightarrow> registry" where
  "SetRefreshInterval now pid d r =
     (let d = (if d < 0 then 0 else d) in
      case go_get (r_sources r) pid of
        None \<Rightarrow> r
      | Some p \<Rightarrow>
          (if plInterval p = d then r
           else (let p = p\<lparr>plInterval := d\<rparr>;
                     nxt = now + intervalOf r p;
                     p = (if nxt < plNextDue p then p\<lparr>plNextDue := nxt\<rparr> else p)
                 in wakeRun (r\<lparr>r_sources := go_put pid p (r_sources r)\<rparr>))))"

definition SetConfig :: "string \<Rightarrow> provider_config \<Rightarrow> registry \<Rightarrow> registry" where
  "SetConfig pid cfg r = update_entry pid (\<lambda>e. e\<lparr>eConfig := cfg\<rparr>) (ensure_entry pid r)"

definition RemoveSource :: "string \<Rightarrow> registry \<Rightarrow> registry" where
  "RemoveSource pid r =
     (let cancelled = (case go_get (r_sources r) pid of None \<Rightarrow> [] | Some p \<Rightarrow> snd (retire p))
      in publishLedgers (r\<lparr>r_cancelled := r_cancelled r @ cancelled,
           r_sources := go_delete pid (r_sources r), r_entries := go_delete pid (r_entries r)\<rparr>))"

text \<open>The method \<open>Report\<close> for providers that push.\<close>

definition Report_push :: "gotime \<Rightarrow> string \<Rightarrow> report \<Rightarrow> registry \<Rightarrow> registry" where
  "Report_push now pid rep r = setReport pid rep now (now - r_reservationGrace r) (ensure_entry pid r)"

section \<open>Reservations\<close>

record ticket =
  tkProvider :: string
  tkSec :: u32
  tkValid :: bool

definition no_ticket :: ticket where
  "no_ticket = \<lparr>tkProvider = [], tkSec = 0, tkValid = False\<rparr>"

definition TryReserveWarmTicket :: "gotime \<Rightarrow> string \<Rightarrow> registry \<Rightarrow> registry \<times> ticket \<times> bool" where
  "TryReserveWarmTicket now pid r =
     (case go_get (r_ledgers r) pid of
        None \<Rightarrow> (r, no_ticket, False)
      | Some ref \<Rightarrow> (case tryReserve now (r_heap r ! ref) of (l, sec, ok) \<Rightarrow>
          (let r = update_ledger ref (\<lambda>_. l) r in
           if \<not> ok then (r, no_ticket, False)
           else (r, \<lparr>tkProvider = pid, tkSec = sec, tkValid = True\<rparr>, True))))"

definition TryReserveWarm :: "gotime \<Rightarrow> string \<Rightarrow> registry \<Rightarrow> registry \<times> bool" where
  "TryReserveWarm now pid r = (case TryReserveWarmTicket now pid r of (r, t, ok) \<Rightarrow> (r, ok))"

definition ReleaseReservationTicket :: "ticket \<Rightarrow> registry \<Rightarrow> registry \<times> bool" where
  "ReleaseReservationTicket t r =
     (if \<not> tkValid t then (r, False)
      else (case go_get (r_ledgers r) (tkProvider t) of
        None \<Rightarrow> (r, False)
      | Some ref \<Rightarrow> (case releaseAt (tkSec t) (r_heap r ! ref) of (l, ok) \<Rightarrow> (update_ledger ref (\<lambda>_. l) r, ok))))"

definition ReleaseReservation :: "gotime \<Rightarrow> string \<Rightarrow> registry \<Rightarrow> registry \<times> bool" where
  "ReleaseReservation now pid r =
     (case go_get (r_ledgers r) pid of
        None \<Rightarrow> (r, False)
      | Some ref \<Rightarrow> (case release_now now (r_heap r ! ref) of (l, ok) \<Rightarrow> (update_ledger ref (\<lambda>_. l) r, ok)))"

definition RecordColdPlacement :: "gotime \<Rightarrow> string \<Rightarrow> registry \<Rightarrow> registry" where
  "RecordColdPlacement now pid r =
     (case go_get (r_ledgers r) pid of None \<Rightarrow> r | Some ref \<Rightarrow> update_ledger ref (recordCold now) r)"

section \<open>Polling\<close>

text \<open>
  \<open>poll\<close> after the fetch returned: \<open>started\<close> was read before it, \<open>finished\<close> when the report is
  recorded. An answer for a source that has been replaced or removed is dropped.
\<close>

definition poll_result :: "gotime \<Rightarrow> gotime \<Rightarrow> source \<Rightarrow> nat \<Rightarrow> go_error + report \<Rightarrow> registry \<Rightarrow> registry" where
  "poll_result started finished s gen answer r =
     (let pid = soProviderID s in
      case go_get (r_sources r) pid of
        None \<Rightarrow> r
      | Some p \<Rightarrow>
          (if plGen p \<noteq> gen then r
           else (case go_get (r_entries r) pid of
             None \<Rightarrow> r
           | Some e \<Rightarrow> (case answer of
               Inl err \<Rightarrow> update_entry pid (\<lambda>e. e\<lparr>eLastErr := Some err\<rparr>) r
             | Inr rep \<Rightarrow> setReport pid rep finished (started - r_reservationGrace r) r))))"

text \<open>\<open>Refresh\<close> before its goroutines: the jobs and the moved schedule.\<close>

definition Refresh_jobs :: "gotime \<Rightarrow> registry \<Rightarrow> (source \<times> nat) list \<times> registry" where
  "Refresh_jobs now r =
     (map (\<lambda>(pid, p). (plSource p, plGen p)) (r_sources r),
      r\<lparr>r_sources := map (\<lambda>(pid, p). (pid, p\<lparr>plNextDue := now + intervalOf r p\<rparr>)) (r_sources r)\<rparr>)"

definition Run_init :: "duration \<Rightarrow> registry \<Rightarrow> registry" where
  "Run_init interval r =
     (let interval = (if interval \<le> 0 then 10 * second else interval) in
      r\<lparr>r_defaultInterval := interval,
        r_sources := map (\<lambda>(pid, p). (pid, p\<lparr>plNextDue := zero_time\<rparr>)) (r_sources r)\<rparr>)"

text \<open>
  The body of the loop of \<open>pollDue\<close> on one source: its new state and whether a fetch starts; and the
  loop: the scanned sources, the fetches started, the wait.
\<close>

definition due_step :: "gotime \<Rightarrow> registry \<Rightarrow> nat \<Rightarrow> polled \<Rightarrow> polled \<times> bool" where
  "due_step now r fetch p =
     (if plInFlight p then (p, False)
      else if \<not> now < plNextDue p then
        (p\<lparr>plInFlight := True, plCancel := Some fetch, plNextDue := now + intervalOf r p\<rparr>, True)
      else (p, False))"

fun due_loop :: "gotime \<Rightarrow> registry \<Rightarrow> (string, polled) gomap \<Rightarrow> nat \<Rightarrow> duration
    \<Rightarrow> (string, polled) gomap \<times> (source \<times> nat \<times> nat) list \<times> duration" where
  "due_loop now r [] fetch wait = ([], [], wait)"
| "due_loop now r ((pid, p) # ps) fetch wait =
     (case due_step now r fetch p of (p', due) \<Rightarrow>
       (let d = time_sub (plNextDue p') now;
            wait' = (if plInFlight p then wait else if d < wait then d else wait)
        in (case due_loop now r ps (if due then fetch + 1 else fetch) wait' of (ps', started, w) \<Rightarrow>
             ((pid, p') # ps', if due then (plSource p, plGen p, fetch) # started else started, w))))"

definition pollDue :: "gotime \<Rightarrow> registry \<Rightarrow> registry \<times> (source \<times> nat \<times> nat) list \<times> duration" where
  "pollDue now r =
     (case due_loop now r (r_sources r) (r_nextFetch r) minute of (ps, started, wait) \<Rightarrow>
       (r\<lparr>r_sources := ps, r_nextFetch := r_nextFetch r + length started\<rparr>, started, wait))"

text \<open>The end of the goroutine \<open>pollDue\<close> started, after its \<open>poll\<close>.\<close>

definition fetch_done :: "source \<Rightarrow> nat \<Rightarrow> nat \<Rightarrow> registry \<Rightarrow> registry" where
  "fetch_done s gen fetch r =
     (let r = (case go_get (r_sources r) (soProviderID s) of
                 None \<Rightarrow> r
               | Some p \<Rightarrow> (if plGen p = gen
                   then r\<lparr>r_sources := go_put (soProviderID s) (p\<lparr>plInFlight := False, plCancel := None\<rparr>) (r_sources r)\<rparr>
                   else r))
      in (wakeRun r)\<lparr>r_cancelled := r_cancelled r @ [fetch]\<rparr>)"

section \<open>Reading\<close>

definition candidate_of :: "gotime \<Rightarrow> registry \<Rightarrow> string \<times> entry \<Rightarrow> candidate" where
  "candidate_of now r = (\<lambda>(pid, e).
     (let elasticScore = (case pcElasticWarmScore (eConfig e) of None \<Rightarrow> 0 | Some s \<Rightarrow> if s \<le> 0 then -1 else s);
          l = r_heap r ! eLedger e
      in \<lparr>cProvider = pid, cReachable = eEverReported e \<and> time_sub now (eUpdatedAt e) \<le> r_staleAfter r,
          cWarmCapacity = available l, cElastic = repElastic (eReport e), cElasticWarmScore = elasticScore,
          cInFlightCold = inFlightCold now l,
          cAttributes = go_copy (pcAttributes (eConfig e)) [],
          cTemplates = go_copy (pcTemplates (eConfig e)) [],
          cCostPerHour = pcCostPerHour (eConfig e)\<rparr>))"

definition Snapshot :: "gotime \<Rightarrow> registry \<Rightarrow> candidate list" where
  "Snapshot now r = stable_sort (\<lambda>x y. cProvider x < cProvider y) (map (candidate_of now r) (r_entries r))"

record status =
  stProvider :: string
  stReachable :: bool
  stStale :: bool
  stAge :: duration
  stUpdatedAt :: gotime
  stReport :: report
  stReserved :: int
  stInFlightCold :: int
  stConfig :: provider_config
  stLastError :: "go_error option"

definition status_of :: "gotime \<Rightarrow> registry \<Rightarrow> string \<times> entry \<Rightarrow> status" where
  "status_of now r = (\<lambda>(pid, e).
     (let age = (if eEverReported e then time_sub now (eUpdatedAt e) else 0);
          l = r_heap r ! eLedger e
      in \<lparr>stProvider = pid, stReachable = eEverReported e \<and> age \<le> r_staleAfter r,
          stStale = eEverReported e \<and> age > r_staleAfter r, stAge = age, stUpdatedAt = eUpdatedAt e,
          stReport = eReport e, stReserved = reserved l, stInFlightCold = inFlightCold now l,
          stConfig = eConfig e, stLastError = eLastErr e\<rparr>))"

definition Statuses :: "gotime \<Rightarrow> registry \<Rightarrow> status list" where
  "Statuses now r = stable_sort (\<lambda>x y. stProvider x < stProvider y) (map (status_of now r) (r_entries r))"

section \<open>The invariant\<close>

text \<open>
  Keys are unique, every polled source has an entry, the lock-free view shows exactly the ledgers of
  the entries, no two entries share one, the ledgers are at rest, and generations identify sources.
\<close>

definition view_of :: "(string, entry) gomap \<Rightarrow> (string, nat) gomap" where
  "view_of es = map (\<lambda>(pid, e). (pid, eLedger e)) es"

definition rinv :: "registry \<Rightarrow> bool" where
  "rinv r \<longleftrightarrow> wf_map (r_entries r) \<and> wf_map (r_sources r) \<and>
     fst ` set (r_sources r) \<subseteq> fst ` set (r_entries r) \<and>
     r_ledgers r = view_of (r_entries r) \<and>
     distinct (map (eLedger \<circ> snd) (r_entries r)) \<and>
     (\<forall>e \<in> snd ` set (r_entries r). eLedger e < length (r_heap r)) \<and>
     (\<forall>l \<in> set (r_heap r). quiet l) \<and>
     (\<forall>(pid, p) \<in> set (r_sources r). soProviderID (plSource p) = pid \<and> plGen p \<le> r_lastGen r) \<and>
     distinct (map (plGen \<circ> snd) (r_sources r))"

lemma rinvD:
  assumes "rinv r"
  shows "wf_map (r_entries r)" and "wf_map (r_sources r)"
    and "fst ` set (r_sources r) \<subseteq> fst ` set (r_entries r)" and "r_ledgers r = view_of (r_entries r)"
    and "distinct (map (eLedger \<circ> snd) (r_entries r))"
    and "\<And>pid e. (pid, e) \<in> set (r_entries r) \<Longrightarrow> eLedger e < length (r_heap r)"
    and "\<And>l. l \<in> set (r_heap r) \<Longrightarrow> quiet l"
    and "\<And>pid p. (pid, p) \<in> set (r_sources r) \<Longrightarrow> soProviderID (plSource p) = pid"
    and "\<And>pid p. (pid, p) \<in> set (r_sources r) \<Longrightarrow> plGen p \<le> r_lastGen r"
    and "distinct (map (plGen \<circ> snd) (r_sources r))"
  using assms unfolding rinv_def by (force simp: case_prod_unfold)+

lemma go_get_view: "go_get (view_of es) pid = map_option eLedger (go_get es pid)"
  by (induction es) (auto simp: view_of_def)

lemma rinv_New: "rinv (New_registry opts)"
  by (simp add: rinv_def New_registry_def wf_map_def view_of_def)

text \<open>The schedule of a source plays no part in the invariant.\<close>

definition src_id :: "string \<times> polled \<Rightarrow> string \<times> source \<times> nat" where
  "src_id kp = (fst kp, plSource (snd kp), plGen (snd kp))"

lemma rinv_cong:
  assumes "r_entries r' = r_entries r" and "map src_id (r_sources r') = map src_id (r_sources r)"
    and "r_heap r' = r_heap r" and "r_ledgers r' = r_ledgers r" and "r_lastGen r' = r_lastGen r"
  shows "rinv r' = rinv r"
proof -
  have f: "map fst (r_sources x) = map fst (map src_id (r_sources x))"
    "map (plGen \<circ> snd) (r_sources x) = map (snd \<circ> snd) (map src_id (r_sources x))" for x
    by (simp_all add: src_id_def)
  have all: "(\<forall>(pid, p) \<in> set (r_sources x). soProviderID (plSource p) = pid \<and> plGen p \<le> g)
      \<longleftrightarrow> (\<forall>(pid, s, gen) \<in> set (map src_id (r_sources x)). soProviderID s = pid \<and> gen \<le> g)" for x g
    by (auto simp: src_id_def)
  have keys: "fst ` set (r_sources x) = set (map fst (r_sources x))" for x by simp
  show ?thesis unfolding rinv_def wf_map_def keys f all assms by simp
qed

lemma src_id_put:
  "go_get m k = Some p \<Longrightarrow> plSource p' = plSource p \<Longrightarrow> plGen p' = plGen p \<Longrightarrow>
   map src_id (go_put k p' m) = map src_id m"
  by (induction m) (auto simp: src_id_def split: if_splits)

lemma rinv_wake [simp]: "rinv (wakeRun r) = rinv r"
  by (rule rinv_cong) (simp_all add: wakeRun_def)

lemma rinv_SetRefreshInterval: "rinv r \<Longrightarrow> rinv (SetRefreshInterval now pid d r)"
proof -
  assume r: "rinv r"
  have *: "rinv (r\<lparr>r_sources := go_put pid p' (r_sources r)\<rparr>)"
    if "go_get (r_sources r) pid = Some p" "plSource p' = plSource p" "plGen p' = plGen p" for p p'
    using r src_id_put [OF that] by (subst rinv_cong [of _ r]) simp_all
  show ?thesis using r * by (auto simp: SetRefreshInterval_def Let_def split: option.splits)
qed

lemma rinv_fetch_done: "rinv r \<Longrightarrow> rinv (fetch_done s gen fetch r)"
proof -
  assume r: "rinv r"
  let ?pid = "soProviderID s"
  have c: "rinv (x\<lparr>r_cancelled := y\<rparr>) = rinv x" for x y by (rule rinv_cong) simp_all
  have *: "rinv (r\<lparr>r_sources := go_put ?pid p' (r_sources r)\<rparr>)"
    if "go_get (r_sources r) ?pid = Some p" "plSource p' = plSource p" "plGen p' = plGen p" for p p'
    using r src_id_put [OF that] by (subst rinv_cong [of _ r]) simp_all
  show ?thesis using r * by (auto simp: fetch_done_def Let_def c split: option.splits)
qed

lemma due_step_src: "due_step now r fetch p = (p', due) \<Longrightarrow> plSource p' = plSource p \<and> plGen p' = plGen p"
  by (auto simp: due_step_def split: if_splits)

lemma due_loop_src: "map src_id (fst (due_loop now r ps fetch wait)) = map src_id ps"
proof (induction ps arbitrary: fetch wait)
  case (Cons kp ps)
  obtain k p where kp: "kp = (k, p)" by (cases kp)
  obtain p' due where d: "due_step now r fetch p = (p', due)" by fastforce
  show ?case using Cons due_step_src [OF d]
    by (simp add: kp d Let_def case_prod_unfold) (simp add: src_id_def)
qed simp

lemma rinv_pollDue: "rinv r \<Longrightarrow> rinv (fst (pollDue now r))"
proof -
  assume r: "rinv r"
  obtain ps started w where d: "due_loop now r (r_sources r) (r_nextFetch r) minute = (ps, started, w)"
    by (metis prod_cases3)
  then have "map src_id ps = map src_id (r_sources r)" using due_loop_src by (metis fst_conv)
  then show ?thesis using r by (simp add: pollDue_def d) (subst rinv_cong [of _ r], simp_all)
qed

lemma src_id_sched: "map src_id (map (\<lambda>(pid, p). (pid, p\<lparr>plNextDue := f p\<rparr>)) ss) = map src_id ss"
  by (auto simp: src_id_def)

lemma rinv_resched:
  assumes "map src_id ss = map src_id (r_sources r)" and "rinv r"
  shows "rinv (r\<lparr>r_sources := ss\<rparr>)" and "rinv (r\<lparr>r_defaultInterval := d, r_sources := ss\<rparr>)"
  using assms(2) by (subst rinv_cong [of _ r]; simp add: assms(1))+

lemma rinv_Refresh: "rinv r \<Longrightarrow> rinv (snd (Refresh_jobs now r))"
  unfolding Refresh_jobs_def snd_conv by (rule rinv_resched(1) [OF src_id_sched])

lemma rinv_Run_init: "rinv r \<Longrightarrow> rinv (Run_init interval r)"
  unfolding Run_init_def Let_def by (rule rinv_resched(2) [OF src_id_sched])

section \<open>Every method keeps the invariant\<close>

lemma rinv_entries:
  assumes "rinv r" and "map fst m = map fst (r_entries r)"
    and "map (eLedger \<circ> snd) m = map (eLedger \<circ> snd) (r_entries r)" and "view_of m = view_of (r_entries r)"
  shows "rinv (r\<lparr>r_entries := m\<rparr>)"
proof -
  have keys: "fst ` set m = fst ` set (r_entries r)" using assms(2) by (metis list.set_map)
  have "(\<lambda>e. eLedger (snd e)) ` set m = (\<lambda>e. eLedger (snd e)) ` set (r_entries r)"
    using assms(3) by (metis (no_types, lifting) comp_apply image_cong list.set_map)
  moreover have "\<forall>x \<in> (\<lambda>e. eLedger (snd e)) ` set (r_entries r). x < length (r_heap r)"
    using rinvD(6) [OF assms(1)] by auto
  ultimately have "\<forall>e \<in> snd ` set m. eLedger e < length (r_heap r)" by (metis (no_types, lifting) imageE imageI)
  with assms keys show ?thesis unfolding rinv_def wf_map_def by simp
qed

lemma rinv_update_entry:
  assumes "rinv r" and "\<And>e. eLedger (f e) = eLedger e"
  shows "rinv (update_entry pid f r)"
  unfolding update_entry_def
  by (rule rinv_entries [OF assms(1)]) (auto simp: view_of_def assms(2))

lemma rinv_update_ledger:
  assumes "rinv r" and "ref < length (r_heap r) \<Longrightarrow> quiet (f (r_heap r ! ref))"
  shows "rinv (update_ledger ref f r)"
proof (cases "ref < length (r_heap r)")
  case True
  then have "\<forall>l \<in> set ((r_heap r)[ref := f (r_heap r ! ref)]). quiet l"
    using assms(2) rinvD(7) [OF assms(1)] set_update_subset_insert by (metis insertE subsetD)
  then show ?thesis using assms(1) unfolding rinv_def update_ledger_def by simp
next
  case False
  then show ?thesis using assms(1) by (simp add: update_ledger_def list_update_beyond)
qed

lemma entry_ref: "rinv r \<Longrightarrow> go_get (r_entries r) pid = Some e \<Longrightarrow> eLedger e < length (r_heap r)"
  using rinvD(6) map_of_SomeD by metis

lemma view_ref: "rinv r \<Longrightarrow> go_get (r_ledgers r) pid = Some ref \<Longrightarrow>
    ref < length (r_heap r) \<and> quiet (r_heap r ! ref)"
  using entry_ref rinvD(7) by (auto simp: rinvD(4) go_get_view)

lemma new_ledger_quiet: "quiet (newLedger g f w)"
  by (simp add: quiet_def newLedger_linv)

lemma go_put_new: "go_get m k = None \<Longrightarrow> go_put k v m = m @ [(k, v)]"
  by (induction m) (auto split: if_splits)

lemma rinv_ensure_entry:
  assumes "rinv r"
  shows "rinv (ensure_entry pid r)"
proof (cases "go_get (r_entries r) pid")
  case None
  let ?e = "\<lparr>eConfig = empty_config, eReport = empty_report, eUpdatedAt = zero_time,
    eEverReported = False, eLastErr = None, eLedger = length (r_heap r)\<rparr>"
  let ?es = "r_entries r @ [(pid, ?e)]"
  let ?h = "r_heap r @ [newLedger (r_reservationGrace r) (r_fetchTimeout r) (r_coldStartWindow r)]"
  from None have new: "pid \<notin> fst ` set (r_entries r)" by (simp add: map_of_eq_None_iff)
  have lt: "\<forall>e \<in> snd ` set (r_entries r). eLedger e < length (r_heap r)" using rinvD(6) [OF assms] by auto
  have E: "ensure_entry pid r = r\<lparr>r_heap := ?h, r_entries := ?es, r_ledgers := view_of ?es\<rparr>"
    using None by (simp add: ensure_entry_def publishLedgers_def view_of_def go_put_new)
  have "wf_map ?es" using rinvD(1) [OF assms] new by (simp add: wf_map_def)
  moreover have "fst ` set (r_sources r) \<subseteq> fst ` set ?es" using rinvD(3) [OF assms] by auto
  moreover have "distinct (map (eLedger \<circ> snd) ?es)" using rinvD(5) [OF assms] lt by force
  moreover have "\<forall>e \<in> snd ` set ?es. eLedger e < length ?h" using lt by force
  moreover have "\<forall>l \<in> set ?h. quiet l" using rinvD(7) [OF assms] by (simp add: new_ledger_quiet)
  ultimately show ?thesis using assms unfolding E rinv_def by simp
qed (simp add: ensure_entry_def assms)

lemma rinv_setReport: "rinv r \<Longrightarrow> rinv (setReport pid rep upd cutoff r)"
proof (cases "go_get (r_entries r) pid")
  case (Some e)
  assume r: "rinv r"
  let ?r = "update_entry pid (\<lambda>e. e\<lparr>eReport := rep, eUpdatedAt := upd, eEverReported := True, eLastErr := None\<rparr>) r"
  have heap: "r_heap ?r = r_heap r" by (simp add: update_entry_def)
  have "rinv ?r" using r by (rule rinv_update_entry) simp
  moreover have "quiet (r_heap r ! eLedger e)" using rinvD(7) [OF r] entry_ref [OF r Some] by simp
  ultimately show ?thesis using Some heap
    by (auto simp: setReport_def intro!: rinv_update_ledger quiet_ops)
qed (simp add: setReport_def)

lemma gens_put:
  "distinct (map (plGen \<circ> snd) m) \<Longrightarrow> plGen p \<notin> (plGen \<circ> snd) ` set m \<Longrightarrow>
   distinct (map (plGen \<circ> snd) (go_put k p m))"
proof (induction m)
  case (Cons kp m)
  have "(plGen \<circ> snd) ` set (go_put k p m) \<subseteq> insert (plGen p) ((plGen \<circ> snd) ` set m)"
    by (induction m) auto
  with Cons show ?case by (cases kp) auto
qed simp

lemma set_go_put: "set (go_put k v m) \<subseteq> insert (k, v) (set m)"
  by (induction m) auto

lemma ensure_entry_sel [simp]:
  "r_sources (ensure_entry pid r) = r_sources r" "r_lastGen (ensure_entry pid r) = r_lastGen r"
  "r_reservationGrace (ensure_entry pid r) = r_reservationGrace r"
  by (simp_all add: ensure_entry_def publishLedgers_def split: option.splits)

lemma ensure_entry_has: "go_get (r_entries (ensure_entry pid r)) pid \<noteq> None"
  by (auto simp: ensure_entry_def publishLedgers_def go_get_put split: option.splits)

lemma rinv_AddSource:
  assumes "rinv r"
  shows "rinv (AddSource s r)"
proof -
  let ?pid = "soProviderID s"
  define p where "p = (fst (retire (case go_get (r_sources r) ?pid of Some p \<Rightarrow> p
    | None \<Rightarrow> \<lparr>plSource = s, plInterval = 0, plNextDue = zero_time, plInFlight = False, plGen = 0, plCancel = None\<rparr>)))
    \<lparr>plGen := r_lastGen r + 1, plSource := s, plNextDue := zero_time\<rparr>"
  let ?r1 = "ensure_entry ?pid r"
  have r1: "rinv ?r1" using assms by (rule rinv_ensure_entry)
  have p: "plGen p = r_lastGen r + 1" "plSource p = s" by (simp_all add: p_def)
  have "\<forall>g \<in> (plGen \<circ> snd) ` set (r_sources r). g \<le> r_lastGen r"
    using rinvD(9) [OF assms] by (force simp: case_prod_unfold)
  then have fresh: "plGen p \<notin> (plGen \<circ> snd) ` set (r_sources r)" using p(1) by fastforce
  let ?ss = "go_put ?pid p (r_sources r)"
  have "wf_map ?ss" using rinvD(2) [OF assms] by (rule wf_map_put)
  moreover have "fst ` set ?ss \<subseteq> fst ` set (r_entries ?r1)"
    using rinvD(3) [OF r1] ensure_entry_has [of ?pid r] by (auto simp: dom_go_put dest: go_get_in_keys)
  moreover have "\<forall>(pid, p) \<in> set ?ss. soProviderID (plSource p) = pid \<and> plGen p \<le> r_lastGen r + 1"
    using set_go_put [of ?pid p "r_sources r"] rinvD(8,9) [OF assms] p by fastforce
  moreover have "distinct (map (plGen \<circ> snd) ?ss)" using rinvD(10) [OF assms] fresh by (rule gens_put)
  ultimately have "rinv (?r1\<lparr>r_lastGen := r_lastGen r + 1, r_sources := ?ss\<rparr>)"
    using r1 unfolding rinv_def by simp
  moreover have "AddSource s r = (?r1\<lparr>r_lastGen := r_lastGen r + 1, r_sources := ?ss\<rparr>)
      \<lparr>r_wake := True, r_cancelled := r_cancelled (AddSource s r)\<rparr>"
    unfolding AddSource_def Let_def p_def
    by (auto simp: wakeRun_def ensure_entry_def publishLedgers_def split: option.splits prod.splits)
  moreover have "rinv (x\<lparr>r_wake := True, r_cancelled := c\<rparr>) = rinv x" for x c by (rule rinv_cong) simp_all
  ultimately show ?thesis by metis
qed

lemma rinv_SetConfig: "rinv r \<Longrightarrow> rinv (SetConfig pid cfg r)"
  by (simp add: SetConfig_def rinv_update_entry rinv_ensure_entry)

lemma rinv_Report: "rinv r \<Longrightarrow> rinv (Report_push now pid rep r)"
  by (simp add: Report_push_def rinv_setReport rinv_ensure_entry)

lemma go_delete_filter: "go_delete k m = filter (\<lambda>kv. fst kv \<noteq> k) m"
  by (induction m) auto

lemma rinv_RemoveSource:
  assumes "rinv r"
  shows "rinv (RemoveSource pid r)"
proof -
  let ?ss = "go_delete pid (r_sources r)" and ?es = "go_delete pid (r_entries r)"
  have "fst ` set ?ss \<subseteq> fst ` set ?es" using rinvD(3) [OF assms] by (force simp: go_delete_filter)
  moreover have "distinct (map (eLedger \<circ> snd) ?es)" "distinct (map (plGen \<circ> snd) ?ss)"
    using rinvD(5,10) [OF assms] unfolding go_delete_filter by (simp_all add: distinct_map_filter)
  ultimately have "rinv (r\<lparr>r_sources := ?ss, r_entries := ?es, r_ledgers := view_of ?es\<rparr>)"
    using assms unfolding rinv_def by (auto simp: go_maps) (auto simp: go_delete_filter)
  moreover have "RemoveSource pid r = (r\<lparr>r_sources := ?ss, r_entries := ?es, r_ledgers := view_of ?es\<rparr>)
      \<lparr>r_cancelled := r_cancelled (RemoveSource pid r)\<rparr>"
    by (simp add: RemoveSource_def Let_def publishLedgers_def view_of_def)
  moreover have "rinv (x\<lparr>r_cancelled := c\<rparr>) = rinv x" for x c by (rule rinv_cong) simp_all
  ultimately show ?thesis by metis
qed

lemma rinv_poll_result: "rinv r \<Longrightarrow> rinv (poll_result started finished s gen answer r)"
  by (auto simp: poll_result_def Let_def intro!: rinv_update_entry rinv_setReport split: option.splits sum.splits)

lemma rinv_TryReserve: "rinv r \<Longrightarrow> rinv (fst (TryReserveWarmTicket now pid r))"
proof -
  assume r: "rinv r"
  have *: "rinv (update_ledger ref (\<lambda>_. l) r)"
    if "go_get (r_ledgers r) pid = Some ref" "tryReserve now (r_heap r ! ref) = (l, sec, ok)" for ref l sec ok
    using view_ref [OF r that(1)] quiet_ops(2) [of "r_heap r ! ref" now] that(2) by (intro rinv_update_ledger [OF r]) simp
  show ?thesis using r *
    by (auto simp: TryReserveWarmTicket_def Let_def split: option.splits prod.splits)
qed

lemma rinv_Release: "rinv r \<Longrightarrow> rinv (fst (ReleaseReservationTicket t r))"
  and rinv_ReleaseReservation: "rinv r \<Longrightarrow> rinv (fst (ReleaseReservation now pid r))"
proof -
  assume r: "rinv r"
  have *: "rinv (update_ledger ref (\<lambda>_. l) r)"
    if "go_get (r_ledgers r) k = Some ref" "releaseAt sec (r_heap r ! ref) = (l, ok)" for ref l sec ok k
    using view_ref [OF r that(1)] quiet_ops(3) [of "r_heap r ! ref" sec] that(2) by (intro rinv_update_ledger [OF r]) simp
  show "rinv (fst (ReleaseReservationTicket t r))" using r *
    by (auto simp: ReleaseReservationTicket_def split: option.splits prod.splits)
  have *: "rinv (update_ledger ref (\<lambda>_. l) r)"
    if "go_get (r_ledgers r) k = Some ref" "release_now now (r_heap r ! ref) = (l, ok)" for ref l ok k
    using view_ref [OF r that(1)] quiet_ops(4) [of "r_heap r ! ref" now] that(2) by (intro rinv_update_ledger [OF r]) simp
  show "rinv (fst (ReleaseReservation now pid r))" using r *
    by (auto simp: ReleaseReservation_def split: option.splits prod.splits)
qed

lemma rinv_RecordCold: "rinv r \<Longrightarrow> rinv (RecordColdPlacement now pid r)"
  using view_ref quiet_ops(6) by (auto simp: RecordColdPlacement_def intro!: rinv_update_ledger split: option.splits)

section \<open>Histories\<close>

text \<open>Every call that changes the registry, with the readings of the clock and the answers of providers.\<close>

datatype reg_op =
    OpAddSource source
  | OpSetRefreshInterval gotime string duration
  | OpSetConfig string provider_config
  | OpRemoveSource string
  | OpReport gotime string report
  | OpTryReserve gotime string
  | OpReleaseTicket ticket
  | OpRelease gotime string
  | OpRecordCold gotime string
  | OpRefresh gotime
  | OpPollResult gotime gotime source nat "go_error + report"
  | OpRunInit duration
  | OpPollDue gotime
  | OpFetchDone source nat nat

fun exec_op :: "reg_op \<Rightarrow> registry \<Rightarrow> registry" where
  "exec_op (OpAddSource s) r = AddSource s r"
| "exec_op (OpSetRefreshInterval now pid d) r = SetRefreshInterval now pid d r"
| "exec_op (OpSetConfig pid cfg) r = SetConfig pid cfg r"
| "exec_op (OpRemoveSource pid) r = RemoveSource pid r"
| "exec_op (OpReport now pid rep) r = Report_push now pid rep r"
| "exec_op (OpTryReserve now pid) r = fst (TryReserveWarmTicket now pid r)"
| "exec_op (OpReleaseTicket t) r = fst (ReleaseReservationTicket t r)"
| "exec_op (OpRelease now pid) r = fst (ReleaseReservation now pid r)"
| "exec_op (OpRecordCold now pid) r = RecordColdPlacement now pid r"
| "exec_op (OpRefresh now) r = snd (Refresh_jobs now r)"
| "exec_op (OpPollResult started finished s gen ans) r = poll_result started finished s gen ans r"
| "exec_op (OpRunInit interval) r = Run_init interval r"
| "exec_op (OpPollDue now) r = fst (pollDue now r)"
| "exec_op (OpFetchDone s gen fetch) r = fetch_done s gen fetch r"

abbreviation exec_ops :: "reg_op list \<Rightarrow> registry \<Rightarrow> registry" where
  "exec_ops ops r \<equiv> fold exec_op ops r"

lemma rinv_exec_op: "rinv r \<Longrightarrow> rinv (exec_op opn r)"
  by (cases opn) (simp_all add: rinv_AddSource rinv_SetRefreshInterval rinv_SetConfig rinv_RemoveSource rinv_Report
      rinv_TryReserve rinv_Release rinv_ReleaseReservation rinv_RecordCold rinv_Refresh rinv_poll_result
      rinv_Run_init rinv_pollDue rinv_fetch_done)

lemma rinv_exec_ops: "rinv r \<Longrightarrow> rinv (exec_ops ops r)"
  by (induction ops arbitrary: r) (simp_all add: rinv_exec_op)

section \<open>What each method leaves alone\<close>

lemma entries_ensure: "fst ` set (r_entries r) \<subseteq> fst ` set (r_entries (ensure_entry pid r))"
  by (auto simp: ensure_entry_def publishLedgers_def go_put_new split: option.splits)

lemma entries_ensure_in: "pid \<in> fst ` set (r_entries r) \<Longrightarrow> pid \<in> fst ` set (r_entries (ensure_entry k r))"
  using entries_ensure by blast

lemma update_entry_keys [simp]: "fst ` set (r_entries (update_entry pid f r)) = fst ` set (r_entries r)"
  by (force simp: update_entry_def)

lemma update_ledger_sel [simp]:
  "r_entries (update_ledger ref f r) = r_entries r" "r_sources (update_ledger ref f r) = r_sources r"
  "r_lastGen (update_ledger ref f r) = r_lastGen r"
  "r_staleAfter (update_ledger ref f r) = r_staleAfter r" "r_ledgers (update_ledger ref f r) = r_ledgers r"
  by (simp_all add: update_ledger_def)

lemma update_entry_sel [simp]:
  "r_sources (update_entry pid f r) = r_sources r" "r_lastGen (update_entry pid f r) = r_lastGen r"
  "r_heap (update_entry pid f r) = r_heap r" "r_staleAfter (update_entry pid f r) = r_staleAfter r"
  by (simp_all add: update_entry_def)

lemma setReport_sel [simp]:
  "fst ` set (r_entries (setReport pid rep upd cutoff r)) = fst ` set (r_entries r)"
  "r_sources (setReport pid rep upd cutoff r) = r_sources r"
  "r_lastGen (setReport pid rep upd cutoff r) = r_lastGen r"
  by (simp_all add: setReport_def split: option.splits)

lemma reserve_sel [simp]:
  "r_entries (fst (TryReserveWarmTicket now pid r)) = r_entries r"
  "r_sources (fst (TryReserveWarmTicket now pid r)) = r_sources r"
  "r_lastGen (fst (TryReserveWarmTicket now pid r)) = r_lastGen r"
  "r_entries (fst (ReleaseReservationTicket t r)) = r_entries r"
  "r_sources (fst (ReleaseReservationTicket t r)) = r_sources r"
  "r_lastGen (fst (ReleaseReservationTicket t r)) = r_lastGen r"
  "r_entries (fst (ReleaseReservation now pid r)) = r_entries r"
  "r_sources (fst (ReleaseReservation now pid r)) = r_sources r"
  "r_lastGen (fst (ReleaseReservation now pid r)) = r_lastGen r"
  "r_entries (RecordColdPlacement now pid r) = r_entries r"
  "r_sources (RecordColdPlacement now pid r) = r_sources r"
  "r_lastGen (RecordColdPlacement now pid r) = r_lastGen r"
  by (simp_all add: TryReserveWarmTicket_def ReleaseReservationTicket_def ReleaseReservation_def
      RecordColdPlacement_def Let_def split: option.splits prod.splits)

lemma AddSource_sel:
  "r_entries (AddSource s r) = r_entries (ensure_entry (soProviderID s) r)"
  "r_lastGen (AddSource s r) = r_lastGen r + 1"
  "\<exists>p. r_sources (AddSource s r) = go_put (soProviderID s) p (r_sources r) \<and> plGen p = r_lastGen r + 1"
  by (auto simp: AddSource_def Let_def wakeRun_def ensure_entry_def publishLedgers_def split: prod.splits option.splits)

lemma sched_sel [simp]:
  "r_entries (SetRefreshInterval now pid d r) = r_entries r" "r_lastGen (SetRefreshInterval now pid d r) = r_lastGen r"
  "r_entries (snd (Refresh_jobs now r)) = r_entries r" "r_lastGen (snd (Refresh_jobs now r)) = r_lastGen r"
  "r_entries (Run_init d r) = r_entries r" "r_lastGen (Run_init d r) = r_lastGen r"
  "r_entries (fst (pollDue now r)) = r_entries r" "r_lastGen (fst (pollDue now r)) = r_lastGen r"
  "r_entries (fetch_done s gen fetch r) = r_entries r" "r_lastGen (fetch_done s gen fetch r) = r_lastGen r"
  by (simp_all add: SetRefreshInterval_def Refresh_jobs_def Run_init_def pollDue_def fetch_done_def wakeRun_def Let_def
      split: option.splits prod.splits)

lemma poll_result_sel [simp]:
  "fst ` set (r_entries (poll_result started finished s gen ans r)) = fst ` set (r_entries r)"
  "r_sources (poll_result started finished s gen ans r) = r_sources r"
  "r_lastGen (poll_result started finished s gen ans r) = r_lastGen r"
  by (simp_all add: poll_result_def Let_def split: option.splits sum.splits)

lemma exec_op_keeps_entries:
  assumes "opn \<noteq> OpRemoveSource pid" and "pid \<in> fst ` set (r_entries r)"
  shows "pid \<in> fst ` set (r_entries (exec_op opn r))"
proof (cases opn)
  case (OpAddSource s)
  then show ?thesis using entries_ensure_in [OF assms(2)] by (simp add: AddSource_sel)
next
  case (OpSetConfig k cfg)
  then show ?thesis using entries_ensure_in [OF assms(2)] by (simp add: SetConfig_def)
next
  case (OpReport now k rep)
  then show ?thesis using entries_ensure_in [OF assms(2)] by (simp add: Report_push_def)
next
  case (OpRemoveSource k)
  then show ?thesis using assms by (auto simp: RemoveSource_def publishLedgers_def Let_def go_delete_filter)
qed (use assms(2) in simp_all)

section \<open>Superseded fetches\<close>

text \<open>Once a generation is gone from a provider's slot it never comes back.\<close>

definition superseded :: "string \<Rightarrow> nat \<Rightarrow> registry \<Rightarrow> bool" where
  "superseded pid gen r \<longleftrightarrow> gen \<le> r_lastGen r \<and>
     (case go_get (r_sources r) pid of None \<Rightarrow> True | Some p \<Rightarrow> plGen p \<noteq> gen)"

lemma go_get_src:
  "map src_id ss = map src_id ss' \<Longrightarrow> map_option plGen (go_get ss k) = map_option plGen (go_get ss' k)"
proof (induction ss arbitrary: ss')
  case (Cons x ss)
  then obtain y ys where "ss' = y # ys" "src_id x = src_id y" "map src_id ss = map src_id ys" by auto
  moreover from Cons.IH [OF this(3)] have "map_option plGen (go_get ss k) = map_option plGen (go_get ys k)" .
  ultimately show ?case by (cases x; cases y) (simp add: src_id_def)
qed simp

lemma superseded_src:
  assumes "map src_id (r_sources r') = map src_id (r_sources r)" and "r_lastGen r' = r_lastGen r"
  shows "superseded pid gen r' = superseded pid gen r"
  using go_get_src [OF assms(1), of pid] assms(2)
  by (cases "go_get (r_sources r') pid"; cases "go_get (r_sources r) pid") (auto simp: superseded_def)

lemma src_SetRefreshInterval: "map src_id (r_sources (SetRefreshInterval now pid d r)) = map src_id (r_sources r)"
  by (auto simp: SetRefreshInterval_def wakeRun_def Let_def src_id_put split: option.splits)

lemma src_fetch_done: "map src_id (r_sources (fetch_done s gen fetch r)) = map src_id (r_sources r)"
  by (auto simp: fetch_done_def wakeRun_def Let_def src_id_put split: option.splits)

lemma src_pollDue: "map src_id (r_sources (fst (pollDue now r))) = map src_id (r_sources r)"
  using due_loop_src [of now r "r_sources r" "r_nextFetch r" minute] by (simp add: pollDue_def case_prod_unfold)

lemma src_sched:
  "map src_id (r_sources (snd (Refresh_jobs now r))) = map src_id (r_sources r)"
  "map src_id (r_sources (Run_init d r)) = map src_id (r_sources r)"
  by (auto simp: Refresh_jobs_def Run_init_def Let_def src_id_def)

lemma superseded_AddSource: "superseded pid gen r \<Longrightarrow> superseded pid gen (AddSource s r)"
proof -
  assume a: "superseded pid gen r"
  obtain p where p: "r_sources (AddSource s r) = go_put (soProviderID s) p (r_sources r)" "plGen p = r_lastGen r + 1"
    using AddSource_sel(3) by blast
  show ?thesis using a by (auto simp: superseded_def p go_get_put AddSource_sel(2) split: option.splits)
qed

lemma superseded_RemoveSource: "superseded pid gen r \<Longrightarrow> superseded pid gen (RemoveSource k r)"
  by (auto simp: superseded_def RemoveSource_def publishLedgers_def Let_def go_get_delete split: option.splits)

lemma superseded_exec_op: "superseded pid gen r \<Longrightarrow> superseded pid gen (exec_op opn r)"
proof (cases opn)
  case (OpSetConfig k cfg)
  moreover assume "superseded pid gen r"
  ultimately show ?thesis by (simp add: SetConfig_def superseded_def)
next
  case (OpReport now k rep)
  moreover assume "superseded pid gen r"
  ultimately show ?thesis by (simp add: Report_push_def superseded_def)
next
  case (OpSetRefreshInterval now k d)
  moreover assume "superseded pid gen r"
  ultimately show ?thesis by (simp add: superseded_src [OF src_SetRefreshInterval])
next
  case (OpRefresh now)
  moreover assume "superseded pid gen r"
  ultimately show ?thesis by (simp add: superseded_src [OF src_sched(1)])
next
  case (OpRunInit d)
  moreover assume "superseded pid gen r"
  ultimately show ?thesis by (simp add: superseded_src [OF src_sched(2)])
next
  case (OpPollDue now)
  moreover assume "superseded pid gen r"
  ultimately show ?thesis by (simp add: superseded_src [OF src_pollDue])
next
  case (OpFetchDone s g f)
  moreover assume "superseded pid gen r"
  ultimately show ?thesis by (simp add: superseded_src [OF src_fetch_done])
qed (auto simp: superseded_AddSource superseded_RemoveSource, simp_all add: superseded_def)

lemma superseded_exec_ops: "superseded pid gen r \<Longrightarrow> superseded pid gen (exec_ops ops r)"
  by (induction ops arbitrary: r) (simp_all add: superseded_exec_op)

section \<open>Snapshots\<close>

interpretation provider_order: strict_weak_order "\<lambda>x y. cProvider x < cProvider y"
  by (rule strict_weak_order_key [of _ cProvider]) simp

lemma candidate_provider [simp]: "cProvider (candidate_of now r kv) = fst kv"
  by (simp add: candidate_of_def case_prod_unfold Let_def)

lemma Snapshot_set: "set (Snapshot now r) = candidate_of now r ` set (r_entries r)"
  by (simp add: Snapshot_def)

lemma Snapshot_elem:
  assumes "c \<in> set (Snapshot now r)"
  obtains k e where "(k, e) \<in> set (r_entries r)" "c = candidate_of now r (k, e)"
  using assms unfolding Snapshot_set by (elim imageE) (metis surj_pair)

lemma Snapshot_sorted:
  assumes "wf_map (r_entries r)"
  shows "sorted_wrt (<) (map cProvider (Snapshot now r))"
proof -
  let ?S = "Snapshot now r"
  have "map cProvider (map (candidate_of now r) (r_entries r)) = map fst (r_entries r)" by simp
  then have d: "distinct (map cProvider ?S)"
    using assms unfolding Snapshot_def distinct_stable_sort wf_map_def by (simp only:)
  have "sorted_wrt (\<lambda>x y. \<not> cProvider y < cProvider x) ?S"
    unfolding Snapshot_def by (rule provider_order.sorted_stable_sort)
  then have "sorted (map cProvider ?S)" by (simp add: sorted_map not_less)
  with d show ?thesis by (simp add: strict_sorted_iff)
qed

lemma strict_sorted_key_unique:
  fixes f :: "'a \<Rightarrow> 'k :: linorder"
  assumes "sorted_wrt (<) (map f xs)" and "sorted_wrt (<) (map f ys)" and "set xs = set ys"
  shows "xs = ys"
  using assms
proof (induction xs arbitrary: ys)
  case (Cons x xs)
  then obtain y ys' where ys: "ys = y # ys'" by (cases ys) auto
  have "x = y"
  proof (rule ccontr)
    assume ne: "x \<noteq> y"
    then have "x \<in> set ys'" "y \<in> set xs" using Cons.prems(3) ys by (metis set_ConsD list.set_intros(1))+
    then have "f y < f x" "f x < f y" using Cons.prems(1,2) ys by auto
    then show False by simp
  qed
  moreover have "x \<notin> set xs" "y \<notin> set ys'" using Cons.prems(1,2) ys by auto
  ultimately have "set xs = set ys'" using Cons.prems(3) ys by (metis insert_ident list.simps(15))
  then have "xs = ys'" using Cons.IH [of ys'] Cons.prems(1,2) ys by simp
  with \<open>x = y\<close> ys show ?case by simp
qed simp

lemma Snapshot_update_ledger:
  assumes "rinv r" and "go_get (r_entries r) pid = Some e" and "inFlightCold now l = inFlightCold now (r_heap r ! eLedger e)"
  shows "Snapshot now (update_ledger (eLedger e) (\<lambda>_. l) r) = map (\<lambda>c. if cProvider c = pid
    then c\<lparr>cWarmCapacity := available l\<rparr> else c) (Snapshot now r)"
proof (rule strict_sorted_key_unique [where f = cProvider])
  let ?r = "update_ledger (eLedger e) (\<lambda>_. l) r"
  let ?g = "\<lambda>c. if cProvider c = pid then c\<lparr>cWarmCapacity := available l\<rparr> else c"
  have wf: "wf_map (r_entries r)" using assms(1) by (rule rinvD(1))
  then show "sorted_wrt (<) (map cProvider (Snapshot now ?r))" by (intro Snapshot_sorted) simp
  have *: "map cProvider (map ?g (Snapshot now r)) = map cProvider (Snapshot now r)" by auto
  show "sorted_wrt (<) (map cProvider (map ?g (Snapshot now r)))" unfolding * by (rule Snapshot_sorted [OF wf])
  have "candidate_of now ?r kv = ?g (candidate_of now r kv)" if kv: "kv \<in> set (r_entries r)" for kv
  proof (cases kv)
    case (Pair k e')
    have ref: "eLedger e < length (r_heap r)" using entry_ref [OF assms(1,2)] .
    show ?thesis
    proof (cases "k = pid")
      case True
      then have "e' = e" using wf_map_get [OF wf] kv Pair assms(2) by force
      with True ref show ?thesis
        by (simp add: Pair candidate_of_def update_ledger_def Let_def assms(3))
    next
      case False
      have mem: "(pid, e) \<in> set (r_entries r)" using assms(2) by (rule map_of_SomeD)
      have "inj_on (eLedger \<circ> snd) (set (r_entries r))" using rinvD(5) [OF assms(1)] by (simp add: distinct_map)
      from inj_onD [OF this _ kv mem] False Pair have "eLedger e' \<noteq> eLedger e" by auto
      with False show ?thesis by (simp add: Pair candidate_of_def update_ledger_def Let_def)
    qed
  qed
  then show "set (Snapshot now ?r) = set (map ?g (Snapshot now r))"
    unfolding Snapshot_set set_map image_image update_ledger_sel by (rule image_cong [OF refl])
qed

lemma reserve_keeps_cold [simp]: "inFlightCold now (fst (tryReserve t l)) = inFlightCold now l"
  by (simp add: tryReserve_def record_at_def addCarry_def inFlightCold_def Let_def split: option.splits prod.splits)

lemma entry_candidate:
  assumes "rinv r" and "go_get (r_entries r) pid = Some e"
  shows "\<exists>c \<in> set (Snapshot now r). cProvider c = pid \<and> cWarmCapacity c = available (r_heap r ! eLedger e)"
proof -
  have "(pid, e) \<in> set (r_entries r)" using assms(2) by (rule map_of_SomeD)
  then have "candidate_of now r (pid, e) \<in> set (Snapshot now r)" unfolding Snapshot_set by blast
  then show ?thesis by (rule bexI [rotated]) (simp add: candidate_of_def Let_def)
qed

lemma Snapshot_lastErr: "Snapshot now (update_entry pid (\<lambda>e. e\<lparr>eLastErr := err\<rparr>) r) = Snapshot now r"
proof -
  have "candidate_of now (update_entry pid (\<lambda>e. e\<lparr>eLastErr := err\<rparr>) r)
      (k, if k = pid then e\<lparr>eLastErr := err\<rparr> else e) = candidate_of now r (k, e)" for k e
    by (cases "k = pid") (simp_all add: candidate_of_def Let_def)
  then have "map (candidate_of now (update_entry pid (\<lambda>e. e\<lparr>eLastErr := err\<rparr>) r))
      (r_entries (update_entry pid (\<lambda>e. e\<lparr>eLastErr := err\<rparr>) r)) = map (candidate_of now r) (r_entries r)"
    unfolding update_entry_def [of pid "\<lambda>e. e\<lparr>eLastErr := err\<rparr>" r]
    by (simp add: comp_def case_prod_unfold)
  then show ?thesis unfolding Snapshot_def by (rule arg_cong)
qed

section \<open>Properties\<close>

text \<open>A failed poll never changes what scheduling sees: the snapshot at any time, and every report and
  time stamp behind it, are the same as before; only the last error is recorded.\<close>

theorem failed_poll_keeps_snapshot:
  "Snapshot now (poll_result started finished s gen (Inl err) r) = Snapshot now r \<and>
   map (\<lambda>(pid, e). (pid, e\<lparr>eLastErr := None\<rparr>)) (r_entries (poll_result started finished s gen (Inl err) r))
     = map (\<lambda>(pid, e). (pid, e\<lparr>eLastErr := None\<rparr>)) (r_entries r)"
proof -
  have "Snapshot now (poll_result started finished s gen (Inl err) r) = Snapshot now r"
    by (auto simp: poll_result_def Let_def Snapshot_lastErr split: option.splits)
  moreover have "map (\<lambda>(pid, e). (pid, e\<lparr>eLastErr := None\<rparr>)) (r_entries (poll_result started finished s gen (Inl err) r))
     = map (\<lambda>(pid, e). (pid, e\<lparr>eLastErr := None\<rparr>)) (r_entries r)"
    by (auto simp: poll_result_def Let_def update_entry_def split: option.splits)
  ultimately show ?thesis by simp
qed

text \<open>C14: After a provider's source was replaced or removed, the answer of any fetch the old source had in
  flight changes nothing, whenever it arrives and whatever happened in between, re-adding the provider
  included.\<close>

theorem superseded_fetch_ignored:
  assumes "go_get (r_sources (exec_ops ops (New_registry opts))) pid = Some p"
    and "change = OpAddSource s \<and> soProviderID s = pid \<or> change = OpRemoveSource pid"
  shows "poll_result started finished (plSource p) (plGen p) answer
      (exec_ops later (exec_op change (exec_ops ops (New_registry opts))))
    = exec_ops later (exec_op change (exec_ops ops (New_registry opts)))"
proof -
  let ?r = "exec_ops ops (New_registry opts)"
  have r: "rinv ?r" by (rule rinv_exec_ops [OF rinv_New])
  have mem: "(pid, p) \<in> set (r_sources ?r)" using assms(1) by (rule map_of_SomeD)
  note p = rinvD(8,9) [OF r mem]
  have "superseded pid (plGen p) (exec_op change ?r)"
    using assms(2)
  proof (elim disjE conjE)
    assume c: "change = OpAddSource s" "soProviderID s = pid"
    obtain q where "r_sources (AddSource s ?r) = go_put (soProviderID s) q (r_sources ?r)" "plGen q = r_lastGen ?r + 1"
      using AddSource_sel(3) by blast
    then show ?thesis using c p(2) by (simp add: superseded_def go_get_put AddSource_sel(2))
  next
    assume "change = OpRemoveSource pid"
    then show ?thesis using p(2)
      by (simp add: superseded_def RemoveSource_def publishLedgers_def Let_def go_get_delete)
  qed
  then have "superseded pid (plGen p) (exec_ops later (exec_op change ?r))" by (rule superseded_exec_ops)
  then show ?thesis using p(1) by (auto simp: superseded_def poll_result_def split: option.splits)
qed

definition ex_options :: reg_options where
  "ex_options = \<lparr>oStaleAfter = 0, oFetchTimeout = 0, oReservationGrace = 0, oColdStartWindow = 0\<rparr>"

definition ex_source :: source where "ex_source = \<lparr>soProviderID = ''a'', soToken = 0\<rparr>"

theorem superseded_fetch_ignored_witness:
  "\<exists>p. go_get (r_sources (exec_ops [OpAddSource ex_source] (New_registry ex_options))) ''a'' = Some p \<and>
     (let r = exec_ops [] (exec_op (OpRemoveSource ''a'') (exec_ops [OpAddSource ex_source] (New_registry ex_options)))
      in poll_result 0 0 (plSource p) (plGen p) (Inr empty_report) r = r)"
proof -
  obtain p where p: "go_get (r_sources (exec_ops [OpAddSource ex_source] (New_registry ex_options))) ''a'' = Some p"
    using AddSource_sel(3) [of ex_source "New_registry ex_options"] by (auto simp: ex_source_def go_get_put)
  have "OpRemoveSource ''a'' = OpAddSource ex_source \<and> soProviderID ex_source = ''a'' \<or>
      OpRemoveSource ''a'' = OpRemoveSource ''a''" by simp
  from superseded_fetch_ignored [OF p this, of 0 0 "Inr empty_report" "[]"] p show ?thesis
    by (simp only: Let_def) blast
qed

text \<open>C15: In every reachable state a snapshot has exactly one candidate per known provider, in strictly
  increasing order of the name; two snapshots of the same state taken over maps visited in different
  orders are equal; and a provider is reachable exactly if it has reported within the staleness bound.\<close>

theorem Snapshot_exact:
  assumes "r = exec_ops ops (New_registry opts)" and "mset entries' = mset (r_entries r)"
  shows "sorted_wrt (<) (map cProvider (Snapshot now r)) \<and>
    set (map cProvider (Snapshot now r)) = set (map fst (r_entries r)) \<and>
    Snapshot now (r\<lparr>r_entries := entries'\<rparr>) = Snapshot now r \<and>
    list_all (\<lambda>c. \<exists>e. go_get (r_entries r) (cProvider c) = Some e \<and> cCostPerHour c = pcCostPerHour (eConfig e) \<and>
      (cReachable c \<longleftrightarrow> eEverReported e \<and> time_sub now (eUpdatedAt e) \<le> r_staleAfter r)) (Snapshot now r)"
proof (intro conjI)
  have r: "rinv r" unfolding assms(1) by (rule rinv_exec_ops [OF rinv_New])
  note wf = rinvD(1) [OF r]
  let ?r = "r\<lparr>r_entries := entries'\<rparr>"
  show s: "sorted_wrt (<) (map cProvider (Snapshot now r))" by (rule Snapshot_sorted [OF wf])
  show "set (map cProvider (Snapshot now r)) = set (map fst (r_entries r))"
    by (simp add: Snapshot_set image_image)
  have "mset (map fst entries') = mset (map fst (r_entries r))" using assms(2) by simp
  then have "wf_map entries'" using wf mset_eq_imp_distinct_iff unfolding wf_map_def by blast
  then have s': "sorted_wrt (<) (map cProvider (Snapshot now ?r))" by (intro Snapshot_sorted) simp
  have "candidate_of now ?r = candidate_of now r" by (simp add: candidate_of_def fun_eq_iff)
  then have "set (Snapshot now ?r) = set (Snapshot now r)"
    using mset_eq_setD [OF assms(2)] by (simp add: Snapshot_set)
  with s' s show "Snapshot now ?r = Snapshot now r" by (rule strict_sorted_key_unique)
  have "\<exists>e. go_get (r_entries r) (cProvider c) = Some e \<and> cCostPerHour c = pcCostPerHour (eConfig e) \<and>
      (cReachable c \<longleftrightarrow> eEverReported e \<and> time_sub now (eUpdatedAt e) \<le> r_staleAfter r)"
    if "c \<in> set (Snapshot now r)" for c
  proof -
    obtain k e where ke: "(k, e) \<in> set (r_entries r)" "c = candidate_of now r (k, e)"
      using \<open>c \<in> set (Snapshot now r)\<close> by (rule Snapshot_elem)
    then have "go_get (r_entries r) k = Some e" using wf_map_get [OF wf] by blast
    with ke(2) show ?thesis by (intro exI [of _ e]) (simp add: candidate_of_def Let_def)
  qed
  then show "list_all (\<lambda>c. \<exists>e. go_get (r_entries r) (cProvider c) = Some e \<and> cCostPerHour c = pcCostPerHour (eConfig e) \<and>
      (cReachable c \<longleftrightarrow> eEverReported e \<and> time_sub now (eUpdatedAt e) \<le> r_staleAfter r)) (Snapshot now r)"
    by (simp add: list_all_iff)
qed

theorem Snapshot_exact_witness:
  "let r = exec_ops [OpAddSource ex_source] (New_registry ex_options)
   in map cProvider (Snapshot 0 r) = [''a'']"
proof -
  let ?r = "exec_ops [OpAddSource ex_source] (New_registry ex_options)"
  have e: "map fst (r_entries ?r) = [''a'']"
    by (simp add: AddSource_sel(1) ensure_entry_def New_registry_def publishLedgers_def ex_source_def)
  from Snapshot_exact [OF refl refl, of 0 "[OpAddSource ex_source]" ex_options]
  have "sorted_wrt (<) (map cProvider (Snapshot 0 ?r))" "set (map cProvider (Snapshot 0 ?r)) = set [''a'']"
    unfolding e by simp_all
  then have "map cProvider (Snapshot 0 ?r) = [''a'']"
    by (intro strict_sorted_key_unique [of "\<lambda>x. x"]) simp_all
  then show ?thesis by (simp add: Let_def)
qed

text \<open>A provider stays known: whatever calls are made, only removing that very provider drops it from the
  registry; configuration updates, failed polls, staleness and the removal of others never do. So it keeps
  a candidate in every later snapshot.\<close>

theorem only_remove_drops:
  assumes "pid \<in> fst ` set (r_entries (exec_ops before (New_registry opts)))" and "OpRemoveSource pid \<notin> set later"
  shows "pid \<in> set (map cProvider (Snapshot now (exec_ops later (exec_ops before (New_registry opts)))))"
proof -
  have "pid \<in> fst ` set (r_entries (exec_ops later r))"
    if "pid \<in> fst ` set (r_entries r)" "OpRemoveSource pid \<notin> set later" for r
    using that
  proof (induction later arbitrary: r)
    case (Cons opn later)
    have "pid \<in> fst ` set (r_entries (exec_op opn r))" using Cons.prems by (intro exec_op_keeps_entries) auto
    with Cons show ?case by simp
  qed simp
  from this [OF assms] show ?thesis by (simp add: Snapshot_set image_image)
qed

theorem only_remove_drops_witness:
  "''a'' \<in> set (map cProvider (Snapshot 0 (exec_ops [OpRemoveSource ''b'', OpRefresh 7] (exec_ops [OpAddSource ex_source] (New_registry ex_options)))))"
proof (rule only_remove_drops)
  show "''a'' \<in> fst ` set (r_entries (exec_ops [OpAddSource ex_source] (New_registry ex_options)))"
    by (simp add: AddSource_sel(1) ensure_entry_def New_registry_def publishLedgers_def ex_source_def)
qed simp

lemma TryReserve_known:
  assumes "rinv r" and "go_get (r_entries r) pid = Some e"
  shows "fst (TryReserveWarmTicket now pid r) = update_ledger (eLedger e) (\<lambda>_. fst (tryReserve now (r_heap r ! eLedger e))) r"
    and "snd (snd (TryReserveWarmTicket now pid r)) \<longleftrightarrow> 0 < available (r_heap r ! eLedger e)"
proof -
  have ref: "go_get (r_ledgers r) pid = Some (eLedger e)" using assms by (simp add: rinvD(4) go_get_view)
  show "fst (TryReserveWarmTicket now pid r) = update_ledger (eLedger e) (\<lambda>_. fst (tryReserve now (r_heap r ! eLedger e))) r"
    by (simp add: TryReserveWarmTicket_def ref Let_def split: prod.splits)
  show "snd (snd (TryReserveWarmTicket now pid r)) \<longleftrightarrow> 0 < available (r_heap r ! eLedger e)"
    using tryReserve_ok [of now "r_heap r ! eLedger e"] by (cases "tryReserve now (r_heap r ! eLedger e)") (simp add: TryReserveWarmTicket_def ref Let_def split: if_splits)
qed

lemma TryReserve_unknown: "rinv r \<Longrightarrow> go_get (r_entries r) pid = None \<Longrightarrow> TryReserveWarmTicket now pid r = (r, no_ticket, False)"
  by (simp add: TryReserveWarmTicket_def rinvD(4) go_get_view)

text \<open>A reservation is granted exactly if the provider's candidate in a snapshot taken at that moment has
  warm capacity; and then the very next snapshot, before any poll, shows one sandbox less at that provider and
  everything else unchanged. A refused reservation changes no snapshot.\<close>

theorem reservation_in_next_snapshot:
  assumes "r = exec_ops ops (New_registry opts)" and "TryReserveWarmTicket now pid r = (r', ticket, granted)"
  shows "(granted \<longleftrightarrow> (\<exists>c \<in> set (Snapshot upd r). cProvider c = pid \<and> 0 < cWarmCapacity c)) \<and>
    Snapshot upd r' = map (\<lambda>c. if granted \<and> cProvider c = pid then c\<lparr>cWarmCapacity := cWarmCapacity c - 1\<rparr> else c) (Snapshot upd r)"
proof -
  have r: "rinv r" unfolding assms(1) by (rule rinv_exec_ops [OF rinv_New])
  show ?thesis
  proof (cases "go_get (r_entries r) pid")
    case None
    then have "pid \<notin> fst ` set (r_entries r)" by (simp add: map_of_eq_None_iff)
    moreover have "r' = r" "\<not> granted" using assms(2) TryReserve_unknown [OF r None] by simp_all
    ultimately show ?thesis by (auto simp: Snapshot_set)
  next
    case (Some e)
    let ?l = "r_heap r ! eLedger e"
    have r': "r' = update_ledger (eLedger e) (\<lambda>_. fst (tryReserve now ?l)) r"
      and g: "granted \<longleftrightarrow> 0 < available ?l"
      using TryReserve_known [OF r Some, of now] assms(2) by simp_all
    have warm: "cWarmCapacity c = available ?l" if c: "c \<in> set (Snapshot upd r)" "cProvider c = pid" for c
    proof -
      obtain k e' where "(k, e') \<in> set (r_entries r)" "c = candidate_of upd r (k, e')"
        using c(1) by (rule Snapshot_elem)
      moreover from this have "e' = e" using c(2) wf_map_get [OF rinvD(1) [OF r]] Some by fastforce
      ultimately show ?thesis by (simp add: candidate_of_def Let_def)
    qed
    have ok: "snd (snd (tryReserve now ?l)) = granted" using g tryReserve_ok by simp
    have "Snapshot upd r' = map (\<lambda>c. if cProvider c = pid then c\<lparr>cWarmCapacity := available ?l - (if granted then 1 else 0)\<rparr> else c)
        (Snapshot upd r)"
      unfolding r' by (subst Snapshot_update_ledger [OF r Some]) (simp_all add: tryReserve_available ok)
    also have "\<dots> = map (\<lambda>c. if granted \<and> cProvider c = pid then c\<lparr>cWarmCapacity := cWarmCapacity c - 1\<rparr> else c) (Snapshot upd r)"
      using warm by (intro map_cong refl) auto
    finally show ?thesis using warm g entry_candidate [OF r Some, of upd] by auto
  qed
qed

theorem reservation_in_next_snapshot_witness:
  "\<not> snd (snd (TryReserveWarmTicket 0 ''a'' (exec_ops [] (New_registry ex_options))))"
proof -
  let ?r = "exec_ops [] (New_registry ex_options)"
  obtain r' t g where e: "TryReserveWarmTicket 0 ''a'' ?r = (r', t, g)" by (metis prod_cases3)
  have "set (Snapshot 0 ?r) = {}" by (simp add: Snapshot_set New_registry_def)
  with reservation_in_next_snapshot [OF refl e, of 0] e show ?thesis by simp
qed

text \<open>The sources a sweep starts, and the wait it returns.\<close>

definition is_due :: "gotime \<Rightarrow> polled \<Rightarrow> bool" where
  "is_due now p \<longleftrightarrow> \<not> plInFlight p \<and> plNextDue p \<le> now"

lemma intervalOf_pos: "0 < intervalOf r p"
  by (simp add: intervalOf_def second_def)

lemma due_loop_exact:
  assumes "due_loop now r ps fetch wait = (ps', started, w)"
  shows "map (\<lambda>(s, g, f). (s, g)) started = map (\<lambda>(pid, p). (plSource p, plGen p)) (filter (is_due now \<circ> snd) ps) \<and>
    map (\<lambda>(s, g, f). f) started = [fetch..<fetch + length started] \<and>
    (0 < wait \<longrightarrow> 0 < w \<and> w \<le> wait) \<and>
    list_all2 (\<lambda>(k, p) (k', p'). k' = k \<and> (if is_due now p then plInFlight p' \<and> plCancel p' \<noteq> None \<and>
      plNextDue p' = now + intervalOf r p else p' = p)) ps ps'"
  using assms
proof (induction ps arbitrary: fetch wait ps' started w)
  case (Cons kp ps)
  obtain k p where kp: "kp = (k, p)" by (cases kp)
  obtain p' due where d: "due_step now r fetch p = (p', due)" by fastforce
  define wait' where "wait' = (if plInFlight p then wait
    else if time_sub (plNextDue p') now < wait then time_sub (plNextDue p') now else wait)"
  obtain ps1 st1 w1 where l: "due_loop now r ps (if due then fetch + 1 else fetch) wait' = (ps1, st1, w1)"
    by (metis prod_cases3)
  have res: "ps' = (k, p') # ps1" "started = (if due then (plSource p, plGen p, fetch) # st1 else st1)" "w = w1"
    using Cons.prems l unfolding wait'_def by (simp_all add: kp d Let_def)
  have due: "due \<longleftrightarrow> is_due now p" using d by (auto simp: due_step_def is_due_def split: if_splits)
  have p': "if is_due now p then plInFlight p' \<and> plCancel p' \<noteq> None \<and> plNextDue p' = now + intervalOf r p else p' = p"
    using d by (auto simp: due_step_def is_due_def split: if_splits)
  have later: "now < plNextDue p'" if "\<not> plInFlight p"
    using p' that intervalOf_pos [of r p] by (auto simp: is_due_def split: if_splits)
  have w: "0 < wait' \<and> wait' \<le> wait" if "0 < wait"
    unfolding wait'_def using that later time_sub_pos by auto
  from Cons.IH [OF l] show ?case using p' w
    by (auto simp: res kp due upt_rec [of fetch] simp del: upt_Suc)
qed simp

text \<open>C16: One sweep of the polling loop starts exactly the sources that are due and have no fetch running, each once
  and under a number of its own; it marks them in flight and puts their next poll one interval later, touches
  no other source, and asks to be woken after a positive time of at most a minute. So the loop never spins and
  never runs two fetches of one source.\<close>

theorem pollDue_starts_due:
  "case pollDue now r of (r', started, wait) \<Rightarrow>
    map (\<lambda>(s, g, f). (s, g)) started = map (\<lambda>(pid, p). (plSource p, plGen p)) (filter (is_due now \<circ> snd) (r_sources r)) \<and>
    map (\<lambda>(s, g, f). f) started = [r_nextFetch r..<r_nextFetch r'] \<and>
    0 < wait \<and> wait \<le> minute \<and>
    list_all2 (\<lambda>(k, p) (k', p'). k' = k \<and> (if is_due now p then plInFlight p' \<and> plCancel p' \<noteq> None \<and>
      plNextDue p' = now + intervalOf r p else p' = p)) (r_sources r) (r_sources r') \<and>
    (case pollDue now r' of (r'', started', wait') \<Rightarrow> started' = [])"
proof -
  obtain ps started w where l: "due_loop now r (r_sources r) (r_nextFetch r) minute = (ps, started, w)"
    by (metis prod_cases3)
  note e = due_loop_exact [OF l]
  have "\<not> is_due now p" if "(k, p) \<in> set ps" for k p
    using e that intervalOf_pos by (force simp: is_due_def list_all2_conv_all_nth in_set_conv_nth split: if_splits)
  then have none: "filter (is_due now \<circ> snd) ps = []" by (auto simp: filter_empty_conv)
  let ?r = "r\<lparr>r_sources := ps, r_nextFetch := r_nextFetch r + length started\<rparr>"
  obtain ps2 st2 w2 where l2: "due_loop now ?r ps (r_nextFetch ?r) minute = (ps2, st2, w2)" by (metis prod_cases3)
  have "st2 = []" using due_loop_exact [OF l2] none by simp
  moreover have "0 < minute" by (simp add: minute_def second_def)
  ultimately show ?thesis using e l2 by (simp add: pollDue_def l)
qed

end
