(* ===== verification/Slots.thy ===== *)
theory Slots
  imports Prelude
begin

text \<open>
  \<open>pkg/binder/slots.go\<close>, the slot limiter: a counter of operations in flight against one provider that
  goroutines take with a compare-and-swap loop, and the wait for a free slot over a channel that every
  release closes and replaces. The atomic operations are the steps of goroutines that share the limiters;
  the sequential functions \<open>tryAcquire\<close> and \<open>release\<close> are what one goroutine does when nothing runs in
  between.
\<close>

section \<open>Limiters\<close>

text \<open>
  The channel \<open>notify\<close> is represented by its number: channels are numbered in the order they are made, so a
  channel of this limiter is closed exactly if its number is below the current one.
\<close>

record slot_limiter =
  slProvider :: string
  slLimit :: int
  slInFlight :: int
  slNotify :: nat

definition DefaultProviderMaxInFlight :: int where "DefaultProviderMaxInFlight = 512"

definition newSlotLimiter :: "string \<Rightarrow> int \<Rightarrow> slot_limiter" where
  "newSlotLimiter prov limit =
     \<lparr>slProvider = prov, slLimit = (if limit \<le> 0 then DefaultProviderMaxInFlight else limit),
      slInFlight = 0, slNotify = 0\<rparr>"

definition tryAcquire :: "slot_limiter \<Rightarrow> slot_limiter \<times> bool" where
  "tryAcquire s = (if slInFlight s \<ge> slLimit s then (s, False) else (s\<lparr>slInFlight := slInFlight s + 1\<rparr>, True))"

definition release_slot :: "slot_limiter \<Rightarrow> slot_limiter" where
  "release_slot s = s\<lparr>slInFlight := slInFlight s - 1, slNotify := slNotify s + 1\<rparr>"

definition slot_free :: "slot_limiter \<Rightarrow> bool" where
  "slot_free s \<longleftrightarrow> slInFlight s < slLimit s"

section \<open>Goroutines\<close>

text \<open>
  What a goroutine that works with the limiters does next: \<open>TryLoad\<close> and \<open>TryCas\<close> are the two atomic
  operations of \<open>tryAcquire\<close>, \<open>Notify\<close> the second half of \<open>release\<close>; \<open>WaitCheck\<close> is the fast check of
  \<open>waitAny\<close> with the limiters still to look at, \<open>WaitChan\<close> the loop that collects their channels,
  \<open>Parked\<close> the final select.
\<close>

datatype goroutine =
    TryLoad nat
  | TryCas nat int
  | Refused
  | Holding nat
  | Notify nat
  | Finished
  | WaitCheck "nat list" "nat list"
  | WaitChan "nat list" "(nat \<times> nat) list"
  | Parked "(nat \<times> nat) list"
  | WaitResult bool

definition waitAny :: "nat list \<Rightarrow> goroutine" where
  "waitAny ls = (if ls = [] then WaitResult False else WaitCheck ls ls)"

text \<open>One atomic step; \<open>expired\<close> says whether the context of the goroutine is done. Blocked is \<open>None\<close>.\<close>

fun gstep :: "bool \<Rightarrow> slot_limiter list \<Rightarrow> goroutine \<Rightarrow> (slot_limiter list \<times> goroutine) option" where
  "gstep expired ls (TryLoad i) =
     (let cur = slInFlight (ls ! i) in
      if cur \<ge> slLimit (ls ! i) then Some (ls, Refused) else Some (ls, TryCas i cur))"
| "gstep expired ls (TryCas i cur) =
     (if slInFlight (ls ! i) = cur then Some (ls[i := (ls ! i)\<lparr>slInFlight := cur + 1\<rparr>], Holding i)
      else Some (ls, TryLoad i))"
| "gstep expired ls (Holding i) = Some (ls[i := (ls ! i)\<lparr>slInFlight := slInFlight (ls ! i) - 1\<rparr>], Notify i)"
| "gstep expired ls (Notify i) = Some (ls[i := (ls ! i)\<lparr>slNotify := slNotify (ls ! i) + 1\<rparr>], Finished)"
| "gstep expired ls (WaitCheck (i # todo) all) =
     (if slot_free (ls ! i) then Some (ls, WaitResult True) else Some (ls, WaitCheck todo all))"
| "gstep expired ls (WaitCheck [] all) = Some (ls, WaitChan all [])"
| "gstep expired ls (WaitChan (i # todo) chans) = Some (ls, WaitChan todo (chans @ [(i, slNotify (ls ! i))]))"
| "gstep expired ls (WaitChan [] chans) = Some (ls, Parked chans)"
| "gstep expired ls (Parked chans) =
     (if list_ex (\<lambda>(i, ch). ch < slNotify (ls ! i)) chans then Some (ls, WaitResult True)
      else if expired then Some (ls, WaitResult False) else None)"
| "gstep expired ls Refused = None"
| "gstep expired ls Finished = None"
| "gstep expired ls (WaitResult b) = None"

type_synonym slots_state = "slot_limiter list \<times> goroutine multiset"

inductive slots_step :: "slots_state \<Rightarrow> slots_state \<Rightarrow> bool" where
  go: "gstep expired ls g = Some (ls', g') \<Longrightarrow> slots_step (ls, add_mset g G) (ls', add_mset g' G)"
| acquire: "i < length ls \<Longrightarrow> slots_step (ls, G) (ls, add_mset (TryLoad i) G)"
| wait: "set js \<subseteq> {..<length ls} \<Longrightarrow> slots_step (ls, G) (ls, add_mset (waitAny js) G)"

inductive_cases slots_stepE: "slots_step s s'"

section \<open>Slots are counted exactly\<close>

definition slots_inv :: "slots_state \<Rightarrow> bool" where
  "slots_inv = (\<lambda>(ls, G).
     (\<forall>i < length ls. slInFlight (ls ! i) = int (count G (Holding i)) \<and> slInFlight (ls ! i) \<le> slLimit (ls ! i)) \<and>
     (\<forall>i cur. TryCas i cur \<in># G \<longrightarrow> i < length ls \<and> cur < slLimit (ls ! i)) \<and>
     (\<forall>i. TryLoad i \<in># G \<longrightarrow> i < length ls))"

lemma nth_update_sel: "f x = f (ls ! i) \<Longrightarrow> f (ls[i := x] ! j) = f (ls ! j)"
  by (cases "i = j"; cases "i < length ls") (simp_all add: list_update_beyond)

lemma limiter_update [simp]:
  "slLimit (ls[i := (ls ! i)\<lparr>slInFlight := n\<rparr>] ! j) = slLimit (ls ! j)"
  "slLimit (ls[i := (ls ! i)\<lparr>slNotify := m\<rparr>] ! j) = slLimit (ls ! j)"
  "slNotify (ls[i := (ls ! i)\<lparr>slInFlight := n\<rparr>] ! j) = slNotify (ls ! j)"
  "slInFlight (ls[i := (ls ! i)\<lparr>slNotify := m\<rparr>] ! j) = slInFlight (ls ! j)"
  by (rule nth_update_sel, simp)+

lemma notify_le: "slNotify (ls ! j) \<le> slNotify (ls[i := (ls ! i)\<lparr>slNotify := slNotify (ls ! i) + 1\<rparr>] ! j)"
  by (cases "i = j"; cases "i < length ls") (simp_all add: list_update_beyond)

lemma slots_inv_step:
  assumes "slots_step s s'" and "slots_inv s"
  shows "slots_inv s'"
  using assms
proof (induction rule: slots_step.induct)
  case (go expired ls g ls' g' G)
  show ?case
  proof (cases "(expired, ls, g)" rule: gstep.cases)
    case (1 expired ls i)
    with go show ?thesis by (auto simp: slots_inv_def Let_def split: if_splits)
  next
    case (2 expired ls i cur)
    show ?thesis
    proof (cases "slInFlight (ls ! i) = cur")
      case True
      moreover have "cur < slLimit (ls ! i)" using go 2 by (auto simp: slots_inv_def)
      ultimately show ?thesis using go 2 by (auto simp: slots_inv_def nth_list_update)
    next
      case False
      with go 2 show ?thesis by (auto simp: slots_inv_def)
    qed
  next
    case (3 expired ls i)
    with go show ?thesis by (auto simp: slots_inv_def nth_list_update split: if_splits)
  next
    case (4 expired ls i)
    with go show ?thesis by (auto simp: slots_inv_def nth_list_update split: if_splits)
  qed (use go in \<open>auto simp: slots_inv_def split: if_splits\<close>)
next
  case (acquire i ls G)
  then show ?case by (auto simp: slots_inv_def)
next
  case (wait js ls G)
  then show ?case by (auto simp: slots_inv_def waitAny_def)
qed

lemma slots_inv_steps: "slots_step\<^sup>*\<^sup>* s s' \<Longrightarrow> slots_inv s \<Longrightarrow> slots_inv s'"
  by (induction rule: rtranclp_induct) (auto intro: slots_inv_step)

definition slots_init :: "(string \<times> int) list \<Rightarrow> slots_state" where
  "slots_init cfg = (map (\<lambda>(prov, limit). newSlotLimiter prov limit) cfg, {#})"

lemma slots_inv_init: "slots_inv (slots_init cfg)"
  by (simp add: slots_inv_def slots_init_def newSlotLimiter_def DefaultProviderMaxInFlight_def case_prod_unfold)

lemma slots_limits: "slots_step s s' \<Longrightarrow> map slLimit (fst s') = map slLimit (fst s)"
proof (induction rule: slots_step.induct)
  case (go expired ls g ls' g' G)
  have "map slLimit (ls[i := x]) = map slLimit ls" if "slLimit x = slLimit (ls ! i)" for i x
    using that by (metis list_update_id map_update)
  with go show ?case by (cases "(expired, ls, g)" rule: gstep.cases) (auto simp: Let_def split: if_splits)
qed simp_all


lemma slots_limits_steps: "slots_step\<^sup>*\<^sup>* s s' \<Longrightarrow> map slLimit (fst s') = map slLimit (fst s)"
  by (induction rule: rtranclp_induct) (auto dest: slots_limits)

section \<open>A release is heard\<close>

lemma gstep_notify_mono:
  "gstep expired ls g = Some (ls', g') \<Longrightarrow> slNotify (ls ! i) \<le> slNotify (ls' ! i)"
  using notify_le [of ls i]
  by (cases "(expired, ls, g)" rule: gstep.cases) (auto simp: Let_def split: if_splits)

lemma slots_notify_mono: "slots_step\<^sup>*\<^sup>* s s' \<Longrightarrow> slNotify (fst s ! i) \<le> slNotify (fst s' ! i)"
proof (induction rule: rtranclp_induct)
  case (step s1 s2)
  from step.hyps(2) have "slNotify (fst s1 ! i) \<le> slNotify (fst s2 ! i)"
    by (cases rule: slots_step.cases) (auto dest: gstep_notify_mono)
  with step.IH show ?case by simp
qed simp

section \<open>Properties\<close>

text \<open>C17: However the goroutines interleave, the counter of a limiter is exactly the number of goroutines
  that hold one of its slots, and never exceeds its limit: the configured one, or the default when that is not
  positive.\<close>

theorem slots_never_exceeded:
  assumes "slots_step\<^sup>*\<^sup>* (slots_init cfg) (ls, G)" and "i < length cfg"
  shows "slInFlight (ls ! i) = int (count G (Holding i)) \<and> int (count G (Holding i)) \<le> slLimit (ls ! i) \<and>
    slLimit (ls ! i) = (if snd (cfg ! i) \<le> 0 then DefaultProviderMaxInFlight else snd (cfg ! i))"
proof -
  have inv: "slots_inv (ls, G)" using slots_inv_steps [OF assms(1) slots_inv_init] .
  have "map slLimit ls = map slLimit (fst (slots_init cfg))" using slots_limits_steps [OF assms(1)] by simp
  then have m: "map slLimit ls = map (\<lambda>(prov, limit). slLimit (newSlotLimiter prov limit)) cfg"
    by (simp add: slots_init_def case_prod_unfold comp_def)
  then have len: "length ls = length cfg" by (metis length_map)
  have "slLimit (ls ! i) = map slLimit ls ! i" using len assms(2) by simp
  also have "\<dots> = (if snd (cfg ! i) \<le> 0 then DefaultProviderMaxInFlight else snd (cfg ! i))"
    unfolding m using assms(2) by (simp add: newSlotLimiter_def case_prod_unfold)
  finally show ?thesis using inv len assms(2) by (auto simp: slots_inv_def)
qed

lemma slots_go: "gstep expired ls g = Some (ls', g') \<Longrightarrow> G = add_mset g G0 \<Longrightarrow> G' = add_mset g' G0 \<Longrightarrow>
    slots_step\<^sup>*\<^sup>* (ls', G') s \<Longrightarrow> slots_step\<^sup>*\<^sup>* (ls, G) s"
  using slots_step.go by (blast intro: converse_rtranclp_into_rtranclp)

lemma slots_acquire: "i < length ls \<Longrightarrow> G' = add_mset (TryLoad i) G \<Longrightarrow> slots_step\<^sup>*\<^sup>* (ls, G') s \<Longrightarrow> slots_step\<^sup>*\<^sup>* (ls, G) s"
  using slots_step.acquire by (blast intro: converse_rtranclp_into_rtranclp)

lemma slots_wait: "set js \<subseteq> {..<length ls} \<Longrightarrow> G' = add_mset (waitAny js) G \<Longrightarrow> slots_step\<^sup>*\<^sup>* (ls, G') s \<Longrightarrow> slots_step\<^sup>*\<^sup>* (ls, G) s"
  using slots_step.wait by (blast intro: converse_rtranclp_into_rtranclp)


theorem slots_never_exceeded_witness:
  "int (count {#Holding 0#} (Holding 0)) \<le> slLimit ([\<lparr>slProvider = ''a'', slLimit = 1, slInFlight = 1, slNotify = 0\<rparr>] ! 0)"
proof -
  let ?l = "\<lambda>n. [\<lparr>slProvider = ''a'', slLimit = 1, slInFlight = n, slNotify = 0\<rparr>]"
  have "slots_step\<^sup>*\<^sup>* (slots_init [(''a'', 1)]) (?l 1, {#Holding 0#})"
    unfolding slots_init_def
    by (rule slots_acquire [of 0, OF _ refl], simp,
        rule slots_go [OF _ _ refl, of False _ "TryLoad 0" _ "TryCas 0 0"], simp add: newSlotLimiter_def, simp,
        rule slots_go [OF _ _ refl, of False _ "TryCas 0 0"], simp, simp, simp add: newSlotLimiter_def)
  from slots_never_exceeded [OF this, of 0] show ?thesis by simp
qed

text \<open>A waiter that parked before a release signals is woken by it and stays woken, whatever the other
  goroutines do in between.\<close>

theorem release_wakes_parked:
  assumes "(i, ch) \<in> set chans" and "i < length ls" and "ch \<le> slNotify (ls ! i)"
    and "gstep expired ls (Notify i) = Some (ls', g')" and "slots_step\<^sup>*\<^sup>* (ls', G') (ls'', G'')"
  shows "gstep expired' ls'' (Parked chans) = Some (ls'', WaitResult True)"
proof -
  have "slNotify (ls' ! i) = slNotify (ls ! i) + 1" using assms(2,4) by auto
  moreover have "slNotify (ls' ! i) \<le> slNotify (ls'' ! i)" using slots_notify_mono [OF assms(5)] by simp
  ultimately show ?thesis using assms(1,3) by (auto simp: list_ex_iff intro!: bexI [of _ "(i, ch)"])
qed

theorem release_wakes_parked_witness:
  "gstep False [(newSlotLimiter ''a'' 1)\<lparr>slNotify := 1\<rparr>] (Parked [(0, 0)])
    = Some ([(newSlotLimiter ''a'' 1)\<lparr>slNotify := 1\<rparr>], WaitResult True)"
  by (rule release_wakes_parked [where i = 0 and ch = 0 and ls = "[newSlotLimiter ''a'' 1]" and expired = False
      and G' = "{#}" and G'' = "{#}" and g' = Finished and ls' = "[(newSlotLimiter ''a'' 1)\<lparr>slNotify := 1\<rparr>]"])
    (simp_all add: newSlotLimiter_def)

text \<open>C18: A wakeup can be lost. When the release falls between the fast check of \<open>waitAny\<close> and its reading of the
  channel, the waiter parks on the new channel: the only slot is free, nobody holds or will release one, and yet
  the waiter sleeps until its context ends and then reports that no slot was freed.\<close>

theorem waitAny_lost_wakeup:
  "\<exists>ls chans. slots_step\<^sup>*\<^sup>* (slots_init [(''a'', 1)]) (ls, {#Finished, Parked chans#}) \<and> slot_free (ls ! 0) \<and>
     map fst chans = [0] \<and> gstep False ls Finished = None \<and> gstep False ls (Parked chans) = None \<and>
     gstep True ls (Parked chans) = Some (ls, WaitResult False)"
proof (intro exI conjI)
  let ?l = "\<lambda>n c. [\<lparr>slProvider = ''a'', slLimit = 1, slInFlight = n, slNotify = c\<rparr>]"
  have init: "slots_init [(''a'', 1)] = (?l 0 0, {#})" by (simp add: slots_init_def newSlotLimiter_def)
  have wait: "waitAny [0] = WaitCheck [0] [0]" by (simp add: waitAny_def)
  show "slots_step\<^sup>*\<^sup>* (slots_init [(''a'', 1)]) (?l 0 1, {#Finished, Parked [(0, 1)]#})"
    unfolding init
    by (rule slots_acquire [of 0, OF _ refl], simp,
        rule slots_go [OF _ _ refl, of False _ "TryLoad 0"], simp, simp,
        rule slots_go [OF _ _ refl, of False _ "TryCas 0 0"], simp, simp,
        rule slots_wait [of "[0]", OF _ refl], simp,
        rule slots_go [OF _ _ refl, of False _ "waitAny [0]"], simp add: wait slot_free_def, simp,
        rule slots_go [OF _ _ refl, of False _ "WaitCheck [] [0]"], simp, simp,
        rule slots_go [OF _ _ refl, of False _ "Holding 0"], simp, simp,
        rule slots_go [OF _ _ refl, of False _ "Notify 0"], simp, simp,
        rule slots_go [OF _ _ refl, of False _ "WaitChan [0] []"], simp, simp,
        rule slots_go [OF _ _ refl, of False _ "WaitChan [] [(0, 1)]"], simp, simp add: add_mset_commute,
        simp add: add_mset_commute)
qed (simp_all add: slot_free_def)

end
