(* ===== verification/Health.thy ===== *)
theory Health
  imports Slots Provider Float64
begin

text \<open>
  \<open>pkg/binder/slots.go\<close>, the claim health tracker: the outcomes of the last 20 claim attempts in a ring, the
  demotion of a provider whose claim path fails, and its recovery by half-open probes with a doubling backoff.
  Each method that takes the lock is one function; a probe is split into its start in \<open>isUsable\<close> and its end
  \<open>runHalfOpenProbe\<close>, with the provider's answer as an argument and anything else in between.
\<close>

section \<open>State and methods\<close>

definition healthWindowSize :: nat where "healthWindowSize = 20"
definition healthDemoteRatio :: rat where "healthDemoteRatio = 1 / 2"
definition probeInitialBackoff :: duration where "probeInitialBackoff = second"
definition probeMaxBackoff :: duration where "probeMaxBackoff = 30 * second"

record health =
  hWindow :: "bool list"
  hCount :: nat
  hIdx :: nat
  hDemoted :: bool
  hCredentialsErr :: bool
  hLastSuccess :: gotime
  hLastFailureReason :: string
  hNextProbeAt :: gotime
  hProbeBackoff :: duration
  hProbing :: bool

definition newHealthTracker :: health where
  "newHealthTracker = \<lparr>hWindow = replicate healthWindowSize False, hCount = 0, hIdx = 0, hDemoted = False,
     hCredentialsErr = False, hLastSuccess = zero_time, hLastFailureReason = [], hNextProbeAt = zero_time,
     hProbeBackoff = probeInitialBackoff, hProbing = False\<rparr>"

definition pushOutcome :: "bool \<Rightarrow> health \<Rightarrow> health" where
  "pushOutcome unavailable h =
     h\<lparr>hWindow := (hWindow h)[hIdx h := unavailable], hIdx := (hIdx h + 1) mod healthWindowSize,
       hCount := (if hCount h < healthWindowSize then hCount h + 1 else hCount h)\<rparr>"

definition unavailableRatio :: "health \<Rightarrow> rat" where
  "unavailableRatio h =
     (if hCount h = 0 then 0
      else fdiv (of_nat (length (filter id (take (hCount h) (hWindow h))))) (of_nat (hCount h)))"

definition recordSuccess :: "gotime \<Rightarrow> health \<Rightarrow> health" where
  "recordSuccess now h =
     (pushOutcome False h)\<lparr>hDemoted := False, hCredentialsErr := False, hLastSuccess := now,
        hLastFailureReason := [], hProbeBackoff := probeInitialBackoff, hProbing := False\<rparr>"

definition note_failure :: "go_error option \<Rightarrow> health \<Rightarrow> health" where
  "note_failure err h = (case err of None \<Rightarrow> h | Some e \<Rightarrow> h\<lparr>hLastFailureReason := error_string e\<rparr>)"

definition recordUnavailable :: "gotime \<Rightarrow> go_error option \<Rightarrow> health \<Rightarrow> health" where
  "recordUnavailable now err h =
     (let h = note_failure err (pushOutcome True h) in
      if hCount h \<ge> healthWindowSize \<and> unavailableRatio h \<ge> healthDemoteRatio then
        (if \<not> hDemoted h then
           (let h = h\<lparr>hDemoted := True, hProbeBackoff := probeInitialBackoff\<rparr>
            in h\<lparr>hNextProbeAt := now + hProbeBackoff h\<rparr>)
         else h)
      else h)"

definition recordRejected :: "go_error option \<Rightarrow> health \<Rightarrow> health" where
  "recordRejected err h = note_failure err (h\<lparr>hCredentialsErr := True\<rparr>)"

text \<open>
  \<open>isUsable\<close>: \<open>start\<close> is the answer of \<open>startAttempt\<close> (\<open>None\<close> when there is no such function) and \<open>slots\<close> the
  provider's limiter, if it has one. The result is the verdict, the tracker, the limiter, the change of the
  count of attempts and whether a probe was launched.
\<close>

definition isUsable :: "gotime \<Rightarrow> bool \<Rightarrow> slot_limiter option \<Rightarrow> bool option \<Rightarrow> health
    \<Rightarrow> bool \<times> health \<times> slot_limiter option \<times> int \<times> bool" where
  "isUsable now has_binder slots start h =
     (if \<not> hDemoted h then (True, h, slots, 0, False)
      else if hProbing h \<or> now < hNextProbeAt h \<or> \<not> has_binder then (False, h, slots, 0, False)
      else if start = Some False then (False, h, slots, 0, False)
      else (let attempts = (if start = None then 0 else 1) in
        case slots of
          None \<Rightarrow> (False, h\<lparr>hProbing := True\<rparr>, None, attempts, True)
        | Some s \<Rightarrow> (case tryAcquire s of (s, ok) \<Rightarrow>
            (if \<not> ok then (False, h, Some s, 0, False)
             else (False, h\<lparr>hProbing := True\<rparr>, Some s, attempts, True)))))"

text \<open>The probe's request: a random key of 12 bytes in hexadecimal digits.\<close>

definition randomProbeKey :: "string \<Rightarrow> string" where
  "randomProbeKey b = ''probe-'' @ hex_encode b"

definition probe_request :: "(string \<Rightarrow> string) \<Rightarrow> string \<Rightarrow> string \<Rightarrow> string \<Rightarrow> claim_request" where
  "probe_request sha probeTemplate owner b =
     \<lparr>crTemplate = probeTemplate, crKey = randomProbeKey b, crSpecHash = SpecHashOf sha probeTemplate [] minute,
      crOwner = owner, crLabels = [], crTTL = minute\<rparr>"

definition probe_timeout :: "duration \<Rightarrow> duration" where
  "probe_timeout timeout = (if timeout \<le> 0 then 3 * second else timeout)"

text \<open>The answer of a provider to a call: a panic in the adapter, or what it returned.\<close>

datatype 'a answer = Panicked | Answered 'a

definition probe_error :: "go_error option answer \<Rightarrow> go_error option" where
  "probe_error ans = (case ans of
     Panicked \<Rightarrow> Some (NewError ''panic in adapter Lookup during half-open probe'')
   | Answered err \<Rightarrow> err)"

definition probe_ok :: "go_error option \<Rightarrow> bool" where
  "probe_ok err \<longleftrightarrow> (case err of None \<Rightarrow> True | Some e \<Rightarrow> is_not_found e)"

definition probe_result :: "gotime \<Rightarrow> go_error option \<Rightarrow> health \<Rightarrow> health" where
  "probe_result started err h =
     (let h = h\<lparr>hProbing := False\<rparr> in
      case err of
        Some e \<Rightarrow>
          (if is_not_found e then
             h\<lparr>hDemoted := False, hCredentialsErr := False, hCount := 0, hIdx := 0, hLastSuccess := started,
               hLastFailureReason := [], hProbeBackoff := probeInitialBackoff\<rparr>
           else (let h = (if KindOf err = KindRejected then h\<lparr>hCredentialsErr := True\<rparr> else h);
                     h = h\<lparr>hLastFailureReason := error_string e, hProbeBackoff := hProbeBackoff h * 2\<rparr>;
                     h = (if hProbeBackoff h > probeMaxBackoff then h\<lparr>hProbeBackoff := probeMaxBackoff\<rparr> else h)
                 in h\<lparr>hNextProbeAt := started + hProbeBackoff h\<rparr>))
      | None \<Rightarrow>
          h\<lparr>hDemoted := False, hCredentialsErr := False, hCount := 0, hIdx := 0, hLastSuccess := started,
            hLastFailureReason := [], hProbeBackoff := probeInitialBackoff\<rparr>)"

definition runHalfOpenProbe :: "gotime \<Rightarrow> go_error option answer \<Rightarrow> slot_limiter option \<Rightarrow> health
    \<Rightarrow> health \<times> slot_limiter option" where
  "runHalfOpenProbe started ans slots h = (probe_result started (probe_error ans) h, map_option release_slot slots)"

record claim_health_status =
  chHealthy :: bool
  chCredentialsError :: bool
  chLastSuccessTime :: gotime
  chLastFailureReason :: string

definition health_status :: "health \<Rightarrow> claim_health_status" where
  "health_status h = \<lparr>chHealthy = (\<not> hDemoted h \<and> \<not> hCredentialsErr h), chCredentialsError = hCredentialsErr h,
     chLastSuccessTime = hLastSuccess h, chLastFailureReason = hLastFailureReason h\<rparr>"

section \<open>Histories\<close>

datatype health_op =
    HSuccess gotime
  | HUnavailable gotime "go_error option"
  | HRejected "go_error option"
  | HUsable gotime bool "slot_limiter option" "bool option"
  | HProbeDone gotime "go_error option answer"

fun exec_health :: "health_op \<Rightarrow> health \<Rightarrow> health" where
  "exec_health (HSuccess now) h = recordSuccess now h"
| "exec_health (HUnavailable now err) h = recordUnavailable now err h"
| "exec_health (HRejected err) h = recordRejected err h"
| "exec_health (HUsable now b slots start) h = fst (snd (isUsable now b slots start h))"
| "exec_health (HProbeDone started ans) h = probe_result started (probe_error ans) h"

text \<open>
  What the tracker promises, without the ring: the outcomes since the last successful probe, and demotion when
  at least half of the last 20 of at least 20 are Unavailable.
\<close>

record health_spec =
  spHist :: "bool list"
  spDemoted :: bool

definition last20 :: "bool list \<Rightarrow> bool list" where
  "last20 hist = drop (length hist - 20) hist"

definition failing :: "bool list \<Rightarrow> bool" where
  "failing hist \<longleftrightarrow> length hist \<ge> 20 \<and> length (filter id (last20 hist)) \<ge> 10"

fun spec_health :: "health_op \<Rightarrow> health_spec \<Rightarrow> health_spec" where
  "spec_health (HSuccess now) s = \<lparr>spHist = spHist s @ [False], spDemoted = False\<rparr>"
| "spec_health (HUnavailable now err) s =
     (let hist = spHist s @ [True] in \<lparr>spHist = hist, spDemoted = spDemoted s \<or> failing hist\<rparr>)"
| "spec_health (HRejected err) s = s"
| "spec_health (HUsable now b slots start) s = s"
| "spec_health (HProbeDone started ans) s = (if probe_ok (probe_error ans) then \<lparr>spHist = [], spDemoted = False\<rparr> else s)"

text \<open>The ring read from its oldest entry is the end of the history.\<close>

definition ring_holds :: "health \<Rightarrow> bool list \<Rightarrow> bool" where
  "ring_holds h hist \<longleftrightarrow> length (hWindow h) = 20 \<and> hIdx h = length hist mod 20 \<and> hCount h = min 20 (length hist) \<and>
     (if length hist < 20 then take (length hist) (hWindow h) = hist
      else drop (hIdx h) (hWindow h) @ take (hIdx h) (hWindow h) = last20 hist)"

definition health_abs :: "health \<Rightarrow> health_spec \<Rightarrow> bool" where
  "health_abs h s \<longleftrightarrow> ring_holds h (spHist s) \<and> hDemoted h = spDemoted s"

lemma ring_holds_cong:
  "hWindow h' = hWindow h \<Longrightarrow> hIdx h' = hIdx h \<Longrightarrow> hCount h' = hCount h \<Longrightarrow> ring_holds h' = ring_holds h"
  by (simp add: ring_holds_def fun_eq_iff)

lemma last20_snoc: "20 \<le> length hist \<Longrightarrow> last20 (hist @ [x]) = tl (last20 hist) @ [x]"
proof -
  assume l: "20 \<le> length hist"
  then have "length hist - 19 = Suc (length hist - 20)" by simp
  then show ?thesis using l by (simp add: last20_def drop_Suc tl_drop)
qed

lemma ring_push:
  assumes "ring_holds h hist"
  shows "ring_holds (pushOutcome x h) (hist @ [x])"
proof -
  let ?w = "hWindow h" and ?n = "length hist"
  have len: "length ?w = 20" and idx: "hIdx h = ?n mod 20" and cnt: "hCount h = min 20 ?n"
    using assms by (auto simp: ring_holds_def)
  consider "?n < 19" | "?n = 19" | "20 \<le> ?n" by linarith
  then show ?thesis
  proof cases
    case 1
    then have t: "take ?n ?w = hist" and i: "hIdx h = ?n" using assms idx by (simp_all add: ring_holds_def)
    have "take (Suc ?n) (?w[?n := x]) = hist @ [x]" using t len 1 by (simp add: take_Suc_conv_app_nth)
    with 1 i len cnt show ?thesis by (simp add: ring_holds_def pushOutcome_def healthWindowSize_def)
  next
    case 2
    then have t: "take 19 ?w = hist" and i: "hIdx h = 19" using assms idx by (simp_all add: ring_holds_def)
    have "take (Suc 19) (?w[19 := x]) = take 19 (?w[19 := x]) @ [x]" using len by (subst take_Suc_conv_app_nth) simp_all
    also have "take 19 (?w[19 := x]) = hist" using t by simp
    finally have "?w[19 := x] = hist @ [x]" using len by simp
    with 2 i len cnt show ?thesis by (simp add: ring_holds_def pushOutcome_def healthWindowSize_def last20_def)
  next
    case 3
    let ?i = "hIdx h"
    have i: "?i < 20" using idx by simp
    have r: "drop ?i ?w @ take ?i ?w = last20 hist" using assms 3 by (auto simp: ring_holds_def)
    have d: "drop ?i ?w = ?w ! ?i # drop (Suc ?i) ?w" using i len by (simp add: Cons_nth_drop_Suc)
    have s: "Suc ?n mod 20 = (if ?i = 19 then 0 else Suc ?i)" using idx by (auto simp: mod_Suc)
    have u: "take (Suc ?i) (?w[?i := x]) = take ?i ?w @ [x]" using i len by (simp add: take_Suc_conv_app_nth)
    have "drop (Suc ?i) ?w @ take ?i ?w @ [x] = last20 (hist @ [x])"
      using r 3 by (simp add: last20_snoc d flip: r)
    moreover have "?w[19 := x] = take 19 ?w @ [x]" if "?i = 19"
      using u that len by simp
    ultimately show ?thesis using 3 i len cnt s u
      by (auto simp: ring_holds_def pushOutcome_def healthWindowSize_def mod_Suc)
  qed
qed

text \<open>The ratio is computed in floating point; at 20 outcomes the comparison with a half is exact.\<close>

lemma half_exact: "fl64 (1 / 2) = 1 / 2" and below_half: "fl64 (9 / 20) < 1 / 2"
  by code_simp+

lemma ratio_half: "k \<le> 20 \<Longrightarrow> 1 / 2 \<le> fdiv (of_nat k) (of_nat 20) \<longleftrightarrow> 10 \<le> k"
proof -
  assume "k \<le> 20"
  show ?thesis
  proof (cases "10 \<le> k")
    case True
    then have "(1 / 2 :: rat) \<le> of_nat k / of_nat 20" by simp
    then have "fl64 (1 / 2) \<le> fl64 (of_nat k / of_nat 20)" by (intro fl64_mono) simp_all
    with True show ?thesis by (simp add: fdiv_def half_exact)
  next
    case False
    then have "(of_nat k / of_nat 20 :: rat) \<le> 9 / 20" by simp
    then have "fl64 (of_nat k / of_nat 20) \<le> fl64 (9 / 20)" by (intro fl64_mono) simp_all
    with below_half have "fl64 (of_nat k / of_nat 20) < 1 / 2" by simp
    with False show ?thesis by (simp add: fdiv_def)
  qed
qed

lemma ring_failing:
  assumes "ring_holds h hist"
  shows "hCount h \<ge> healthWindowSize \<and> unavailableRatio h \<ge> healthDemoteRatio \<longleftrightarrow> failing hist"
proof (cases "20 \<le> length hist")
  case True
  let ?w = "hWindow h" and ?i = "hIdx h"
  have len: "length ?w = 20" "hCount h = 20" and r: "last20 hist = drop ?i ?w @ take ?i ?w"
    using assms True by (auto simp: ring_holds_def)
  have "filter id ?w = filter id (take ?i ?w) @ filter id (drop ?i ?w)"
    by (metis append_take_drop_id filter_append)
  then have f: "length (filter id (last20 hist)) = length (filter id ?w)" by (simp add: r)
  have "length (filter id ?w) \<le> 20" using length_filter_le [of id ?w] len by simp
  from ratio_half [OF this] show ?thesis using True len
    by (simp add: unavailableRatio_def healthWindowSize_def healthDemoteRatio_def failing_def f)
next
  case False
  then show ?thesis using assms by (simp add: ring_holds_def healthWindowSize_def failing_def)
qed

lemma note_failure_sel [simp]:
  "hWindow (note_failure err h) = hWindow h" "hCount (note_failure err h) = hCount h" "hIdx (note_failure err h) = hIdx h"
  "hDemoted (note_failure err h) = hDemoted h" "hProbing (note_failure err h) = hProbing h"
  "hProbeBackoff (note_failure err h) = hProbeBackoff h" "hNextProbeAt (note_failure err h) = hNextProbeAt h"
  by (simp_all add: note_failure_def split: option.splits)

lemma pushOutcome_sel [simp]:
  "hDemoted (pushOutcome x h) = hDemoted h" "hProbing (pushOutcome x h) = hProbing h"
  "hProbeBackoff (pushOutcome x h) = hProbeBackoff h" "hNextProbeAt (pushOutcome x h) = hNextProbeAt h"
  by (simp_all add: pushOutcome_def)

lemma ring_note [simp]: "ring_holds (note_failure err h) = ring_holds h"
  by (rule ring_holds_cong) simp_all

lemma ring_upd [simp]:
  "ring_holds (h\<lparr>hDemoted := a\<rparr>) = ring_holds h" "ring_holds (h\<lparr>hNextProbeAt := b\<rparr>) = ring_holds h"
  "ring_holds (h\<lparr>hProbeBackoff := c\<rparr>) = ring_holds h" "ring_holds (h\<lparr>hCredentialsErr := d\<rparr>) = ring_holds h"
  "ring_holds (h\<lparr>hLastSuccess := e\<rparr>) = ring_holds h" "ring_holds (h\<lparr>hLastFailureReason := f\<rparr>) = ring_holds h"
  "ring_holds (h\<lparr>hProbing := g\<rparr>) = ring_holds h"
  by (rule ring_holds_cong; simp)+

lemma ring_empty: "ring_holds h hist \<Longrightarrow> hWindow h' = hWindow h \<Longrightarrow> hCount h' = 0 \<Longrightarrow> hIdx h' = 0 \<Longrightarrow> ring_holds h' []"
  by (simp add: ring_holds_def)

lemma abs_success: "health_abs h s \<Longrightarrow> health_abs (recordSuccess now h) (spec_health (HSuccess now) s)"
  by (simp add: health_abs_def recordSuccess_def ring_push)

lemma abs_unavailable: "health_abs h s \<Longrightarrow> health_abs (recordUnavailable now err h) (spec_health (HUnavailable now err) s)"
proof -
  assume a: "health_abs h s"
  let ?h = "note_failure err (pushOutcome True h)"
  have r: "ring_holds ?h (spHist s @ [True])" using a by (simp add: health_abs_def ring_push)
  show ?thesis
  proof (cases "failing (spHist s @ [True])")
    case True
    with ring_failing [OF r] r a show ?thesis by (simp add: health_abs_def recordUnavailable_def Let_def)
  next
    case False
    with ring_failing [OF r] r a show ?thesis by (simp add: health_abs_def recordUnavailable_def Let_def)
  qed
qed

lemma isUsable_state: "fst (snd (isUsable now b slots start h)) = h \<or> fst (snd (isUsable now b slots start h)) = h\<lparr>hProbing := True\<rparr>"
  by (auto simp: isUsable_def Let_def split: option.splits prod.splits)

lemma probe_result_ok: "probe_ok err \<Longrightarrow>
    probe_result started err h = h\<lparr>hProbing := False, hDemoted := False, hCredentialsErr := False, hCount := 0,
      hIdx := 0, hLastSuccess := started, hLastFailureReason := [], hProbeBackoff := probeInitialBackoff\<rparr>"
  by (auto simp: probe_result_def probe_ok_def Let_def split: option.splits)

lemma probe_result_failed: "\<not> probe_ok err \<Longrightarrow>
    ring_holds (probe_result started err h) = ring_holds h \<and> hDemoted (probe_result started err h) = hDemoted h \<and>
    hProbing (probe_result started err h) = False \<and>
    hProbeBackoff (probe_result started err h) = min probeMaxBackoff (2 * hProbeBackoff h) \<and>
    hNextProbeAt (probe_result started err h) = started + min probeMaxBackoff (2 * hProbeBackoff h)"
  by (auto simp: probe_result_def probe_ok_def Let_def split: option.splits)

lemma abs_probe: "health_abs h s \<Longrightarrow>
    health_abs (probe_result started (probe_error ans) h) (spec_health (HProbeDone started ans) s)"
proof (cases "probe_ok (probe_error ans)")
  case True
  moreover assume "health_abs h s"
  ultimately show ?thesis by (simp add: health_abs_def probe_result_ok) (auto intro: ring_empty)
next
  case False
  moreover assume "health_abs h s"
  ultimately show ?thesis using probe_result_failed by (simp add: health_abs_def)
qed

lemma abs_step: "health_abs h s \<Longrightarrow> health_abs (exec_health opn h) (spec_health opn s)"
proof (cases opn)
  case (HUsable now b slots start)
  moreover assume "health_abs h s"
  ultimately show ?thesis using isUsable_state [of now b slots start h] by (auto simp: health_abs_def)
qed (simp_all only: exec_health.simps abs_success abs_unavailable abs_probe, simp add: health_abs_def recordRejected_def)

lemma abs_run: "health_abs h s \<Longrightarrow> health_abs (fold exec_health ops h) (fold spec_health ops s)"
  by (induction ops arbitrary: h s) (simp_all add: abs_step)

lemma abs_new: "health_abs newHealthTracker \<lparr>spHist = [], spDemoted = False\<rparr>"
  by (simp add: health_abs_def newHealthTracker_def ring_holds_def healthWindowSize_def)

section \<open>Properties\<close>

text \<open>C19: After any sequence of claims, health checks and probes the provider's claim path is demoted exactly
  as the abstract tracker says, which keeps the whole history of outcomes since the last successful probe: it
  is demoted when at least 10 of the last 20 of at least 20 outcomes are Unavailable, and until a success or
  a successful probe. A demoted provider is never usable, any other always is.\<close>

theorem health_demotion_exact:
  "(hDemoted (fold exec_health ops newHealthTracker) \<longleftrightarrow> spDemoted (fold spec_health ops \<lparr>spHist = [], spDemoted = False\<rparr>)) \<and>
   (fst (isUsable now b slots start (fold exec_health ops newHealthTracker)) \<longleftrightarrow>
     \<not> spDemoted (fold spec_health ops \<lparr>spHist = [], spDemoted = False\<rparr>))"
proof -
  have "hDemoted (fold exec_health ops newHealthTracker) = spDemoted (fold spec_health ops \<lparr>spHist = [], spDemoted = False\<rparr>)"
    using abs_run [OF abs_new] by (simp add: health_abs_def)
  then show ?thesis by (auto simp: isUsable_def Let_def split: option.splits prod.splits)
qed

text \<open>While a provider stays demoted the probes back off: after its demotion, \<open>n\<close> failed probes in a row
  leave a backoff of \<open>min(2^n, 30)\<close> seconds, and the next probe is that long after the last one started.\<close>

theorem probe_backoff:
  assumes "\<not> hDemoted h" and "hDemoted (recordUnavailable now err h)"
    and "list_all (\<lambda>(started, ans). \<not> probe_ok (probe_error ans)) probes"
  shows "let h' = fold (\<lambda>(started, ans). probe_result started (probe_error ans)) probes (recordUnavailable now err h)
    in hDemoted h' \<and> hProbeBackoff h' = min (30 * second) (2 ^ length probes * second) \<and>
       hNextProbeAt h' = (if probes = [] then now else fst (last probes)) + hProbeBackoff h'"
  using assms(3)
proof (induction probes rule: rev_induct)
  case Nil
  show ?case using assms(1,2)
    by (auto simp: recordUnavailable_def Let_def probeInitialBackoff_def second_def split: if_splits)
next
  case (snoc p probes)
  obtain st ans where p: "p = (st, ans)" by (cases p)
  let ?h = "fold (\<lambda>(started, ans). probe_result started (probe_error ans)) probes (recordUnavailable now err h)"
  have bad: "\<not> probe_ok (probe_error ans)" using snoc.prems p by simp
  have IH: "hDemoted ?h" "hProbeBackoff ?h = min (30 * second) (2 ^ length probes * second)"
    using snoc by (simp_all add: Let_def)
  have "min probeMaxBackoff (2 * hProbeBackoff ?h) = min (30 * second) (2 ^ Suc (length probes) * second)"
    unfolding IH(2) probeMaxBackoff_def by (simp add: min_def second_def)
  then show ?case using probe_result_failed [OF bad, of st ?h] IH(1) by (simp add: Let_def p)
qed

definition ex_failing :: health where
  "ex_failing = (newHealthTracker\<lparr>hWindow := replicate 20 True, hCount := 20\<rparr>)"

theorem probe_backoff_witness:
  "hProbeBackoff (probe_result 5 (Some (NewError ''x'')) (recordUnavailable 3 None ex_failing)) = 2 * second"
proof -
  have f: "failing (replicate 20 True)" by (simp add: failing_def last20_def)
  have "ring_holds ex_failing (replicate 20 True)" by (simp add: ex_failing_def ring_holds_def newHealthTracker_def last20_def)
  from ring_push [OF this, of True] have r: "ring_holds (note_failure None (pushOutcome True ex_failing)) (replicate 20 True @ [True])"
    by simp
  have "failing (replicate 20 True @ [True])" by (simp add: failing_def last20_snoc) (simp add: last20_def)
  then have "hDemoted (recordUnavailable 3 None ex_failing)"
    using ring_failing [OF r] by (simp add: recordUnavailable_def Let_def)
  moreover have "\<not> hDemoted ex_failing" by (simp add: ex_failing_def newHealthTracker_def)
  moreover have "list_all (\<lambda>(started, ans). \<not> probe_ok (probe_error ans)) [(5 :: gotime, Answered (Some (NewError ''x'')))]"
    by (simp add: probe_ok_def probe_error_def)
  ultimately show ?thesis using probe_backoff [of ex_failing 3 None "[(5, Answered (Some (NewError ''x'')))]"]
    by (simp add: Let_def probe_error_def second_def)
qed

text \<open>A health check launches a probe exactly if the provider is demoted, no probe is running, the backoff
  is over, the provider has an adapter, the scheduler accepts work and a slot is free; then it holds exactly
  one attempt and one slot, which the end of the probe gives back whatever the adapter answers, a panic
  included. Otherwise it changes nothing: no slot or attempt leaks.\<close>

theorem probe_resources_balanced:
  "case isUsable now b slots start h of (usable, h', slots', attempts, launched) \<Rightarrow>
     (launched \<longleftrightarrow> hDemoted h \<and> \<not> hProbing h \<and> hNextProbeAt h \<le> now \<and> b \<and> start \<noteq> Some False \<and>
        pred_option slot_free slots) \<and>
     (if launched then \<not> usable \<and> hProbing h' \<and> attempts = (if start = None then 0 else 1) \<and>
        map_option slInFlight slots' = map_option (\<lambda>s. slInFlight s + 1) slots \<and>
        map_option slInFlight (snd (runHalfOpenProbe now ans slots' h'')) = map_option slInFlight slots \<and>
        \<not> hProbing (fst (runHalfOpenProbe now ans slots' h''))
      else h' = h \<and> slots' = slots \<and> attempts = 0)"
proof -
  have p: "\<not> hProbing (probe_result now err h'')" for err
    by (cases "probe_ok err") (simp_all add: probe_result_ok probe_result_failed)
  show ?thesis
    by (cases slots) (auto simp: isUsable_def Let_def tryAcquire_def slot_free_def runHalfOpenProbe_def release_slot_def p)
qed

end
