(* ===== verification/Coalescer.thy ===== *)
theory Coalescer
  imports Health
begin

text \<open>
  \<open>pkg/binder/slots.go\<close>, the lookup coalescer: retry lookups of a provider that can look up many keys at once
  wait in a common list, which a timer or the hundredth lookup flushes as one batch under one rate token. The
  locked sections of \<open>lookup\<close> and \<open>flush\<close> are functions on the list and the timer; the rest of \<open>flush\<close> is a
  function of what the rate limiter, the scheduler, the slots and the adapter answer. A step relation puts
  lookups, timers, flushes and running batches together.
\<close>

section \<open>The locked sections\<close>

definition defaultCoalesceWindow :: duration where "defaultCoalesceWindow = 50 * millisecond"
definition maxCoalesceBatchSize :: nat where "maxCoalesceBatchSize = 100"

record lookup_result =
  lrHandle :: handle
  lrErr :: "go_error option"

definition failed_lookup :: "go_error \<Rightarrow> lookup_result" where
  "failed_lookup e = \<lparr>lrHandle = empty_handle, lrErr = Some e\<rparr>"

text \<open>An item is a request and its channel \<open>done\<close>, which is represented by a number.\<close>

record coalesced_item =
  ciReq :: claim_request
  ciDone :: nat

record coalescer =
  coWindow :: duration
  coPending :: "coalesced_item list"
  coTimer :: "nat option"

definition newLookupCoalescer :: "duration \<Rightarrow> coalescer" where
  "newLookupCoalescer window =
     \<lparr>coWindow = (if window \<le> 0 then defaultCoalesceWindow else window), coPending = [], coTimer = None\<rparr>"

text \<open>
  \<open>lookup\<close> up to its select: the coalescer, whether the timer \<open>fresh\<close> is started, the timer that is
  stopped, and whether a flush is started at once.
\<close>

definition co_lookup :: "nat \<Rightarrow> coalesced_item \<Rightarrow> coalescer \<Rightarrow> coalescer \<times> bool \<times> nat option \<times> bool" where
  "co_lookup fresh item c =
     (let c = c\<lparr>coPending := coPending c @ [item]\<rparr>;
          shouldFlushNow = (length (coPending c) \<ge> maxCoalesceBatchSize);
          start = (\<not> shouldFlushNow \<and> coTimer c = None);
          c = (if start then c\<lparr>coTimer := Some fresh\<rparr> else c);
          stop = (if shouldFlushNow then coTimer c else None);
          c = (if stop \<noteq> None then c\<lparr>coTimer := None\<rparr> else c)
      in (c, start, stop, shouldFlushNow))"

text \<open>The select of \<open>lookup\<close>: the handle, the error and the retry hint, or the error of the context.\<close>

definition lookup_return :: "lookup_result + go_error \<Rightarrow> handle \<times> go_error option \<times> duration" where
  "lookup_return r = (case r of
     Inl res \<Rightarrow> (lrHandle res, lrErr res, RetryAfterOf (lrErr res))
   | Inr err \<Rightarrow> (empty_handle, Some err, 0))"

text \<open>\<open>flush\<close> up to its unlock: the coalescer, the batch, and whether the timer \<open>fresh\<close> is started.\<close>

definition flush_take :: "nat \<Rightarrow> coalescer \<Rightarrow> coalescer \<times> coalesced_item list \<times> bool" where
  "flush_take fresh c =
     (if length (coPending c) = 0 then (c\<lparr>coTimer := None\<rparr>, [], False)
      else (let n = (if length (coPending c) > maxCoalesceBatchSize then maxCoalesceBatchSize else length (coPending c));
                batch = take n (coPending c);
                c = c\<lparr>coPending := drop n (coPending c)\<rparr>;
                hasMore = (length (coPending c) > 0)
            in if \<not> hasMore then (c\<lparr>coTimer := None\<rparr>, batch, False)
               else (c\<lparr>coTimer := Some fresh\<rparr>, batch, True)))"

section \<open>The batch\<close>

text \<open>
  What \<open>flush\<close> does with its batch: \<open>reservation\<close> is the delay the rate limiter grants (\<open>None\<close> when its
  burst is too small), \<open>start\<close> the answer of \<open>startAttempt\<close> after that delay, \<open>ans\<close> what \<open>LookupMany\<close>
  returns. The outcome holds what is sent to each item of the batch, whether the reservation is cancelled, the
  requests and the timeout of the call to the adapter if it is made, the limiter and the change of the attempts.
\<close>

record flush_outcome =
  foSent :: "(nat \<times> lookup_result) list"
  foCancelled :: bool
  foCall :: "(claim_request list \<times> duration) option"
  foSlots :: "slot_limiter option"
  foAttempts :: int

definition failBatch :: "go_error \<Rightarrow> coalesced_item list \<Rightarrow> (nat \<times> lookup_result) list" where
  "failBatch err batch = map (\<lambda>it. (ciDone it, failed_lookup err)) batch"

definition send_results :: "lookup_result list \<Rightarrow> coalesced_item list \<Rightarrow> (nat \<times> lookup_result) list" where
  "send_results results batch = map (\<lambda>i. (ciDone (batch ! i),
     if i < length results then results ! i else failed_lookup (NewError ''batch lookup omitted result''))) [0..<length batch]"

definition call_batch :: "duration \<Rightarrow> slot_limiter option \<Rightarrow> lookup_result list answer \<Rightarrow> coalesced_item list \<Rightarrow> flush_outcome" where
  "call_batch remaining slots ans batch =
     \<lparr>foSent = (case ans of
        Panicked \<Rightarrow> failBatch (NewError ''panic in adapter LookupMany'') batch
      | Answered results \<Rightarrow> send_results results batch),
      foCancelled = False, foCall = Some (map ciReq batch, remaining), foSlots = slots, foAttempts = 0\<rparr>"

definition flush_batch :: "duration \<Rightarrow> duration option \<Rightarrow> bool option \<Rightarrow> slot_limiter option
    \<Rightarrow> lookup_result list answer \<Rightarrow> coalesced_item list \<Rightarrow> flush_outcome" where
  "flush_batch attemptTimeout reservation start slots ans batch =
     (let fail = (\<lambda>err cancelled. \<lparr>foSent = failBatch err batch, foCancelled = cancelled, foCall = None,
                    foSlots = slots, foAttempts = 0\<rparr>)
      in case reservation of
        None \<Rightarrow> fail (Busy second (Some (NewError ''lookup rate limit exceeded''))) False
      | Some delay \<Rightarrow>
          (if delay \<ge> attemptTimeout then
             fail (Busy delay (Some (NewError ''lookup rate limit wait exceeds deadline''))) True
           else if start = Some False then
             fail (Unavailable (Some (NewError ''scheduler is shutting down''))) False
           else (case slots of
               None \<Rightarrow> call_batch (attemptTimeout - delay) None ans batch
             | Some s \<Rightarrow> (case tryAcquire s of (s, ok) \<Rightarrow>
                 (if \<not> ok then fail (Busy (100 * millisecond) (Some (NewError ''provider in-flight slots full''))) False
                  else call_batch (attemptTimeout - delay) (Some (release_slot s)) ans batch)))))"

section \<open>Lookups, timers, flushes and batches together\<close>

text \<open>
  \<open>cfArmed\<close> are the timers that run, \<open>cfFlushes\<close> the flushes that wait for the lock, each with the timer that
  started it if one did, \<open>cfBatches\<close> the batches between their unlock and their last send, \<open>cfSent\<close> what was sent
  to the channels, and \<open>cfArrived\<close> every item so far. Timers are numbered in the order they are made.
\<close>

record co_config =
  cfCo :: coalescer
  cfArmed :: "nat set"
  cfFresh :: nat
  cfFlushes :: "nat option multiset"
  cfBatches :: "coalesced_item list multiset"
  cfSent :: "(nat \<times> lookup_result) multiset"
  cfArrived :: "coalesced_item multiset"

definition do_lookup :: "coalesced_item \<Rightarrow> co_config \<Rightarrow> co_config" where
  "do_lookup item s = (case co_lookup (cfFresh s) item (cfCo s) of (c, started, stopped, now) \<Rightarrow>
     s\<lparr>cfCo := c, cfArmed := (if started then insert (cfFresh s) (cfArmed s) else cfArmed s) - set_option stopped,
       cfFresh := cfFresh s + 1, cfFlushes := (if now then add_mset None (cfFlushes s) else cfFlushes s),
       cfArrived := add_mset item (cfArrived s)\<rparr>)"

definition do_flush :: "nat option \<Rightarrow> co_config \<Rightarrow> co_config" where
  "do_flush f s = (case flush_take (cfFresh s) (cfCo s) of (c, batch, started) \<Rightarrow>
     s\<lparr>cfCo := c, cfArmed := (if started then insert (cfFresh s) (cfArmed s) else cfArmed s),
       cfFresh := cfFresh s + 1, cfFlushes := cfFlushes s - {#f#},
       cfBatches := (if batch = [] then cfBatches s else add_mset batch (cfBatches s))\<rparr>)"

inductive co_work :: "co_config \<Rightarrow> co_config \<Rightarrow> bool" where
  fire: "t \<in> cfArmed s \<Longrightarrow> co_work s (s\<lparr>cfArmed := cfArmed s - {t}, cfFlushes := add_mset (Some t) (cfFlushes s)\<rparr>)"
| flush: "f \<in># cfFlushes s \<Longrightarrow> co_work s (do_flush f s)"
| batch: "b \<in># cfBatches s \<Longrightarrow> out = flush_batch timeout reservation start slots ans b \<Longrightarrow>
    co_work s (s\<lparr>cfBatches := cfBatches s - {#b#}, cfSent := cfSent s + mset (foSent out)\<rparr>)"

inductive co_step :: "co_config \<Rightarrow> co_config \<Rightarrow> bool" where
  work: "co_work s s' \<Longrightarrow> co_step s s'"
| lookup: "co_step s (do_lookup item s)"

definition co_init :: "duration \<Rightarrow> co_config" where
  "co_init window = \<lparr>cfCo = newLookupCoalescer window, cfArmed = {}, cfFresh = 0, cfFlushes = {#}, cfBatches = {#},
     cfSent = {#}, cfArrived = {#}\<rparr>"


section \<open>Nobody waits forever\<close>

definition co_inv :: "co_config \<Rightarrow> bool" where
  "co_inv s \<longleftrightarrow>
     (\<forall>t. coTimer (cfCo s) = Some t \<longrightarrow> t \<in> cfArmed s \<or> Some t \<in># cfFlushes s) \<and>
     (coPending (cfCo s) \<noteq> [] \<longrightarrow> coTimer (cfCo s) \<noteq> None \<or> None \<in># cfFlushes s) \<and>
     (\<forall>b \<in># cfBatches s. b \<noteq> [] \<and> length b \<le> 100) \<and>
     image_mset ciDone (cfArrived s) = image_mset ciDone (mset (coPending (cfCo s)))
       + image_mset ciDone (\<Sum>b \<in># cfBatches s. mset b) + image_mset fst (cfSent s)"

lemma co_inv_init: "co_inv (co_init window)"
  by (simp add: co_inv_def co_init_def newLookupCoalescer_def)

lemma flush_batch_ids: "map fst (foSent (flush_batch timeout reservation start slots ans b)) = map ciDone b"
proof -
  have "map ciDone b = map ciDone (map ((!) b) [0..<length b])" by (simp only: map_nth)
  then have s: "map fst (send_results results b) = map ciDone b" for results
    by (simp add: send_results_def comp_def)
  have f: "map fst (failBatch e b) = map ciDone b" for e by (simp add: failBatch_def)
  show ?thesis
    by (auto simp: flush_batch_def call_batch_def Let_def s f split: option.splits prod.splits answer.splits)
qed

lemma co_inv_lookup: "co_inv s \<Longrightarrow> co_inv (do_lookup item s)"
  by (auto simp: co_inv_def do_lookup_def co_lookup_def Let_def)

lemma flush_take_parts:
  assumes "flush_take fresh c = (c', batch, started)"
  shows "coPending c = batch @ coPending c'" and "length batch \<le> 100" and "started \<longleftrightarrow> coPending c' \<noteq> []"
    and "coTimer c' = (if started then Some fresh else None)" and "coPending c \<noteq> [] \<Longrightarrow> batch \<noteq> []"
  using assms by (auto simp: flush_take_def Let_def maxCoalesceBatchSize_def split: if_splits)

lemma co_inv_flush:
  assumes "co_inv s"
  shows "co_inv (do_flush f s)"
proof -
  obtain c batch started where e: "flush_take (cfFresh s) (cfCo s) = (c, batch, started)" by (metis prod_cases3)
  note p = flush_take_parts [OF e]
  show ?thesis using assms p
    by (cases "batch = []") (auto simp: co_inv_def do_flush_def e)
qed

lemma co_inv_batch:
  assumes "co_inv s" and "b \<in># cfBatches s"
  shows "co_inv (s\<lparr>cfBatches := cfBatches s - {#b#}, cfSent := cfSent s + mset (foSent (flush_batch timeout reservation start slots ans b))\<rparr>)"
proof -
  obtain B where B: "cfBatches s = add_mset b B" using assms(2) by (metis insert_DiffM)
  have "image_mset fst (mset (foSent (flush_batch timeout reservation start slots ans b))) = image_mset ciDone (mset b)"
    using flush_batch_ids by (metis mset_map)
  then show ?thesis using assms(1) by (auto simp: co_inv_def B)
qed

lemma co_inv_work: "co_work s s' \<Longrightarrow> co_inv s \<Longrightarrow> co_inv s'"
proof (induction rule: co_work.induct)
  case (fire t s)
  then show ?case by (auto simp: co_inv_def)
qed (simp_all add: co_inv_flush co_inv_batch)

lemma co_inv_steps: "co_step\<^sup>*\<^sup>* s s' \<Longrightarrow> co_inv s \<Longrightarrow> co_inv s'"
  by (induction rule: rtranclp_induct) (auto elim!: co_step.cases intro: co_inv_work co_inv_lookup)

lemma finite_armed: "co_step\<^sup>*\<^sup>* s s' \<Longrightarrow> finite (cfArmed s) \<Longrightarrow> finite (cfArmed s')"
  by (induction rule: rtranclp_induct)
    (auto elim!: co_step.cases co_work.cases simp: do_flush_def do_lookup_def split: prod.splits)

section \<open>Without new lookups the work comes to an end\<close>

definition co_measure :: "co_config \<Rightarrow> nat" where
  "co_measure s = 5 * length (coPending (cfCo s)) + 2 * card (cfArmed s) + size (cfFlushes s) + size (cfBatches s)"

lemma co_work_decreases: "co_work s s' \<Longrightarrow> finite (cfArmed s) \<Longrightarrow> co_measure s' < co_measure s \<and> finite (cfArmed s')"
proof (induction rule: co_work.induct)
  case (fire t s)
  then have "card (cfArmed s) = Suc (card (cfArmed s - {t}))" by (metis card_Suc_Diff1)
  with fire show ?case by (simp add: co_measure_def)
next
  case (flush f s)
  obtain c batch started where e: "flush_take (cfFresh s) (cfCo s) = (c, batch, started)" by (metis prod_cases3)
  note p = flush_take_parts [OF e]
  have "size (cfFlushes s) = Suc (size (cfFlushes s - {#f#}))" using flush(1) by (metis insert_DiffM size_add_mset)
  moreover have "card (insert (cfFresh s) (cfArmed s)) \<le> Suc (card (cfArmed s))" by (rule card_insert_le_m1) simp_all
  moreover have "batch \<noteq> [] \<Longrightarrow> 1 \<le> length batch" by (cases batch) simp_all
  ultimately show ?case using p flush(2) by (cases "batch = []") (auto simp: co_measure_def do_flush_def e)
next
  case (batch b s out timeout reservation start slots ans)
  then have "size (cfBatches s) = Suc (size (cfBatches s - {#b#}))" by (metis insert_DiffM size_add_mset)
  with batch show ?case by (simp add: co_measure_def)
qed

definition co_quiet :: "co_config \<Rightarrow> bool" where
  "co_quiet s \<longleftrightarrow> cfArmed s = {} \<and> cfFlushes s = {#} \<and> cfBatches s = {#}"

lemma co_progress: "\<not> co_quiet s \<Longrightarrow> \<exists>s'. co_work s s'"
  unfolding co_quiet_def using co_work.intros by (metis ex_in_conv multiset_nonemptyE)

lemma co_arrived: "co_work s s' \<Longrightarrow> cfArrived s' = cfArrived s"
  by (induction rule: co_work.induct) (simp_all add: do_flush_def split: prod.splits)

lemma co_drain:
  assumes "finite (cfArmed s)"
  shows "\<exists>s'. co_work\<^sup>*\<^sup>* s s' \<and> co_quiet s' \<and> cfArrived s' = cfArrived s"
  using assms
proof (induction "co_measure s" arbitrary: s rule: less_induct)
  case less
  show ?case
  proof (cases "co_quiet s")
    case False
    then obtain s1 where s1: "co_work s s1" using co_progress by blast
    from co_work_decreases [OF this less.prems] less.hyps [of s1] obtain s2
      where "co_work\<^sup>*\<^sup>* s1 s2" "co_quiet s2" "cfArrived s2 = cfArrived s1" by blast
    with s1 co_arrived [OF s1] show ?thesis by (metis converse_rtranclp_into_rtranclp)
  qed blast
qed

lemma co_work_steps: "co_work\<^sup>*\<^sup>* s s' \<Longrightarrow> co_step\<^sup>*\<^sup>* s s'"
  by (induction rule: rtranclp_induct) (auto intro: rtranclp.rtrancl_into_rtrancl co_step.work)

lemma no_descent: "(\<And>i. f (Suc i) < (f i :: nat)) \<Longrightarrow> False"
  by (rule wf_no_infinite_down_chainE [OF wf_less, of f]) auto

lemma quiet_all_answered:
  "co_inv s \<Longrightarrow> co_quiet s \<Longrightarrow> image_mset fst (cfSent s) = image_mset ciDone (cfArrived s)"
  by (auto simp: co_inv_def co_quiet_def)

section \<open>Properties\<close>

text \<open>C20: No lookup that joins a batch is ever lost or answered twice. In every reachable state the channels
  sent to, the batches under way and the waiting lookups together are exactly the lookups that arrived; if a
  lookup waits, a timer runs or a flush is on its way; and once no timer, flush or batch is left everybody was
  answered exactly once.\<close>

theorem coalescer_answers_once:
  assumes "co_step\<^sup>*\<^sup>* (co_init window) s"
  shows "image_mset ciDone (cfArrived s) = image_mset ciDone (mset (coPending (cfCo s)))
      + image_mset ciDone (\<Sum>b \<in># cfBatches s. mset b) + image_mset fst (cfSent s) \<and>
    (coPending (cfCo s) = [] \<or> cfArmed s \<noteq> {} \<or> cfFlushes s \<noteq> {#}) \<and>
    (co_quiet s \<longrightarrow> image_mset fst (cfSent s) = image_mset ciDone (cfArrived s))"
proof -
  have "co_inv s" by (rule co_inv_steps [OF assms co_inv_init])
  moreover from this have "coPending (cfCo s) = [] \<or> cfArmed s \<noteq> {} \<or> cfFlushes s \<noteq> {#}"
    by (auto simp: co_inv_def)
  ultimately show ?thesis by (simp add: quiet_all_answered) (simp add: co_inv_def)
qed

definition ex_item :: coalesced_item where
  "ex_item = \<lparr>ciReq = \<lparr>crTemplate = ''t'', crKey = ''k'', crSpecHash = [], crOwner = [], crLabels = [], crTTL = 1\<rparr>, ciDone = 7\<rparr>"

theorem coalescer_answers_once_witness:
  "\<not> (cfArmed (do_lookup ex_item (co_init 0)) = {} \<and> cfFlushes (do_lookup ex_item (co_init 0)) = {#})"
proof -
  have "co_step\<^sup>*\<^sup>* (co_init 0) (do_lookup ex_item (co_init 0))" by (blast intro: co_step.lookup)
  from coalescer_answers_once [OF this] show ?thesis
    by (simp add: do_lookup_def co_lookup_def co_init_def newLookupCoalescer_def Let_def maxCoalesceBatchSize_def)
qed

text \<open>C21: The coalescer comes to rest: from every reachable state, without new lookups, timers, flushes and
  batches can run only finitely many more steps, in whatever order, and from there a state is reached in which
  nothing runs and every lookup that arrived was answered exactly once.\<close>

theorem coalescer_drains:
  assumes "co_step\<^sup>*\<^sup>* (co_init window) s"
  shows "(\<nexists>run. run 0 = s \<and> (\<forall>i. co_work (run i) (run (Suc i)))) \<and>
    (\<exists>s'. co_work\<^sup>*\<^sup>* s s' \<and> co_quiet s' \<and> image_mset fst (cfSent s') = image_mset ciDone (cfArrived s))"
proof (intro conjI notI)
  have fin: "finite (cfArmed s)" using finite_armed [OF assms] by (simp add: co_init_def)
  then obtain s' where s': "co_work\<^sup>*\<^sup>* s s'" "co_quiet s'" "cfArrived s' = cfArrived s" using co_drain by blast
  have "co_inv s'" using co_inv_steps [OF rtranclp_trans [OF assms co_work_steps [OF s'(1)]] co_inv_init] .
  with s' show "\<exists>s'. co_work\<^sup>*\<^sup>* s s' \<and> co_quiet s' \<and> image_mset fst (cfSent s') = image_mset ciDone (cfArrived s)"
    using quiet_all_answered by metis
  assume "\<exists>run. run 0 = s \<and> (\<forall>i. co_work (run i) (run (Suc i)))"
  then obtain run where run: "run 0 = s" "\<And>i. co_work (run i) (run (Suc i))" by blast
  have f: "finite (cfArmed (run i))" for i
    by (induction i) (use run fin co_work_decreases in auto)
  have "co_measure (run (Suc i)) < co_measure (run i)" for i using co_work_decreases [OF run(2) f] by blast
  then show False by (rule no_descent)
qed

theorem coalescer_drains_witness:
  "\<exists>s'. co_work\<^sup>*\<^sup>* (do_lookup ex_item (co_init 0)) s' \<and> image_mset fst (cfSent s') = {#7#}"
proof -
  have "co_step\<^sup>*\<^sup>* (co_init 0) (do_lookup ex_item (co_init 0))" by (blast intro: co_step.lookup)
  from coalescer_drains [OF this] obtain s' where "co_work\<^sup>*\<^sup>* (do_lookup ex_item (co_init 0)) s'"
    "image_mset fst (cfSent s') = image_mset ciDone (cfArrived (do_lookup ex_item (co_init 0)))" by blast
  then show ?thesis by (auto simp: do_lookup_def co_lookup_def co_init_def Let_def ex_item_def)
qed


text \<open>One flush calls the adapter at most once for its whole batch, exactly if the rate limiter grants a
  token before the attempt times out, the scheduler accepts work and a slot is free; the call carries the
  requests in order and what is left of the timeout. Each lookup gets the answer at its own position, or the
  same reason for all; the slot is given back in every case.\<close>

theorem flush_batch_exact:
  "case flush_batch timeout reservation start slots ans b of out \<Rightarrow>
     foCall out = (if (case reservation of None \<Rightarrow> False | Some delay \<Rightarrow> delay < timeout) \<and> start \<noteq> Some False \<and> pred_option slot_free slots
       then Some (map ciReq b, timeout - the reservation) else None) \<and>
     pred_option (\<lambda>call. 0 < snd call) (foCall out) \<and>
     map fst (foSent out) = map ciDone b \<and>
     map snd (foSent out) = (case (foCall out, ans) of
       (Some _, Answered results) \<Rightarrow> take (length b) results @
          replicate (length b - length results) (failed_lookup (NewError ''batch lookup omitted result''))
     | (Some _, Panicked) \<Rightarrow> replicate (length b) (failed_lookup (NewError ''panic in adapter LookupMany''))
     | (None, _) \<Rightarrow> replicate (length b) (snd (hd (foSent out @ [(0, failed_lookup ErrNotFound)])))) \<and>
     foCancelled out = (case reservation of None \<Rightarrow> False | Some delay \<Rightarrow> timeout \<le> delay) \<and>
     map_option slInFlight (foSlots out) = map_option slInFlight slots"
proof -
  have f: "map snd (failBatch e xs) = replicate (length xs) (failed_lookup e)" for e xs
    by (simp add: failBatch_def comp_def map_replicate_const)
  have h: "snd (hd (failBatch e xs @ ys)) = failed_lookup e" if "xs \<noteq> []" for e xs ys
    using that by (cases xs) (simp_all add: failBatch_def)
  have hd': "replicate (length b) (snd (hd (failBatch e b @ ys))) = replicate (length b) (failed_lookup e)" for e ys
    using h [of b] by (cases "b = []") auto
  have g: "map snd (send_results results b) = take (length b) results @
      replicate (length b - length results) (failed_lookup (NewError ''batch lookup omitted result''))" for results
    by (rule nth_equalityI) (auto simp: send_results_def nth_append)
  show ?thesis
    using flush_batch_ids [of timeout reservation start slots ans b]
    by (cases reservation; cases slots; cases ans)
      (auto simp: flush_batch_def call_batch_def Let_def f hd' g tryAcquire_def slot_free_def release_slot_def)
qed

end
