(* ===== verification/BinderState.thy ===== *)
theory BinderState
  imports Coalescer Policy Registry
begin

text \<open>
  \<open>pkg/binder/binder.go\<close>, the state of the binder and the methods that do not talk to a provider: targets and
  their limits, the hold-off after an election, shutdown, the cache of flights and its eviction, refusals and
  cooldowns, the scheduling profile of a request and the filters an existing sandbox must pass. Objects that
  several holders share (slot limiters, health trackers, rate limiters, flights) live in heaps and are referred
  to by number. A rate limiter (\<open>golang.org/x/time/rate\<close>) is only the limit and the burst it was made with; what
  it answers is a parameter of the methods that ask it.
\<close>

section \<open>Constants and reasons\<close>

definition DefaultClaimTimeout :: duration where "DefaultClaimTimeout = 15 * second"
definition DefaultAttemptTimeout :: duration where "DefaultAttemptTimeout = 3 * second"
definition DefaultGlobalMaxInFlight :: int where "DefaultGlobalMaxInFlight = 4096"
definition DefaultMaxJoinersPerKey :: int where "DefaultMaxJoinersPerKey = 8"
definition DefaultMaxSpill :: int where "DefaultMaxSpill = 3"
definition DefaultRefusalTTL :: duration where "DefaultRefusalTTL = second"
definition DefaultQueueTimeout :: duration where "DefaultQueueTimeout = second"
definition DefaultMaxTTL :: duration where "DefaultMaxTTL = 24 * hour"
definition DefaultMaxCompletedKeys :: int where "DefaultMaxCompletedKeys = 16384"
definition DefaultClusterMaxRate :: int where "DefaultClusterMaxRate = 50"
definition DefaultElasticMaxRate :: int where "DefaultElasticMaxRate = 100"
definition DefaultClusterLookupRate :: int where "DefaultClusterLookupRate = 200"
definition DefaultElasticLookupRate :: int where "DefaultElasticLookupRate = 20"
definition RemoteTimeoutSkewGrace :: duration where "RemoteTimeoutSkewGrace = 500 * millisecond"

datatype reason = ReasonInvalidRequest | ReasonInvalidPolicy | ReasonNoProviders | ReasonNoCapacity
  | ReasonSpecMismatch | ReasonConstraintExcluded | ReasonRejected | ReasonBusy | ReasonKeyBusy
  | ReasonRateLimited | ReasonSlotsFull | ReasonTooManyJoiners | ReasonUnavailable | ReasonStandby
  | ReasonHoldOff | ReasonUnknownOutcome | ReasonClaimsDisabled

fun reason_string :: "reason \<Rightarrow> string" where
  "reason_string ReasonInvalidRequest = ''InvalidRequest''"
| "reason_string ReasonInvalidPolicy = ''InvalidPolicy''"
| "reason_string ReasonNoProviders = ''NoProviders''"
| "reason_string ReasonNoCapacity = ''NoCapacity''"
| "reason_string ReasonSpecMismatch = ''SpecMismatch''"
| "reason_string ReasonConstraintExcluded = ''ConstraintExcluded''"
| "reason_string ReasonRejected = ''Rejected''"
| "reason_string ReasonBusy = ''Busy''"
| "reason_string ReasonKeyBusy = ''KeyBusy''"
| "reason_string ReasonRateLimited = ''RateLimited''"
| "reason_string ReasonSlotsFull = ''SlotsFull''"
| "reason_string ReasonTooManyJoiners = ''TooManyJoiners''"
| "reason_string ReasonUnavailable = ''Unavailable''"
| "reason_string ReasonStandby = ''Standby''"
| "reason_string ReasonHoldOff = ''HoldOff''"
| "reason_string ReasonUnknownOutcome = ''UnknownOutcome''"
| "reason_string ReasonClaimsDisabled = ''ClaimsDisabled''"

section \<open>Targets, requests, results\<close>

record target_config =
  tcEnabled :: bool
  tcMaxInFlight :: int
  tcTimeout :: duration
  tcMaxRate :: int
  tcLookupRate :: int
  tcElastic :: bool
  tcElasticWarmScore :: "int option"
  tcTemplates :: "(string, string) gomap"

text \<open>Which of the capabilities of a \<open>provider.Provider\<close> are there.\<close>

record provider_caps =
  pvBinder :: bool
  pvBatchLookup :: bool

record target =
  tgId :: string
  tgProv :: provider_caps
  tgCfg :: target_config
  tgSlots :: nat
  tgClaimRate :: nat
  tgLookupRate :: nat
  tgRetryBudget :: nat
  tgCoalescer :: "nat option"
  tgHealth :: nat

record bind_request =
  bqTemplate :: string
  bqKey :: string
  bqRetry :: bool
  bqLabels :: "(string, string) gomap"
  bqRequires :: "(string, string) gomap"
  bqPreferProvider :: string
  bqPinProvider :: string
  bqWarmOnly :: bool
  bqTTL :: duration
  bqTimeout :: duration

record bind_result =
  brHandle :: handle
  brReplay :: bool
  brWarm :: bool
  brPolicy :: string
  brScore :: int
  brExplanation :: string

record bind_error =
  beStatus :: int
  beReason :: reason
  beMessage :: string
  beProviders :: "string list"
  beRetryAfter :: duration
  beExplanation :: string

text \<open>An \<open>Error\<close> without retry hint and explanation.\<close>

definition mk_error :: "int \<Rightarrow> reason \<Rightarrow> string \<Rightarrow> string list \<Rightarrow> bind_error" where
  "mk_error st rsn msg provs = \<lparr>beStatus = st, beReason = rsn, beMessage = msg, beProviders = provs,
     beRetryAfter = 0, beExplanation = []\<rparr>"

record flight =
  flSpecHash :: string
  flJoiners :: int
  flDone :: bool
  flRes :: "bind_result option"
  flErr :: "bind_error option"
  flCompleted :: bool
  flCompletedUntil :: gotime

record binder_options =
  opOwner :: string
  opAllowedLabelDomain :: string
  opClaimTimeout :: duration
  opQueueTimeout :: duration
  opRefusalTTL :: duration
  opMaxTTL :: duration
  opMaxSpill :: int
  opGlobalMaxInFlight :: int
  opMaxJoinersPerKey :: int
  opMaxCompletedKeys :: int
  opCoalesceWindow :: duration

text \<open>
  The binder. \<open>b_slots\<close>, \<open>b_health\<close>, \<open>b_limiters\<close>, \<open>b_coalescers\<close> and \<open>b_flight_heap\<close> are the heaps; a coalescer
  comes with its rate limiter and slot limiter. \<open>b_done_closed\<close> counts how often \<open>shutdownDone\<close> was closed.
\<close>

record binder_state =
  b_reg :: registry
  b_owner :: string
  b_allowedLabelDomain :: string
  b_claimTimeout :: duration
  b_queueTimeout :: duration
  b_refusalTTL :: duration
  b_maxTTL :: duration
  b_maxSpill :: int
  b_globalMaxInFlight :: int
  b_maxJoinersPerKey :: int
  b_maxCompletedKeys :: int
  b_coalesceWindow :: duration
  b_targets :: "(string, target) gomap"
  b_slots :: "slot_limiter list"
  b_health :: "health list"
  b_limiters :: "(int \<times> int) list"
  b_coalescers :: "(coalescer \<times> nat \<times> nat) list"
  b_inFlight :: int
  b_flights :: "(string, nat) gomap"
  b_flight_heap :: "flight list"
  b_completedOrder :: "string list"
  b_evictedUnexpiredUntil :: gotime
  b_refusals :: "(string \<times> string, gotime) gomap"
  b_cooldowns :: "(string, gotime) gomap"
  b_electedAt :: gotime
  b_closing :: bool
  b_activeAttempts :: int
  b_done_closed :: nat

definition New_binder :: "(string \<Rightarrow> string) \<Rightarrow> registry \<Rightarrow> binder_options \<Rightarrow> binder_state" where
  "New_binder sha reg opts =
     \<lparr>b_reg = reg,
      b_owner = (if opOwner opts = [] then OwnerID sha ''sandbox-scheduler'' ''sandbox-scheduler'' ''default'' else opOwner opts),
      b_allowedLabelDomain = (if opAllowedLabelDomain opts = [] then DefaultAllowedLabelDomain else opAllowedLabelDomain opts),
      b_claimTimeout = (if opClaimTimeout opts \<le> 0 then DefaultClaimTimeout else opClaimTimeout opts),
      b_queueTimeout = (if opQueueTimeout opts \<le> 0 then DefaultQueueTimeout else opQueueTimeout opts),
      b_refusalTTL = (if opRefusalTTL opts \<le> 0 then DefaultRefusalTTL else opRefusalTTL opts),
      b_maxTTL = (if opMaxTTL opts \<le> 0 then DefaultMaxTTL else opMaxTTL opts),
      b_maxSpill = (if opMaxSpill opts \<le> 0 then DefaultMaxSpill else opMaxSpill opts),
      b_globalMaxInFlight = (if opGlobalMaxInFlight opts \<le> 0 then DefaultGlobalMaxInFlight else opGlobalMaxInFlight opts),
      b_maxJoinersPerKey = (if opMaxJoinersPerKey opts \<le> 0 then DefaultMaxJoinersPerKey else opMaxJoinersPerKey opts),
      b_maxCompletedKeys = (if opMaxCompletedKeys opts \<le> 0 then DefaultMaxCompletedKeys else opMaxCompletedKeys opts),
      b_coalesceWindow = opCoalesceWindow opts,
      b_targets = [], b_slots = [], b_health = [], b_limiters = [], b_coalescers = [], b_inFlight = 0,
      b_flights = [], b_flight_heap = [], b_completedOrder = [], b_evictedUnexpiredUntil = zero_time,
      b_refusals = [], b_cooldowns = [], b_electedAt = zero_time, b_closing = False, b_activeAttempts = 0,
      b_done_closed = 0\<rparr>"

section \<open>Targets\<close>

definition default_config :: "target_config \<Rightarrow> target_config" where
  "default_config cfg =
     (let cfg = (if tcMaxInFlight cfg \<le> 0 then cfg\<lparr>tcMaxInFlight := DefaultProviderMaxInFlight\<rparr> else cfg);
          cfg = (if tcTimeout cfg \<le> 0 then cfg\<lparr>tcTimeout := DefaultAttemptTimeout\<rparr> else cfg);
          cfg = (if tcMaxRate cfg \<le> 0 then
                   cfg\<lparr>tcMaxRate := (if tcElastic cfg then DefaultElasticMaxRate else DefaultClusterMaxRate)\<rparr>
                 else cfg);
          cfg = (if tcLookupRate cfg \<le> 0 then
                   cfg\<lparr>tcLookupRate := (if tcElastic cfg then DefaultElasticLookupRate else DefaultClusterLookupRate)\<rparr>
                 else cfg)
      in cfg)"

text \<open>The retry budget: a tenth of the rate, at least one per second, with a burst of at least two.\<close>

definition retry_limits :: "int \<Rightarrow> int \<times> int" where
  "retry_limits maxRate =
     (let retryRate = go_div maxRate 10;
          retryRate = (if retryRate < 1 then 1 else retryRate);
          retryBurst = (if retryRate < 2 then 2 else retryRate)
      in (retryRate, retryBurst))"

definition pick_slots :: "string \<Rightarrow> target_config \<Rightarrow> target option \<Rightarrow> binder_state \<Rightarrow> nat \<times> binder_state" where
  "pick_slots providerID cfg prev b =
     (case prev of
        Some p \<Rightarrow> (if tcMaxInFlight (tgCfg p) = tcMaxInFlight cfg then (tgSlots p, b)
          else (length (b_slots b), b\<lparr>b_slots := b_slots b @ [newSlotLimiter providerID (tcMaxInFlight cfg)]\<rparr>))
      | None \<Rightarrow> (length (b_slots b), b\<lparr>b_slots := b_slots b @ [newSlotLimiter providerID (tcMaxInFlight cfg)]\<rparr>))"

definition pick_health :: "target option \<Rightarrow> binder_state \<Rightarrow> nat \<times> binder_state" where
  "pick_health prev b =
     (case prev of
        Some p \<Rightarrow> (tgHealth p, b)
      | None \<Rightarrow> (length (b_health b), b\<lparr>b_health := b_health b @ [newHealthTracker]\<rparr>))"

definition pick_claim_rate :: "target_config \<Rightarrow> target option \<Rightarrow> binder_state \<Rightarrow> nat \<times> nat \<times> binder_state" where
  "pick_claim_rate cfg prev b =
     (let fresh = (length (b_limiters b), length (b_limiters b) + 1,
                   b\<lparr>b_limiters := b_limiters b @ [(tcMaxRate cfg, tcMaxRate cfg), retry_limits (tcMaxRate cfg)]\<rparr>)
      in case prev of
           Some p \<Rightarrow> (if tcMaxRate (tgCfg p) = tcMaxRate cfg then (tgClaimRate p, tgRetryBudget p, b) else fresh)
         | None \<Rightarrow> fresh)"

definition pick_lookup_rate :: "target_config \<Rightarrow> target option \<Rightarrow> binder_state \<Rightarrow> nat \<times> binder_state" where
  "pick_lookup_rate cfg prev b =
     (let fresh = (length (b_limiters b), b\<lparr>b_limiters := b_limiters b @ [(tcLookupRate cfg, tcLookupRate cfg)]\<rparr>)
      in case prev of
           Some p \<Rightarrow> (if tcLookupRate (tgCfg p) = tcLookupRate cfg then (tgLookupRate p, b) else fresh)
         | None \<Rightarrow> fresh)"

definition pick_coalescer :: "provider_caps \<Rightarrow> nat \<Rightarrow> nat \<Rightarrow> binder_state \<Rightarrow> nat option \<times> binder_state" where
  "pick_coalescer prov lookupLim slots b =
     (if pvBatchLookup prov then
        (Some (length (b_coalescers b)),
         b\<lparr>b_coalescers := b_coalescers b @ [(newLookupCoalescer (b_coalesceWindow b), lookupLim, slots)]\<rparr>)
      else (None, b))"

definition SetTarget :: "string \<Rightarrow> provider_caps \<Rightarrow> target_config \<Rightarrow> binder_state \<Rightarrow> binder_state" where
  "SetTarget providerID prov cfg b =
     (let cfg = default_config cfg;
          prev = go_get (b_targets b) providerID;
          (slots, b) = pick_slots providerID cfg prev b;
          (health, b) = pick_health prev b;
          (claimLim, retryLim, b) = pick_claim_rate cfg prev b;
          (lookupLim, b) = pick_lookup_rate cfg prev b;
          (coalescer, b) = pick_coalescer prov lookupLim slots b;
          cfg = cfg\<lparr>tcTemplates := go_copy (tcTemplates cfg) []\<rparr>
      in b\<lparr>b_targets := go_put providerID
             \<lparr>tgId = providerID, tgProv = prov, tgCfg = cfg, tgSlots = slots, tgClaimRate = claimLim,
              tgLookupRate = lookupLim, tgRetryBudget = retryLim, tgCoalescer = coalescer, tgHealth = health\<rparr>
             (go_copy (b_targets b) [])\<rparr>)"

section \<open>The cache of flights: eviction\<close>

definition flight_of :: "binder_state \<Rightarrow> nat \<Rightarrow> flight" where
  "flight_of b ref = b_flight_heap b ! ref"

definition evictCompletedFlight :: "string \<Rightarrow> string \<Rightarrow> binder_state \<Rightarrow> binder_state" where
  "evictCompletedFlight providerID sandboxID b =
     b\<lparr>b_flights := filter (\<lambda>(k, ref). \<not> (flCompleted (flight_of b ref) \<and>
         (case flRes (flight_of b ref) of None \<Rightarrow> False
          | Some res \<Rightarrow> hProvider (brHandle res) = providerID \<and> (sandboxID = [] \<or> hID (brHandle res) = sandboxID))))
       (b_flights b)\<rparr>"

abbreviation EvictHandle :: "string \<Rightarrow> string \<Rightarrow> binder_state \<Rightarrow> binder_state" where
  "EvictHandle \<equiv> evictCompletedFlight"

definition RemoveTarget :: "string \<Rightarrow> binder_state \<Rightarrow> binder_state" where
  "RemoveTarget providerID b =
     (case go_get (b_targets b) providerID of
        None \<Rightarrow> b
      | Some _ \<Rightarrow> evictCompletedFlight providerID []
          (b\<lparr>b_targets := go_copy (filter (\<lambda>(k, v). k \<noteq> providerID) (b_targets b)) []\<rparr>))"

text \<open>
  The two loops of \<open>enforceCompletedFlightCapLocked\<close>. The first drops stale and expired keys from the front
  of the order, the second the oldest completed flights while there are too many.
\<close>

fun trim_front :: "gotime \<Rightarrow> flight list \<Rightarrow> string list \<Rightarrow> (string, nat) gomap \<Rightarrow> string list \<times> (string, nat) gomap" where
  "trim_front now hp [] fm = ([], fm)"
| "trim_front now hp (front # rest) fm =
     (case go_get fm front of
        None \<Rightarrow> trim_front now hp rest fm
      | Some ref \<Rightarrow>
          (if \<not> flCompleted (hp ! ref) then trim_front now hp rest fm
           else if \<not> now < flCompletedUntil (hp ! ref) then trim_front now hp rest (go_delete front fm)
           else (front # rest, fm)))"

fun evict_oldest :: "int \<Rightarrow> gotime \<Rightarrow> flight list \<Rightarrow> string list \<Rightarrow> (string, nat) gomap \<Rightarrow> gotime
    \<Rightarrow> string list \<times> (string, nat) gomap \<times> gotime" where
  "evict_oldest cap now hp [] fm ev = ([], fm, ev)"
| "evict_oldest cap now hp (oldest # rest) fm ev =
     (if int (length fm) > cap then
        (case go_get fm oldest of
           None \<Rightarrow> evict_oldest cap now hp rest fm ev
         | Some ref \<Rightarrow>
             (if \<not> flCompleted (hp ! ref) then evict_oldest cap now hp rest fm ev
              else evict_oldest cap now hp rest (go_delete oldest fm)
                (if now < flCompletedUntil (hp ! ref) \<and> flCompletedUntil (hp ! ref) > ev
                 then flCompletedUntil (hp ! ref) else ev)))
      else (oldest # rest, fm, ev))"

definition enforceCompletedFlightCap :: "gotime \<Rightarrow> binder_state \<Rightarrow> binder_state" where
  "enforceCompletedFlightCap now b =
     (case trim_front now (b_flight_heap b) (b_completedOrder b) (b_flights b) of (order, fm) \<Rightarrow>
      case evict_oldest (b_maxCompletedKeys b) now (b_flight_heap b) order fm (b_evictedUnexpiredUntil b) of
        (order, fm, ev) \<Rightarrow> b\<lparr>b_completedOrder := order, b_flights := fm, b_evictedUnexpiredUntil := ev\<rparr>)"

definition hasEvictedUnexpired :: "gotime \<Rightarrow> binder_state \<Rightarrow> bool" where
  "hasEvictedUnexpired now b \<longleftrightarrow> now < b_evictedUnexpiredUntil b"

section \<open>Health, election, shutdown\<close>

definition HealthStatus :: "string \<Rightarrow> binder_state \<Rightarrow> claim_health_status option" where
  "HealthStatus providerID b = map_option (\<lambda>t. health_status (b_health b ! tgHealth t)) (go_get (b_targets b) providerID)"

definition NotifyElected :: "gotime \<Rightarrow> binder_state \<Rightarrow> binder_state" where
  "NotifyElected now b = b\<lparr>b_electedAt := now\<rparr>"

definition claim_capable :: "target \<Rightarrow> bool" where
  "claim_capable t \<longleftrightarrow> tcEnabled (tgCfg t) \<and> pvBinder (tgProv t)"

definition holdOffRemaining :: "gotime \<Rightarrow> binder_state \<Rightarrow> duration" where
  "holdOffRemaining now b =
     (if b_electedAt b = zero_time then 0
      else (let maxTimeout = fold (\<lambda>(k, t) m. if claim_capable t \<and> tcTimeout (tgCfg t) > m then tcTimeout (tgCfg t) else m)
                  (b_targets b) DefaultAttemptTimeout;
                maxTimeout = (if maxTimeout > b_claimTimeout b then b_claimTimeout b else maxTimeout);
                holdOff = maxTimeout + RemoteTimeoutSkewGrace;
                until = b_electedAt b + holdOff
            in if \<not> now < until then 0 else time_sub until now))"

text \<open>\<open>Shutdown\<close> up to its select.\<close>

definition Shutdown_begin :: "binder_state \<Rightarrow> binder_state" where
  "Shutdown_begin b =
     (if \<not> b_closing b then
        b\<lparr>b_closing := True, b_done_closed := (if b_activeAttempts b = 0 then b_done_closed b + 1 else b_done_closed b)\<rparr>
      else b)"

definition startAttempt :: "binder_state \<Rightarrow> binder_state \<times> bool" where
  "startAttempt b = (if b_closing b then (b, False) else (b\<lparr>b_activeAttempts := b_activeAttempts b + 1\<rparr>, True))"

definition finishAttempt :: "binder_state \<Rightarrow> binder_state" where
  "finishAttempt b =
     (let b = b\<lparr>b_activeAttempts := b_activeAttempts b - 1\<rparr>
      in if b_closing b \<and> b_activeAttempts b = 0 then b\<lparr>b_done_closed := b_done_closed b + 1\<rparr> else b)"

section \<open>Refusals, cooldowns, delays\<close>

definition recordRefusal :: "string \<Rightarrow> string \<Rightarrow> gotime \<Rightarrow> binder_state \<Rightarrow> binder_state" where
  "recordRefusal providerID template now b =
     b\<lparr>b_refusals := go_put (providerID, template) (now + b_refusalTTL b) (b_refusals b)\<rparr>"

definition isRefused :: "string \<Rightarrow> string \<Rightarrow> gotime \<Rightarrow> binder_state \<Rightarrow> bool" where
  "isRefused providerID template now b =
     (let r = go_get (b_refusals b) (providerID, template);
          r = (if r = None \<and> template \<noteq> [] then go_get (b_refusals b) (providerID, []) else r)
      in case r of None \<Rightarrow> False | Some until \<Rightarrow> now < until)"

definition recordCooldown :: "string \<Rightarrow> gotime \<Rightarrow> binder_state \<Rightarrow> binder_state" where
  "recordCooldown providerID until b =
     (case go_get (b_cooldowns b) providerID of
        None \<Rightarrow> b\<lparr>b_cooldowns := go_put providerID until (b_cooldowns b)\<rparr>
      | Some cur \<Rightarrow> (if until > cur then b\<lparr>b_cooldowns := go_put providerID until (b_cooldowns b)\<rparr> else b))"

definition cooldownRemaining :: "string \<Rightarrow> gotime \<Rightarrow> binder_state \<Rightarrow> duration" where
  "cooldownRemaining providerID now b =
     (case go_get (b_cooldowns b) providerID of
        None \<Rightarrow> 0
      | Some until \<Rightarrow> (if \<not> now < until then 0 else time_sub until now))"

definition attemptDuration :: "duration \<Rightarrow> gotime \<Rightarrow> gotime \<Rightarrow> duration" where
  "attemptDuration targetTimeout reqDeadline now =
     (let d = (if targetTimeout \<le> 0 then DefaultAttemptTimeout else targetTimeout);
          rem = time_sub reqDeadline now;
          d = (if rem > 0 \<and> rem < d then rem else d)
      in if d \<le> 0 then millisecond else d)"

text \<open>\<open>reservation\<close> is what \<open>ReserveN\<close> grants: a delay, or nothing.\<close>

definition timeUntilNextToken :: "duration option \<Rightarrow> duration" where
  "timeUntilNextToken reservation =
     (case reservation of None \<Rightarrow> second | Some d \<Rightarrow> (if d \<le> 0 then 10 * millisecond else d))"

text \<open>\<open>time.Duration(b.randFloat() * float64(d))\<close>.\<close>

definition rand_duration :: "rat \<Rightarrow> duration \<Rightarrow> duration" where
  "rand_duration r d = trunc (fmul r (of_int d))"

definition jitterDelay :: "rat \<Rightarrow> duration \<Rightarrow> duration" where
  "jitterDelay r base =
     (let base = (if base \<le> 0 then second else base)
      in base + rand_duration r (500 * millisecond))"

section \<open>Scheduling and filters of a request\<close>

definition probeTemplateForTarget :: "string \<Rightarrow> (string, string) gomap \<Rightarrow> string" where
  "probeTemplateForTarget reqTemplate templates =
     (if length templates = 0 then reqTemplate
      else if reqTemplate \<noteq> [] \<and> go_get templates reqTemplate \<noteq> None then reqTemplate
      else fold (\<lambda>(k, v) first. if first = [] \<or> k < first then k else first) templates [])"

definition hasFilter :: "filter_plugin list \<Rightarrow> string \<Rightarrow> bool" where
  "hasFilter filters name = list_ex (\<lambda>f. fName f = name) filters"

definition warmCandidate :: "candidate list \<Rightarrow> string \<Rightarrow> bool" where
  "warmCandidate candidates providerID =
     (case find (\<lambda>c. cProvider c = providerID) candidates of None \<Rightarrow> False | Some c \<Rightarrow> cWarmCapacity c > 0)"

text \<open>\<open>None\<close> would be the panic of \<open>BuildProfile\<close>, which does not happen.\<close>

definition buildScheduleProfile :: "'sel policy \<Rightarrow> bind_request \<Rightarrow> candidate list
    \<Rightarrow> (string + profile \<times> sched_request) option" where
  "buildScheduleProfile pol req candidates =
     (case BuildProfile pol candidates of
        None \<Rightarrow> None
      | Some (Inl err) \<Rightarrow> Some (Inl err)
      | Some (Inr prof) \<Rightarrow>
          (let prof = (if bqTemplate req \<noteq> [] \<and> \<not> hasFilter (pFilters prof) ''TemplateAvailable''
                 then prof\<lparr>pFilters := pFilters prof @ [TemplateAvailable_plugin]\<rparr> else prof);
               prof = (if bqWarmOnly req \<and> \<not> hasFilter (pFilters prof) ''WarmOnly''
                 then prof\<lparr>pFilters := pFilters prof @ [WarmOnly_plugin]\<rparr> else prof);
               schedReq = BuildRequest pol (bqKey req) (bqRequires req) (bqPreferProvider req);
               schedReq = schedReq\<lparr>rqTemplate := bqTemplate req, rqWarmOnly := bqWarmOnly req\<rparr>
           in Some (Inr (prof, schedReq))))"

definition passesHardFilters :: "filter_plugin list \<Rightarrow> sched_request \<Rightarrow> candidate \<Rightarrow> bool" where
  "passesHardFilters filters req cand = list_all (\<lambda>f. fst (fFilter f req cand)) filters"

text \<open>
  \<open>passesCandidateFilters\<close>: \<open>now\<close> is the clock reading of the snapshot. The candidate of a provider that the
  registry does not know but the binder does has the target's templates and nothing else.
\<close>

definition bare_candidate :: "string \<Rightarrow> (string, string) gomap \<Rightarrow> candidate" where
  "bare_candidate providerID templates =
     \<lparr>cProvider = providerID, cReachable = False, cWarmCapacity = 0, cElastic = False, cElasticWarmScore = 0,
      cInFlightCold = 0, cAttributes = [], cTemplates = templates, cCostPerHour = 0\<rparr>"

definition existing_candidate :: "string \<Rightarrow> candidate list \<Rightarrow> target option \<Rightarrow> candidate option" where
  "existing_candidate providerID snapshots t =
     (case find (\<lambda>c. cProvider c = providerID) snapshots of
        None \<Rightarrow> (case t of None \<Rightarrow> None | Some t \<Rightarrow> Some (bare_candidate providerID (tcTemplates (tgCfg t))))
      | Some c \<Rightarrow> Some (case t of
            None \<Rightarrow> c
          | Some t \<Rightarrow> (if length (cTemplates c) = 0 then c\<lparr>cTemplates := tcTemplates (tgCfg t)\<rparr> else c)))"

definition passesCandidateFilters :: "gotime \<Rightarrow> string \<Rightarrow> 'sel policy option \<Rightarrow> bind_request \<Rightarrow> binder_state \<Rightarrow> bool" where
  "passesCandidateFilters now providerID pol req b =
     (let pol = (case pol of None \<Rightarrow> DefaultPolicy | Some p \<Rightarrow> p);
          snapshots = Snapshot now (b_reg b)
      in case existing_candidate providerID snapshots (go_get (b_targets b) providerID) of
           None \<Rightarrow> False
         | Some cand \<Rightarrow>
             (case buildScheduleProfile pol req snapshots of
                None \<Rightarrow> False
              | Some (Inl err) \<Rightarrow> False
              | Some (Inr (prof, schedReq)) \<Rightarrow>
                  list_all (\<lambda>f. fst (fFilter f schedReq cand)) (filter (\<lambda>f. fName f \<noteq> ''WarmOnly'') (pFilters prof))))"

definition passesJoinerConstraints :: "gotime \<Rightarrow> string \<Rightarrow> bool \<Rightarrow> 'sel policy option \<Rightarrow> bind_request \<Rightarrow> binder_state \<Rightarrow> bool" where
  "passesJoinerConstraints now providerID wasWarm pol req b =
     (if bqPinProvider req \<noteq> [] \<and> bqPinProvider req \<noteq> providerID then False
      else if bqWarmOnly req \<and> \<not> wasWarm then False
      else passesCandidateFilters now providerID pol req b)"

end
