(* ===== verification/Flights.thy ===== *)
theory Flights
  imports BinderState
begin

text \<open>
  \<open>pkg/binder/binder.go\<close>, one execution per idempotency key: how \<open>Bind\<close> enters the cache of flights, how its
  deferred function finishes a flight, how requests join one, and the parts of \<open>ReleaseByKey\<close> that read and
  write the cache. Each locked section is one function; a step relation interleaves the goroutines.
\<close>

section \<open>Admission\<close>

definition claim_request_of :: "(string \<Rightarrow> string) \<Rightarrow> binder_state \<Rightarrow> bind_request \<Rightarrow> claim_request" where
  "claim_request_of sha b req =
     (let ttl = (if bqTTL req \<le> 0 \<or> bqTTL req > b_maxTTL b then b_maxTTL b else bqTTL req)
      in \<lparr>crTemplate = bqTemplate req, crKey = bqKey req, crSpecHash = SpecHashOf sha (bqTemplate req) (bqLabels req) ttl,
          crOwner = b_owner b, crLabels = bqLabels req, crTTL = ttl\<rparr>)"

definition hold_off_error :: "rat \<Rightarrow> duration \<Rightarrow> string \<Rightarrow> string list \<Rightarrow> bind_error" where
  "hold_off_error r rem msg provs = (mk_error 503 ReasonHoldOff msg provs)\<lparr>beRetryAfter := rem + rand_duration r (3 * second)\<rparr>"

text \<open>\<open>Bind\<close> up to the lock, after its request was counted in \<open>inFlight\<close>.\<close>

definition bind_admit :: "(string \<Rightarrow> string) \<Rightarrow> gotime \<Rightarrow> rat \<Rightarrow> bind_request \<Rightarrow> binder_state \<Rightarrow> bind_error + claim_request" where
  "bind_admit sha now r req b =
     (if b_inFlight b > b_globalMaxInFlight b then
        Inl ((mk_error 429 ReasonSlotsFull (''global in-flight claim limit ('' @ dec_int (b_globalMaxInFlight b) @ '') exceeded'') [])
               \<lparr>beRetryAfter := jitterDelay r second\<rparr>)
      else (let rem = holdOffRemaining now b in
        if rem > 0 then
          Inl (hold_off_error r rem ''newly elected leader is holding off claims while pre-failover attempts settle'' [])
        else (let claimReq = claim_request_of sha b req in
          case ValidateWithDomain claimReq (b_maxTTL b) (b_allowedLabelDomain b) of
            Some err \<Rightarrow> Inl (mk_error 400 ReasonInvalidRequest (error_string err) [])
          | None \<Rightarrow> Inr claimReq)))"

section \<open>Entering and finishing a flight\<close>

definition new_flight :: "string \<Rightarrow> flight" where
  "new_flight spec = \<lparr>flSpecHash = spec, flJoiners = 0, flDone = False, flRes = None, flErr = None,
     flCompleted = False, flCompletedUntil = zero_time\<rparr>"

definition flight_expired :: "gotime \<Rightarrow> binder_state \<Rightarrow> nat \<Rightarrow> bool" where
  "flight_expired now b ref \<longleftrightarrow> flCompleted (flight_of b ref) \<and> \<not> now < flCompletedUntil (flight_of b ref)"

text \<open>The locked section of \<open>Bind\<close>: the flight to join (\<open>Inl\<close>) or the new one to lead (\<open>Inr\<close>).\<close>

definition lead_flight :: "gotime \<Rightarrow> string \<Rightarrow> string \<Rightarrow> binder_state \<Rightarrow> binder_state \<times> nat" where
  "lead_flight now key spec b =
     (let b = (if length (b_flights b) \<ge> 64 then
                 b\<lparr>b_flights := filter (\<lambda>(k, ref). \<not> flight_expired now b ref) (b_flights b)\<rparr> else b);
          ref = length (b_flight_heap b)
      in (b\<lparr>b_flight_heap := b_flight_heap b @ [new_flight spec], b_flights := go_put key ref (b_flights b)\<rparr>, ref))"

definition flight_enter :: "gotime \<Rightarrow> string \<Rightarrow> string \<Rightarrow> binder_state \<Rightarrow> binder_state \<times> (nat + nat)" where
  "flight_enter now key spec b =
     (case go_get (b_flights b) key of
        Some ref \<Rightarrow>
          (if flight_expired now b ref then
             (case lead_flight now key spec (b\<lparr>b_flights := go_delete key (b_flights b)\<rparr>) of (b, ref) \<Rightarrow> (b, Inr ref))
           else (b, Inl ref))
      | None \<Rightarrow> (case lead_flight now key spec b of (b, ref) \<Rightarrow> (b, Inr ref)))"

definition update_flight :: "nat \<Rightarrow> (flight \<Rightarrow> flight) \<Rightarrow> binder_state \<Rightarrow> binder_state" where
  "update_flight ref f b = b\<lparr>b_flight_heap := (b_flight_heap b)[ref := f (b_flight_heap b ! ref)]\<rparr>"

definition completed_until :: "gotime \<Rightarrow> duration \<Rightarrow> bind_result \<Rightarrow> gotime" where
  "completed_until finishNow ttl res =
     (let until = finishNow + ttl; ex = hExpiresAt (brHandle res)
      in if ex \<noteq> zero_time \<and> ex > finishNow \<and> ex < until then ex else until)"

definition panic_error :: "string \<Rightarrow> bind_error" where
  "panic_error r = mk_error 504 ReasonUnknownOutcome (''panic in claim flight: '' @ r) []"

text \<open>
  The deferred function of \<open>Bind\<close>: \<open>out\<close> is what \<open>executeFlight\<close> returned, after a panic no result and the
  error \<open>panic_error\<close>.
\<close>

definition flight_finish :: "gotime \<Rightarrow> duration \<Rightarrow> string \<Rightarrow> nat \<Rightarrow> bind_result option \<times> bind_error option
    \<Rightarrow> binder_state \<Rightarrow> binder_state" where
  "flight_finish finishNow ttl key ref out b =
     (let b = update_flight ref (\<lambda>fl. fl\<lparr>flRes := fst out, flErr := snd out\<rparr>) b;
          b = (case out of
                 (Some res, None) \<Rightarrow>
                   (let b = update_flight ref (\<lambda>fl. fl\<lparr>flRes := Some (res\<lparr>brExplanation := []\<rparr>), flCompleted := True,
                              flCompletedUntil := completed_until finishNow ttl res\<rparr>) b;
                        b = b\<lparr>b_completedOrder := b_completedOrder b @ [key]\<rparr>
                    in enforceCompletedFlightCap finishNow b)
               | _ \<Rightarrow> (if go_get (b_flights b) key = Some ref then b\<lparr>b_flights := go_delete key (b_flights b)\<rparr> else b))
      in update_flight ref (\<lambda>fl. fl\<lparr>flDone := True\<rparr>) b)"

section \<open>Joining a flight\<close>

definition spec_mismatch :: "string \<Rightarrow> flight \<Rightarrow> bind_error" where
  "spec_mismatch key fl = mk_error 409 ReasonSpecMismatch
     (''key '' @ quote key @ '' is already being claimed with a different spec'')
     (if flDone fl then (case flRes fl of None \<Rightarrow> []
        | Some res \<Rightarrow> if hProvider (brHandle res) \<noteq> [] then [hProvider (brHandle res)] else []) else [])"

text \<open>\<open>joinFlight\<close> before it waits: an error, or a place among the joiners.\<close>

definition join_begin :: "rat \<Rightarrow> string \<Rightarrow> string \<Rightarrow> nat \<Rightarrow> binder_state \<Rightarrow> binder_state \<times> bind_error option" where
  "join_begin r key spec ref b =
     (let fl = flight_of b ref in
      if flSpecHash fl \<noteq> spec then (b, Some (spec_mismatch key fl))
      else if flJoiners fl + 1 > b_maxJoinersPerKey b then
        (b, Some ((mk_error 429 ReasonTooManyJoiners (''key '' @ quote key @ '' has reached the maximum concurrent joiners ('' @
            dec_int (b_maxJoinersPerKey b) @ '')'') [])\<lparr>beRetryAfter := jitterDelay r second\<rparr>))
      else (update_flight ref (\<lambda>fl. fl\<lparr>flJoiners := flJoiners fl + 1\<rparr>) b, None))"

definition join_leave :: "nat \<Rightarrow> binder_state \<Rightarrow> binder_state" where
  "join_leave ref b = update_flight ref (\<lambda>fl. fl\<lparr>flJoiners := flJoiners fl - 1\<rparr>) b"

definition join_cancelled :: bind_error where
  "join_cancelled = mk_error 504 ReasonUnknownOutcome
     ''client context cancelled while waiting on in-flight claim for the same key'' []"

text \<open>
  \<open>joinFlight\<close> after the flight is done. Without an error and a result the code dereferences a nil pointer; a
  flight that is done always has one of them.
\<close>

definition join_result :: "gotime \<Rightarrow> 'sel policy option \<Rightarrow> bind_request \<Rightarrow> nat \<Rightarrow> binder_state
    \<Rightarrow> (bind_error + bind_result) option" where
  "join_result now pol req ref b =
     (let fl = flight_of b ref in
      case flErr fl of
        Some err \<Rightarrow> Some (Inl err)
      | None \<Rightarrow> (case flRes fl of
          None \<Rightarrow> None
        | Some res \<Rightarrow>
            (if \<not> passesJoinerConstraints now (hProvider (brHandle res)) (brWarm res) pol req b then
               Some (Inl (mk_error 409 ReasonConstraintExcluded (''key '' @ quote (bqKey req) @ '' was claimed on provider '' @
                 quote (hProvider (brHandle res)) @ '', which does not satisfy this request's constraints'')
                 [hProvider (brHandle res)]))
             else Some (Inr (res\<lparr>brReplay := True\<rparr>)))))"

section \<open>Releasing by key\<close>

definition release_wait :: "string \<Rightarrow> binder_state \<Rightarrow> nat option" where
  "release_wait key b =
     (case go_get (b_flights b) key of
        None \<Rightarrow> None
      | Some ref \<Rightarrow> (if \<not> flCompleted (flight_of b ref) then Some ref else None))"

definition release_cached :: "string \<Rightarrow> binder_state \<Rightarrow> (string \<times> string) option" where
  "release_cached key b =
     (case go_get (b_flights b) key of
        None \<Rightarrow> None
      | Some ref \<Rightarrow> (if flCompleted (flight_of b ref) then
          (case flRes (flight_of b ref) of
             None \<Rightarrow> None
           | Some res \<Rightarrow> (if hProvider (brHandle res) \<noteq> [] \<and> hID (brHandle res) \<noteq> [] then
               Some (hProvider (brHandle res), hID (brHandle res)) else None))
          else None))"

definition release_forget :: "string \<Rightarrow> binder_state \<Rightarrow> binder_state" where
  "release_forget key b = b\<lparr>b_flights := go_delete key (b_flights b)\<rparr>"

section \<open>Goroutines on the cache\<close>

text \<open>
  What a goroutine does next: lead a flight, wait for one, or one of the stages of \<open>ReleaseByKey\<close>. A
  configuration also has the latest reading of the clock and, for the statements only, the history of the cache, newest
  first: the flights that began and succeeded, what was evicted on purpose, and the keys that a \<open>ReleaseByKey\<close> forgot.
\<close>

datatype fevent =
    Began string nat
  | Succeeded string nat string string gotime
  | Evicted string string
  | Forgot string

datatype fproc =
    Lead string nat duration
  | Join nat
  | RelWaiting string nat
  | RelReading string
  | RelCached string string string
  | RelLookup string

record fconf =
  fcB :: binder_state
  fcProcs :: "fproc multiset"
  fcNow :: gotime
  fcHist :: "fevent list"

definition record_success :: "gotime \<Rightarrow> duration \<Rightarrow> string \<Rightarrow> nat \<Rightarrow> bind_result option \<times> bind_error option \<Rightarrow> fevent list" where
  "record_success now ttl key ref out = (case out of
     (Some res, None) \<Rightarrow> [Succeeded key ref (hProvider (brHandle res)) (hID (brHandle res)) (completed_until now ttl res)]
   | _ \<Rightarrow> [])"

inductive fstep :: "fconf \<Rightarrow> fconf \<Rightarrow> bool" where
  lead: "fcNow s \<le> now \<Longrightarrow> flight_enter now key spec (fcB s) = (b, Inr ref) \<Longrightarrow>
    fstep s (s\<lparr>fcB := b, fcNow := now, fcProcs := add_mset (Lead key ref ttl) (fcProcs s), fcHist := Began key ref # fcHist s\<rparr>)"
| join: "fcNow s \<le> now \<Longrightarrow> flight_enter now key spec (fcB s) = (b, Inl ref) \<Longrightarrow> join_begin r key spec ref b = (b', None) \<Longrightarrow>
    fstep s (s\<lparr>fcB := b', fcNow := now, fcProcs := add_mset (Join ref) (fcProcs s)\<rparr>)"
| leave: "fcProcs s = add_mset (Join ref) P \<Longrightarrow> fstep s (s\<lparr>fcB := join_leave ref (fcB s), fcProcs := P\<rparr>)"
| finish: "fcProcs s = add_mset (Lead key ref ttl) P \<Longrightarrow> fcNow s \<le> now \<Longrightarrow> out \<noteq> (None, None) \<Longrightarrow>
    fstep s (s\<lparr>fcB := flight_finish now ttl key ref out (fcB s), fcProcs := P, fcNow := now,
      fcHist := record_success now ttl key ref out @ fcHist s\<rparr>)"
| evict: "fstep s (s\<lparr>fcB := evictCompletedFlight prov sid (fcB s), fcHist := Evicted prov sid # fcHist s\<rparr>)"
| rel_begin: "fstep s (s\<lparr>fcProcs := add_mset (case release_wait key (fcB s) of
      None \<Rightarrow> RelReading key | Some ref \<Rightarrow> RelWaiting key ref) (fcProcs s)\<rparr>)"
| rel_waited: "fcProcs s = add_mset (RelWaiting key ref) P \<Longrightarrow> flDone (flight_of (fcB s) ref) \<Longrightarrow>
    fstep s (s\<lparr>fcProcs := add_mset (RelReading key) P\<rparr>)"
| rel_read: "fcProcs s = add_mset (RelReading key) P \<Longrightarrow>
    fstep s (s\<lparr>fcProcs := add_mset (case release_cached key (fcB s) of
      None \<Rightarrow> RelLookup key | Some (p, i) \<Rightarrow> RelCached key p i) P\<rparr>)"

text \<open>The end of \<open>ReleaseByKey\<close>, after the calls to the provider succeeded.\<close>

inductive frelease :: "fconf \<Rightarrow> fconf \<Rightarrow> bool" where
  "fcProcs s = add_mset p P \<Longrightarrow> p = RelLookup key \<or> p = RelCached key prov sid \<Longrightarrow>
    frelease s (s\<lparr>fcB := release_forget key (fcB s), fcProcs := P, fcHist := Forgot key # fcHist s\<rparr>)"

definition leads :: "string \<Rightarrow> fproc \<Rightarrow> bool" where
  "leads key p \<longleftrightarrow> (case p of Lead k ref ttl \<Rightarrow> k = key | _ \<Rightarrow> False)"

definition fc_init :: "(string \<Rightarrow> string) \<Rightarrow> registry \<Rightarrow> binder_options \<Rightarrow> gotime \<Rightarrow> fconf" where
  "fc_init sha reg opts now = \<lparr>fcB = New_binder sha reg opts, fcProcs = {#}, fcNow = now, fcHist = []\<rparr>"

section \<open>What leaves the cache, and why\<close>

text \<open>
  \<open>forgets now hp ev fm fm'\<close>: the second map is the first without some completed flights, each of them expired
  at \<open>now\<close> or not expiring after \<open>ev\<close>.
\<close>

definition forgets :: "gotime \<Rightarrow> flight list \<Rightarrow> gotime \<Rightarrow> (string, nat) gomap \<Rightarrow> (string, nat) gomap \<Rightarrow> bool" where
  "forgets now hp ev fm fm' \<longleftrightarrow> (wf_map fm \<longrightarrow> wf_map fm') \<and>
     (\<forall>k. go_get fm' k = go_get fm k \<or> go_get fm' k = None \<and>
        (\<exists>ref. go_get fm k = Some ref \<and> flCompleted (hp ! ref) \<and>
           (flCompletedUntil (hp ! ref) \<le> now \<or> flCompletedUntil (hp ! ref) \<le> ev)))"

lemma forgets_refl: "forgets now hp ev fm fm"
  by (simp add: forgets_def)

lemma forgets_trans:
  assumes "forgets now hp ev fm fm'" and "forgets now hp ev' fm' fm''" and "ev \<le> ev'"
  shows "forgets now hp ev' fm fm''"
proof -
  have "go_get fm'' k = go_get fm k \<or> go_get fm'' k = None \<and> (\<exists>ref. go_get fm k = Some ref \<and> flCompleted (hp ! ref) \<and>
      (flCompletedUntil (hp ! ref) \<le> now \<or> flCompletedUntil (hp ! ref) \<le> ev'))" for k
  proof -
    have 1: "go_get fm' k = go_get fm k \<or> go_get fm' k = None \<and> (\<exists>ref. go_get fm k = Some ref \<and> flCompleted (hp ! ref) \<and>
        (flCompletedUntil (hp ! ref) \<le> now \<or> flCompletedUntil (hp ! ref) \<le> ev))"
      and 2: "go_get fm'' k = go_get fm' k \<or> go_get fm'' k = None \<and> (\<exists>ref. go_get fm' k = Some ref \<and> flCompleted (hp ! ref) \<and>
        (flCompletedUntil (hp ! ref) \<le> now \<or> flCompletedUntil (hp ! ref) \<le> ev'))"
      using assms(1,2) unfolding forgets_def by blast+
    from 1 show ?thesis
    proof (elim disjE conjE exE)
      assume "go_get fm' k = go_get fm k"
      with 2 show ?thesis by simp
    next
      fix ref
      assume "go_get fm' k = None" "go_get fm k = Some ref" "flCompleted (hp ! ref)" "flCompletedUntil (hp ! ref) \<le> now"
      with 2 show ?thesis by auto
    next
      fix ref
      assume "go_get fm' k = None" "go_get fm k = Some ref" "flCompleted (hp ! ref)" "flCompletedUntil (hp ! ref) \<le> ev"
      with 2 assms(3) show ?thesis by auto
    qed
  qed
  then show ?thesis using assms(1,2) unfolding forgets_def by blast
qed

lemma forgets_delete:
  assumes "go_get fm k = Some ref" and "flCompleted (hp ! ref)"
    and "flCompletedUntil (hp ! ref) \<le> now \<or> flCompletedUntil (hp ! ref) \<le> ev"
  shows "forgets now hp ev fm (go_delete k fm)"
  using assms by (auto simp: forgets_def go_maps)

lemma trim_front_forgets: "trim_front now hp order fm = (order', fm') \<Longrightarrow> forgets now hp ev fm fm'"
proof (induction now hp order fm rule: trim_front.induct)
  case (2 now hp front rest fm)
  show ?case
  proof (cases "go_get fm front")
    case None
    with 2 show ?thesis by simp
  next
    case (Some ref)
    show ?thesis
    proof (cases "flCompleted (hp ! ref) \<and> \<not> now < flCompletedUntil (hp ! ref)")
      case True
      then have "forgets now hp ev fm (go_delete front fm)" using Some by (intro forgets_delete) auto
      moreover have "forgets now hp ev (go_delete front fm) fm'" using 2 Some True by simp
      ultimately show ?thesis by (rule forgets_trans) simp
    next
      case False
      with 2 Some show ?thesis by (auto simp: forgets_refl split: if_splits)
    qed
  qed
qed (simp add: forgets_refl)

lemma evict_oldest_forgets:
  "evict_oldest cap now hp order fm ev = (order', fm', ev') \<Longrightarrow> ev \<le> ev' \<and> forgets now hp ev' fm fm'"
proof (induction cap now hp order fm ev rule: evict_oldest.induct)
  case (2 cap now hp oldest rest fm ev)
  show ?case
  proof (cases "int (length fm) > cap")
    case True
    show ?thesis
    proof (cases "go_get fm oldest")
      case None
      with 2 True show ?thesis by simp
    next
      case (Some ref)
      let ?u = "flCompletedUntil (hp ! ref)"
      let ?ev = "if now < ?u \<and> ?u > ev then ?u else ev"
      show ?thesis
      proof (cases "flCompleted (hp ! ref)")
        case c: True
        have "ev \<le> ?ev" by simp
        have IH: "?ev \<le> ev' \<and> forgets now hp ev' (go_delete oldest fm) fm'"
          using 2(3) 2(2) True Some c 2(4) by auto
        moreover have "forgets now hp ev' fm (go_delete oldest fm)"
          using Some c IH by (intro forgets_delete) (auto split: if_splits)
        ultimately show ?thesis using forgets_trans \<open>ev \<le> ?ev\<close> by (meson order_refl order_trans)
      next
        case False
        with 2 True Some show ?thesis by simp
      qed
    qed
  qed (use 2 in \<open>simp add: forgets_refl\<close>)
qed (simp add: forgets_refl)

lemma enforce_forgets:
  "b_evictedUnexpiredUntil b \<le> b_evictedUnexpiredUntil (enforceCompletedFlightCap now b) \<and>
   b_flight_heap (enforceCompletedFlightCap now b) = b_flight_heap b \<and>
   forgets now (b_flight_heap b) (b_evictedUnexpiredUntil (enforceCompletedFlightCap now b))
     (b_flights b) (b_flights (enforceCompletedFlightCap now b))"
proof -
  obtain order fm where t: "trim_front now (b_flight_heap b) (b_completedOrder b) (b_flights b) = (order, fm)" by fastforce
  obtain order' fm' ev where e: "evict_oldest (b_maxCompletedKeys b) now (b_flight_heap b) order fm (b_evictedUnexpiredUntil b) = (order', fm', ev)"
    by (metis prod_cases3)
  have "forgets now (b_flight_heap b) ev (b_flights b) fm'"
    using forgets_trans [OF trim_front_forgets [OF t, of ev]] evict_oldest_forgets [OF e] by simp
  with evict_oldest_forgets [OF e] show ?thesis by (simp add: enforceCompletedFlightCap_def t e)
qed

section \<open>The invariant of the cache\<close>

definition leading :: "string \<Rightarrow> fproc multiset \<Rightarrow> nat" where
  "leading key P = size (filter_mset (leads key) P)"

definition finv :: "(string, nat) gomap \<Rightarrow> flight list \<Rightarrow> fproc multiset \<Rightarrow> bool" where
  "finv fm hp P \<longleftrightarrow> wf_map fm \<and>
     (\<forall>k ref. go_get fm k = Some ref \<longrightarrow> ref < length hp) \<and>
     (\<forall>k k' ref. go_get fm k = Some ref \<longrightarrow> go_get fm k' = Some ref \<longrightarrow> k = k') \<and>
     (\<forall>k ref ttl. Lead k ref ttl \<in># P \<longrightarrow> go_get fm k = Some ref \<and> \<not> flCompleted (hp ! ref)) \<and>
     (\<forall>k. leading k P \<le> 1) \<and>
     (\<forall>k ref. go_get fm k = Some ref \<longrightarrow> flCompleted (hp ! ref) \<or> leading k P = 1)"

lemma finvD:
  assumes "finv fm hp P"
  shows "wf_map fm" and "\<And>k ref. go_get fm k = Some ref \<Longrightarrow> ref < length hp"
    and "\<And>k k' ref. go_get fm k = Some ref \<Longrightarrow> go_get fm k' = Some ref \<Longrightarrow> k = k'"
    and "\<And>k ref ttl. Lead k ref ttl \<in># P \<Longrightarrow> go_get fm k = Some ref"
    and "\<And>k ref ttl. Lead k ref ttl \<in># P \<Longrightarrow> \<not> flCompleted (hp ! ref)"
    and "\<And>k. leading k P \<le> 1"
    and "\<And>k ref. go_get fm k = Some ref \<Longrightarrow> \<not> flCompleted (hp ! ref) \<Longrightarrow> leading k P = 1"
  using assms unfolding finv_def by blast+

lemma leading_simps [simp]:
  "leading k (add_mset (Lead k' ref ttl) P) = (if k' = k then Suc (leading k P) else leading k P)"
  "leading k (add_mset (Join ref) P) = leading k P"
  "leading k (add_mset (RelWaiting key ref) P) = leading k P"
  "leading k (add_mset (RelReading key) P) = leading k P"
  "leading k (add_mset (RelCached key prov sid) P) = leading k P"
  "leading k (add_mset (RelLookup key) P) = leading k P"
  by (simp_all add: leading_def leads_def)

lemma leading_0: "leading k P = 0 \<Longrightarrow> Lead k ref ttl \<notin># P"
  by (auto simp: leading_def leads_def filter_mset_eq_conv)

lemma leading_pos: "0 < leading k P \<Longrightarrow> \<exists>ref ttl. Lead k ref ttl \<in># P"
proof -
  assume "0 < leading k P"
  then have "filter_mset (leads k) P \<noteq> {#}" unfolding leading_def by (intro notI) simp
  then obtain p where "p \<in># filter_mset (leads k) P" by (rule multiset_nonemptyE)
  then have "p \<in># P" "leads k p" by simp_all
  then show ?thesis by (cases p) (auto simp: leads_def)
qed

lemma finv_forget:
  assumes "finv fm hp P" and "forgets now' hp ev' fm fm'"
  shows "finv fm' hp P"
proof -
  note I = finvD [OF assms(1)]
  have cases: "go_get fm' k = go_get fm k \<or> go_get fm' k = None \<and> (\<exists>ref. go_get fm k = Some ref \<and> flCompleted (hp ! ref) \<and>
      (flCompletedUntil (hp ! ref) \<le> now' \<or> flCompletedUntil (hp ! ref) \<le> ev'))" for k
    using assms(2) unfolding forgets_def by blast
  have sub: "go_get fm k = Some ref" if "go_get fm' k = Some ref" for k ref using cases [of k] that by auto
  have lead: "go_get fm' k = Some ref" if "Lead k ref ttl \<in># P" for k ref ttl
    using cases [of k] I(4,5) [OF that] by auto
  have "wf_map fm'" using assms(2) I(1) by (simp add: forgets_def)
  then show ?thesis unfolding finv_def
  proof (intro conjI allI impI)
    fix k ref assume "go_get fm' k = Some ref"
    from sub [OF this] show "ref < length hp" "flCompleted (hp ! ref) \<or> leading k P = 1"
      using I(2,7) [of k ref] by auto
  next
    fix k k' ref assume "go_get fm' k = Some ref" "go_get fm' k' = Some ref"
    then show "k = k'" using I(3) sub by blast
  qed (use lead I(5,6) in auto)
qed

lemma finv_lead:
  assumes "finv fm hp P" and "go_get fm key = None"
  shows "finv (go_put key (length hp) fm) (hp @ [new_flight spec]) (add_mset (Lead key (length hp) ttl) P)"
proof -
  note I = finvD [OF assms(1)]
  have no: "Lead key ref t \<notin># P" for ref t using I(4) assms(2) by fastforce
  then have l: "leading key P = 0" using leading_pos [of key P] by auto
  have old: "(hp @ [new_flight spec]) ! ref = hp ! ref" if "go_get fm k = Some ref" for k ref
    using I(2) [OF that] by (simp add: nth_append)
  show ?thesis unfolding finv_def
  proof (intro conjI allI impI)
    show "wf_map (go_put key (length hp) fm)" using I(1) by (rule wf_map_put)
  next
    fix k ref assume "go_get (go_put key (length hp) fm) k = Some ref"
    then show "ref < length (hp @ [new_flight spec])"
      using I(2) [of k ref] by (auto simp: go_get_put split: if_splits)
  next
    fix k k' ref assume "go_get (go_put key (length hp) fm) k = Some ref" "go_get (go_put key (length hp) fm) k' = Some ref"
    then show "k = k'" using I(2) I(3) [of k ref k'] by (auto simp: go_get_put split: if_splits)
  next
    fix k ref t assume m: "Lead k ref t \<in># add_mset (Lead key (length hp) ttl) P"
    then show "go_get (go_put key (length hp) fm) k = Some ref" using I(4) no by (auto simp: go_get_put)
    show "\<not> flCompleted ((hp @ [new_flight spec]) ! ref)"
    proof (cases "Lead k ref t \<in># P")
      case True
      then show ?thesis using I(5) [OF True] old [OF I(4) [OF True]] by simp
    next
      case False
      with m have "ref = length hp" by simp
      then show ?thesis by (simp add: new_flight_def)
    qed
  next
    fix k show "leading k (add_mset (Lead key (length hp) ttl) P) \<le> 1" using I(6) [of k] l by auto
  next
    fix k ref assume g: "go_get (go_put key (length hp) fm) k = Some ref"
    show "flCompleted ((hp @ [new_flight spec]) ! ref) \<or> leading k (add_mset (Lead key (length hp) ttl) P) = 1"
      using g I(7) [of k ref] old [of k ref] l by (auto simp: go_get_put split: if_splits)
  qed
qed

lemma finv_fail:
  assumes "finv fm hp (add_mset (Lead key ref ttl) P)"
  shows "finv (go_delete key fm) hp P"
proof -
  note I = finvD [OF assms]
  have l: "leading key P = 0" using I(6) [of key] by simp
  have m0: "Lead key ref ttl \<in># add_mset (Lead key ref ttl) P" by simp
  note k = I(4) [OF m0] I(5) [OF m0]
  show ?thesis unfolding finv_def
  proof (intro conjI allI impI)
    show "wf_map (go_delete key fm)" using I(1) by (rule wf_map_delete)
  next
    fix k' r t assume m: "Lead k' r t \<in># P"
    then show "go_get (go_delete key fm) k' = Some r" using I(4) [of k' r t] leading_0 [OF l] by (auto simp: go_get_delete)
    show "\<not> flCompleted (hp ! r)" using I(5) [of k' r t] m by simp
  next
    fix k' show "leading k' P \<le> 1" using I(6) [of k'] by (simp split: if_splits)
  next
    fix k' r assume "go_get (go_delete key fm) k' = Some r"
    then show "flCompleted (hp ! r) \<or> leading k' P = 1" using I(7) [of k' r] by (auto simp: go_get_delete split: if_splits)
  qed (use I(2,3) in \<open>auto simp: go_get_delete split: if_splits\<close>)
qed

lemma finv_complete:
  assumes "finv fm hp (add_mset (Lead key ref ttl) P)" and "flCompleted fl"
  shows "finv fm (hp[ref := fl]) P"
proof -
  note I = finvD [OF assms(1)]
  have l: "leading key P = 0" using I(6) [of key] by simp
  have m0: "Lead key ref ttl \<in># add_mset (Lead key ref ttl) P" by simp
  note k = I(4) [OF m0] I(5) [OF m0] I(2) [OF I(4) [OF m0]]
  have other: "hp[ref := fl] ! r = hp ! r" if "go_get fm k' = Some r" "k' \<noteq> key" for k' r
    using I(3) [OF k(1), of k'] that by (metis nth_list_update_neq)
  show ?thesis unfolding finv_def
  proof (intro conjI allI impI)
    fix k' r t assume m: "Lead k' r t \<in># P"
    then have ne: "k' \<noteq> key" using leading_0 [OF l] by auto
    from m show g: "go_get fm k' = Some r" using I(4) [of k' r t] by simp
    show "\<not> flCompleted (hp[ref := fl] ! r)" using I(5) [of k' r t] m other [OF g ne] by simp
  next
    fix k' show "leading k' P \<le> 1" using I(6) [of k'] by (simp split: if_splits)
  next
    fix k' r assume g: "go_get fm k' = Some r"
    show "flCompleted (hp[ref := fl] ! r) \<or> leading k' P = 1"
      using I(7) [OF g] other [OF g] k g assms(2) by (cases "k' = key") auto
  qed (use I(1,2,3) in auto)
qed

lemma finv_heap:
  assumes "finv fm hp P" and "flCompleted fl = flCompleted (hp ! ref)"
  shows "finv fm (hp[ref := fl]) P"
proof -
  have "flCompleted (hp[ref := fl] ! r) = flCompleted (hp ! r)" for r
    using assms(2) by (cases "r = ref"; cases "ref < length hp") (simp_all add: list_update_beyond)
  then show ?thesis using assms(1) by (simp add: finv_def)
qed

lemma finv_procs:
  assumes "finv fm hp P" and "filter_mset (\<lambda>p. \<exists>k. leads k p) P' = filter_mset (\<lambda>p. \<exists>k. leads k p) P"
  shows "finv fm hp P'"
proof -
  have f: "filter_mset (leads k) P = filter_mset (leads k) (filter_mset (\<lambda>p. \<exists>k. leads k p) P)" for k P
    by (simp add: filter_filter_mset) (metis (mono_tags, lifting) filter_mset_cong)
  have "leading k P' = leading k P" for k unfolding leading_def f [of k P] f [of k P'] assms(2) ..
  moreover have "Lead k ref ttl \<in># P' \<longleftrightarrow> Lead k ref ttl \<in># P" for k ref ttl
  proof -
    have "Lead k ref ttl \<in># P \<longleftrightarrow> Lead k ref ttl \<in># filter_mset (\<lambda>p. \<exists>k. leads k p) P" for P by (auto simp: leads_def)
    then show ?thesis using assms(2) by metis
  qed
  ultimately show ?thesis using assms(1) by (simp add: finv_def)
qed

lemma go_get_filter: "wf_map m \<Longrightarrow> go_get (filter Q m) k = (case go_get m k of None \<Rightarrow> None | Some v \<Rightarrow> if Q (k, v) then Some v else None)"
proof (induction m)
  case (Cons kv m)
  obtain k' v' where kv: "kv = (k', v')" by (cases kv)
  have "wf_map m" and "k' \<notin> fst ` set m" using Cons.prems kv by (auto simp: wf_map_def)
  moreover from this(2) have "go_get (filter Q m) k' = None" by (auto simp: map_of_eq_None_iff)
  ultimately show ?case using Cons.IH by (auto simp: kv map_of_eq_None_iff split: option.splits)
qed simp

lemma wf_map_filter: "wf_map m \<Longrightarrow> wf_map (filter Q m)"
  by (simp add: wf_map_def distinct_map_filter)

lemma forgets_filter:
  assumes "wf_map fm"
    and "\<And>k ref. go_get fm k = Some ref \<Longrightarrow> \<not> Q (k, ref) \<Longrightarrow> flCompleted (hp ! ref) \<and> flCompletedUntil (hp ! ref) \<le> now"
  shows "forgets now hp ev fm (filter Q fm)"
  unfolding forgets_def
proof (intro conjI allI impI)
  fix k
  show "go_get (filter Q fm) k = go_get fm k \<or> go_get (filter Q fm) k = None \<and> (\<exists>ref. go_get fm k = Some ref \<and>
      flCompleted (hp ! ref) \<and> (flCompletedUntil (hp ! ref) \<le> now \<or> flCompletedUntil (hp ! ref) \<le> ev))"
    using assms(2) [of k] by (cases "go_get fm k") (auto simp: go_get_filter [OF assms(1)])
qed (rule wf_map_filter)

abbreviation fc_inv :: "fconf \<Rightarrow> bool" where
  "fc_inv s \<equiv> finv (b_flights (fcB s)) (b_flight_heap (fcB s)) (fcProcs s)"

text \<open>A request that leads a new flight: expired flights may be forgotten, and the new one is put in.\<close>

lemma lead_flight_shape:
  assumes "lead_flight now key spec b = (b', ref)" and "wf_map (b_flights b)" and "go_get (b_flights b) key = None"
  shows "\<exists>fm. forgets now (b_flight_heap b) (b_evictedUnexpiredUntil b) (b_flights b) fm \<and> go_get fm key = None \<and>
    b_flights b' = go_put key ref fm \<and> b_flight_heap b' = b_flight_heap b @ [new_flight spec] \<and>
    b_evictedUnexpiredUntil b' = b_evictedUnexpiredUntil b \<and> ref = length (b_flight_heap b)"
proof -
  let ?fm = "if length (b_flights b) \<ge> 64 then filter (\<lambda>(k, ref). \<not> flight_expired now b ref) (b_flights b) else b_flights b"
  have f: "forgets now (b_flight_heap b) (b_evictedUnexpiredUntil b) (b_flights b) ?fm"
    by (auto simp: flight_expired_def flight_of_def intro!: forgets_filter assms(2) forgets_refl)
  moreover from f have "go_get ?fm key = None" using assms(3) unfolding forgets_def by metis
  ultimately show ?thesis using assms(1) by (intro exI [of _ ?fm]) (auto simp: lead_flight_def Let_def)
qed

lemma flight_enter_shape:
  assumes "flight_enter now key spec b = (b', Inr ref)" and "wf_map (b_flights b)"
  shows "\<exists>fm. forgets now (b_flight_heap b) (b_evictedUnexpiredUntil b) (b_flights b) fm \<and> go_get fm key = None \<and>
    b_flights b' = go_put key ref fm \<and> b_flight_heap b' = b_flight_heap b @ [new_flight spec] \<and>
    b_evictedUnexpiredUntil b' = b_evictedUnexpiredUntil b \<and> ref = length (b_flight_heap b)"
proof (cases "go_get (b_flights b) key")
  case None
  with assms(1) have "lead_flight now key spec b = (b', ref)" by (auto simp: flight_enter_def split: prod.splits)
  from lead_flight_shape [OF this assms(2) None] show ?thesis .
next
  case (Some r)
  let ?b = "b\<lparr>b_flights := go_delete key (b_flights b)\<rparr>"
  from Some assms(1) have e: "flight_expired now b r" and l: "lead_flight now key spec ?b = (b', ref)"
    by (auto simp: flight_enter_def split: if_splits prod.splits)
  have f: "forgets now (b_flight_heap b) (b_evictedUnexpiredUntil b) (b_flights b) (go_delete key (b_flights b))"
    using Some e by (intro forgets_delete) (auto simp: flight_expired_def flight_of_def)
  have "wf_map (b_flights ?b)" "go_get (b_flights ?b) key = None" using assms(2) by (simp_all add: go_maps)
  from lead_flight_shape [OF l this] forgets_trans [OF f _ order_refl] show ?thesis by auto
qed

lemma flight_enter_lead_finv:
  assumes "finv (b_flights b) (b_flight_heap b) P" and "flight_enter now key spec b = (b', Inr ref)"
  shows "finv (b_flights b') (b_flight_heap b') (add_mset (Lead key ref ttl) P)"
proof -
  obtain fm where fm: "forgets now (b_flight_heap b) (b_evictedUnexpiredUntil b) (b_flights b) fm" "go_get fm key = None"
    "b_flights b' = go_put key ref fm" "b_flight_heap b' = b_flight_heap b @ [new_flight spec]" "ref = length (b_flight_heap b)"
    using flight_enter_shape [OF assms(2) finvD(1) [OF assms(1)]] by blast
  from finv_lead [OF finv_forget [OF assms(1) fm(1)] fm(2)] show ?thesis by (simp add: fm)
qed

lemma flight_enter_join:
  "flight_enter now key spec b = (b', Inl ref) \<Longrightarrow> b' = b \<and> go_get (b_flights b) key = Some ref \<and> \<not> flight_expired now b ref"
  by (auto simp: flight_enter_def split: option.splits if_splits prod.splits)

lemma update_flight_sel [simp]:
  "b_flights (update_flight ref f b) = b_flights b" "b_evictedUnexpiredUntil (update_flight ref f b) = b_evictedUnexpiredUntil b"
  "b_completedOrder (update_flight ref f b) = b_completedOrder b" "b_maxCompletedKeys (update_flight ref f b) = b_maxCompletedKeys b"
  "b_flight_heap (update_flight ref f b) = (b_flight_heap b)[ref := f (b_flight_heap b ! ref)]"
  by (simp_all add: update_flight_def)

lemma finish_finv:
  assumes "finv (b_flights b) (b_flight_heap b) (add_mset (Lead key ref ttl) P)"
  shows "finv (b_flights (flight_finish now' ttl key ref out b)) (b_flight_heap (flight_finish now' ttl key ref out b)) P"
proof -
  let ?b1 = "update_flight ref (\<lambda>fl. fl\<lparr>flRes := fst out, flErr := snd out\<rparr>) b"
  have get: "go_get (b_flights b) key = Some ref" by (rule finvD(4) [OF assms(1), of key ref ttl]) simp
  then have len: "ref < length (b_flight_heap b)" by (rule finvD(2) [OF assms(1)])
  have b1: "finv (b_flights ?b1) (b_flight_heap ?b1) (add_mset (Lead key ref ttl) P)"
    using finv_heap [OF assms, of "(b_flight_heap b ! ref)\<lparr>flRes := fst out, flErr := snd out\<rparr>" ref] by simp
  have done_heap: "finv fm (hp[ref := (hp ! ref)\<lparr>flDone := True\<rparr>]) P" if "finv fm hp P" for fm hp
    by (rule finv_heap [OF that]) simp
  show ?thesis
  proof (cases "\<exists>res. out = (Some res, None)")
    case True
    then obtain res where out: "out = (Some res, None)" by blast
    let ?f = "\<lambda>fl. fl\<lparr>flRes := Some (res\<lparr>brExplanation := []\<rparr>), flCompleted := True,
      flCompletedUntil := completed_until now' ttl res\<rparr>"
    let ?b2 = "(update_flight ref ?f ?b1)\<lparr>b_completedOrder := b_completedOrder ?b1 @ [key]\<rparr>"
    let ?b3 = "enforceCompletedFlightCap now' ?b2"
    have "finv (b_flights ?b2) (b_flight_heap ?b2) P"
      using finv_complete [OF b1, of "?f (b_flight_heap ?b1 ! ref)"] by simp
    then have "finv (b_flights ?b3) (b_flight_heap ?b3) P"
      using enforce_forgets [of ?b2 now'] by (auto intro: finv_forget)
    from done_heap [OF this] show ?thesis
      unfolding flight_finish_def out Let_def by simp
  next
    case False
    then have c: "(case out of (Some res, None) \<Rightarrow> X res | _ \<Rightarrow> Y) = Y" for X Y
      by (auto split: prod.splits option.splits)
    have "finv (go_delete key (b_flights ?b1)) (b_flight_heap ?b1) P"
      using b1 by (rule finv_fail)
    from done_heap [OF this] get show ?thesis
      unfolding flight_finish_def c Let_def by simp
  qed
qed

lemma evict_finv:
  assumes "finv (b_flights b) (b_flight_heap b) P"
  shows "finv (b_flights (evictCompletedFlight prov sid b)) (b_flight_heap b) P"
proof -
  note I = finvD [OF assms]
  let ?fm = "b_flights (evictCompletedFlight prov sid b)"
  have sub: "go_get (b_flights b) k = Some r" if "go_get ?fm k = Some r" for k r
    using that by (auto simp: evictCompletedFlight_def go_get_filter [OF I(1)] split: option.splits if_splits)
  have keep: "go_get ?fm k = Some r" if "go_get (b_flights b) k = Some r" "\<not> flCompleted (b_flight_heap b ! r)" for k r
    using that by (simp add: evictCompletedFlight_def go_get_filter [OF I(1)] flight_of_def)
  show ?thesis unfolding finv_def
  proof (intro conjI allI impI)
    show "wf_map ?fm" using I(1) by (simp add: evictCompletedFlight_def wf_map_filter)
  next
    fix k r assume "go_get ?fm k = Some r"
    from sub [OF this] show "r < length (b_flight_heap b)" "flCompleted (b_flight_heap b ! r) \<or> leading k P = 1"
      using I(2,7) [of k r] by auto
  next
    fix k k' r assume "go_get ?fm k = Some r" "go_get ?fm k' = Some r"
    then show "k = k'" using I(3) sub by blast
  next
    fix k r t assume "Lead k r t \<in># P"
    from I(4,5) [OF this] show "go_get ?fm k = Some r" "\<not> flCompleted (b_flight_heap b ! r)" using keep by auto
  qed (use I(6) in simp)
qed

lemma fc_inv_step: "fstep s s' \<Longrightarrow> fc_inv s \<Longrightarrow> fc_inv s'"
proof (induction rule: fstep.induct)
  case (lead s now key spec b ref ttl)
  then show ?case by (simp add: flight_enter_lead_finv)
next
  case (join s now key spec b ref r b')
  from flight_enter_join [OF join(2)] have "b = fcB s" by simp
  with join(3) have "b' = update_flight ref (\<lambda>fl. fl\<lparr>flJoiners := flJoiners fl + 1\<rparr>) (fcB s)"
    by (auto simp: join_begin_def Let_def split: if_splits)
  moreover have "finv fm hp (add_mset (Join ref) P) = finv fm hp P" for fm hp P by (simp add: finv_def)
  ultimately show ?case using join(1,4) by (auto intro!: finv_heap)
next
  case (leave s ref P)
  then show ?case by (auto simp: join_leave_def intro!: finv_heap) (simp add: finv_def)
next
  case (finish s key ref ttl P now out)
  then show ?case by (simp add: finish_finv)
next
  case (evict s prov sid)
  then show ?case using evict_finv by (simp add: evictCompletedFlight_def)
qed (auto simp: finv_def split: option.splits)

lemma fc_inv_init: "fc_inv (fc_init sha reg opts now)"
  by (simp add: fc_init_def New_binder_def finv_def wf_map_def leading_def)

lemma fc_inv_steps: "fstep\<^sup>*\<^sup>* s s' \<Longrightarrow> fc_inv s \<Longrightarrow> fc_inv s'"
  by (induction rule: rtranclp_induct) (auto intro: fc_inv_step)

section \<open>The cache is bounded\<close>

definition completed_count :: "flight list \<Rightarrow> (string, nat) gomap \<Rightarrow> nat" where
  "completed_count hp fm = length (filter (\<lambda>(k, ref). flCompleted (hp ! ref)) fm)"

definition ordered :: "flight list \<Rightarrow> string list \<Rightarrow> (string, nat) gomap \<Rightarrow> bool" where
  "ordered hp order fm \<longleftrightarrow> (\<forall>k ref. (k, ref) \<in> set fm \<longrightarrow> flCompleted (hp ! ref) \<longrightarrow> k \<in> set order)"

lemma ordered_filter: "ordered hp order fm \<Longrightarrow> ordered hp order (filter Q fm)"
  by (auto simp: ordered_def)

lemma ordered_skip: "go_get fm k = None \<Longrightarrow> ordered hp (k # order) fm \<Longrightarrow> ordered hp order fm"
  unfolding ordered_def map_of_eq_None_iff by force

lemma ordered_delete: "ordered hp order fm \<Longrightarrow> ordered hp order (go_delete k fm)"
  by (simp add: go_delete_filter ordered_filter)

lemma count_filter: "completed_count hp (filter Q fm) \<le> completed_count hp fm"
  by (induction fm) (auto simp: completed_count_def)

lemma count_delete: "completed_count hp (go_delete k fm) \<le> completed_count hp fm"
  by (simp add: go_delete_filter count_filter)

lemma count_le_length: "completed_count hp fm \<le> length fm"
  by (simp add: completed_count_def)

lemma trim_front_ordered:
  "trim_front now hp order fm = (order', fm') \<Longrightarrow> wf_map fm \<Longrightarrow> ordered hp order fm \<Longrightarrow>
    ordered hp order' fm' \<and> completed_count hp fm' \<le> completed_count hp fm \<and> wf_map fm'"
proof (induction now hp order fm rule: trim_front.induct)
  case (2 now hp front rest fm)
  note eq = "2.prems"(1) and wf = "2.prems"(2) and o = "2.prems"(3) and IH = "2.IH"
  show ?case
  proof (cases "go_get fm front")
    case None
    have "ordered hp rest fm" by (rule ordered_skip [OF None o])
    with None eq wf IH(1) show ?thesis by simp
  next
    case (Some ref)
    show ?thesis
    proof (cases "flCompleted (hp ! ref)")
      case False
      have "ordered hp rest fm" using o wf_map_get [OF wf] Some False by (fastforce simp: ordered_def)
      with False eq wf IH(2) Some show ?thesis by simp
    next
      case c: True
      show ?thesis
      proof (cases "now < flCompletedUntil (hp ! ref)")
        case True
        with c eq wf o Some show ?thesis by simp
      next
        case False
        have "ordered hp rest (go_delete front fm)" using o by (auto simp: ordered_def go_delete_filter)
        with c False eq IH(3) Some wf_map_delete [OF wf] show ?thesis
          using count_delete [of hp front fm] by auto
      qed
    qed
  qed
qed simp

lemma evict_oldest_ordered:
  "evict_oldest cap now hp order fm ev = (order', fm', ev') \<Longrightarrow> wf_map fm \<Longrightarrow> ordered hp order fm \<Longrightarrow>
    ordered hp order' fm' \<and> (int (length fm') \<le> cap \<or> order' = [])"
proof (induction cap now hp order fm ev rule: evict_oldest.induct)
  case (2 cap now hp oldest rest fm ev)
  show ?case
  proof (cases "int (length fm) > cap")
    case True
    show ?thesis
    proof (cases "go_get fm oldest")
      case None
      then have "ordered hp rest fm" by (rule ordered_skip) (rule "2.prems"(3))
      with 2 True None show ?thesis by simp
    next
      case (Some ref)
      have u: "r = ref" if "(oldest, r) \<in> set fm" for r using wf_map_get [OF "2.prems"(2) that] Some by simp
      show ?thesis
      proof (cases "flCompleted (hp ! ref)")
        case c: True
        have "ordered hp rest (go_delete oldest fm)" using "2.prems"(3) by (auto simp: ordered_def go_delete_filter)
        with c "2.IH"(2,3) "2.prems"(1) True Some wf_map_delete [OF "2.prems"(2)] show ?thesis by auto
      next
        case False
        then have "ordered hp rest fm" using "2.prems"(3) u by (auto simp: ordered_def)
        with 2 True Some False show ?thesis by simp
      qed
    qed
  qed (use 2 in simp)
qed simp

lemma enforce_bounded:
  assumes "wf_map (b_flights b)" and "ordered (b_flight_heap b) (b_completedOrder b) (b_flights b)"
    and "0 \<le> b_maxCompletedKeys b" and "b' = enforceCompletedFlightCap now b"
  shows "ordered (b_flight_heap b') (b_completedOrder b') (b_flights b') \<and>
    int (completed_count (b_flight_heap b') (b_flights b')) \<le> b_maxCompletedKeys b'"
proof -
  obtain order fm where t: "trim_front now (b_flight_heap b) (b_completedOrder b) (b_flights b) = (order, fm)" by fastforce
  obtain order' fm' ev where e: "evict_oldest (b_maxCompletedKeys b) now (b_flight_heap b) order fm (b_evictedUnexpiredUntil b) = (order', fm', ev)"
    by (metis prod_cases3)
  from trim_front_ordered [OF t assms(1,2)] have o: "ordered (b_flight_heap b) order fm" "wf_map fm" by simp_all
  have r: "ordered (b_flight_heap b) order' fm' \<and> (int (length fm') \<le> b_maxCompletedKeys b \<or> order' = [])"
    using evict_oldest_ordered [OF e o(2,1)] .
  have "int (completed_count (b_flight_heap b) fm') \<le> b_maxCompletedKeys b"
  proof (cases "order' = []")
    case True
    then have "completed_count (b_flight_heap b) fm' = 0"
      using r by (auto simp: ordered_def completed_count_def filter_empty_conv)
    then show ?thesis using assms(3) by simp
  next
    case False
    then show ?thesis using r count_le_length [of "b_flight_heap b" fm'] by simp
  qed
  with r show ?thesis by (simp add: assms(4) enforceCompletedFlightCap_def t e)
qed

definition cap_inv :: "binder_state \<Rightarrow> bool" where
  "cap_inv b \<longleftrightarrow> ordered (b_flight_heap b) (b_completedOrder b) (b_flights b) \<and> 0 \<le> b_maxCompletedKeys b \<and>
     int (completed_count (b_flight_heap b) (b_flights b)) \<le> b_maxCompletedKeys b"

lemma enforce_sel [simp]:
  "b_maxCompletedKeys (enforceCompletedFlightCap now b) = b_maxCompletedKeys b"
  by (simp add: enforceCompletedFlightCap_def split: prod.splits)

lemma cap_filter: "cap_inv b \<Longrightarrow> cap_inv (b\<lparr>b_flights := filter Q (b_flights b)\<rparr>)"
  using count_filter [of "b_flight_heap b" Q "b_flights b"] by (auto simp: cap_inv_def ordered_filter)

lemma cap_heap:
  assumes "cap_inv b" and "flCompleted (f (b_flight_heap b ! ref)) = flCompleted (b_flight_heap b ! ref)"
  shows "cap_inv (update_flight ref f b)"
proof -
  have "flCompleted ((b_flight_heap b)[ref := f (b_flight_heap b ! ref)] ! r) = flCompleted (b_flight_heap b ! r)" for r
    using assms(2) by (cases "r = ref"; cases "ref < length (b_flight_heap b)") (simp_all add: list_update_beyond)
  then show ?thesis using assms(1) by (simp add: cap_inv_def ordered_def completed_count_def)
qed

lemma cap_put:
  assumes "cap_inv b" and "go_get (b_flights b) key = None" and refs: "\<And>k r. (k, r) \<in> set (b_flights b) \<Longrightarrow> r < length (b_flight_heap b)"
  shows "cap_inv (b\<lparr>b_flight_heap := b_flight_heap b @ [new_flight spec], b_flights := go_put key (length (b_flight_heap b)) (b_flights b)\<rparr>)"
proof -
  have same: "flCompleted ((b_flight_heap b @ [new_flight spec]) ! r) = flCompleted (b_flight_heap b ! r)"
    if "(k, r) \<in> set (b_flights b)" for k r using refs [OF that] by (simp add: nth_append)
  have new: "\<not> flCompleted ((b_flight_heap b @ [new_flight spec]) ! length (b_flight_heap b))" by (simp add: new_flight_def)
  have "filter (\<lambda>(k, ref). flCompleted ((b_flight_heap b @ [new_flight spec]) ! ref)) (b_flights b)
      = filter (\<lambda>(k, ref). flCompleted (b_flight_heap b ! ref)) (b_flights b)"
    by (rule filter_cong) (use same in auto)
  then have "completed_count (b_flight_heap b @ [new_flight spec]) (b_flights b @ [(key, length (b_flight_heap b))])
      = completed_count (b_flight_heap b) (b_flights b)"
    using new by (simp only: completed_count_def filter_append) simp
  moreover have "ordered (b_flight_heap b @ [new_flight spec]) (b_completedOrder b) (b_flights b @ [(key, length (b_flight_heap b))])"
    using assms(1) new same unfolding cap_inv_def ordered_def by auto
  ultimately show ?thesis using assms(1) by (simp add: cap_inv_def go_put_new [OF assms(2)])
qed

lemma cap_lead:
  assumes "cap_inv b" and "go_get (b_flights b) key = None" and "\<And>k r. (k, r) \<in> set (b_flights b) \<Longrightarrow> r < length (b_flight_heap b)"
  shows "cap_inv (fst (lead_flight now key spec b))"
proof (cases "length (b_flights b) \<ge> 64")
  case True
  let ?b = "b\<lparr>b_flights := filter (\<lambda>(k, ref). \<not> flight_expired now b ref) (b_flights b)\<rparr>"
  have "go_get (b_flights ?b) key = None" using assms(2) by (auto simp: map_of_eq_None_iff)
  then have "cap_inv (?b\<lparr>b_flight_heap := b_flight_heap ?b @ [new_flight spec],
      b_flights := go_put key (length (b_flight_heap ?b)) (b_flights ?b)\<rparr>)"
    by (rule cap_put [OF cap_filter [OF assms(1)]]) (use assms(3) in auto)
  with True show ?thesis by (simp add: lead_flight_def Let_def)
next
  case False
  have "cap_inv (b\<lparr>b_flight_heap := b_flight_heap b @ [new_flight spec],
      b_flights := go_put key (length (b_flight_heap b)) (b_flights b)\<rparr>)"
    by (rule cap_put [OF assms(1,2)]) (rule assms(3))
  with False show ?thesis by (simp add: lead_flight_def Let_def)
qed

lemma finish_cap:
  assumes "cap_inv b" and "wf_map (b_flights b)" and "go_get (b_flights b) key = Some ref"
    and "\<And>k r. go_get (b_flights b) k = Some r \<Longrightarrow> r = ref \<Longrightarrow> k = key"
  shows "cap_inv (flight_finish now ttl key ref out b)"
proof -
  let ?b1 = "update_flight ref (\<lambda>fl. fl\<lparr>flRes := fst out, flErr := snd out\<rparr>) b"
  have b1: "cap_inv ?b1" using assms(1) by (rule cap_heap) simp
  show ?thesis
  proof (cases "\<exists>res. out = (Some res, None)")
    case True
    then obtain res where out: "out = (Some res, None)" by blast
    let ?f = "\<lambda>fl. fl\<lparr>flRes := Some (res\<lparr>brExplanation := []\<rparr>), flCompleted := True,
      flCompletedUntil := completed_until now ttl res\<rparr>"
    let ?b2 = "(update_flight ref ?f ?b1)\<lparr>b_completedOrder := b_completedOrder ?b1 @ [key]\<rparr>"
    let ?b3 = "enforceCompletedFlightCap now ?b2"
    have "k \<in> set (b_completedOrder b @ [key])" if m: "(k, r) \<in> set (b_flights b)" and c: "flCompleted (b_flight_heap ?b2 ! r)" for k r
    proof (cases "r = ref")
      case True
      then show ?thesis using assms(4) wf_map_get [OF assms(2) m] by simp
    next
      case False
      with c have "flCompleted (b_flight_heap ?b1 ! r)" by simp
      with m b1 show ?thesis by (auto simp: cap_inv_def ordered_def)
    qed
    then have "ordered (b_flight_heap ?b2) (b_completedOrder ?b2) (b_flights ?b2)" by (auto simp: ordered_def)
    from enforce_bounded [OF _ this _ refl, of now] assms(1,2) have "cap_inv ?b3"
      by (simp add: cap_inv_def)
    then have "cap_inv (update_flight ref (\<lambda>fl. fl\<lparr>flDone := True\<rparr>) ?b3)" by (rule cap_heap) simp
    then show ?thesis unfolding flight_finish_def out Let_def by simp
  next
    case False
    then have c: "(case out of (Some res, None) \<Rightarrow> X res | _ \<Rightarrow> Y) = Y" for X Y
      by (auto split: prod.splits option.splits)
    have "cap_inv (?b1\<lparr>b_flights := go_delete key (b_flights ?b1)\<rparr>)" unfolding go_delete_filter by (rule cap_filter [OF b1])
    then have "cap_inv (update_flight ref (\<lambda>fl. fl\<lparr>flDone := True\<rparr>) (?b1\<lparr>b_flights := go_delete key (b_flights ?b1)\<rparr>))"
      by (rule cap_heap) simp
    then show ?thesis using assms(3) unfolding flight_finish_def c Let_def by simp
  qed
qed

lemma cap_step: "fstep s s' \<Longrightarrow> fc_inv s \<Longrightarrow> cap_inv (fcB s) \<Longrightarrow> cap_inv (fcB s')"
proof (induction rule: fstep.induct)
  case (lead s now key spec b ref ttl)
  let ?b = "fcB s"
  note I = finvD [OF lead(3)]
  have refs: "r < length (b_flight_heap ?b)" if "(k, r) \<in> set (b_flights ?b)" for k r
    using I(2) wf_map_get [OF I(1) that] by blast
  show ?case
  proof (cases "go_get (b_flights ?b) key")
    case None
    have "cap_inv (fst (lead_flight now key spec ?b))" by (rule cap_lead [OF lead(4) None]) (rule refs)
    with lead(2) None show ?thesis by (auto simp: flight_enter_def split: prod.splits)
  next
    case (Some r)
    let ?b' = "?b\<lparr>b_flights := go_delete key (b_flights ?b)\<rparr>"
    have "cap_inv ?b'" unfolding go_delete_filter by (rule cap_filter [OF lead(4)])
    then have "cap_inv (fst (lead_flight now key spec ?b'))"
      by (rule cap_lead) (simp add: go_get_delete, use refs in \<open>auto simp: go_delete_filter\<close>)
    with Some lead(2) show ?thesis by (auto simp: flight_enter_def split: prod.splits if_splits)
  qed
next
  case (join s now key spec b ref r b')
  from flight_enter_join [OF join(2)] have "b = fcB s" by simp
  with join show ?case by (auto simp: join_begin_def Let_def cap_heap split: if_splits)
next
  case (leave s ref P)
  then show ?case by (simp add: join_leave_def cap_heap)
next
  case (finish s key ref ttl P now out)
  note I = finvD [OF finish(4)]
  have get: "go_get (b_flights (fcB s)) key = Some ref" by (rule I(4) [of key ref ttl]) (simp add: finish(1))
  show ?case using finish_cap [OF finish(5) I(1) get] I(3) get by auto
next
  case (evict s prov sid)
  then show ?case by (simp add: evictCompletedFlight_def cap_filter)
qed simp_all

lemma cap_init: "cap_inv (fcB (fc_init sha reg opts now))"
  by (simp add: fc_init_def New_binder_def cap_inv_def ordered_def completed_count_def DefaultMaxCompletedKeys_def)

lemma flights_reachable:
  assumes "fstep\<^sup>*\<^sup>* (fc_init sha reg opts now) s"
  shows "fc_inv s" and "cap_inv (fcB s)"
proof -
  from assms have "fc_inv s \<and> cap_inv (fcB s)"
  proof (induction rule: rtranclp_induct)
    case (step s1 s2)
    then show ?case using fc_inv_step [OF step.hyps(2)] cap_step [OF step.hyps(2)] by simp
  qed (simp add: fc_inv_init cap_init)
  then show "fc_inv s" "cap_inv (fcB s)" by simp_all
qed


section \<open>Properties\<close>

lemma leading_enter:
  assumes "fc_inv s" and "Lead key ref ttl \<in># fcProcs s"
  shows "flight_enter now key spec (fcB s) = (fcB s, Inl ref)"
  using finvD(4,5) [OF assms] by (simp add: flight_enter_def flight_expired_def flight_of_def)

text \<open>C2: However requests, evictions and the first stages of releases interleave, at most one goroutine executes
  the claim of a key, and while it does every other request for the key joins it instead of claiming. Every
  entry that is not completed has its one goroutine, so no request waits for a flight nobody executes.\<close>

theorem single_flight:
  assumes "fstep\<^sup>*\<^sup>* (fc_init sha reg opts t0) s" and "Lead key ref ttl \<in># fcProcs s"
  shows "leading key (fcProcs s) = 1 \<and> (\<forall>now spec. flight_enter now key spec (fcB s) = (fcB s, Inl ref)) \<and>
    (\<forall>k r. go_get (b_flights (fcB s)) k = Some r \<longrightarrow> flCompleted (flight_of (fcB s) r) \<or> leading k (fcProcs s) = 1)"
proof -
  have inv: "fc_inv s" using assms(1) by (rule flights_reachable)
  note I = finvD [OF inv]
  have "leading key (fcProcs s) = 1" using I(4,5,7) assms(2) by blast
  moreover have "flight_enter now key spec (fcB s) = (fcB s, Inl ref)" for now spec
    by (rule leading_enter [OF inv assms(2)])
  ultimately show ?thesis using I(7) by (auto simp: flight_of_def)
qed

text \<open>The cache never holds more completed flights than configured, whatever the history.\<close>

theorem completed_flights_bounded:
  assumes "fstep\<^sup>*\<^sup>* (fc_init sha reg opts t0) s"
  shows "int (length (filter (\<lambda>(k, ref). flCompleted (flight_of (fcB s) ref)) (b_flights (fcB s)))) \<le> b_maxCompletedKeys (fcB s)"
  using flights_reachable(2) [OF assms] by (simp add: cap_inv_def completed_count_def flight_of_def)

definition ex_binder_options :: binder_options where
  "ex_binder_options = \<lparr>opOwner = ''o'', opAllowedLabelDomain = [], opClaimTimeout = 0, opQueueTimeout = 0, opRefusalTTL = 0,
     opMaxTTL = 0, opMaxSpill = 0, opGlobalMaxInFlight = 0, opMaxJoinersPerKey = 0, opMaxCompletedKeys = 1, opCoalesceWindow = 0\<rparr>"

definition ex_binder :: binder_state where
  "ex_binder = New_binder (\<lambda>s. s) (New_registry ex_options) ex_binder_options"

lemma ex_binder_sel: "b_flights ex_binder = []" "b_flight_heap ex_binder = []" "b_completedOrder ex_binder = []"
  "b_maxCompletedKeys ex_binder = 1" "b_evictedUnexpiredUntil ex_binder = zero_time"
  by (simp_all add: ex_binder_def New_binder_def ex_binder_options_def)

definition ex_result :: bind_result where
  "ex_result = \<lparr>brHandle = empty_handle\<lparr>hProvider := ''p'', hID := ''i''\<rparr>, brReplay = False, brWarm = False, brPolicy = [], brScore = 0,
     brExplanation = []\<rparr>"

text \<open>A history: one request leads the key \<open>k\<close>, and succeeds.\<close>

definition ex_led :: fconf where
  "ex_led = \<lparr>fcB = fst (lead_flight 5 ''k'' ''s'' ex_binder), fcProcs = {#Lead ''k'' 0 10#}, fcNow = 5, fcHist = [Began ''k'' 0]\<rparr>"

lemma ex_led_reachable: "fstep\<^sup>*\<^sup>* (fc_init (\<lambda>s. s) (New_registry ex_options) ex_binder_options 0) ex_led"
proof -
  have "flight_enter 5 ''k'' ''s'' ex_binder = (fst (lead_flight 5 ''k'' ''s'' ex_binder), Inr 0)"
    by (simp add: flight_enter_def ex_binder_sel lead_flight_def)
  from fstep.lead [of "fc_init (\<lambda>s. s) (New_registry ex_options) ex_binder_options 0" 5 "''k''" "''s''" _ 0 10] this
  have "fstep (fc_init (\<lambda>s. s) (New_registry ex_options) ex_binder_options 0) ex_led"
    by (simp add: fc_init_def ex_led_def flip: ex_binder_def)
  then show ?thesis by blast
qed

theorem single_flight_witness:
  "leading ''k'' (fcProcs ex_led) = 1"
proof -
  have "Lead ''k'' 0 10 \<in># fcProcs ex_led" by (simp add: ex_led_def)
  from single_flight [OF ex_led_reachable this] show ?thesis by simp
qed

definition ex_done :: fconf where
  "ex_done = \<lparr>fcB = flight_finish 6 10 ''k'' 0 (Some ex_result, None) (fcB ex_led), fcProcs = {#}, fcNow = 6, fcHist = [Succeeded ''k'' 0 ''p'' ''i'' 16, Began ''k'' 0]\<rparr>"

lemma ex_done_reachable: "fstep\<^sup>*\<^sup>* (fc_init (\<lambda>s. s) (New_registry ex_options) ex_binder_options 0) ex_done"
proof -
  have "completed_until 6 10 ex_result = 16" by (simp add: completed_until_def ex_result_def empty_handle_def)
  with fstep.finish [of ex_led "''k''" 0 10 "{#}" 6 "(Some ex_result, None)"] have "fstep ex_led ex_done"
    by (simp add: ex_led_def ex_done_def record_success_def) (simp add: ex_result_def)
  with ex_led_reachable show ?thesis by simp
qed

theorem completed_flights_bounded_witness:
  "int (length (filter (\<lambda>(k, ref). flCompleted (flight_of (fcB ex_done) ref)) (b_flights (fcB ex_done)))) \<le> b_maxCompletedKeys (fcB ex_done)"
  by (rule completed_flights_bounded [OF ex_done_reachable])

text \<open>C23: The last step of a release by key breaks this. It removes whatever flight the key has by then, also one
  that began while the release was talking to the providers: from a state with one request executing the claim
  of a key, the end of a release lets a second request for the same key execute too.\<close>

theorem release_breaks_single_flight:
  "\<exists>s1 s2 s3 ref1 ref2 ttl. fstep\<^sup>*\<^sup>* (fc_init (\<lambda>s. s) (New_registry ex_options) ex_binder_options 0) s1 \<and> frelease s1 s2 \<and> fstep s2 s3 \<and>
     ref1 \<noteq> ref2 \<and> fcProcs s3 = {#Lead ''k'' ref1 ttl, Lead ''k'' ref2 ttl#} \<and> leading ''k'' (fcProcs s3) = 2"
proof -
  let ?i = "fc_init (\<lambda>s. s) (New_registry ex_options) ex_binder_options 0"
  let ?a = "?i\<lparr>fcProcs := {#RelReading ''k''#}\<rparr>" and ?b = "?i\<lparr>fcProcs := {#RelLookup ''k''#}\<rparr>"
  let ?s1 = "ex_led\<lparr>fcProcs := {#Lead ''k'' 0 10, RelLookup ''k''#}\<rparr>"
  let ?s2 = "ex_led\<lparr>fcB := release_forget ''k'' (fcB ex_led), fcHist := Forgot ''k'' # fcHist ex_led\<rparr>"
  let ?s3 = "?s2\<lparr>fcB := fst (lead_flight 5 ''k'' ''s'' (fcB ?s2)), fcProcs := {#Lead ''k'' 1 10, Lead ''k'' 0 10#},
    fcHist := Began ''k'' 1 # fcHist ?s2\<rparr>"
  have fcb: "fcB ?i = ex_binder" by (simp add: fc_init_def ex_binder_def)
  have 1: "fstep ?i ?a" using fstep.rel_begin [of ?i "''k''"] by (simp add: fcb release_wait_def ex_binder_sel) (simp add: fc_init_def)
  have 2: "fstep ?a ?b" using fstep.rel_read [of ?a "''k''" "{#}"] by (simp add: fcb release_cached_def ex_binder_sel)
  have "flight_enter 5 ''k'' ''s'' ex_binder = (fst (lead_flight 5 ''k'' ''s'' ex_binder), Inr 0)"
    by (simp add: flight_enter_def ex_binder_sel lead_flight_def)
  then have 3: "fstep ?b ?s1" using fstep.lead [of ?b 5 "''k''" "''s''" _ 0 10]
    by (simp add: fcb) (simp add: fc_init_def ex_led_def)
  have 4: "frelease ?s1 ?s2"
    using frelease.intros [of ?s1 "RelLookup ''k''" "{#Lead ''k'' 0 10#}" "''k''"] by (simp add: ex_led_def add_mset_commute)
  have heap: "length (b_flight_heap (fcB ex_led)) = 1" by (simp add: ex_led_def lead_flight_def ex_binder_sel)
  have "b_flights (fcB ?s2) = []" by (simp add: ex_led_def lead_flight_def ex_binder_sel release_forget_def)
  then have "flight_enter 5 ''k'' ''s'' (fcB ?s2) = (fst (lead_flight 5 ''k'' ''s'' (fcB ?s2)), Inr 1)"
    using heap by (simp add: flight_enter_def lead_flight_def release_forget_def)
  then have 5: "fstep ?s2 ?s3" using fstep.lead [of ?s2 5 "''k''" "''s''" _ 1 10] by (simp add: ex_led_def)
  from 1 2 3 have "fstep\<^sup>*\<^sup>* ?i ?s1" by (meson rtranclp.rtrancl_refl rtranclp.rtrancl_into_rtrancl)
  with 4 5 show ?thesis
    by (intro exI [of _ ?s1] exI [of _ ?s2] exI [of _ ?s3] exI [of _ 1] exI [of _ 0] exI [of _ 10])
      (simp add: leading_def leads_def)
qed

end
