(* ===== verification/ClaimEffects.thy ===== *)
theory ClaimEffects
  imports Flights "HOL-Library.State_Monad"
begin

text \<open>
  The effects of a claim: a state monad over the shared state, an environment and a log. Every elementary
  operation takes one step of the environment, which first changes the shared state as other goroutines
  please and then supplies what the operation asks for: the clock, the context, random numbers, the answers of
  rate limiters, timers and adapters. A statement about all environments holds for all interleavings. The log
  records, newest first, the calls to adapters and what became of reservations.
\<close>

section \<open>Worlds\<close>

text \<open>A call to an adapter panics or returns.\<close>

datatype 'a adapter = AdapterPanic string | Returned 'a

record env_step =
  evOthers :: "binder_state \<Rightarrow> binder_state"
  evNow :: gotime
  evCtxDone :: bool
  evRand :: rat
  evRnd :: "nat \<Rightarrow> nat"
  evReserve :: "duration option"
  evAllow :: bool
  evTimer :: bool
  evHandle :: "(handle \<times> go_error option) adapter"
  evError :: "go_error option adapter"
  evCoalesced :: "lookup_result + go_error"

datatype event =
    EvClaim string claim_request duration "handle \<times> go_error option"
  | EvLookup string claim_request duration "handle \<times> go_error option"
  | EvRelease string handle duration "go_error option"
  | EvReserved nat
  | EvCancelled nat
  | EvWarm ticket
  | EvTicketBack ticket
  | EvCold string

record world =
  wB :: binder_state
  wEnv :: "nat \<Rightarrow> env_step"
  wTick :: nat
  wLog :: "event list"

type_synonym 'a act = "(world, 'a) state"

abbreviation ret :: "'a \<Rightarrow> 'a act" where "ret \<equiv> State_Monad.return"

section \<open>Elementary operations\<close>

definition tick :: "env_step act" where
  "tick = State (\<lambda>w. let e = wEnv w (wTick w) in (e, w\<lparr>wB := evOthers e (wB w), wTick := wTick w + 1\<rparr>))"

definition peek :: "binder_state act" where
  "peek = State (\<lambda>w. (wB w, w))"

definition modify_b :: "(binder_state \<Rightarrow> binder_state) \<Rightarrow> unit act" where
  "modify_b f = State (\<lambda>w. ((), w\<lparr>wB := f (wB w)\<rparr>))"

definition emit :: "event \<Rightarrow> unit act" where
  "emit ev = State (\<lambda>w. ((), w\<lparr>wLog := ev # wLog w\<rparr>))"

definition get_now :: "gotime act" where
  "get_now = do { e \<leftarrow> tick; ret (evNow e) }"

definition ctx_done :: "bool act" where
  "ctx_done = do { e \<leftarrow> tick; ret (evCtxDone e) }"

definition get_rand :: "rat act" where
  "get_rand = do { e \<leftarrow> tick; ret (evRand e) }"

definition jitter :: "duration \<Rightarrow> duration act" where
  "jitter base = do { r \<leftarrow> get_rand; ret (jitterDelay r base) }"

text \<open>One locked section of the shared state, after other goroutines had their turn.\<close>

definition locked :: "(binder_state \<Rightarrow> binder_state) \<Rightarrow> unit act" where
  "locked f = do { e \<leftarrow> tick; modify_b f }"

definition start_attempt :: "bool act" where
  "start_attempt = do { e \<leftarrow> tick; b \<leftarrow> peek;
     (case startAttempt b of (b', ok) \<Rightarrow> do { modify_b (\<lambda>_. b'); ret ok }) }"

definition try_slot :: "nat \<Rightarrow> bool act" where
  "try_slot ref = do { e \<leftarrow> tick; b \<leftarrow> peek;
     (case tryAcquire (b_slots b ! ref) of (s, ok) \<Rightarrow> do { modify_b (\<lambda>b. b\<lparr>b_slots := (b_slots b)[ref := s]\<rparr>); ret ok }) }"

definition free_slot :: "nat \<Rightarrow> unit act" where
  "free_slot ref = locked (\<lambda>b. b\<lparr>b_slots := (b_slots b)[ref := release_slot (b_slots b ! ref)]\<rparr>)"

definition on_health :: "nat \<Rightarrow> (health \<Rightarrow> health) \<Rightarrow> unit act" where
  "on_health ref f = locked (\<lambda>b. b\<lparr>b_health := (b_health b)[ref := f (b_health b ! ref)]\<rparr>)"

definition reserve_warm :: "string \<Rightarrow> (ticket \<times> bool) act" where
  "reserve_warm pid = do { e \<leftarrow> tick; b \<leftarrow> peek;
     (case TryReserveWarmTicket (evNow e) pid (b_reg b) of (reg, t, ok) \<Rightarrow>
        do { modify_b (\<lambda>b. b\<lparr>b_reg := reg\<rparr>); emit (EvWarm t); ret (t, ok) }) }"

definition give_back :: "ticket \<Rightarrow> unit act" where
  "give_back t = do { locked (\<lambda>b. b\<lparr>b_reg := fst (ReleaseReservationTicket t (b_reg b))\<rparr>); emit (EvTicketBack t) }"

definition record_cold :: "string \<Rightarrow> unit act" where
  "record_cold pid = do { e \<leftarrow> tick; modify_b (\<lambda>b. b\<lparr>b_reg := RecordColdPlacement (evNow e) pid (b_reg b)\<rparr>); emit (EvCold pid) }"

definition snapshot :: "candidate list act" where
  "snapshot = do { e \<leftarrow> tick; b \<leftarrow> peek; ret (Snapshot (evNow e) (b_reg b)) }"

definition passes_filters :: "string \<Rightarrow> 'sel policy \<Rightarrow> bind_request \<Rightarrow> bool act" where
  "passes_filters pid pol req = do { e \<leftarrow> tick; b \<leftarrow> peek; ret (passesCandidateFilters (evNow e) pid (Some pol) req b) }"

definition allow :: "nat \<Rightarrow> bool act" where
  "allow ref = do { e \<leftarrow> tick; ret (evAllow e) }"

definition reserve_token :: "nat \<Rightarrow> duration option act" where
  "reserve_token ref = do { e \<leftarrow> tick;
     (case evReserve e of None \<Rightarrow> ret None | Some d \<Rightarrow> do { emit (EvReserved ref); ret (Some d) }) }"

definition cancel_token :: "nat \<Rightarrow> unit act" where
  "cancel_token ref = do { e \<leftarrow> tick; emit (EvCancelled ref) }"

definition sleepUntil :: "gotime \<Rightarrow> bool act" where
  "sleepUntil target = do { now \<leftarrow> get_now;
     if time_sub target now \<le> 0 then do { c \<leftarrow> ctx_done; ret (\<not> c) }
     else do { e \<leftarrow> tick; ret (evTimer e) } }"

section \<open>Calls to adapters\<close>

definition adapter_result :: "string \<Rightarrow> (handle \<times> go_error option) adapter \<Rightarrow> handle \<times> go_error option" where
  "adapter_result what r = (case r of
     AdapterPanic m \<Rightarrow> (empty_handle, Some (NewError (''panic in adapter '' @ what @ '': '' @ m)))
   | Returned x \<Rightarrow> x)"

definition shutting_down :: "handle \<times> go_error option" where
  "shutting_down = (empty_handle, Some (Unavailable (Some (NewError ''scheduler is shutting down''))))"

definition invokeClaim :: "target \<Rightarrow> claim_request \<Rightarrow> gotime \<Rightarrow> (handle \<times> go_error option) act" where
  "invokeClaim t creq deadline = do {
     ok \<leftarrow> start_attempt;
     if \<not> ok then ret shutting_down
     else do {
       start \<leftarrow> get_now;
       now \<leftarrow> get_now;
       e \<leftarrow> tick;
       let r = adapter_result ''Claim'' (evHandle e);
       emit (EvClaim (tgId t) creq (attemptDuration (tcTimeout (tgCfg t)) deadline now) r);
       finish \<leftarrow> get_now;
       locked finishAttempt;
       ret r } }"

definition lookup_call :: "target \<Rightarrow> claim_request \<Rightarrow> gotime \<Rightarrow> (handle \<times> go_error option) act" where
  "lookup_call t creq deadline = do {
     now \<leftarrow> get_now;
     e \<leftarrow> tick;
     let r = adapter_result ''Lookup'' (evHandle e);
     emit (EvLookup (tgId t) creq (attemptDuration (tcTimeout (tgCfg t)) deadline now) r);
     ret r }"

definition callLookup :: "target \<Rightarrow> claim_request \<Rightarrow> gotime \<Rightarrow> (handle \<times> go_error option) act" where
  "callLookup t creq deadline = do {
     ok \<leftarrow> start_attempt;
     if \<not> ok then ret shutting_down
     else do {
       got \<leftarrow> try_slot (tgSlots t);
       if \<not> got then do {
         locked finishAttempt;
         ret (empty_handle, Some (Busy (100 * millisecond) (Some (NewError ''provider in-flight slots full'')))) }
       else do {
         r \<leftarrow> lookup_call t creq deadline;
         free_slot (tgSlots t);
         locked finishAttempt;
         ret r } } }"

definition callLookupNoSlot :: "target \<Rightarrow> claim_request \<Rightarrow> gotime \<Rightarrow> (handle \<times> go_error option) act" where
  "callLookupNoSlot t creq deadline = do {
     ok \<leftarrow> start_attempt;
     if \<not> ok then ret shutting_down
     else do {
       r \<leftarrow> lookup_call t creq deadline;
       locked finishAttempt;
       ret r } }"

text \<open>A lookup through the coalescer: the answer for this item of the batch, or the error of the context.\<close>

definition coalesced_lookup :: "target \<Rightarrow> claim_request \<Rightarrow> gotime \<Rightarrow> (handle \<times> go_error option) act" where
  "coalesced_lookup t creq deadline = do {
     now \<leftarrow> get_now;
     e \<leftarrow> tick;
     let r = (case lookup_return (evCoalesced e) of (h, err, after) \<Rightarrow> (h, err));
     emit (EvLookup (tgId t) creq (attemptDuration (tcTimeout (tgCfg t)) deadline now) r);
     ret r }"

section \<open>Lookup tokens, all or nothing\<close>

fun cancel_all :: "nat list \<Rightarrow> unit act" where
  "cancel_all [] = ret ()"
| "cancel_all (ref # refs) = do { cancel_token ref; cancel_all refs }"

text \<open>\<open>done\<close> are the limiters reserved so far; the result is the longest delay, \<open>None\<close> after a refusal.\<close>

fun reserve_loop :: "nat list \<Rightarrow> duration \<Rightarrow> target list \<Rightarrow> (nat list \<times> duration) option act" where
  "reserve_loop got maxDelay [] = ret (Some (got, maxDelay))"
| "reserve_loop got maxDelay (t # ts) = do {
     r \<leftarrow> reserve_token (tgLookupRate t);
     (case r of
        None \<Rightarrow> do { cancel_all got; ret None }
      | Some d \<Rightarrow> reserve_loop (got @ [tgLookupRate t]) (if d > maxDelay then d else maxDelay) ts) }"

definition reserveLookupTokens :: "gotime \<Rightarrow> target list \<Rightarrow> (duration \<times> bool) act" where
  "reserveLookupTokens deadline ts = do {
     now \<leftarrow> get_now;
     let remaining = time_sub deadline now;
     if remaining \<le> 0 then ret (second, False)
     else do {
       r \<leftarrow> reserve_loop [] 0 ts;
       (case r of
          None \<Rightarrow> ret (second, False)
        | Some (got, maxDelay) \<Rightarrow>
            if maxDelay > remaining then do { cancel_all got; ret (maxDelay, False) }
            else ret (maxDelay, True)) } }"

end
