(* ===== verification/ClaimLoop.thy ===== *)
theory ClaimLoop
  imports ClaimEffects
begin

text \<open>
  \<open>pkg/binder/binder.go\<close>, the execution of one flight: the lookups of pinned and retried requests, the claim
  loop over the scheduler's decisions, one attempt at one provider, and what an attempt does when the key is
  busy or its outcome is unknown. The loops run on fuel and yield \<open>None\<close> without it; each turn of a loop reads
  the clock, so the number of readings before the deadline is always enough.
\<close>

section \<open>Outcomes of an attempt\<close>

datatype attempt_action = AttemptDone | AttemptRetryDecision | AttemptSpill

type_synonym attempt = "bind_result option \<times> bind_error option \<times> attempt_action"

definition attempt_error :: "bind_error \<Rightarrow> attempt_action \<Rightarrow> attempt" where
  "attempt_error e a = (None, Some e, a)"

definition claimed :: "'sel policy \<Rightarrow> decision \<Rightarrow> handle \<Rightarrow> bool \<Rightarrow> ticket \<Rightarrow> attempt" where
  "claimed pol dec h replay t =
     (Some \<lparr>brHandle = h, brReplay = replay, brWarm = tkValid t, brPolicy = poName pol, brScore = dScore dec,
            brExplanation = Explain dec\<rparr>, None, AttemptDone)"

definition spec_conflict :: "string \<Rightarrow> go_error \<Rightarrow> bind_error" where
  "spec_conflict pid err = mk_error 409 ReasonSpecMismatch (error_string err) [pid]"

text \<open>
  The four confirmed refusals, as every attempt handles them: note the refusal, the cooldown or the health of the
  claim path, give the reservation back unless the capacity turned out not to exist, and report. \<open>jittered\<close> is
  set where the report goes to the client without another attempt.
\<close>

definition on_refusal :: "target \<Rightarrow> bind_request \<Rightarrow> ticket \<Rightarrow> go_error \<Rightarrow> bool \<Rightarrow> attempt_action \<Rightarrow> attempt act" where
  "on_refusal t req tk err jittered a =
     (case KindOf (Some err) of
        KindNoCapacity \<Rightarrow> do {
          now \<leftarrow> get_now;
          locked (recordRefusal (tgId t) (bqTemplate req) now);
          ret (attempt_error (mk_error 409 ReasonNoCapacity (error_string err) [tgId t]) a) }
      | KindBusy \<Rightarrow> do {
          give_back tk;
          b \<leftarrow> peek;
          let wait = (if RetryAfterOf (Some err) \<le> 0 then b_refusalTTL b else RetryAfterOf (Some err));
          now \<leftarrow> get_now;
          locked (recordCooldown (tgId t) (now + wait));
          after \<leftarrow> (if jittered then jitter wait else ret wait);
          ret (attempt_error ((mk_error 429 ReasonBusy (error_string err) [tgId t])\<lparr>beRetryAfter := after\<rparr>) a) }
      | KindUnavailable \<Rightarrow> do {
          give_back tk;
          now \<leftarrow> get_now;
          on_health (tgHealth t) (recordUnavailable now (Some err));
          ret (attempt_error (mk_error 503 ReasonUnavailable (error_string err) [tgId t]) a) }
      | _ \<Rightarrow> do {
          give_back tk;
          on_health (tgHealth t) (recordRejected (Some err));
          ret (attempt_error (mk_error 422 ReasonRejected (error_string err) [tgId t]) a) })"

definition success :: "target \<Rightarrow> 'sel policy \<Rightarrow> decision \<Rightarrow> handle \<Rightarrow> bool \<Rightarrow> ticket \<Rightarrow> attempt act" where
  "success t pol dec h replay tk = do {
     now \<leftarrow> get_now;
     on_health (tgHealth t) (recordSuccess now);
     ret (claimed pol dec h replay tk) }"

section \<open>Key busy and unknown outcomes\<close>

definition key_busy_error :: "target \<Rightarrow> go_error \<Rightarrow> attempt act" where
  "key_busy_error t err = do {
     after \<leftarrow> jitter (RetryAfterOf (Some err));
     ret (attempt_error ((mk_error 429 ReasonKeyBusy (error_string err) [tgId t])\<lparr>beRetryAfter := after\<rparr>) AttemptDone) }"

definition unknown_error :: "target \<Rightarrow> go_error \<Rightarrow> attempt" where
  "unknown_error t err = attempt_error (mk_error 504 ReasonUnknownOutcome
     (''claim outcome on provider '' @ quote (tgId t) @ '' is unknown: '' @ error_string err) [tgId t]) AttemptDone"

text \<open>
  The capacity for another attempt at the same provider: a warm reservation, or else, if the request does not
  insist on a warm sandbox, a token of the claim rate and a cold placement. \<open>Inl\<close> is the error otherwise.
\<close>

definition retry_capacity :: "target \<Rightarrow> bind_request \<Rightarrow> (attempt + ticket) act" where
  "retry_capacity t req = do {
     w \<leftarrow> (if tcElastic (tgCfg t) then ret (no_ticket, False) else reserve_warm (tgId t));
     let tk = fst w;
     if tkValid tk then ret (Inr tk)
     else if bqWarmOnly req then
       ret (Inl (attempt_error (mk_error 409 ReasonNoCapacity (''provider '' @ quote (tgId t) @
         '' has no warm capacity remaining while retrying key '' @ quote (bqKey req)) [tgId t]) AttemptDone))
     else do {
       now \<leftarrow> get_now;
       ok \<leftarrow> allow (tgClaimRate t);
       if \<not> ok then do {
         e \<leftarrow> tick;
         after \<leftarrow> jitter (timeUntilNextToken (evReserve e));
         ret (Inl (attempt_error ((mk_error 429 ReasonRateLimited (''provider '' @ quote (tgId t) @
           '' exceeded spec.claims.maxRate while retrying key '' @ quote (bqKey req)) [tgId t])\<lparr>beRetryAfter := after\<rparr>) AttemptDone)) }
       else do {
         record_cold (tgId t);
         ret (Inr tk) } } }"

text \<open>The sleep before the \<open>step\<close>-th recovery: a random part of a doubling ceiling of at most two seconds.\<close>

definition recovery_sleep :: "rat \<Rightarrow> nat \<Rightarrow> duration" where
  "recovery_sleep r step =
     (let ceil = wrap64 (100 * millisecond * 2 ^ step);
          ceil = (if ceil > 2 * second \<or> ceil \<le> 0 then 2 * second else ceil);
          d = rand_duration r ceil
      in if d \<le> 0 then 10 * millisecond else d)"

text \<open>
  Waiting for a token that may only be granted later: \<open>False\<close> when there is none, it comes after the deadline, or
  the context ends first.
\<close>

definition wait_token :: "nat \<Rightarrow> gotime \<Rightarrow> bool act" where
  "wait_token ref deadline = do {
     now \<leftarrow> get_now;
     r \<leftarrow> reserve_token ref;
     (case r of
        None \<Rightarrow> ret False
      | Some d \<Rightarrow>
          if d \<le> 0 then ret True
          else if \<not> now + d < deadline then do { cancel_token ref; ret False }
          else do {
            ok \<leftarrow> sleepUntil (now + d);
            if \<not> ok then do { t \<leftarrow> get_now; cancel_token ref; ret False } else ret True }) }"

text \<open>The budget, the sleep and the lookup token of one recovery: whether it goes on.\<close>

definition recovery_gate :: "target \<Rightarrow> nat \<Rightarrow> gotime \<Rightarrow> bool act" where
  "recovery_gate t step deadline = do {
     now \<leftarrow> get_now;
     ok \<leftarrow> allow (tgRetryBudget t);
     if \<not> ok then ret False
     else do {
       r \<leftarrow> get_rand;
       now \<leftarrow> get_now;
       let wakeAt = now + recovery_sleep r step;
       if \<not> wakeAt < deadline then ret False
       else do {
         slept \<leftarrow> sleepUntil wakeAt;
         if \<not> slept then ret False else wait_token (tgLookupRate t) deadline } } }"

definition loop_open :: "gotime \<Rightarrow> bool act" where
  "loop_open deadline = do { now \<leftarrow> get_now; if now < deadline then do { c \<leftarrow> ctx_done; ret (\<not> c) } else ret False }"

text \<open>\<open>None\<close> is running out of fuel.\<close>

fun retryPinnedKeyBusy :: "nat \<Rightarrow> target \<Rightarrow> decision \<Rightarrow> 'sel policy \<Rightarrow> bind_request \<Rightarrow> claim_request \<Rightarrow> gotime
      \<Rightarrow> go_error \<Rightarrow> attempt option act"
  and recoverUnknownOutcome :: "nat \<Rightarrow> target \<Rightarrow> decision \<Rightarrow> 'sel policy \<Rightarrow> bind_request \<Rightarrow> claim_request \<Rightarrow> ticket \<Rightarrow> gotime
      \<Rightarrow> go_error \<Rightarrow> bool \<Rightarrow> nat \<Rightarrow> attempt option act"
where
  "retryPinnedKeyBusy 0 t dec pol req creq deadline lastErr = ret None"
| "retryPinnedKeyBusy (Suc n) t dec pol req creq deadline lastErr = do {
     opened \<leftarrow> loop_open deadline;
     if \<not> opened then do { r \<leftarrow> key_busy_error t lastErr; ret (Some r) }
     else do {
       let wait = (if RetryAfterOf (Some lastErr) \<le> 0 then 100 * millisecond else RetryAfterOf (Some lastErr));
       now \<leftarrow> get_now;
       if \<not> now + wait < deadline then do { r \<leftarrow> key_busy_error t lastErr; ret (Some r) }
       else do {
         slept \<leftarrow> sleepUntil (now + wait);
         if \<not> slept then do { r \<leftarrow> key_busy_error t lastErr; ret (Some r) }
         else do {
           cap \<leftarrow> retry_capacity t req;
           (case cap of
              Inl a \<Rightarrow> ret (Some a)
            | Inr tk \<Rightarrow> do {
                r \<leftarrow> invokeClaim t creq deadline;
                (case snd r of
                   None \<Rightarrow> do { a \<leftarrow> success t pol dec (fst r) False tk; ret (Some a) }
                 | Some err \<Rightarrow>
                     (if KindOf (Some err) = KindKeyBusy then do {
                        give_back tk;
                        retryPinnedKeyBusy n t dec pol req creq deadline err }
                      else if KindOf (Some err) = KindKeyConflict then do {
                        give_back tk;
                        ret (Some (attempt_error (spec_conflict (tgId t) err) AttemptDone)) }
                      else if spilling_kind (KindOf (Some err)) then do {
                        a \<leftarrow> on_refusal t req tk err True AttemptDone;
                        ret (Some a) }
                      else recoverUnknownOutcome n t dec pol req creq tk deadline err False 0)) }) } } } }"
| "recoverUnknownOutcome 0 t dec pol req creq tk deadline lastErr allowSpill step = ret None"
| "recoverUnknownOutcome (Suc n) t dec pol req creq tk deadline lastErr allowSpill step = do {
     opened \<leftarrow> loop_open deadline;
     if \<not> opened then ret (Some (unknown_error t lastErr))
     else do {
       go \<leftarrow> recovery_gate t step deadline;
       if \<not> go then ret (Some (unknown_error t lastErr))
       else do {
         l \<leftarrow> callLookupNoSlot t creq deadline;
         (case snd l of
            None \<Rightarrow> do { a \<leftarrow> success t pol dec (fst l) True tk; ret (Some a) }
          | Some lerr \<Rightarrow>
              (if KindOf (Some lerr) = KindKeyConflict then do {
                 give_back tk;
                 ret (Some (attempt_error (spec_conflict (tgId t) lerr) AttemptDone)) }
               else if is_not_found lerr then do {
                 still \<leftarrow> loop_open deadline;
                 if \<not> still then ret (Some (unknown_error t lastErr))
                 else do {
                   tok \<leftarrow> (if tcElastic (tgCfg t) \<or> \<not> tkValid tk then wait_token (tgClaimRate t) deadline else ret True);
                   if \<not> tok then ret (Some (unknown_error t lastErr))
                   else do {
                     r \<leftarrow> invokeClaim t creq deadline;
                     (case snd r of
                        None \<Rightarrow> do { a \<leftarrow> success t pol dec (fst r) False tk; ret (Some a) }
                      | Some cerr \<Rightarrow>
                          (if KindOf (Some cerr) = KindKeyConflict then do {
                             give_back tk;
                             ret (Some (attempt_error (spec_conflict (tgId t) cerr) AttemptDone)) }
                           else if KindOf (Some cerr) = KindKeyBusy then do {
                             give_back tk;
                             retryPinnedKeyBusy n t dec pol req creq deadline cerr }
                           else if spilling_kind (KindOf (Some cerr)) then do {
                             a \<leftarrow> on_refusal t req tk cerr (\<not> allowSpill) (if allowSpill then AttemptSpill else AttemptDone);
                             ret (Some a) }
                           else recoverUnknownOutcome n t dec pol req creq tk deadline cerr allowSpill (step + 1))) } } }
               else recoverUnknownOutcome n t dec pol req creq tk deadline lerr allowSpill (step + 1))) } } }"

section \<open>One attempt\<close>

text \<open>
  The capacity of a first attempt: a reservation of a warm sandbox if the decision counted on one, else a
  token of the claim rate. \<open>None\<close> sends the request back to scheduling.
\<close>

definition attempt_capacity :: "target \<Rightarrow> bool \<Rightarrow> ticket option act" where
  "attempt_capacity t hadWarm =
     (if \<not> tcElastic (tgCfg t) \<and> hadWarm then do {
        w \<leftarrow> reserve_warm (tgId t);
        ret (if snd w then Some (fst w) else None) }
      else do {
        now \<leftarrow> get_now;
        ok \<leftarrow> allow (tgClaimRate t);
        if \<not> ok then ret None else do { record_cold (tgId t); ret (Some no_ticket) } })"

definition attempt_body :: "nat \<Rightarrow> target \<Rightarrow> decision \<Rightarrow> candidate list \<Rightarrow> 'sel policy \<Rightarrow> bind_request \<Rightarrow> claim_request
    \<Rightarrow> gotime \<Rightarrow> attempt option act" where
  "attempt_body n t dec candidates pol req creq deadline = do {
     cap \<leftarrow> attempt_capacity t (warmCandidate candidates (tgId t));
     (case cap of
        None \<Rightarrow> ret (Some (None, None, AttemptRetryDecision))
      | Some tk \<Rightarrow> do {
          r \<leftarrow> invokeClaim t creq deadline;
          (case snd r of
             None \<Rightarrow> do { a \<leftarrow> success t pol dec (fst r) False tk; ret (Some a) }
           | Some err \<Rightarrow>
               (if KindOf (Some err) = KindKeyConflict then do {
                  give_back tk;
                  ret (Some (attempt_error (spec_conflict (tgId t) err) AttemptDone)) }
                else if KindOf (Some err) = KindKeyBusy then do {
                  give_back tk;
                  retryPinnedKeyBusy n t dec pol req creq deadline err }
                else if spilling_kind (KindOf (Some err)) then do {
                  a \<leftarrow> on_refusal t req tk err False AttemptSpill;
                  ret (Some a) }
                else recoverUnknownOutcome n t dec pol req creq tk deadline err True 0)) }) }"

definition attemptProvider :: "nat \<Rightarrow> target \<Rightarrow> decision \<Rightarrow> candidate list \<Rightarrow> 'sel policy \<Rightarrow> bind_request \<Rightarrow> claim_request
    \<Rightarrow> gotime \<Rightarrow> attempt option act" where
  "attemptProvider n t dec candidates pol req creq deadline = do {
     a \<leftarrow> attempt_body n t dec candidates pol req creq deadline;
     free_slot (tgSlots t);
     ret a }"

section \<open>Lookups of pinned requests\<close>

text \<open>The answer of a lookup phase: the request is answered, or it goes on to claim, pinned to a provider or not.\<close>

datatype lookup_phase = Answer "bind_error + bind_result" | GoOn string

definition replayed :: "'sel policy \<Rightarrow> handle \<Rightarrow> bind_result" where
  "replayed pol h = \<lparr>brHandle = h, brReplay = True, brWarm = False, brPolicy = poName pol, brScore = 0, brExplanation = []\<rparr>"

definition excluded_error :: "bind_request \<Rightarrow> string \<Rightarrow> bind_error" where
  "excluded_error req pid = mk_error 409 ReasonConstraintExcluded (''key '' @ quote (bqKey req) @ '' exists on provider '' @
     quote pid @ '', which is excluded by this request's constraints'') [pid]"

text \<open>What the lookup at the pinned provider means.\<close>

definition pinned_verdict :: "string \<Rightarrow> target \<Rightarrow> 'sel policy \<Rightarrow> bind_request \<Rightarrow> handle \<times> go_error option \<Rightarrow> lookup_phase act" where
  "pinned_verdict pin t pol req l =
     (case snd l of
        None \<Rightarrow> do {
          ok \<leftarrow> passes_filters pin pol req;
          ret (Answer (if \<not> ok then Inl (excluded_error req pin) else Inr (replayed pol (fst l)))) }
      | Some err \<Rightarrow>
          (if is_not_found err then ret (GoOn pin)
           else (case KindOf (Some err) of
               KindKeyConflict \<Rightarrow> ret (Answer (Inl (mk_error 409 ReasonSpecMismatch (error_string err) [pin])))
             | KindKeyBusy \<Rightarrow> do {
                 after \<leftarrow> jitter (RetryAfterOf (Some err));
                 ret (Answer (Inl ((mk_error 429 ReasonKeyBusy (error_string err) [pin])\<lparr>beRetryAfter := after\<rparr>))) }
             | KindBusy \<Rightarrow> do {
                 after \<leftarrow> jitter (RetryAfterOf (Some err));
                 ret (Answer (Inl ((mk_error 429 ReasonBusy (error_string err) [pin])\<lparr>beRetryAfter := after\<rparr>))) }
             | k \<Rightarrow> do {
                 u \<leftarrow> (if k = KindRejected then on_health (tgHealth t) (recordRejected (Some err)) else ret ());
                 ret (Answer (Inl (mk_error 504 ReasonUnknownOutcome (''lookup on pinned provider '' @ quote pin @
                   '' was inconclusive: '' @ error_string err) [pin]))) })))"

definition lookupPinned :: "(string, target) gomap \<Rightarrow> string \<Rightarrow> 'sel policy \<Rightarrow> bind_request \<Rightarrow> claim_request \<Rightarrow> gotime
    \<Rightarrow> lookup_phase act" where
  "lookupPinned targets pin pol req creq deadline =
     (case go_get targets pin of
        None \<Rightarrow> ret (Answer (Inl (mk_error 409 ReasonNoCapacity (''pinned provider '' @ quote pin @
                  '' is not registered or not claim-capable'') [pin])))
      | Some t \<Rightarrow>
          (if \<not> claim_capable t then
             ret (Answer (Inl (mk_error 409 ReasonNoCapacity (''pinned provider '' @ quote pin @
               '' is not registered or not claim-capable'') [pin])))
           else do {
             w \<leftarrow> reserveLookupTokens deadline [t];
             if \<not> snd w then do {
               after \<leftarrow> jitter (fst w);
               ret (Answer (Inl ((mk_error 429 ReasonRateLimited (''lookup rate limit exceeded on provider '' @ quote pin) [pin])
                 \<lparr>beRetryAfter := after\<rparr>))) }
             else do {
               slept \<leftarrow> (if fst w > 0 then do { now \<leftarrow> get_now; sleepUntil (now + fst w) } else ret True);
               if \<not> slept then
                 ret (Answer (Inl (mk_error 504 ReasonUnknownOutcome ''request cancelled while waiting for lookup token'' [pin])))
               else do {
                 l \<leftarrow> callLookup t creq deadline;
                 pinned_verdict pin t pol req l } } }))"

section \<open>Lookups of retried requests\<close>

text \<open>
  The lookups run in goroutines of their own; one after the other in the order of the targets is one of their
  interleavings, and the environment's steps between any two operations stand for the others.
\<close>

fun probe_all :: "claim_request \<Rightarrow> gotime \<Rightarrow> target list \<Rightarrow> (target \<times> handle \<times> go_error option) list act" where
  "probe_all creq deadline [] = ret []"
| "probe_all creq deadline (t # ts) = do {
     r \<leftarrow> (if tgCoalescer t \<noteq> None then coalesced_lookup t creq deadline else callLookup t creq deadline);
     rs \<leftarrow> probe_all creq deadline ts;
     ret ((t, fst r, snd r) # rs) }"

record probe_class =
  pcBusy :: "string list"
  pcMaxWait :: duration
  pcKeyBusy :: bool
  pcInconclusive :: "string list"
  pcLastErr :: "go_error option"

text \<open>The third step of the classification, with its effect on the health of providers that reject.\<close>

fun classify :: "(target \<times> handle \<times> go_error option) list \<Rightarrow> probe_class \<Rightarrow> probe_class act" where
  "classify [] c = ret c"
| "classify ((t, h, err) # os) c =
     (if (case err of None \<Rightarrow> False | Some e \<Rightarrow> is_not_found e) then classify os c
      else (let k = KindOf err in
        if k = KindBusy \<or> k = KindKeyBusy then
          classify os (c\<lparr>pcBusy := pcBusy c @ [tgId t], pcKeyBusy := (pcKeyBusy c \<or> k = KindKeyBusy),
            pcMaxWait := (if RetryAfterOf err > pcMaxWait c then RetryAfterOf err else pcMaxWait c)\<rparr>)
        else do {
          u \<leftarrow> (if k = KindRejected then on_health (tgHealth t) (recordRejected err) else ret ());
          classify os (c\<lparr>pcInconclusive := pcInconclusive c @ [tgId t], pcLastErr := err\<rparr>) }))"

definition err_text :: "go_error option \<Rightarrow> string" where
  "err_text e = (case e of None \<Rightarrow> ''<nil>'' | Some err \<Rightarrow> error_string err)"

definition probe_verdict :: "'sel policy \<Rightarrow> bind_request \<Rightarrow> (target \<times> handle \<times> go_error option) list \<Rightarrow> lookup_phase act" where
  "probe_verdict pol req outcomes =
     (case find (\<lambda>(t, h, err). err = None) outcomes of
        Some (t, h, err) \<Rightarrow> do {
          ok \<leftarrow> passes_filters (tgId t) pol req;
          ret (Answer (if \<not> ok then Inl (excluded_error req (tgId t)) else Inr (replayed pol h))) }
      | None \<Rightarrow>
          (case find (\<lambda>(t, h, err). KindOf err = KindKeyConflict) outcomes of
             Some (t, h, err) \<Rightarrow> ret (Answer (Inl (mk_error 409 ReasonSpecMismatch (err_text err) [tgId t])))
           | None \<Rightarrow> do {
               c \<leftarrow> classify outcomes \<lparr>pcBusy = [], pcMaxWait = 0, pcKeyBusy = False, pcInconclusive = [], pcLastErr = None\<rparr>;
               if pcBusy c = [] \<and> pcInconclusive c = [] then ret (GoOn [])
               else if pcBusy c \<noteq> [] then do {
                 after \<leftarrow> jitter (pcMaxWait c);
                 ret (Answer (Inl ((mk_error 429 (if pcKeyBusy c then ReasonKeyBusy else ReasonBusy)
                   ''one or more providers rate-limited or reported key busy during retry lookup'' (pcBusy c))\<lparr>beRetryAfter := after\<rparr>))) }
               else if length (pcInconclusive c) = 1 then do {
                 ok \<leftarrow> passes_filters (hd (pcInconclusive c)) pol req;
                 ret (if ok then GoOn (hd (pcInconclusive c))
                      else Answer (Inl (mk_error 504 ReasonUnknownOutcome (''retry lookup on provider '' @ quote (hd (pcInconclusive c)) @
                        '' was inconclusive: '' @ err_text (pcLastErr c)) (pcInconclusive c)))) }
               else ret (Answer (Inl (mk_error 504 ReasonUnknownOutcome (''retry lookup was inconclusive across multiple providers: '' @
                      err_text (pcLastErr c)) (pcInconclusive c)))) }))"

definition capable_targets :: "(string, target) gomap \<Rightarrow> target list" where
  "capable_targets targets = filter claim_capable (map snd targets)"

definition lookupRetryAll :: "(string, target) gomap \<Rightarrow> 'sel policy \<Rightarrow> bind_request \<Rightarrow> claim_request \<Rightarrow> gotime
    \<Rightarrow> lookup_phase act" where
  "lookupRetryAll targets pol req creq deadline =
     (let nonBatched = filter (\<lambda>t. tgCoalescer t = None) (capable_targets targets);
          all = stable_sort (\<lambda>x y. tgId x < tgId y) (capable_targets targets)
      in if all = [] then ret (GoOn [])
         else do {
           w \<leftarrow> (if nonBatched = [] then ret (0, True) else reserveLookupTokens deadline nonBatched);
           if \<not> snd w then do {
             after \<leftarrow> jitter (fst w);
             ret (Answer (Inl ((mk_error 429 ReasonRateLimited ''lookup rate limit exceeded during retry probe'' (map tgId all))
               \<lparr>beRetryAfter := after\<rparr>))) }
           else do {
             slept \<leftarrow> (if fst w > 0 then do { now \<leftarrow> get_now; sleepUntil (now + fst w) } else ret True);
             if \<not> slept then
               ret (Answer (Inl (mk_error 504 ReasonUnknownOutcome ''request cancelled while waiting for retry lookup tokens'' [])))
             else do {
               outcomes \<leftarrow> probe_all creq deadline all;
               probe_verdict pol req outcomes } } })"

section \<open>The candidates of one decision\<close>

record loop_state =
  lsTried :: "string list"
  lsSlotsFull :: "(string, nat) gomap"
  lsOverRate :: "(string, duration) gomap"
  lsCooldown :: "(string, duration) gomap"
  lsMaxCooldownWait :: duration
  lsSpills :: int
  lsWaited :: bool
  lsRejected :: nat
  lsUnavailable :: nat
  lsBusy :: nat
  lsMaxBusyWait :: duration
  lsLastErr :: "bind_error option"
  lsLastExplanation :: string

definition loop_init :: loop_state where
  "loop_init = \<lparr>lsTried = [], lsSlotsFull = [], lsOverRate = [], lsCooldown = [], lsMaxCooldownWait = 0, lsSpills = 0,
     lsWaited = False, lsRejected = 0, lsUnavailable = 0, lsBusy = 0, lsMaxBusyWait = 0, lsLastErr = None, lsLastExplanation = []\<rparr>"

text \<open>\<open>health.isUsable\<close>, which may launch a probe: the probe itself is another goroutine.\<close>

definition check_usable :: "target \<Rightarrow> gotime \<Rightarrow> bool act" where
  "check_usable t now = do {
     e \<leftarrow> tick;
     b \<leftarrow> peek;
     (case isUsable now (pvBinder (tgProv t)) (Some (b_slots b ! tgSlots t)) (Some (\<not> b_closing b)) (b_health b ! tgHealth t) of
        (usable, h, slots, attempts, launched) \<Rightarrow> do {
          modify_b (\<lambda>b. b\<lparr>b_health := (b_health b)[tgHealth t := h],
            b_slots := (case slots of None \<Rightarrow> b_slots b | Some s \<Rightarrow> (b_slots b)[tgSlots t := s]),
            b_activeAttempts := b_activeAttempts b + attempts\<rparr>);
          ret usable }) }"

text \<open>The body of the loop over the snapshot: the loop state and the candidate, if it stays one.\<close>

definition consider_one :: "(string, target) gomap \<Rightarrow> string \<Rightarrow> bind_request \<Rightarrow> profile \<Rightarrow> sched_request \<Rightarrow> gotime
    \<Rightarrow> candidate \<Rightarrow> loop_state \<Rightarrow> (loop_state \<times> candidate option) act" where
  "consider_one targets pinned req prof sreq now c ls =
     (if pinned \<noteq> [] \<and> cProvider c \<noteq> pinned then ret (ls, None)
      else if cProvider c \<in> set (lsTried ls) then ret (ls, None)
      else if go_get (lsSlotsFull ls) (cProvider c) \<noteq> None then ret (ls, None)
      else (case go_get targets (cProvider c) of
          None \<Rightarrow> ret (ls, None)
        | Some t \<Rightarrow>
            (if \<not> claim_capable t then ret (ls, None)
             else do {
               usable \<leftarrow> check_usable t now;
               if \<not> usable then ret (ls, None)
               else do {
                 e \<leftarrow> tick;
                 b \<leftarrow> peek;
                 if isRefused (cProvider c) (bqTemplate req) now b then ret (ls, None)
                 else (let c = (if length (tcTemplates (tgCfg t)) > 0 \<and> length (cTemplates c) = 0
                                then c\<lparr>cTemplates := tcTemplates (tgCfg t)\<rparr> else c)
                       in if \<not> passesHardFilters (pFilters prof) sreq c then ret (ls, Some c)
                          else do {
                            e \<leftarrow> tick;
                            b \<leftarrow> peek;
                            let wait = cooldownRemaining (cProvider c) now b;
                            if wait > 0 then
                              ret (ls\<lparr>lsCooldown := go_put (cProvider c) wait (lsCooldown ls),
                                      lsMaxCooldownWait := (if wait > lsMaxCooldownWait ls then wait else lsMaxCooldownWait ls)\<rparr>, None)
                            else if tcElastic (tgCfg t) \<or> cWarmCapacity c \<le> 0 then do {
                              ok \<leftarrow> allow (tgClaimRate t);
                              if \<not> ok then do {
                                e \<leftarrow> tick;
                                ret (ls\<lparr>lsOverRate := go_put (cProvider c) (timeUntilNextToken (evReserve e)) (lsOverRate ls)\<rparr>, None) }
                              else ret (ls, Some c) }
                            else ret (ls, Some c) }) } })))"

fun consider_all :: "(string, target) gomap \<Rightarrow> string \<Rightarrow> bind_request \<Rightarrow> profile \<Rightarrow> sched_request \<Rightarrow> gotime
    \<Rightarrow> candidate list \<Rightarrow> loop_state \<Rightarrow> (loop_state \<times> candidate list) act" where
  "consider_all targets pinned req prof sreq now [] ls = ret (ls, [])"
| "consider_all targets pinned req prof sreq now (c # cs) ls = do {
     r \<leftarrow> consider_one targets pinned req prof sreq now c ls;
     rs \<leftarrow> consider_all targets pinned req prof sreq now cs (fst r);
     ret (fst rs, (case snd r of None \<Rightarrow> [] | Some c \<Rightarrow> [c]) @ snd rs) }"

section \<open>The claim loop\<close>

definition spilled :: "string \<Rightarrow> decision \<Rightarrow> bind_error \<Rightarrow> loop_state \<Rightarrow> loop_state" where
  "spilled chosen dec berr ls =
     (let ls = ls\<lparr>lsTried := (if chosen \<in> set (lsTried ls) then lsTried ls else chosen # lsTried ls),
                  lsLastErr := Some berr, lsLastExplanation := Explain dec\<rparr>;
          ls = (case beReason berr of
                  ReasonRejected \<Rightarrow> ls\<lparr>lsRejected := lsRejected ls + 1\<rparr>
                | ReasonUnavailable \<Rightarrow> ls\<lparr>lsUnavailable := lsUnavailable ls + 1\<rparr>
                | ReasonBusy \<Rightarrow> ls\<lparr>lsBusy := lsBusy ls + 1,
                    lsMaxBusyWait := (if beRetryAfter berr > lsMaxBusyWait ls then beRetryAfter berr else lsMaxBusyWait ls)\<rparr>
                | _ \<Rightarrow> ls)
      in ls\<lparr>lsSpills := lsSpills ls + 1\<rparr>)"

datatype turn = Return "bind_error + bind_result" | Continue loop_state | Break loop_state | NoFuel

definition policy_error :: "'sel policy \<Rightarrow> string \<Rightarrow> bind_error" where
  "policy_error pol err = mk_error 422 ReasonInvalidPolicy (''policy '' @ poName pol @ '' is not usable: '' @ err) []"

definition nil_panic :: bind_error where
  "nil_panic = panic_error ''runtime error: invalid memory address or nil pointer dereference''"

text \<open>No candidate was chosen: wait once for a slot, or report why.\<close>

definition no_decision :: "gotime \<Rightarrow> loop_state \<Rightarrow> turn act" where
  "no_decision deadline ls =
     (if lsSlotsFull ls \<noteq> [] \<and> \<not> lsWaited ls then do {
        let ls = ls\<lparr>lsWaited := True\<rparr>;
        b \<leftarrow> peek;
        now \<leftarrow> get_now;
        let rem = time_sub deadline now;
        let waitDur = (if rem < b_queueTimeout b then rem else b_queueTimeout b);
        opened \<leftarrow> (if waitDur > 0 then do { e \<leftarrow> tick; ret (evTimer e) } else ret False);
        if opened then ret (Continue (ls\<lparr>lsSlotsFull := []\<rparr>))
        else do {
          after \<leftarrow> jitter (b_queueTimeout b);
          ret (Return (Inl ((mk_error 429 ReasonSlotsFull ''all viable providers have reached maxInFlight capacity''
            (sortedKeys (lsSlotsFull ls)))\<lparr>beRetryAfter := after\<rparr>))) } }
      else if lsOverRate ls \<noteq> [] then do {
        after \<leftarrow> jitter (fold (\<lambda>(p, w) m. if w < m then w else m) (tl (lsOverRate ls)) (snd (hd (lsOverRate ls))));
        ret (Return (Inl ((mk_error 429 ReasonRateLimited ''all viable providers exceeded spec.claims.maxRate''
          (sortedKeys (lsOverRate ls)))\<lparr>beRetryAfter := after\<rparr>))) }
      else ret (Break ls))"

definition decided :: "nat \<Rightarrow> (string, target) gomap \<Rightarrow> decision \<Rightarrow> candidate list \<Rightarrow> 'sel policy \<Rightarrow> bind_request
    \<Rightarrow> claim_request \<Rightarrow> gotime \<Rightarrow> loop_state \<Rightarrow> turn act" where
  "decided n targets dec candidates pol req creq deadline ls =
     (case go_get targets (dProvider dec) of
        None \<Rightarrow> ret (Return (Inl nil_panic))
      | Some t \<Rightarrow> do {
          got \<leftarrow> try_slot (tgSlots t);
          if \<not> got then ret (Continue (ls\<lparr>lsSlotsFull := go_put (dProvider dec) (tgSlots t) (lsSlotsFull ls)\<rparr>))
          else do {
            a \<leftarrow> attemptProvider n t dec candidates pol req creq deadline;
            ret (case a of
                None \<Rightarrow> NoFuel
              | Some (res, berr, act) \<Rightarrow>
                  (case act of
                     AttemptDone \<Rightarrow> Return (case res of Some r \<Rightarrow> Inr r | None \<Rightarrow> Inl (the berr))
                   | AttemptRetryDecision \<Rightarrow> Continue ls
                   | AttemptSpill \<Rightarrow> Continue (spilled (dProvider dec) dec (the berr) ls))) } })"

definition loop_turn :: "nat \<Rightarrow> (string, target) gomap \<Rightarrow> string \<Rightarrow> 'sel policy \<Rightarrow> bind_request \<Rightarrow> claim_request \<Rightarrow> gotime
    \<Rightarrow> loop_state \<Rightarrow> turn act" where
  "loop_turn n targets pinned pol req creq deadline ls = do {
     c \<leftarrow> ctx_done;
     if c \<and> lsTried ls \<noteq> [] then ret (Break ls)
     else do {
       snaps \<leftarrow> snapshot;
       if snaps = [] then
         ret (Return (Inl (mk_error 503 ReasonNoProviders ''no providers are configured; create a SandboxProvider'' [])))
       else (case buildScheduleProfile pol req snaps of
           None \<Rightarrow> ret (Return (Inl nil_panic))
         | Some (Inl err) \<Rightarrow> ret (Return (Inl (policy_error pol err)))
         | Some (Inr (fprof, fsreq)) \<Rightarrow> do {
             now \<leftarrow> get_now;
             r \<leftarrow> consider_all targets pinned req fprof fsreq now snaps ls;
             (case buildScheduleProfile pol req (snd r) of
                None \<Rightarrow> ret (Return (Inl nil_panic))
              | Some (Inl err) \<Rightarrow> ret (Return (Inl (policy_error pol err)))
              | Some (Inr (prof, sreq)) \<Rightarrow>
                  (if snd r = [] then no_decision deadline (fst r)
                   else do {
                     e \<leftarrow> tick;
                     (case Schedule (evRnd e) prof sreq (snd r) of
                        Inl results \<Rightarrow> no_decision deadline ((fst r)\<lparr>lsLastExplanation := ExplainResults results\<rparr>)
                      | Inr dec \<Rightarrow> decided n targets dec (snd r) pol req creq deadline (fst r)) })) }) } }"

text \<open>After the loop: what the tried providers said, then cooldowns, then no capacity.\<close>

definition loop_end :: "loop_state \<Rightarrow> bind_error act" where
  "loop_end ls =
     (let triedList = sort_strings (lsTried ls); n = length (lsTried ls);
          msg = (\<lambda>d. case lsLastErr ls of None \<Rightarrow> d | Some e \<Rightarrow> beMessage e)
      in if n > 0 \<and> lsRejected ls = n then
           ret ((mk_error 422 ReasonRejected (msg ''all candidate providers rejected the claim'') triedList)
             \<lparr>beExplanation := lsLastExplanation ls\<rparr>)
         else if n > 0 \<and> lsBusy ls > 0 \<and> lsUnavailable ls = 0 \<and> lsRejected ls + lsBusy ls = n then do {
           after \<leftarrow> jitter (lsMaxBusyWait ls);
           ret ((mk_error 429 ReasonBusy ''candidate providers rate-limited the claim'' triedList)
             \<lparr>beRetryAfter := after, beExplanation := lsLastExplanation ls\<rparr>) }
         else if n > 0 \<and> lsUnavailable ls > 0 \<and> lsUnavailable ls + lsBusy ls + lsRejected ls = n then do {
           after \<leftarrow> (if lsMaxBusyWait ls > 0 then jitter (lsMaxBusyWait ls) else ret 0);
           ret ((mk_error 503 ReasonUnavailable (msg ''candidate providers were unavailable'') triedList)
             \<lparr>beRetryAfter := after, beExplanation := lsLastExplanation ls\<rparr>) }
         else if lsCooldown ls \<noteq> [] then do {
           after \<leftarrow> jitter (lsMaxCooldownWait ls);
           ret ((mk_error 429 ReasonBusy ''viable providers are in rate-limit cooldown'' (sortedKeys (lsCooldown ls)))
             \<lparr>beRetryAfter := after\<rparr>) }
         else ret ((mk_error 409 ReasonNoCapacity (msg ''no provider had capacity to serve the claim'') triedList)
             \<lparr>beExplanation := lsLastExplanation ls\<rparr>))"

fun claimLoop :: "nat \<Rightarrow> (string, target) gomap \<Rightarrow> string \<Rightarrow> 'sel policy \<Rightarrow> bind_request \<Rightarrow> claim_request \<Rightarrow> gotime
    \<Rightarrow> loop_state \<Rightarrow> (bind_error + bind_result) option act" where
  "claimLoop 0 targets pinned pol req creq deadline ls = ret None"
| "claimLoop (Suc n) targets pinned pol req creq deadline ls = do {
     b \<leftarrow> peek;
     now \<leftarrow> (if lsSpills ls < b_maxSpill b then get_now else ret deadline);
     if \<not> now < deadline then do { e \<leftarrow> loop_end ls; ret (Some (Inl e)) }
     else do {
       t \<leftarrow> loop_turn n targets pinned pol req creq deadline ls;
       (case t of
          Return r \<Rightarrow> ret (Some r)
        | Continue ls \<Rightarrow> claimLoop n targets pinned pol req creq deadline ls
        | Break ls \<Rightarrow> do { e \<leftarrow> loop_end ls; ret (Some (Inl e)) }
        | NoFuel \<Rightarrow> ret None) } }"

section \<open>One flight\<close>

definition flight_deadline :: "gotime \<Rightarrow> binder_state \<Rightarrow> bind_request \<Rightarrow> gotime" where
  "flight_deadline now b req =
     now + (if bqTimeout req > 0 \<and> bqTimeout req < b_claimTimeout b then bqTimeout req else b_claimTimeout b)"

text \<open>The lookups of pinned requests, of retries, and of all requests while forgotten flights may be alive.\<close>

definition flight_lookup :: "gotime \<Rightarrow> (string, target) gomap \<Rightarrow> 'sel policy \<Rightarrow> bind_request \<Rightarrow> claim_request \<Rightarrow> gotime
    \<Rightarrow> lookup_phase act" where
  "flight_lookup now targets pol req creq deadline =
     (if bqPinProvider req \<noteq> [] then lookupPinned targets (bqPinProvider req) pol req creq deadline
      else do {
        again \<leftarrow> (if bqRetry req then ret True
          else do { e \<leftarrow> tick; b \<leftarrow> peek; ret (hasEvictedUnexpired now b) });
        if again then lookupRetryAll targets pol req creq deadline else ret (GoOn []) })"

definition flight_claim :: "nat \<Rightarrow> (string, target) gomap \<Rightarrow> 'sel policy \<Rightarrow> bind_request \<Rightarrow> claim_request \<Rightarrow> gotime
    \<Rightarrow> lookup_phase \<Rightarrow> (bind_error + bind_result) option act" where
  "flight_claim n targets pol req creq deadline phase =
     (case phase of
        Answer r \<Rightarrow> ret (Some r)
      | GoOn pinned \<Rightarrow> claimLoop n targets pinned pol req creq deadline loop_init)"

definition executeFlight :: "nat \<Rightarrow> 'sel policy option \<Rightarrow> bind_request \<Rightarrow> claim_request
    \<Rightarrow> (bind_error + bind_result) option act" where
  "executeFlight n pol req creq = do {
     now \<leftarrow> get_now;
     b \<leftarrow> peek;
     let pol = (case pol of None \<Rightarrow> DefaultPolicy | Some p \<Rightarrow> p);
     let deadline = flight_deadline now b req;
     phase \<leftarrow> flight_lookup now (b_targets b) pol req creq deadline;
     flight_claim n (b_targets b) pol req creq deadline phase }"

end
