(* ===== verification/BinderOps.thy ===== *)
theory BinderOps
  imports ClaimLoop
begin

text \<open>
  \<open>pkg/binder/binder.go\<close>, the operations clients call, composed of their locked sections and calls: \<open>Bind\<close>,
  \<open>Release\<close> and \<open>ReleaseByKey\<close>. A panic of an adapter leaves \<open>Release\<close> and \<open>ReleaseByKey\<close> as a panic; \<open>Bind\<close>
  recovers from it.
\<close>

section \<open>Release\<close>

definition classifyReleaseError :: "rat \<Rightarrow> string \<Rightarrow> go_error \<Rightarrow> bind_error" where
  "classifyReleaseError r providerID err =
     (case KindOf (Some err) of
        KindBusy \<Rightarrow> (mk_error 429 ReasonBusy (error_string err) [providerID])\<lparr>beRetryAfter := jitterDelay r (RetryAfterOf (Some err))\<rparr>
      | KindKeyBusy \<Rightarrow> (mk_error 429 ReasonBusy (error_string err) [providerID])\<lparr>beRetryAfter := jitterDelay r (RetryAfterOf (Some err))\<rparr>
      | KindRejected \<Rightarrow> mk_error 422 ReasonRejected (error_string err) [providerID]
      | KindKeyConflict \<Rightarrow> mk_error 422 ReasonRejected (error_string err) [providerID]
      | _ \<Rightarrow> mk_error 504 ReasonUnknownOutcome (error_string err) [providerID])"

definition classify_release :: "string \<Rightarrow> go_error \<Rightarrow> bind_error act" where
  "classify_release providerID err = do { r \<leftarrow> get_rand; ret (classifyReleaseError r providerID err) }"

text \<open>The hold-off of a newly elected leader, for releases: the error if it is not over.\<close>

definition release_held :: "string list \<Rightarrow> bind_error option act" where
  "release_held provs = do {
     now \<leftarrow> get_now;
     e \<leftarrow> tick;
     b \<leftarrow> peek;
     if holdOffRemaining now b > 0 then do {
       r \<leftarrow> get_rand;
       ret (Some (hold_off_error r (holdOffRemaining now b)
         ''newly elected leader is holding off requests while pre-failover attempts settle'' provs)) }
     else ret None }"

definition release_shutdown :: "string \<Rightarrow> bind_error" where
  "release_shutdown providerID = mk_error 503 ReasonUnavailable ''scheduler is shutting down'' [providerID]"

text \<open>A call to \<open>Release\<close> of an adapter: the context has only the timeout of the target.\<close>

definition release_call :: "target \<Rightarrow> handle \<Rightarrow> go_error option adapter act" where
  "release_call t h = do {
     e \<leftarrow> tick;
     (case evError e of
        AdapterPanic m \<Rightarrow> ret (AdapterPanic m)
      | Returned err \<Rightarrow> do { emit (EvRelease (tgId t) h (tcTimeout (tgCfg t)) err); ret (Returned err) }) }"

definition Release :: "string \<Rightarrow> string \<Rightarrow> bind_error option adapter act" where
  "Release providerID sandboxID = do {
     held \<leftarrow> release_held [providerID];
     (case held of
        Some err \<Rightarrow> ret (Returned (Some err))
      | None \<Rightarrow> do {
          e \<leftarrow> tick;
          b \<leftarrow> peek;
          (case go_get (b_targets b) providerID of
             None \<Rightarrow> ret (Returned (Some (mk_error 404 ReasonNoProviders
               (''provider '' @ quote providerID @ '' is not registered or not claim-capable'') [providerID])))
           | Some t \<Rightarrow>
               (if \<not> claim_capable t then
                  ret (Returned (Some (mk_error 404 ReasonNoProviders
                    (''provider '' @ quote providerID @ '' is not registered or not claim-capable'') [providerID])))
                else do {
                  ok \<leftarrow> start_attempt;
                  if \<not> ok then ret (Returned (Some (release_shutdown providerID)))
                  else do {
                    res \<leftarrow> release_call t (empty_handle\<lparr>hProvider := providerID, hID := sandboxID\<rparr>);
                    (case res of
                       AdapterPanic m \<Rightarrow> do { locked finishAttempt; ret (AdapterPanic m) }
                     | Returned err \<Rightarrow>
                         (if (case err of None \<Rightarrow> True | Some e \<Rightarrow> is_not_found e) then do {
                            locked (evictCompletedFlight providerID sandboxID);
                            locked finishAttempt;
                            ret (Returned None) }
                          else do {
                            berr \<leftarrow> classify_release providerID (the err);
                            locked finishAttempt;
                            ret (Returned (Some berr)) })) } })) }) }"

section \<open>Release by key\<close>

text \<open>One target of the last loop: \<open>Some None\<close> goes on to the next. A panic leaves the attempt counted.\<close>

definition release_lookup :: "target \<Rightarrow> claim_request \<Rightarrow> (handle \<times> go_error option) adapter act" where
  "release_lookup t creq = do {
     e \<leftarrow> tick;
     (case evHandle e of
        AdapterPanic m \<Rightarrow> ret (AdapterPanic m)
      | Returned r \<Rightarrow> do { emit (EvLookup (tgId t) creq (tcTimeout (tgCfg t)) r); ret (Returned r) }) }"

definition release_target :: "string \<Rightarrow> string \<Rightarrow> target \<Rightarrow> bind_error option adapter act" where
  "release_target key providerID t = do {
     ok \<leftarrow> start_attempt;
     if \<not> ok then ret (Returned (Some (release_shutdown providerID)))
     else do {
       b \<leftarrow> peek;
       l \<leftarrow> release_lookup t
              \<lparr>crTemplate = [], crKey = key, crSpecHash = [], crOwner = b_owner b, crLabels = [], crTTL = 0\<rparr>;
       (case l of
          AdapterPanic m \<Rightarrow> ret (AdapterPanic m)
        | Returned (h, err) \<Rightarrow>
            (case err of
               Some lerr \<Rightarrow>
                 (if \<not> is_not_found lerr then do {
                    locked finishAttempt;
                    berr \<leftarrow> classify_release providerID lerr;
                    ret (Returned (Some berr)) }
                  else do { locked finishAttempt; ret (Returned None) })
             | None \<Rightarrow>
                 (if hID h = [] then do { locked finishAttempt; ret (Returned None) }
                  else do {
                    rel \<leftarrow> release_call t (empty_handle\<lparr>hProvider := providerID, hID := hID h, hVersion := hVersion h\<rparr>);
                    (case rel of
                       AdapterPanic m \<Rightarrow> ret (AdapterPanic m)
                     | Returned relErr \<Rightarrow>
                         (if (case relErr of None \<Rightarrow> True | Some e \<Rightarrow> is_not_found e) then do {
                            locked (evictCompletedFlight providerID (hID h));
                            locked finishAttempt;
                            ret (Returned None) }
                          else do {
                            locked finishAttempt;
                            berr \<leftarrow> classify_release providerID (the relErr);
                            ret (Returned (Some berr)) })) }))) } }"

fun release_targets :: "string \<Rightarrow> (string, target) gomap \<Rightarrow> bind_error option adapter act" where
  "release_targets key [] = ret (Returned None)"
| "release_targets key ((providerID, t) # ts) =
     (if \<not> claim_capable t then release_targets key ts
      else do {
        r \<leftarrow> release_target key providerID t;
        (case r of
           Returned None \<Rightarrow> release_targets key ts
         | _ \<Rightarrow> ret r) })"

text \<open>Waiting for the flight of the key: the error when the context ends first.\<close>

definition release_await :: "string \<Rightarrow> string \<Rightarrow> bind_error option act" where
  "release_await key ctx_err = do {
     e \<leftarrow> tick;
     b \<leftarrow> peek;
     (case release_wait key b of
        None \<Rightarrow> ret None
      | Some ref \<Rightarrow> do {
          e \<leftarrow> tick;
          b \<leftarrow> peek;
          ret (if flDone (flight_of b ref) \<and> evTimer e then None
               else Some (mk_error 504 ReasonUnknownOutcome ctx_err [])) }) }"

definition ReleaseByKey :: "string \<Rightarrow> string \<Rightarrow> bind_error option adapter act" where
  "ReleaseByKey ctx_err key = do {
     held \<leftarrow> release_held [];
     (case held of
        Some err \<Rightarrow> ret (Returned (Some err))
      | None \<Rightarrow> do {
          b \<leftarrow> peek;
          (case ValidateWithDomain \<lparr>crTemplate = [], crKey = key, crSpecHash = [], crOwner = b_owner b, crLabels = [],
                  crTTL = second\<rparr> (b_maxTTL b) (b_allowedLabelDomain b) of
             Some err \<Rightarrow> ret (Returned (Some (mk_error 400 ReasonInvalidRequest (error_string err) [])))
           | None \<Rightarrow> do {
               w \<leftarrow> release_await key ctx_err;
               (case w of
                  Some err \<Rightarrow> ret (Returned (Some err))
                | None \<Rightarrow> do {
                    e \<leftarrow> tick;
                    b \<leftarrow> peek;
                    (case release_cached key b of
                       Some (p, i) \<Rightarrow> do {
                         r \<leftarrow> Release p i;
                         (case r of
                            Returned None \<Rightarrow> do { locked (release_forget key); ret (Returned None) }
                          | _ \<Rightarrow> ret r) }
                     | None \<Rightarrow> do {
                         e \<leftarrow> tick;
                         b \<leftarrow> peek;
                         r \<leftarrow> release_targets key (b_targets b);
                         (case r of
                            Returned None \<Rightarrow> do { locked (release_forget key); ret (Returned None) }
                          | _ \<Rightarrow> ret r) }) }) }) }) }"

section \<open>Bind\<close>

definition joinFlight :: "string \<Rightarrow> 'sel policy option \<Rightarrow> bind_request \<Rightarrow> nat \<Rightarrow> (bind_error + bind_result) act" where
  "joinFlight spec pol req ref = do {
     e \<leftarrow> tick;
     b \<leftarrow> peek;
     (case join_begin (evRand e) (bqKey req) spec ref b of
        (b', Some err) \<Rightarrow> do { modify_b (\<lambda>_. b'); ret (Inl err) }
      | (b', None) \<Rightarrow> do {
          modify_b (\<lambda>_. b');
          e \<leftarrow> tick;
          b \<leftarrow> peek;
          r \<leftarrow> ret (if flDone (flight_of b ref) \<and> evTimer e then
                   (case join_result (evNow e) pol req ref b of None \<Rightarrow> Inl nil_panic | Some x \<Rightarrow> x)
                 else Inl join_cancelled);
          locked (join_leave ref);
          ret r }) }"

text \<open>
  A request in flight is counted in \<open>inFlight\<close> from its start to its end. The recovery of the deferred function
  turns a panic of \<open>executeFlight\<close> into an answer; the ones the code can cause by itself are the \<open>nil_panic\<close>
  answers of the claim loop.
\<close>

definition bind_flight :: "nat \<Rightarrow> 'sel policy option \<Rightarrow> bind_request \<Rightarrow> claim_request \<Rightarrow> (bind_error + bind_result) option act" where
  "bind_flight n pol req creq = do {
     e \<leftarrow> tick;
     b \<leftarrow> peek;
     (case flight_enter (evNow e) (bqKey req) (crSpecHash creq) b of
        (b', Inl ref) \<Rightarrow> do {
          modify_b (\<lambda>_. b');
          r \<leftarrow> joinFlight (crSpecHash creq) pol req ref;
          ret (Some r) }
      | (b', Inr ref) \<Rightarrow> do {
          modify_b (\<lambda>_. b');
          r \<leftarrow> executeFlight n pol req creq;
          (case r of
             None \<Rightarrow> ret None
           | Some out \<Rightarrow> do {
               now \<leftarrow> get_now;
               locked (flight_finish now (crTTL creq) (bqKey req) ref
                 (case out of Inl err \<Rightarrow> (None, Some err) | Inr res \<Rightarrow> (Some res, None)));
               ret (Some out) }) }) }"

definition Bind :: "nat \<Rightarrow> (string \<Rightarrow> string) \<Rightarrow> 'sel policy option \<Rightarrow> bind_request \<Rightarrow> (bind_error + bind_result) option act" where
  "Bind n sha pol req = do {
     locked (\<lambda>b. b\<lparr>b_inFlight := b_inFlight b + 1\<rparr>);
     b \<leftarrow> peek;
     now \<leftarrow> get_now;
     r \<leftarrow> get_rand;
     out \<leftarrow> (case bind_admit sha now r req b of
        Inl err \<Rightarrow> ret (Some (Inl err))
      | Inr creq \<Rightarrow> bind_flight n pol req creq);
     locked (\<lambda>b. b\<lparr>b_inFlight := b_inFlight b - 1\<rparr>);
     ret out }"

end
