(* ===== verification/ClaimLogic.thy ===== *)
theory ClaimLogic
  imports BinderOps
begin

text \<open>
  Reasoning about the effects of a claim. \<open>moves R m\<close>: every run of \<open>m\<close> takes a world to one related by \<open>R\<close>;
  \<open>forward\<close> says that time goes on in the same environment, \<open>quiet\<close> that no adapter is called as well.
  \<open>valid P m Q\<close> is a triple over the calls to adapters.
\<close>

section \<open>Runs that move the world\<close>

named_theorems run_simps "running the operations of the monad"
named_theorems moves_intro "what composed operations do to the world"

lemma run_bind [run_simps]: "run_state (State_Monad.bind m f) w = (case run_state m w of (a, w') \<Rightarrow> run_state (f a) w')"
  by (cases m) (simp add: State_Monad.bind_def split: prod.splits)

lemma run_return [run_simps]: "run_state (ret x) w = (x, w)"
  by (simp add: State_Monad.return_def)

lemmas run_elementary [run_simps] = tick_def peek_def modify_b_def emit_def

definition is_call :: "event \<Rightarrow> bool" where
  "is_call ev \<longleftrightarrow> (case ev of EvClaim _ _ _ _ \<Rightarrow> True | EvLookup _ _ _ _ \<Rightarrow> True | _ \<Rightarrow> False)"

lemma is_call_simps [simp]:
  "is_call (EvClaim p c d r)" "is_call (EvLookup p c d r)" "\<not> is_call (EvRelease p h d e)" "\<not> is_call (EvReserved n)"
  "\<not> is_call (EvCancelled n)" "\<not> is_call (EvWarm t)" "\<not> is_call (EvTicketBack t)" "\<not> is_call (EvCold p)"
  by (simp_all add: is_call_def)

definition calls :: "world \<Rightarrow> event list" where
  "calls w = filter is_call (wLog w)"

definition forward :: "world \<Rightarrow> world \<Rightarrow> bool" where
  "forward w w' \<longleftrightarrow> wEnv w' = wEnv w \<and> wTick w \<le> wTick w'"

definition quiet :: "world \<Rightarrow> world \<Rightarrow> bool" where
  "quiet w w' \<longleftrightarrow> forward w w' \<and> calls w' = calls w"

definition moves :: "(world \<Rightarrow> world \<Rightarrow> bool) \<Rightarrow> 'a act \<Rightarrow> bool" where
  "moves R m \<longleftrightarrow> (\<forall>w. R w (snd (run_state m w)))"

lemma movesD: "moves R m \<Longrightarrow> run_state m w = (a, w') \<Longrightarrow> R w w'"
  by (simp add: moves_def) (metis snd_conv)

definition preorder :: "(world \<Rightarrow> world \<Rightarrow> bool) \<Rightarrow> bool" where
  "preorder R \<longleftrightarrow> reflp R \<and> transp R"

lemma preorder_forward [simp]: "preorder forward"
  by (auto simp: preorder_def forward_def reflp_def transp_def)

lemma preorder_quiet [simp]: "preorder quiet"
  by (auto simp: preorder_def quiet_def forward_def reflp_def transp_def)

lemma moves_return [moves_intro]: "preorder R \<Longrightarrow> moves R (ret x)"
  by (simp add: moves_def run_simps preorder_def reflp_def)

lemma moves_bind [moves_intro]:
  "preorder R \<Longrightarrow> moves R m \<Longrightarrow> (\<And>x. moves R (f x)) \<Longrightarrow> moves R (State_Monad.bind m f)"
  unfolding moves_def preorder_def by (auto simp: run_simps split: prod.splits) (metis snd_conv transpE)

lemma moves_if [moves_intro]: "(c \<Longrightarrow> moves R m) \<Longrightarrow> (\<not> c \<Longrightarrow> moves R m') \<Longrightarrow> moves R (if c then m else m')"
  by simp

lemma moves_option [moves_intro]: "(x = None \<Longrightarrow> moves R m) \<Longrightarrow> (\<And>y. x = Some y \<Longrightarrow> moves R (f y)) \<Longrightarrow> moves R (case x of None \<Rightarrow> m | Some y \<Rightarrow> f y)"
  by (cases x) simp_all

lemma moves_sum [moves_intro]: "(\<And>y. x = Inl y \<Longrightarrow> moves R (f y)) \<Longrightarrow> (\<And>y. x = Inr y \<Longrightarrow> moves R (g y)) \<Longrightarrow> moves R (case x of Inl y \<Rightarrow> f y | Inr y \<Rightarrow> g y)"
  by (cases x) simp_all

lemma moves_prod [moves_intro]: "(\<And>a b. x = (a, b) \<Longrightarrow> moves R (f a b)) \<Longrightarrow> moves R (case x of (a, b) \<Rightarrow> f a b)"
  by (cases x) simp

lemma moves_let [moves_intro]: "(\<And>y. moves R (f y)) \<Longrightarrow> moves R (let y = x in f y)"
  by simp

lemma moves_adapter [moves_intro]:
  "(\<And>y. moves R (f y)) \<Longrightarrow> (\<And>y. moves R (g y)) \<Longrightarrow> moves R (case x of AdapterPanic y \<Rightarrow> f y | Returned y \<Rightarrow> g y)"
  by (cases x) simp_all

lemma moves_kind [moves_intro]:
  "moves R a \<Longrightarrow> moves R b \<Longrightarrow> moves R c \<Longrightarrow> moves R d \<Longrightarrow> moves R e \<Longrightarrow> moves R f \<Longrightarrow> moves R g \<Longrightarrow> (\<And>i. moves R (h i)) \<Longrightarrow>
   moves R (case k of KindUnknownOutcome \<Rightarrow> a | KindNoCapacity \<Rightarrow> b | KindUnavailable \<Rightarrow> c | KindRejected \<Rightarrow> d | KindBusy \<Rightarrow> e | KindKeyConflict \<Rightarrow> f | KindKeyBusy \<Rightarrow> g | KindOther i \<Rightarrow> h i)"
  by (cases k) simp_all

lemma quiet_forward: "moves quiet m \<Longrightarrow> moves forward m"
  by (simp add: moves_def quiet_def)

lemma quiet_tick [moves_intro]: "moves quiet tick"
  by (simp add: moves_def run_simps quiet_def forward_def calls_def Let_def)

lemma quiet_peek [moves_intro]: "moves quiet peek"
  by (simp add: moves_def run_simps quiet_def forward_def calls_def)

lemma quiet_modify [moves_intro]: "moves quiet (modify_b f)"
  by (simp add: moves_def run_simps quiet_def forward_def calls_def)

lemma quiet_emit [moves_intro]: "\<not> is_call ev \<Longrightarrow> moves quiet (emit ev)"
  by (simp add: moves_def run_simps quiet_def forward_def calls_def)

lemma forward_emit [moves_intro]: "moves forward (emit ev)"
  by (simp add: moves_def run_simps forward_def)

section \<open>The elementary operations are quiet\<close>

lemmas forward_elementary [moves_intro] =
  quiet_tick [THEN quiet_forward] quiet_peek [THEN quiet_forward] quiet_modify [THEN quiet_forward]

lemma quiet_clock: "moves quiet get_now" "moves quiet ctx_done" "moves quiet get_rand"
  by (simp_all add: get_now_def ctx_done_def get_rand_def moves_intro)

lemma quiet_locked: "moves quiet (locked f)"
  unfolding locked_def by (intro moves_intro) simp_all

lemma quiet_jitter: "moves quiet (jitter d)"
  unfolding jitter_def by (intro moves_intro quiet_clock) simp_all

lemma quiet_attempt: "moves quiet start_attempt"
  unfolding start_attempt_def by (intro moves_intro) simp_all

lemma quiet_slot: "moves quiet (try_slot ref)" "moves quiet (free_slot ref)" "moves quiet (on_health ref f)"
  unfolding try_slot_def free_slot_def on_health_def by (intro moves_intro quiet_locked; simp)+

lemma quiet_warm: "moves quiet (reserve_warm pid)" "moves quiet (give_back tk)" "moves quiet (record_cold pid)"
  unfolding reserve_warm_def give_back_def record_cold_def by (intro moves_intro quiet_locked; simp)+

lemma quiet_reads: "moves quiet snapshot" "moves quiet (passes_filters pid pol req)" "moves quiet (allow ref)"
  unfolding snapshot_def passes_filters_def allow_def by (intro moves_intro; simp)+

lemma quiet_tokens: "moves quiet (reserve_token ref)" "moves quiet (cancel_token ref)"
  unfolding reserve_token_def cancel_token_def by (intro moves_intro; simp)+

lemma quiet_sleep: "moves quiet (sleepUntil target)"
  unfolding sleepUntil_def by (intro moves_intro quiet_clock) simp_all

lemmas quiet_basic [moves_intro] = quiet_clock quiet_locked quiet_jitter quiet_attempt quiet_slot quiet_warm quiet_reads
  quiet_tokens quiet_sleep

lemmas forward_basic [moves_intro] = quiet_basic [THEN quiet_forward]

lemma quiet_cancel_all: "moves quiet (cancel_all refs)"
  by (induction refs) (auto intro!: moves_intro)

lemma quiet_reserve_loop: "moves quiet (reserve_loop got d ts)"
  by (induction ts arbitrary: got d) (auto intro!: moves_intro quiet_cancel_all)

lemma quiet_reserve: "moves quiet (reserveLookupTokens deadline ts)"
  unfolding reserveLookupTokens_def by (intro moves_intro quiet_cancel_all quiet_reserve_loop) simp_all

lemma quiet_on_refusal: "moves quiet (on_refusal t req tk err j a)"
  unfolding on_refusal_def by (cases "KindOf (Some err)"; simp; intro moves_intro; simp)

lemma quiet_outcome: "moves quiet (success t pol dec h replay tk)" "moves quiet (key_busy_error t err)"
  "moves quiet (retry_capacity t req)"
  unfolding success_def key_busy_error_def retry_capacity_def by (intro moves_intro; simp)+

lemma quiet_wait: "moves quiet (wait_token ref deadline)" "moves quiet (loop_open deadline)"
  unfolding wait_token_def loop_open_def by (intro moves_intro; simp)+

lemma quiet_gate: "moves quiet (recovery_gate t n deadline)"
  unfolding recovery_gate_def by (intro moves_intro quiet_wait) simp_all

lemma quiet_capacity: "moves quiet (attempt_capacity t hadWarm)"
  unfolding attempt_capacity_def by (intro moves_intro) simp_all

lemma quiet_classify: "moves quiet (classify outs c)"
proof (induction outs arbitrary: c)
  case (Cons x outs)
  obtain t h err where "x = (t, h, err)" by (cases x)
  with Cons show ?case unfolding classify.simps by (auto intro!: moves_intro simp: Let_def)
qed (simp add: moves_intro)

lemma quiet_verdict: "moves quiet (probe_verdict pol req outs)"
  unfolding probe_verdict_def by (intro moves_intro quiet_classify) simp_all

lemma quiet_usable: "moves quiet (check_usable t now)"
  unfolding check_usable_def by (intro moves_intro) simp_all

lemma quiet_consider_one: "moves quiet (consider_one targets pinned req prof sreq now c ls)"
  unfolding consider_one_def by (intro moves_intro quiet_usable) simp_all

lemma quiet_consider_all: "moves quiet (consider_all targets pinned req prof sreq now cs ls)"
  by (induction cs arbitrary: ls) (auto intro!: moves_intro quiet_consider_one)

lemma quiet_no_decision: "moves quiet (no_decision deadline ls)"
  unfolding no_decision_def by (intro moves_intro) simp_all

lemma quiet_loop_end: "moves quiet (loop_end ls)"
  unfolding loop_end_def by (intro moves_intro) simp_all

lemmas quiet_parts [moves_intro] = quiet_cancel_all quiet_reserve quiet_on_refusal quiet_outcome quiet_wait quiet_gate
  quiet_capacity quiet_classify quiet_verdict quiet_consider_all quiet_no_decision quiet_loop_end

lemmas forward_parts [moves_intro] = quiet_parts [THEN quiet_forward]

section \<open>What a run returns\<close>

definition yields :: "('a \<Rightarrow> bool) \<Rightarrow> 'a act \<Rightarrow> bool" where
  "yields \<Phi> m \<longleftrightarrow> (\<forall>w. \<Phi> (fst (run_state m w)))"

named_theorems yields_intro "what composed operations return"

lemma yields_return [yields_intro]: "\<Phi> x \<Longrightarrow> yields \<Phi> (ret x)"
  by (simp add: yields_def run_simps)

lemma yields_bind: "yields \<Psi> m \<Longrightarrow> (\<And>x. \<Psi> x \<Longrightarrow> yields \<Phi> (f x)) \<Longrightarrow> yields \<Phi> (State_Monad.bind m f)"
  by (auto simp: yields_def run_simps split: prod.splits) (metis fst_conv)

lemma yields_then [yields_intro]: "(\<And>x. yields \<Phi> (f x)) \<Longrightarrow> yields \<Phi> (State_Monad.bind m f)"
  by (auto simp: yields_def run_simps split: prod.splits)

lemma yields_if [yields_intro]: "(c \<Longrightarrow> yields \<Phi> m) \<Longrightarrow> (\<not> c \<Longrightarrow> yields \<Phi> m') \<Longrightarrow> yields \<Phi> (if c then m else m')"
  by simp

lemma yields_let [yields_intro]: "(\<And>y. y = x \<Longrightarrow> yields \<Phi> (f y)) \<Longrightarrow> yields \<Phi> (let y = x in f y)"
  by simp

lemma yields_option [yields_intro]: "(x = None \<Longrightarrow> yields \<Phi> m) \<Longrightarrow> (\<And>y. x = Some y \<Longrightarrow> yields \<Phi> (f y)) \<Longrightarrow> yields \<Phi> (case x of None \<Rightarrow> m | Some y \<Rightarrow> f y)"
  by (cases x) simp_all

lemma yields_sum [yields_intro]: "(\<And>y. x = Inl y \<Longrightarrow> yields \<Phi> (f y)) \<Longrightarrow> (\<And>y. x = Inr y \<Longrightarrow> yields \<Phi> (g y)) \<Longrightarrow> yields \<Phi> (case x of Inl y \<Rightarrow> f y | Inr y \<Rightarrow> g y)"
  by (cases x) simp_all

lemma yields_prod [yields_intro]: "(\<And>a b. x = (a, b) \<Longrightarrow> yields \<Phi> (f a b)) \<Longrightarrow> yields \<Phi> (case x of (a, b) \<Rightarrow> f a b)"
  by (cases x) simp

lemma yields_kind [yields_intro]:
  "yields \<Phi> a \<Longrightarrow> yields \<Phi> b \<Longrightarrow> yields \<Phi> c \<Longrightarrow> yields \<Phi> d \<Longrightarrow> yields \<Phi> e \<Longrightarrow> yields \<Phi> f \<Longrightarrow> yields \<Phi> g \<Longrightarrow> (\<And>i. yields \<Phi> (h i)) \<Longrightarrow>
   yields \<Phi> (case k of KindUnknownOutcome \<Rightarrow> a | KindNoCapacity \<Rightarrow> b | KindUnavailable \<Rightarrow> c | KindRejected \<Rightarrow> d | KindBusy \<Rightarrow> e | KindKeyConflict \<Rightarrow> f | KindKeyBusy \<Rightarrow> g | KindOther i \<Rightarrow> h i)"
  by (cases k) simp_all

lemma yields_True: "yields (\<lambda>_. True) m"
  by (simp add: yields_def)

lemma yields_mono: "yields \<Phi> m \<Longrightarrow> (\<And>x. \<Phi> x \<Longrightarrow> \<Psi> x) \<Longrightarrow> yields \<Psi> m"
  by (auto simp: yields_def)

section \<open>Triples over the calls\<close>

definition valid :: "(event list \<Rightarrow> bool) \<Rightarrow> 'a act \<Rightarrow> ('a \<Rightarrow> event list \<Rightarrow> bool) \<Rightarrow> bool" where
  "valid P m Q \<longleftrightarrow> (\<forall>w a w'. run_state m w = (a, w') \<longrightarrow> P (calls w) \<longrightarrow> Q a (calls w'))"

named_theorems valid_intro "triples of composed operations"

lemma valid_return: "(\<And>l. P l \<Longrightarrow> Q x l) \<Longrightarrow> valid P (ret x) Q"
  by (simp add: valid_def run_simps)

lemma valid_bind: "valid P m Q \<Longrightarrow> (\<And>x. valid (Q x) (f x) R) \<Longrightarrow> valid P (State_Monad.bind m f) R"
  unfolding valid_def by (auto simp: run_simps split: prod.splits)

lemma valid_quiet: "moves quiet m \<Longrightarrow> yields \<Phi> m \<Longrightarrow> (\<And>x l. P l \<Longrightarrow> \<Phi> x \<Longrightarrow> Q x l) \<Longrightarrow> valid P m Q"
  unfolding valid_def moves_def yields_def quiet_def by (metis fst_conv snd_conv)

lemma valid_skip [valid_intro]: "moves quiet m \<Longrightarrow> (\<And>x. valid P (f x) R) \<Longrightarrow> valid P (State_Monad.bind m f) R"
  by (rule valid_bind [where Q = "\<lambda>_. P"]) (auto intro: valid_quiet [OF _ yields_True])

lemma valid_step:
  assumes "moves quiet m" and "yields \<Phi> m" and "\<And>x. \<Phi> x \<Longrightarrow> valid P (f x) R"
  shows "valid P (State_Monad.bind m f) R"
proof (rule valid_bind [where Q = "\<lambda>x l. P l \<and> \<Phi> x"])
  show "valid P m (\<lambda>x l. P l \<and> \<Phi> x)" using assms(1,2) by (rule valid_quiet) simp
  show "valid (\<lambda>l. P l \<and> \<Phi> x) (f x) R" for x using assms(3) [of x] by (auto simp: valid_def)
qed

lemma valid_if [valid_intro]: "(c \<Longrightarrow> valid P m Q) \<Longrightarrow> (\<not> c \<Longrightarrow> valid P m' Q) \<Longrightarrow> valid P (if c then m else m') Q"
  by simp

lemma valid_let [valid_intro]: "(\<And>y. y = x \<Longrightarrow> valid P (f y) Q) \<Longrightarrow> valid P (let y = x in f y) Q"
  by simp

lemma valid_option [valid_intro]: "(x = None \<Longrightarrow> valid P m Q) \<Longrightarrow> (\<And>y. x = Some y \<Longrightarrow> valid P (f y) Q) \<Longrightarrow> valid P (case x of None \<Rightarrow> m | Some y \<Rightarrow> f y) Q"
  by (cases x) simp_all

lemma valid_sum [valid_intro]: "(\<And>y. x = Inl y \<Longrightarrow> valid P (f y) Q) \<Longrightarrow> (\<And>y. x = Inr y \<Longrightarrow> valid P (g y) Q) \<Longrightarrow> valid P (case x of Inl y \<Rightarrow> f y | Inr y \<Rightarrow> g y) Q"
  by (cases x) simp_all

lemma valid_prod [valid_intro]: "(\<And>a b. x = (a, b) \<Longrightarrow> valid P (f a b) Q) \<Longrightarrow> valid P (case x of (a, b) \<Rightarrow> f a b) Q"
  by (cases x) simp

lemma valid_pre: "valid P m Q \<Longrightarrow> (\<And>l. P' l \<Longrightarrow> P l) \<Longrightarrow> valid P' m Q"
  by (auto simp: valid_def)

lemma valid_post: "valid P m Q \<Longrightarrow> (\<And>x l. Q x l \<Longrightarrow> Q' x l) \<Longrightarrow> valid P m Q'"
  by (auto simp: valid_def)

lemma valid_assume: "(\<And>l. P l \<Longrightarrow> valid (\<lambda>l'. P l' \<and> l' = l) m Q) \<Longrightarrow> valid P m Q"
  by (auto simp: valid_def)

lemma valid_False: "valid (\<lambda>l. False) m Q"
  by (simp add: valid_def)

section \<open>Who may hold a sandbox for the key\<close>

text \<open>
  After a claim whose outcome is not a confirmed refusal the provider may hold a sandbox, until a lookup there
  finds nothing. \<open>suspects\<close> are the providers that may hold one before the flight. A log is safe if no claim
  went to a provider while another one might hold a sandbox.
\<close>

definition refusal :: "go_error option \<Rightarrow> bool" where
  "refusal err \<longleftrightarrow> (case err of None \<Rightarrow> False | Some e \<Rightarrow> spilling_kind (KindOf (Some e)))"

definition nothing_found :: "go_error option \<Rightarrow> bool" where
  "nothing_found err \<longleftrightarrow> (case err of None \<Rightarrow> False | Some e \<Rightarrow> is_not_found e)"

fun holders :: "string list \<Rightarrow> event list \<Rightarrow> string list" where
  "holders suspects [] = suspects"
| "holders suspects (EvClaim p creq d r # l) =
     (if refusal (snd r) then holders suspects l else List.insert p (holders suspects l))"
| "holders suspects (EvLookup p creq d r # l) =
     (if snd r = None then List.insert p (holders suspects l)
      else if nothing_found (snd r) then removeAll p (holders suspects l) else holders suspects l)"
| "holders suspects (ev # l) = holders suspects l"

fun safe :: "string list \<Rightarrow> event list \<Rightarrow> bool" where
  "safe suspects [] \<longleftrightarrow> True"
| "safe suspects (EvClaim p creq d r # l) \<longleftrightarrow> list_all (\<lambda>q. q = p) (holders suspects l) \<and> safe suspects l"
| "safe suspects (ev # l) \<longleftrightarrow> safe suspects l"

lemma holders_calls: "holders S (filter is_call l) = holders S l"
  by (induction S l rule: holders.induct) simp_all

lemma safe_calls: "safe S (filter is_call l) = safe S l"
  by (induction S l rule: safe.induct) (simp_all add: holders_calls)

text \<open>Only \<open>pin\<close> may hold one, nobody when \<open>pin\<close> is empty.\<close>

definition only :: "string list \<Rightarrow> string \<Rightarrow> event list \<Rightarrow> bool" where
  "only S pin l \<longleftrightarrow> safe S l \<and> (\<forall>p \<in> set (holders S l). pin \<noteq> [] \<and> p = pin)"

definition only_at :: "string list \<Rightarrow> string \<Rightarrow> event list \<Rightarrow> bool" where
  "only_at S q l \<longleftrightarrow> safe S l \<and> (\<forall>p \<in> set (holders S l). p = q)"

lemma only_at_safe: "only_at S q l \<Longrightarrow> safe S l"
  by (simp add: only_at_def)

lemma only_only_at: "only S pin l \<Longrightarrow> pin = [] \<or> pin = q \<Longrightarrow> only_at S q l"
  by (auto simp: only_def only_at_def)

lemma only_empty: "only S [] l \<Longrightarrow> only S pin l"
  by (auto simp: only_def)

lemma list_all_set: "list_all Q xs \<longleftrightarrow> (\<forall>x \<in> set xs. Q x)"
  by (simp add: list_all_iff)

end
