(* ===== verification/ClaimSafety.thy ===== *)
theory ClaimSafety
  imports ClaimLogic
begin

text \<open>
  What the execution of a flight guarantees under every environment: no sandbox is claimed from a provider while
  another one might hold a sandbox for the same key.
\<close>

section \<open>Single calls\<close>

lemma valid_emit: "is_call ev \<Longrightarrow> (\<And>l. P l \<Longrightarrow> Q () (ev # l)) \<Longrightarrow> valid P (emit ev) Q"
  by (auto simp: valid_def run_simps calls_def)

lemma valid_emit_bind:
  "is_call ev \<Longrightarrow> (\<And>l. P l \<Longrightarrow> P' (ev # l)) \<Longrightarrow> valid P' (f ()) R \<Longrightarrow> valid P (State_Monad.bind (emit ev) f) R"
  by (rule valid_bind [where Q = "\<lambda>_. P'"]) (auto intro: valid_emit)

lemma not_found_shutdown: "\<not> nothing_found (snd shutting_down)" "snd shutting_down \<noteq> None"
  by (simp_all add: shutting_down_def nothing_found_def Unavailable_def)

lemma not_found_busy: "\<not> nothing_found (Some (Busy d (Some (NewError m))))"
  by (simp add: nothing_found_def Busy_def)

lemmas skip [valid_intro] = quiet_basic [THEN valid_skip] quiet_reserve [THEN valid_skip] quiet_wait [THEN valid_skip]
  quiet_gate [THEN valid_skip] quiet_tick [THEN valid_skip] quiet_peek [THEN valid_skip] quiet_modify [THEN valid_skip]

declare valid_skip [valid_intro del]

lemma claim_event:
  assumes "only S pin l" and "pin = [] \<or> pin = q"
  shows "only_at S q (EvClaim q c d r # l)" and "refusal (snd r) \<Longrightarrow> only S pin (EvClaim q c d r # l)"
  using assms by (auto simp: only_def only_at_def list_all_set)

lemma claim_event_at: "only_at S q l \<Longrightarrow> only_at S q (EvClaim q c d r # l)"
  by (auto simp: only_at_def list_all_set)

lemma invokeClaim_only:
  assumes "pin = [] \<or> pin = tgId t"
  shows "valid (only S pin) (invokeClaim t creq deadline)
    (\<lambda>r l. only_at S (tgId t) l \<and> (refusal (snd r) \<longrightarrow> only S pin l))"
proof -
  let ?Q = "\<lambda>r l. only_at S (tgId t) l \<and> (refusal (snd r) \<longrightarrow> only S pin l)"
  have 1: "only S pin l \<Longrightarrow> ?Q r l" for r l using assms by (simp add: only_only_at)
  have 2: "only S pin l \<Longrightarrow> ?Q r (EvClaim (tgId t) creq d r # l)" for l d r using claim_event [OF _ assms] by blast
  show ?thesis unfolding invokeClaim_def
  proof (intro valid_intro valid_return 1)
    fix now e r
    show "valid (only S pin) (emit (EvClaim (tgId t) creq (attemptDuration (tcTimeout (tgCfg t)) deadline now) r) \<bind>
        (\<lambda>_. get_now \<bind> (\<lambda>finish. locked finishAttempt \<bind> (\<lambda>_. ret r)))) ?Q"
      by (rule valid_emit_bind [where P' = "?Q r"]) (auto intro!: valid_intro valid_return simp: 2)
  qed
qed

lemma invokeClaim_at:
  "valid (only_at S (tgId t)) (invokeClaim t creq deadline) (\<lambda>r. only_at S (tgId t))"
  unfolding invokeClaim_def
proof (intro valid_intro valid_return)
  fix now e r
  show "valid (only_at S (tgId t)) (emit (EvClaim (tgId t) creq (attemptDuration (tcTimeout (tgCfg t)) deadline now) r) \<bind>
      (\<lambda>_. get_now \<bind> (\<lambda>finish. locked finishAttempt \<bind> (\<lambda>_. ret r)))) (\<lambda>r. only_at S (tgId t))"
    by (rule valid_emit_bind [where P' = "only_at S (tgId t)"]) (auto intro!: valid_intro valid_return simp: claim_event_at)
qed

text \<open>A lookup adds a holder or removes one; when it finds nothing, its provider holds no sandbox.\<close>

definition looked :: "string list \<Rightarrow> string \<Rightarrow> go_error option \<Rightarrow> event list \<Rightarrow> event list \<Rightarrow> bool" where
  "looked S q err l l' \<longleftrightarrow> (safe S l \<longrightarrow> safe S l') \<and>
     set (holders S l') \<subseteq> (if err = None then insert q (set (holders S l)) else set (holders S l)) \<and>
     (nothing_found err \<longrightarrow> q \<notin> set (holders S l'))"

lemma looked_event: "looked S q (snd r) l (EvLookup q c d r # l)"
  by (auto simp: looked_def nothing_found_def)

lemma looked_refl: "\<not> nothing_found err \<Longrightarrow> looked S q err l l"
  by (auto simp: looked_def)

lemma lookup_call_looked:
  "valid (\<lambda>l. l = l0) (lookup_call t creq deadline) (\<lambda>r. looked S (tgId t) (snd r) l0)"
  unfolding lookup_call_def
proof (intro valid_intro)
  fix now e r
  show "valid (\<lambda>l. l = l0) (emit (EvLookup (tgId t) creq (attemptDuration (tcTimeout (tgCfg t)) deadline now) r) \<bind> (\<lambda>_. ret r))
      (\<lambda>r. looked S (tgId t) (snd r) l0)"
    by (rule valid_emit_bind [where P' = "looked S (tgId t) (snd r) l0"]) (auto intro!: valid_return simp: looked_event)
qed

lemma callLookup_looked:
  "valid (\<lambda>l. l = l0) (callLookup t creq deadline) (\<lambda>r. looked S (tgId t) (snd r) l0)"
  unfolding callLookup_def
  by (intro valid_intro valid_bind [OF lookup_call_looked])
    (auto intro!: valid_intro valid_return looked_refl simp: not_found_shutdown not_found_busy)

lemma callLookupNoSlot_looked:
  "valid (\<lambda>l. l = l0) (callLookupNoSlot t creq deadline) (\<lambda>r. looked S (tgId t) (snd r) l0)"
  unfolding callLookupNoSlot_def
  by (intro valid_intro valid_bind [OF lookup_call_looked])
    (auto intro!: valid_intro valid_return looked_refl simp: not_found_shutdown)

lemma coalesced_looked:
  "valid (\<lambda>l. l = l0) (coalesced_lookup t creq deadline) (\<lambda>r. looked S (tgId t) (snd r) l0)"
  unfolding coalesced_lookup_def
proof (intro valid_intro)
  fix now e r
  show "valid (\<lambda>l. l = l0) (emit (EvLookup (tgId t) creq (attemptDuration (tcTimeout (tgCfg t)) deadline now) r) \<bind> (\<lambda>_. ret r))
      (\<lambda>r. looked S (tgId t) (snd r) l0)"
    by (rule valid_emit_bind [where P' = "looked S (tgId t) (snd r) l0"]) (auto intro!: valid_return simp: looked_event)
qed

section \<open>One attempt\<close>

text \<open>What an attempt leaves behind: after anything but its end, nobody else may hold a sandbox than before.\<close>

definition attempt_post :: "string list \<Rightarrow> string \<Rightarrow> string \<Rightarrow> attempt option \<Rightarrow> event list \<Rightarrow> bool" where
  "attempt_post S pin q a l \<longleftrightarrow> only_at S q l \<and>
     (case a of Some (res, err, act) \<Rightarrow> (act \<noteq> AttemptDone \<longrightarrow> only S pin l) | None \<Rightarrow> True)"

lemma attempt_postI: "only_at S q l \<Longrightarrow> act = AttemptDone \<Longrightarrow> attempt_post S pin q (Some (res, err, act)) l"
  "only_at S q l \<Longrightarrow> attempt_post S pin q None l"
  by (simp_all add: attempt_post_def)

lemma attempt_postI': "only S pin l \<Longrightarrow> pin = [] \<or> pin = q \<Longrightarrow> attempt_post S pin q a l"
  by (auto simp: attempt_post_def only_only_at split: option.splits)

definition ends :: "attempt_action \<Rightarrow> attempt \<Rightarrow> bool" where
  "ends a r \<longleftrightarrow> snd (snd r) = a"

lemma yields_ends [yields_intro]: "yields (ends AttemptDone) (success t pol dec h replay tk)"
  "yields (ends AttemptDone) (key_busy_error t err)"
  by (simp_all add: success_def key_busy_error_def claimed_def attempt_error_def ends_def yields_intro)

lemma yields_on_refusal [yields_intro]: "yields (ends a) (on_refusal t req tk err j a)"
  unfolding on_refusal_def by (cases "KindOf (Some err)"; simp; intro yields_intro; simp add: attempt_error_def ends_def)

lemma yields_capacity: "yields (\<lambda>c. case c of Inl a \<Rightarrow> ends AttemptDone a | Inr _ \<Rightarrow> True) (retry_capacity t req)"
  unfolding retry_capacity_def by (intro yields_intro) (simp_all add: attempt_error_def ends_def)

lemma unknown_done: "ends AttemptDone (unknown_error t err)"
  by (simp add: unknown_error_def attempt_error_def ends_def)

lemma finish_done:
  "moves quiet m \<Longrightarrow> yields (ends AttemptDone) m \<Longrightarrow>
   valid (only_at S q) (m \<bind> (\<lambda>a. ret (Some a))) (attempt_post S pin q)"
  by (rule valid_step [where \<Phi> = "ends AttemptDone"])
    (auto intro!: valid_return simp: ends_def attempt_post_def)

lemma finish_spill:
  "moves quiet m \<Longrightarrow> pin = [] \<or> pin = q \<Longrightarrow> valid (only S pin) (m \<bind> (\<lambda>a. ret (Some a))) (attempt_post S pin q)"
  by (intro valid_skip) (auto intro!: valid_return attempt_postI')

lemma finish_return: "ends AttemptDone a \<Longrightarrow> valid (only_at S q) (ret (Some a)) (attempt_post S pin q)"
  by (auto intro!: valid_return simp: attempt_post_def ends_def)

lemma looked_only: "looked S q err l l' \<Longrightarrow> only_at S q l \<Longrightarrow> nothing_found err \<Longrightarrow> only S pin l'"
  by (auto simp: looked_def only_at_def only_def nothing_found_def split: option.splits if_splits)

lemma looked_at: "looked S q err l l' \<Longrightarrow> only_at S q l \<Longrightarrow> only_at S q l'"
  by (auto simp: looked_def only_at_def split: if_splits)

lemma recovery_lookup:
  "valid (only_at S (tgId t)) (callLookupNoSlot t creq deadline)
     (\<lambda>r l. only_at S (tgId t) l \<and> (nothing_found (snd r) \<longrightarrow> only S pin l))"
proof (rule valid_assume)
  fix l0 assume "only_at S (tgId t) l0"
  then show "valid (\<lambda>l'. only_at S (tgId t) l' \<and> l' = l0) (callLookupNoSlot t creq deadline)
      (\<lambda>r l. only_at S (tgId t) l \<and> (nothing_found (snd r) \<longrightarrow> only S pin l))"
    by (intro valid_pre [OF valid_post [OF callLookupNoSlot_looked [of l0]]])
      (auto dest: looked_at looked_only)
qed

lemma refusal_iff: "refusal (Some e) = spilling_kind (KindOf (Some e))"
  by (simp add: refusal_def)

lemma nothing_found_iff: "nothing_found (Some e) = is_not_found e"
  by (simp add: nothing_found_def)

lemmas capacity_step = valid_step [OF quiet_outcome(3) yields_capacity]

lemmas claim_at_step = valid_bind [OF invokeClaim_at]

lemmas lookup_step = valid_bind [OF recovery_lookup [where pin = pin for pin]]

lemma conflict_done: "ends AttemptDone (attempt_error e AttemptDone)"
  by (simp add: attempt_error_def ends_def)

lemma finish_cases:
  assumes "pin = [] \<or> pin = tgId t"
  shows "valid (\<lambda>l. only_at S (tgId t) l \<and> only S pin l)
    (on_refusal t req tk err j a \<bind> (\<lambda>a. ret (Some a))) (attempt_post S pin (tgId t))"
  using finish_spill [OF quiet_on_refusal assms] by (rule valid_pre) simp

lemma valid_conj: "valid P m Q \<Longrightarrow> valid (\<lambda>l. P l \<and> X l) m Q"
  by (simp add: valid_def)

lemma claim_outcome:
  assumes pin: "pin = [] \<or> pin = tgId t"
    and busy: "\<And>e. valid (only_at S (tgId t)) (busy e) (attempt_post S pin (tgId t))"
    and unknown: "\<And>e. valid (only_at S (tgId t)) (unknown e) (attempt_post S pin (tgId t))"
  shows "valid (only S pin) (invokeClaim t creq deadline \<bind> (\<lambda>r. case snd r of
      None \<Rightarrow> success t pol dec (fst r) False tk \<bind> (\<lambda>a. ret (Some a))
    | Some err \<Rightarrow>
        if KindOf (Some err) = KindKeyConflict then
          give_back tk \<bind> (\<lambda>_. ret (Some (attempt_error (spec_conflict (tgId t) err) AttemptDone)))
        else if KindOf (Some err) = KindKeyBusy then give_back tk \<bind> (\<lambda>_. busy err)
        else if spilling_kind (KindOf (Some err)) then on_refusal t req tk err j a \<bind> (\<lambda>a. ret (Some a))
        else unknown err)) (attempt_post S pin (tgId t))"
proof (intro valid_bind [OF invokeClaim_only [OF pin]] valid_option valid_if)
  fix r :: "handle \<times> go_error option" and err
  assume "snd r = Some err" "spilling_kind (KindOf (Some err))"
  then show "valid (\<lambda>l. only_at S (tgId t) l \<and> (refusal (snd r) \<longrightarrow> only S pin l))
      (on_refusal t req tk err j a \<bind> (\<lambda>a. ret (Some a))) (attempt_post S pin (tgId t))"
    using finish_cases [OF pin] by (simp add: refusal_iff)
qed (auto intro!: valid_conj valid_intro busy unknown finish_return conflict_done finish_done [OF quiet_outcome(1) yields_ends(1)])

lemma attempts_valid:
  assumes pin: "pin = [] \<or> pin = tgId t"
  shows "(\<forall>err. valid (only_at S (tgId t)) (retryPinnedKeyBusy n t dec pol req creq deadline err) (attempt_post S pin (tgId t))) \<and>
    (\<forall>tk err sp k. valid (only_at S (tgId t)) (recoverUnknownOutcome n t dec pol req creq tk deadline err sp k)
       (attempt_post S pin (tgId t)))"
proof (induction n)
  case 0
  show ?case by (auto intro!: valid_return attempt_postI)
next
  case (Suc n)
  note fin = finish_done [OF quiet_outcome(1) yields_ends(1)] finish_done [OF quiet_outcome(2) yields_ends(2)]
    finish_done [OF quiet_on_refusal yields_on_refusal] finish_return
  note IH = Suc [THEN conjunct1, THEN spec] Suc [THEN conjunct2, THEN spec, THEN spec, THEN spec, THEN spec]
  have "valid (only_at S (tgId t)) (retryPinnedKeyBusy (Suc n) t dec pol req creq deadline err) (attempt_post S pin (tgId t))" for err
    unfolding retryPinnedKeyBusy.simps
    by (intro valid_intro fin capacity_step claim_at_step IH) (auto simp: conflict_done)
  moreover have "valid (only_at S (tgId t)) (recoverUnknownOutcome (Suc n) t dec pol req creq tk deadline err sp k)
      (attempt_post S pin (tgId t))" for tk err sp k
    unfolding recoverUnknownOutcome.simps
  proof (intro valid_intro fin unknown_done lookup_step [where pin = pin])
    fix l lerr still
    assume l: "snd l = Some lerr" "is_not_found lerr"
    let ?tok = "if tcElastic (tgCfg t) \<or> \<not> tkValid tk then wait_token (tgClaimRate t) deadline else ret True"
    have tok: "moves quiet ?tok" by (intro moves_intro) simp_all
    have unknown: "valid (only S pin) (ret (Some (unknown_error t err))) (attempt_post S pin (tgId t))"
      using pin by (auto intro!: valid_return attempt_postI')
    note claim = valid_skip [OF tok valid_if [OF unknown claim_outcome [OF pin IH(1) IH(2)]]]
    show "valid (\<lambda>lg. only_at S (tgId t) lg \<and> (nothing_found (snd l) \<longrightarrow> only S pin lg))
      (?tok \<bind> (\<lambda>tok. if \<not> tok then ret (Some (unknown_error t err))
          else invokeClaim t creq deadline \<bind> (\<lambda>r. case snd r of
              None \<Rightarrow> success t pol dec (fst r) False tk \<bind> (\<lambda>a. ret (Some a))
            | Some cerr \<Rightarrow>
                if KindOf (Some cerr) = KindKeyConflict then
                  give_back tk \<bind> (\<lambda>_. ret (Some (attempt_error (spec_conflict (tgId t) cerr) AttemptDone)))
                else if KindOf (Some cerr) = KindKeyBusy then
                  give_back tk \<bind> (\<lambda>_. retryPinnedKeyBusy n t dec pol req creq deadline cerr)
                else if spilling_kind (KindOf (Some cerr)) then
                  on_refusal t req tk cerr (\<not> sp) (if sp then AttemptSpill else AttemptDone) \<bind> (\<lambda>a. ret (Some a))
                else recoverUnknownOutcome n t dec pol req creq tk deadline cerr sp (k + 1))))
      (attempt_post S pin (tgId t))"
      by (rule valid_pre [OF claim]) (simp add: l nothing_found_iff)
  qed (auto intro!: valid_conj fin IH simp: conflict_done unknown_done)
  ultimately show ?case by blast
qed

lemma attempt_body_valid:
  assumes pin: "pin = [] \<or> pin = tgId t"
  shows "valid (only S pin) (attempt_body n t dec cands pol req creq deadline) (attempt_post S pin (tgId t))"
  unfolding attempt_body_def
proof (intro valid_skip [OF quiet_capacity] valid_option)
  show "valid (only S pin) (ret (Some (None, None, AttemptRetryDecision))) (attempt_post S pin (tgId t))"
    using pin by (auto intro!: valid_return attempt_postI')
qed (intro claim_outcome [OF pin] attempts_valid [OF pin, THEN conjunct1, THEN spec]
      attempts_valid [OF pin, THEN conjunct2, THEN spec, THEN spec, THEN spec, THEN spec])

lemma attemptProvider_valid:
  assumes "pin = [] \<or> pin = tgId t"
  shows "valid (only S pin) (attemptProvider n t dec cands pol req creq deadline) (attempt_post S pin (tgId t))"
  unfolding attemptProvider_def
  by (intro valid_bind [OF attempt_body_valid [OF assms]] valid_intro) (simp add: valid_return)

section \<open>The claim loop\<close>

definition named_targets :: "(string, target) gomap \<Rightarrow> bool" where
  "named_targets targets \<longleftrightarrow> list_all (\<lambda>(p, t). tgId t = p \<and> p \<noteq> []) targets"

lemma named_targets_get: "named_targets targets \<Longrightarrow> go_get targets p = Some t \<Longrightarrow> tgId t = p \<and> p \<noteq> []"
  by (induction targets) (auto simp: named_targets_def split: if_splits)

definition turn_post :: "string list \<Rightarrow> string \<Rightarrow> turn \<Rightarrow> event list \<Rightarrow> bool" where
  "turn_post S pin r l \<longleftrightarrow> safe S l \<and> (case r of Continue _ \<Rightarrow> only S pin l | Break _ \<Rightarrow> only S pin l | _ \<Rightarrow> True)"

lemma turn_postI: "only S pin l \<Longrightarrow> turn_post S pin r l"
  by (auto simp: turn_post_def only_def split: turn.splits)

lemma decided_valid:
  assumes "named_targets targets" and "pin = [] \<or> pin = dProvider dec"
  shows "valid (only S pin) (decided n targets dec cands pol req creq deadline ls) (turn_post S pin)"
  unfolding decided_def
proof (intro valid_intro valid_option valid_return turn_postI)
  fix t got
  assume t: "go_get targets (dProvider dec) = Some t"
  have pin: "pin = [] \<or> pin = tgId t" using named_targets_get [OF assms(1) t] assms(2) by auto
  show "valid (only S pin) (attemptProvider n t dec cands pol req creq deadline \<bind> (\<lambda>a. ret (case a of
      None \<Rightarrow> NoFuel
    | Some (res, berr, act) \<Rightarrow> (case act of
          AttemptDone \<Rightarrow> Return (case res of Some r \<Rightarrow> Inr r | None \<Rightarrow> Inl (the berr))
        | AttemptRetryDecision \<Rightarrow> Continue ls
        | AttemptSpill \<Rightarrow> Continue (spilled (dProvider dec) dec (the berr) ls))))) (turn_post S pin)"
    by (intro valid_bind [OF attemptProvider_valid [OF pin]] valid_return)
      (auto simp: attempt_post_def turn_post_def only_def only_at_def split: option.splits attempt_action.splits)
qed

lemma consider_one_pinned:
  "yields (\<lambda>r. case snd r of None \<Rightarrow> True | Some c \<Rightarrow> pinned = [] \<or> cProvider c = pinned)
     (consider_one targets pinned req prof sreq now c ls)"
  unfolding consider_one_def by (intro yields_intro) auto

lemma consider_all_pinned:
  "yields (\<lambda>r. list_all (\<lambda>c. pinned = [] \<or> cProvider c = pinned) (snd r))
     (consider_all targets pinned req prof sreq now cs ls)"
proof (induction cs arbitrary: ls)
  case (Cons c cs)
  show ?case unfolding consider_all.simps
    by (rule yields_bind [OF consider_one_pinned], rule yields_bind [OF Cons.IH])
      (auto intro!: yields_return split: option.splits)
qed (simp add: yields_return)

lemma schedule_pinned:
  assumes "Schedule rnd prof sreq cs = Inr dec" and "list_all (\<lambda>c. pinned = [] \<or> cProvider c = pinned) cs"
  shows "pinned = [] \<or> pinned = dProvider dec"
proof -
  from assms(1) obtain i where "i < length cs" "dProvider dec = cProvider (cs ! i)" by (rule Schedule_Inr)
  then show ?thesis using assms(2) by (simp add: list_all_length) metis
qed

lemma no_decision_valid: "valid (only S pin) (no_decision deadline ls) (turn_post S pin)"
  by (rule valid_quiet [OF quiet_no_decision yields_True]) (rule turn_postI)

lemma loop_turn_valid:
  assumes named: "named_targets targets"
  shows "valid (only S pin) (loop_turn n targets pin pol req creq deadline ls) (turn_post S pin)"
  unfolding loop_turn_def
proof (intro valid_intro valid_step [OF quiet_consider_all consider_all_pinned] no_decision_valid decided_valid named valid_return turn_postI)
  fix r :: "loop_state \<times> candidate list" and e prof sreq dec
  assume "Schedule (evRnd e) prof sreq (snd r) = Inr dec" "list_all (\<lambda>c. pin = [] \<or> cProvider c = pin) (snd r)"
  then show "pin = [] \<or> pin = dProvider dec" by (rule schedule_pinned)
qed

lemma claimLoop_valid:
  assumes named: "named_targets targets"
  shows "valid (only S pin) (claimLoop n targets pin pol req creq deadline ls) (\<lambda>_. safe S)"
proof (induction n arbitrary: ls)
  case 0
  show ?case by (auto intro!: valid_return simp: only_def)
next
  case (Suc n)
  have stop: "valid (only S pin) (loop_end ls \<bind> (\<lambda>e. ret (Some (Inl e)))) (\<lambda>_. safe S)" for ls
    by (intro valid_skip [OF quiet_loop_end] valid_return) (simp add: only_def)
  have turn: "valid (turn_post S pin t) (case t of Return r \<Rightarrow> ret (Some r)
      | Continue ls \<Rightarrow> claimLoop n targets pin pol req creq deadline ls
      | Break ls \<Rightarrow> loop_end ls \<bind> (\<lambda>e. ret (Some (Inl e))) | NoFuel \<Rightarrow> ret None) (\<lambda>_. safe S)" for t
    by (cases t) (auto intro!: valid_return valid_pre [OF Suc] valid_pre [OF stop] simp: turn_post_def)
  have clock: "moves quiet (if lsSpills ls < b_maxSpill b then get_now else ret deadline)" for b ls
    by (intro moves_intro) simp_all
  show ?case unfolding claimLoop.simps
    by (intro valid_skip [OF quiet_peek] valid_skip [OF clock] valid_if stop valid_bind [OF loop_turn_valid [OF named]] turn)
qed

section \<open>The lookups before the claim loop\<close>

definition phase_post :: "string list \<Rightarrow> lookup_phase \<Rightarrow> event list \<Rightarrow> bool" where
  "phase_post S r l \<longleftrightarrow> (case r of Answer _ \<Rightarrow> safe S l | GoOn pin \<Rightarrow> only S pin l)"

lemma phase_stop: "moves quiet m \<Longrightarrow> yields (\<lambda>r. \<exists>x. r = Answer x) m \<Longrightarrow> valid (only S pin) m (phase_post S)"
  by (erule (1) valid_quiet) (auto simp: phase_post_def only_def)

lemma callLookup_at: "valid (only S (tgId t)) (callLookup t creq deadline) (\<lambda>_. only_at S (tgId t))"
proof (rule valid_assume)
  fix l0 assume "only S (tgId t) l0"
  then show "valid (\<lambda>l'. only S (tgId t) l' \<and> l' = l0) (callLookup t creq deadline) (\<lambda>_. only_at S (tgId t))"
    by (intro valid_pre [OF valid_post [OF callLookup_looked [of l0]]]) (auto dest: looked_at only_only_at)
qed

lemma quiet_pinned_verdict: "moves quiet (pinned_verdict pin t pol req l)"
  unfolding pinned_verdict_def
  by (intro moves_intro) simp_all

lemma yields_pinned_verdict: "yields (\<lambda>r. (\<exists>x. r = Answer x) \<or> r = GoOn pin) (pinned_verdict pin t pol req l)"
  unfolding pinned_verdict_def
  by (intro yields_intro) simp_all

lemma lookupPinned_valid:
  assumes named: "named_targets targets" and "pin \<noteq> []"
  shows "valid (only S pin) (lookupPinned targets pin pol req creq deadline) (phase_post S)"
proof (cases "go_get targets pin")
  case None
  then show ?thesis unfolding lookupPinned_def by (simp, intro phase_stop moves_intro yields_intro) simp_all
next
  case (Some t)
  then have t: "tgId t = pin" using named_targets_get [OF named] by blast
  have verdict: "valid (only_at S pin) (pinned_verdict pin t pol req l) (phase_post S)" for l
    by (rule valid_quiet [OF quiet_pinned_verdict yields_pinned_verdict])
      (use \<open>pin \<noteq> []\<close> in \<open>auto simp: phase_post_def only_def only_at_def\<close>)
  note look = valid_bind [OF callLookup_at [of S t, unfolded t] verdict]
  have sleep: "moves quiet (if fst w > 0 then get_now \<bind> (\<lambda>now. sleepUntil (now + fst w)) else ret True)" for w :: "duration \<times> bool"
    by (intro moves_intro) simp_all
  have wait: "valid (only S pin) (jitter d \<bind> (\<lambda>a. ret (Answer (f a)))) (phase_post S)"
    and ans: "valid (only S pin) (ret (Answer x)) (phase_post S)" for d f x
    by (intro phase_stop moves_intro yields_intro; simp)+
  show ?thesis unfolding lookupPinned_def Some option.case
    by (intro valid_if valid_skip [OF quiet_reserve] valid_skip [OF sleep] look wait ans)
qed

text \<open>What the lookups of a retried request leave behind.\<close>

type_synonym outcome = "target \<times> handle \<times> go_error option"

definition found :: "outcome list \<Rightarrow> bool" where
  "found outs \<longleftrightarrow> list_ex (\<lambda>(t, h, err). err = None) outs"

definition probed :: "string list \<Rightarrow> event list \<Rightarrow> outcome list \<Rightarrow> event list \<Rightarrow> bool" where
  "probed S l0 outs l \<longleftrightarrow> (safe S l0 \<longrightarrow> safe S l) \<and>
     (\<not> found outs \<longrightarrow> (\<forall>p \<in> set (holders S l). p \<in> set (holders S l0) \<and>
        list_all (\<lambda>(t, h, err). nothing_found err \<longrightarrow> tgId t \<noteq> p) outs))"

lemma probed_step:
  assumes "looked S (tgId t) err l0 l1" and "probed S l1 outs l2"
  shows "probed S l0 ((t, h, err) # outs) l2"
proof -
  have "p \<in> set (holders S l0) \<and> list_all (\<lambda>(t, h, err). nothing_found err \<longrightarrow> tgId t \<noteq> p) ((t, h, err) # outs)"
    if "\<not> found ((t, h, err) # outs)" "p \<in> set (holders S l2)" for p
  proof -
    from that(1) have "err \<noteq> None" "\<not> found outs" by (simp_all add: found_def)
    with assms(2) that(2) have p: "p \<in> set (holders S l1)" "list_all (\<lambda>(t, h, err). nothing_found err \<longrightarrow> tgId t \<noteq> p) outs"
      by (simp_all add: probed_def)
    moreover have "p \<in> set (holders S l0)" "nothing_found err \<longrightarrow> tgId t \<noteq> p"
      using assms(1) p(1) \<open>err \<noteq> None\<close> by (auto simp: looked_def)
    ultimately show ?thesis by simp
  qed
  moreover have "safe S l0 \<longrightarrow> safe S l2" using assms by (simp add: probed_def looked_def)
  ultimately show ?thesis by (simp only: probed_def) blast
qed

lemma probe_all_valid:
  "valid (\<lambda>l. l = l0) (probe_all creq deadline ts) (\<lambda>outs l. map fst outs = ts \<and> probed S l0 outs l)"
proof (induction ts arbitrary: l0)
  case Nil
  show ?case by (auto intro!: valid_return simp: probed_def found_def)
next
  case (Cons t ts)
  have one: "valid (\<lambda>l. l = l0) (if tgCoalescer t \<noteq> None then coalesced_lookup t creq deadline else callLookup t creq deadline)
      (\<lambda>r. looked S (tgId t) (snd r) l0)"
    by (intro valid_if coalesced_looked callLookup_looked)
  have rest: "valid (looked S (tgId t) err l0) (probe_all creq deadline ts \<bind> (\<lambda>rs. ret ((t, h, err) # rs)))
      (\<lambda>outs l. map fst outs = t # ts \<and> probed S l0 outs l)" for h err
  proof (rule valid_assume)
    fix l1 assume "looked S (tgId t) err l0 l1"
    then show "valid (\<lambda>l. looked S (tgId t) err l0 l \<and> l = l1) (probe_all creq deadline ts \<bind> (\<lambda>rs. ret ((t, h, err) # rs)))
        (\<lambda>outs l. map fst outs = t # ts \<and> probed S l0 outs l)"
      by (intro valid_pre [OF valid_bind [OF Cons [of l1]]] valid_return) (auto intro: probed_step)
  qed
  show ?case unfolding probe_all.simps by (intro valid_bind [OF one] rest)
qed

definition classified :: "outcome list \<Rightarrow> probe_class \<Rightarrow> probe_class \<Rightarrow> bool" where
  "classified outs c c' \<longleftrightarrow> set (pcBusy c) \<subseteq> set (pcBusy c') \<and> set (pcInconclusive c) \<subseteq> set (pcInconclusive c') \<and>
     (\<forall>(t, h, err) \<in> set outs. nothing_found err \<or> tgId t \<in> set (pcBusy c') \<or> tgId t \<in> set (pcInconclusive c'))"

lemma classify_yields: "yields (classified outs c) (classify outs c)"
proof (induction outs arbitrary: c)
  case Nil
  show ?case by (simp add: yields_return classified_def)
next
  case (Cons x outs)
  obtain t h err where x: "x = (t, h, err)" by (cases x)
  have step: "yields (classified ((t, h, err) # outs) c) (classify outs c')"
    if "nothing_found err \<or> tgId t \<in> set (pcBusy c') \<or> tgId t \<in> set (pcInconclusive c')"
      "set (pcBusy c) \<subseteq> set (pcBusy c')" "set (pcInconclusive c) \<subseteq> set (pcInconclusive c')" for c'
    by (rule yields_mono [OF Cons]) (use that in \<open>auto simp: classified_def\<close>)
  show ?case unfolding x classify.simps
    by (intro yields_intro step) (auto simp: nothing_found_def)
qed

text \<open>The verdict: without an answer, every provider but the one to pin said it has nothing.\<close>

definition conclusive :: "outcome list \<Rightarrow> lookup_phase \<Rightarrow> bool" where
  "conclusive outs r \<longleftrightarrow> (case r of Answer _ \<Rightarrow> True
     | GoOn pin \<Rightarrow> \<not> found outs \<and> list_all (\<lambda>(t, h, err). nothing_found err \<or> pin \<noteq> [] \<and> tgId t = pin) outs)"

lemma conclusive_Answer [simp]: "conclusive outs (Answer x)"
  by (simp add: conclusive_def)

lemma classified_none:
  assumes "classified outs c c'" and "pcBusy c' = []" and "list_all (\<lambda>(t, h, err). tgId t \<noteq> []) outs" and "\<not> found outs"
  shows "pcInconclusive c' = [] \<Longrightarrow> conclusive outs (GoOn [])"
    and "length (pcInconclusive c') = 1 \<Longrightarrow> conclusive outs (GoOn (hd (pcInconclusive c')))"
proof -
  have all: "nothing_found err \<or> tgId t \<noteq> [] \<and> tgId t \<in> set (pcInconclusive c')" if "(t, h, err) \<in> set outs" for t h err
    using assms(1-3) that by (fastforce simp: classified_def list_all_set)
  show "conclusive outs (GoOn [])" if "pcInconclusive c' = []"
    using all assms(4) that by (fastforce simp: conclusive_def list_all_set)
  show "conclusive outs (GoOn (hd (pcInconclusive c')))" if "length (pcInconclusive c') = 1"
  proof -
    from that obtain x where "pcInconclusive c' = [x]" by (cases "pcInconclusive c'") auto
    with all assms(4) show ?thesis by (fastforce simp: conclusive_def list_all_set)
  qed
qed

lemma verdict_yields:
  assumes named: "list_all (\<lambda>(t, h, err). tgId t \<noteq> []) outs"
  shows "yields (conclusive outs) (probe_verdict pol req outs)"
proof (cases "find (\<lambda>(t, h, err). err = None) outs")
  case None
  then have "\<not> found outs" by (fastforce simp: found_def find_None_iff list_ex_iff)
  note verdict = classified_none [OF _ _ named this]
  show ?thesis unfolding probe_verdict_def None option.case
    by (intro yields_option yields_prod yields_return conclusive_Answer yields_bind [OF classify_yields] yields_if
          yields_bind [OF yields_True])
      (auto intro: verdict)
next
  case (Some x)
  then show ?thesis unfolding probe_verdict_def Some option.case by (intro yields_intro conclusive_Answer)
qed

lemma probed_conclusive:
  assumes "probed S l0 outs l" and "conclusive outs r" and "safe S l0"
    and "set (holders S l0) \<subseteq> tgId ` set (map fst outs)"
  shows "phase_post S r l"
proof (cases r)
  case (Answer x)
  with assms show ?thesis by (simp add: phase_post_def probed_def)
next
  case (GoOn pin)
  with assms have c: "\<not> found outs" "list_all (\<lambda>(t, h, err). nothing_found err \<or> pin \<noteq> [] \<and> tgId t = pin) outs"
    by (simp_all add: conclusive_def)
  have "pin \<noteq> [] \<and> p = pin" if "p \<in> set (holders S l)" for p
  proof -
    from that assms(1) c(1) have p: "p \<in> set (holders S l0)" "list_all (\<lambda>(t, h, err). nothing_found err \<longrightarrow> tgId t \<noteq> p) outs"
      by (simp_all add: probed_def)
    with assms(4) obtain t h err where "(t, h, err) \<in> set outs" "tgId t = p" by auto
    with p(2) c(2) show ?thesis by (auto simp: list_all_set)
  qed
  moreover have "safe S l" using assms(1,3) by (simp add: probed_def)
  ultimately show ?thesis by (simp only: GoOn phase_post_def only_def lookup_phase.case) blast
qed

lemma capable_ids_named:
  assumes "named_targets targets" and "t \<in> set (capable_targets targets)"
  shows "tgId t \<noteq> []"
  using assms by (auto simp: named_targets_def capable_targets_def list_all_set)

lemma lookupRetryAll_valid:
  assumes named: "named_targets targets"
  shows "valid (\<lambda>l. safe S l \<and> set (holders S l) \<subseteq> tgId ` set (capable_targets targets))
    (lookupRetryAll targets pol req creq deadline) (phase_post S)" (is "valid ?P _ _")
proof -
  let ?all = "stable_sort (\<lambda>x y. tgId x < tgId y) (capable_targets targets)"
  have ans: "valid ?P m (phase_post S)" if "moves quiet m" "yields (\<lambda>r. \<exists>x. r = Answer x) m" for m
    by (rule valid_quiet [OF that]) (auto simp: phase_post_def)
  have empty: "valid ?P (ret (GoOn [])) (phase_post S)" if "?all = []"
  proof -
    from that have "set (capable_targets targets) = {}" by (metis set_stable_sort set_empty)
    then show ?thesis by (intro valid_return) (simp add: phase_post_def only_def)
  qed
  have verdict: "valid (\<lambda>l. (map fst outs = ?all \<and> probed S l0 outs l) \<and> safe S l0 \<and> set (holders S l0) \<subseteq> tgId ` set (capable_targets targets))
      (probe_verdict pol req outs) (phase_post S)" for outs l0
  proof (cases "map fst outs = ?all")
    case True
    then have ids: "fst ` set outs = set (capable_targets targets)" by (metis set_stable_sort set_map)
    have "tgId t \<noteq> []" if "(t, h, err) \<in> set outs" for t h err
    proof -
      from that have "t \<in> fst ` set outs" by force
      with ids show ?thesis using capable_ids_named [OF named] by simp
    qed
    then have "list_all (\<lambda>(t, h, err). tgId t \<noteq> []) outs" by (auto simp: list_all_set)
    moreover have "phase_post S r l" if "probed S l0 outs l" "conclusive outs r" "safe S l0"
        "set (holders S l0) \<subseteq> tgId ` set (capable_targets targets)" for r l
      using probed_conclusive [OF that(1-3)] that(4) ids by simp
    ultimately show ?thesis by (intro valid_quiet [OF quiet_verdict verdict_yields]) blast+
  qed (simp add: valid_def)
  have look: "valid ?P (probe_all creq deadline ?all \<bind> (\<lambda>outs. probe_verdict pol req outs)) (phase_post S)"
  proof (rule valid_assume)
    fix l0 assume l0: "?P l0"
    show "valid (\<lambda>l. ?P l \<and> l = l0) (probe_all creq deadline ?all \<bind> (\<lambda>outs. probe_verdict pol req outs)) (phase_post S)"
      by (rule valid_pre [OF valid_bind [OF probe_all_valid [of l0] valid_pre [OF verdict [of _ l0]]]]) (use l0 in simp_all)
  qed
  have reserve: "moves quiet (if nb = [] then ret (0, True) else reserveLookupTokens deadline nb)" for nb
    by (intro moves_intro) simp_all
  have sleep: "moves quiet (if fst w > 0 then get_now \<bind> (\<lambda>now. sleepUntil (now + fst w)) else ret True)" for w :: "duration \<times> bool"
    by (intro moves_intro) simp_all
  show ?thesis unfolding lookupRetryAll_def Let_def
    by (intro valid_if empty valid_skip [OF reserve] valid_skip [OF sleep] look;
        (assumption | (intro ans moves_intro yields_intro; simp)))
qed

section \<open>The whole flight\<close>

text \<open>
  The targets an execution reads, and the providers that may hold a sandbox for the key before it: the pinned
  one, all capable ones when the request is a retry or completed flights were forgotten early, else none.
\<close>

definition flight_targets :: "world \<Rightarrow> (string, target) gomap" where
  "flight_targets w = b_targets (evOthers (wEnv w (wTick w)) (wB w))"

definition flight_suspects :: "world \<Rightarrow> bind_request \<Rightarrow> string list" where
  "flight_suspects w req =
     (let e = wEnv w (wTick w); b = evOthers e (wB w); b' = evOthers (wEnv w (wTick w + 1)) b
      in if bqPinProvider req \<noteq> [] then [bqPinProvider req]
         else if bqRetry req \<or> hasEvictedUnexpired (evNow e) b' then map tgId (capable_targets (b_targets b))
         else [])"

text \<open>The calls of an execution.\<close>

definition flight_log :: "nat \<Rightarrow> 'sel policy option \<Rightarrow> bind_request \<Rightarrow> claim_request \<Rightarrow> world \<Rightarrow> event list" where
  "flight_log n pol req creq w = calls (snd (run_state (executeFlight n pol req creq) (w\<lparr>wLog := []\<rparr>)))"

lemma valid_run: "valid P m Q \<Longrightarrow> P (calls w) \<Longrightarrow> Q (fst (run_state m w)) (calls (snd (run_state m w)))"
  by (simp add: valid_def)

lemma valid_runD: "valid P m Q \<Longrightarrow> run_state m w = (a, w') \<Longrightarrow> P (calls w) \<Longrightarrow> Q a (calls w')"
  by (simp add: valid_def)

lemma flight_claim_valid:
  assumes "named_targets targets"
  shows "valid (phase_post S phase) (flight_claim n targets pol req creq deadline phase) (\<lambda>_. safe S)"
  unfolding flight_claim_def
  by (cases phase) (auto intro!: valid_return valid_pre [OF claimLoop_valid [OF assms]] simp: phase_post_def)

lemma flight_valid:
  assumes "named_targets targets" and "valid P (flight_lookup now targets pol req creq deadline) (phase_post S)"
  shows "valid P (flight_lookup now targets pol req creq deadline \<bind> flight_claim n targets pol req creq deadline) (\<lambda>_. safe S)"
  by (intro valid_bind [OF assms(2)] flight_claim_valid assms(1))

lemma executeFlight_run:
  fixes w :: world
  defines "e \<equiv> wEnv w (wTick w)"
  defines "b \<equiv> evOthers e (wB w)"
  shows "run_state (executeFlight n pol req creq) w =
     run_state (flight_lookup (evNow e) (b_targets b) (case pol of None \<Rightarrow> DefaultPolicy | Some p \<Rightarrow> p) req creq
         (flight_deadline (evNow e) b req) \<bind>
       flight_claim n (b_targets b) (case pol of None \<Rightarrow> DefaultPolicy | Some p \<Rightarrow> p) req creq (flight_deadline (evNow e) b req))
     (w\<lparr>wB := b, wTick := wTick w + 1\<rparr>)"
  by (simp add: executeFlight_def get_now_def run_simps Let_def e_def b_def)

section \<open>An example\<close>

definition ex_target :: target where
  "ex_target = \<lparr>tgId = ''a'', tgProv = \<lparr>pvBinder = True, pvBatchLookup = False\<rparr>,
     tgCfg = \<lparr>tcEnabled = True, tcMaxInFlight = 1, tcTimeout = second, tcMaxRate = 1, tcLookupRate = 1, tcElastic = False,
       tcElasticWarmScore = None, tcTemplates = []\<rparr>,
     tgSlots = 0, tgClaimRate = 0, tgLookupRate = 1, tgRetryBudget = 2, tgCoalescer = None, tgHealth = 0\<rparr>"

definition ex_bind :: bind_request where
  "ex_bind = \<lparr>bqTemplate = [], bqKey = ''k'', bqRetry = True, bqLabels = [], bqRequires = [], bqPreferProvider = [],
     bqPinProvider = [], bqWarmOnly = False, bqTTL = 10, bqTimeout = 10\<rparr>"

definition ex_claim :: claim_request where
  "ex_claim = \<lparr>crTemplate = [], crKey = ''k'', crSpecHash = ''s'', crOwner = ''o'', crLabels = [], crTTL = 10\<rparr>"

text \<open>An environment with nobody else, whose clock advances by one with every reading.\<close>

definition ex_env :: "nat \<Rightarrow> env_step" where
  "ex_env i = \<lparr>evOthers = id, evNow = int i, evCtxDone = False, evRand = 0, evRnd = (\<lambda>_. 0), evReserve = Some 0, evAllow = True,
     evTimer = True, evHandle = Returned (empty_handle, Some ErrNotFound), evError = Returned None,
     evCoalesced = Inr ErrNotFound\<rparr>"

definition ex_world :: world where
  "ex_world = \<lparr>wB = ex_binder\<lparr>b_targets := [(''a'', ex_target)], b_slots := [newSlotLimiter ''a'' 1], b_claimTimeout := 10\<rparr>,
     wEnv = ex_env, wTick = 0, wLog = []\<rparr>"

lemma ex_world_sel: "wEnv ex_world = ex_env" "wTick ex_world = 0" "wLog ex_world = []"
  "b_targets (wB ex_world) = [(''a'', ex_target)]" "b_claimTimeout (wB ex_world) = 10"
  by (simp_all add: ex_world_def)

lemma ex_env_sel [simp]: "evOthers (ex_env i) = id" "evNow (ex_env i) = int i"
  by (simp_all add: ex_env_def)

text \<open>C1: a claim goes to a provider only while no other provider may hold a sandbox for the key. In every environment,
  the execution of a flight is safe from the providers that may hold one when it starts: the pinned provider of a
  pinned request, every capable provider of a retried one, nobody otherwise. So at most one provider is ever left
  with a sandbox of this key whose release nobody asked for.\<close>

theorem flight_safety:
  assumes named: "named_targets (flight_targets w)"
  shows "safe (flight_suspects w req) (flight_log n pol req creq w)"
proof -
  let ?e = "wEnv w (wTick w)"
  let ?b = "evOthers ?e (wB w)"
  let ?w = "w\<lparr>wLog := [], wB := ?b, wTick := wTick w + 1\<rparr>"
  let ?b' = "evOthers (wEnv w (wTick w + 1)) ?b"
  let ?S = "flight_suspects w req"
  let ?ts = "b_targets ?b"
  define pol' where "pol' = (case pol of None \<Rightarrow> DefaultPolicy | Some p \<Rightarrow> p)"
  define d where "d = flight_deadline (evNow ?e) ?b req"
  have ts: "named_targets ?ts" using named by (simp add: flight_targets_def)
  have "phase_post ?S r (calls w')" if r: "run_state (flight_lookup (evNow ?e) ?ts pol' req creq d) ?w = (r, w')" for r w'
  proof -
    have empty: "calls (w\<lparr>wLog := [], wB := b, wTick := k\<rparr>) = []" for b k by (simp add: calls_def)
    show ?thesis
    proof (cases "bqPinProvider req = []")
      case False
      with r valid_run [OF lookupPinned_valid [OF ts False, of "[bqPinProvider req]"], of ?w pol' req creq d] show ?thesis
        by (simp add: flight_lookup_def flight_suspects_def Let_def empty only_def)
    next
      case True
      let ?again = "bqRetry req \<or> hasEvictedUnexpired (evNow ?e) ?b'"
      obtain k b where again: "if ?again then run_state (lookupRetryAll ?ts pol' req creq d) (?w\<lparr>wB := b, wTick := k\<rparr>) = (r, w')
          else (GoOn [], ?w\<lparr>wB := b, wTick := k\<rparr>) = (r, w')"
      proof (cases "bqRetry req")
        case True
        with r \<open>bqPinProvider req = []\<close> show ?thesis
          by (intro that [of "wTick w + 1" ?b]) (simp add: flight_lookup_def run_simps)
      next
        case False
        with r \<open>bqPinProvider req = []\<close> show ?thesis
          by (intro that [of "wTick w + 2" ?b']) (simp add: flight_lookup_def run_simps Let_def split: if_splits)
      qed
      show ?thesis
      proof (cases ?again)
        case retried: True
        with again have "run_state (lookupRetryAll ?ts pol' req creq d) (?w\<lparr>wB := b, wTick := k\<rparr>) = (r, w')" by simp
        from valid_runD [OF lookupRetryAll_valid [OF ts, of ?S] this] True retried show ?thesis
          by (auto simp: flight_suspects_def Let_def empty)
      next
        case False
        with again True show ?thesis by (auto simp: flight_suspects_def Let_def empty phase_post_def only_def)
      qed
    qed
  qed
  moreover obtain r w' where "run_state (flight_lookup (evNow ?e) ?ts pol' req creq d) ?w = (r, w')" by fastforce
  ultimately show ?thesis
    using valid_run [OF flight_claim_valid [OF ts], of ?S r w' n pol' req creq d]
    by (simp add: flight_log_def executeFlight_run run_bind pol'_def d_def)
qed

theorem flight_safety_witness:
  "named_targets (flight_targets ex_world) \<and> flight_suspects ex_world ex_bind = [''a''] \<and>
   safe [''a''] (flight_log 20 (None :: unit policy option) ex_bind ex_claim ex_world)"
proof -
  have n: "named_targets (flight_targets ex_world)"
    by (simp add: flight_targets_def ex_world_sel named_targets_def ex_target_def)
  have s: "flight_suspects ex_world ex_bind = [''a'']"
    by (simp add: flight_suspects_def ex_world_sel ex_bind_def capable_targets_def claim_capable_def ex_target_def)
  from flight_safety [OF n, of ex_bind 20 "None :: unit policy option" ex_claim] n show ?thesis by (simp add: s)
qed

end
