(* ===== verification/ClaimTermination.thy ===== *)
theory ClaimTermination
  imports ClaimSafety
begin

text \<open>
  A flight ends: as soon as the clock has reached its deadline no loop takes another turn. \<open>K\<close> is a reading from
  which on the clock is past the deadline; fuel for \<open>K + 1\<close> turns is enough, however the environment behaves
  before that.
\<close>

section \<open>Time goes on\<close>

lemma forward_calls [moves_intro]: "moves forward (invokeClaim t creq deadline)" "moves forward (lookup_call t creq deadline)"
  "moves forward (coalesced_lookup t creq deadline)"
  by (simp_all add: invokeClaim_def lookup_call_def coalesced_lookup_def Let_def moves_intro)

lemma forward_lookups [moves_intro]: "moves forward (callLookup t creq deadline)" "moves forward (callLookupNoSlot t creq deadline)"
  by (simp_all add: callLookup_def callLookupNoSlot_def moves_intro)

lemma forward_attempts:
  "(\<forall>err. moves forward (retryPinnedKeyBusy n t dec pol req creq deadline err)) \<and>
   (\<forall>tk err sp k. moves forward (recoverUnknownOutcome n t dec pol req creq tk deadline err sp k))"
proof (induction n)
  case 0
  show ?case by (simp add: moves_intro)
next
  case (Suc n)
  note IH = Suc [THEN conjunct1, THEN spec] Suc [THEN conjunct2, THEN spec, THEN spec, THEN spec, THEN spec]
  have "moves forward (retryPinnedKeyBusy (Suc n) t dec pol req creq deadline err)" for err
    unfolding retryPinnedKeyBusy.simps by (intro moves_intro IH) simp_all
  moreover have "moves forward (recoverUnknownOutcome (Suc n) t dec pol req creq tk deadline err sp k)" for tk err sp k
    unfolding recoverUnknownOutcome.simps by (intro moves_intro IH) simp_all
  ultimately show ?case by blast
qed

lemmas forward_retry [moves_intro] = forward_attempts [THEN conjunct1, THEN spec]
  forward_attempts [THEN conjunct2, THEN spec, THEN spec, THEN spec, THEN spec]

lemma forward_provider [moves_intro]: "moves forward (attemptProvider n t dec cands pol req creq deadline)"
  unfolding attemptProvider_def attempt_body_def by (intro moves_intro) simp_all

lemma forward_decided [moves_intro]: "moves forward (decided n targets dec cands pol req creq deadline ls)"
  unfolding decided_def by (intro moves_intro) simp_all

lemma forward_turn [moves_intro]: "moves forward (loop_turn n targets pinned pol req creq deadline ls)"
  unfolding loop_turn_def by (intro moves_intro) simp_all

lemma forward_probe [moves_intro]: "moves forward (probe_all creq deadline ts)"
  by (induction ts) (auto intro!: moves_intro)

lemma forward_lookup_phase [moves_intro]: "moves forward (flight_lookup now targets pol req creq deadline)"
  unfolding flight_lookup_def lookupPinned_def lookupRetryAll_def
  by (intro moves_intro quiet_pinned_verdict [THEN quiet_forward]) simp_all

section \<open>Runs with enough fuel\<close>

definition late :: "nat \<Rightarrow> gotime \<Rightarrow> world \<Rightarrow> bool" where
  "late K d w \<longleftrightarrow> (\<forall>i \<ge> K. d \<le> evNow (wEnv w i))"

definition enough :: "nat \<Rightarrow> nat \<Rightarrow> world \<Rightarrow> bool" where
  "enough K n w \<longleftrightarrow> 0 < n \<and> K < n + wTick w"

definition total_run :: "nat \<Rightarrow> gotime \<Rightarrow> nat \<Rightarrow> ('a \<Rightarrow> bool) \<Rightarrow> 'a act \<Rightarrow> bool" where
  "total_run K d n \<Phi> m \<longleftrightarrow> (\<forall>w. late K d w \<longrightarrow> enough K n w \<longrightarrow> \<Phi> (fst (run_state m w)))"

named_theorems total_intro "composed operations with enough fuel"

definition returned :: "'a option \<Rightarrow> bool" where
  "returned r \<longleftrightarrow> r \<noteq> None"

lemma total_return: "\<Phi> x \<Longrightarrow> total_run K d n \<Phi> (ret x)"
  by (simp add: total_run_def run_simps)

lemma total_Some [total_intro]: "total_run K d n returned (ret (Some x))"
  by (simp add: total_return returned_def)

lemma total_bind:
  assumes "moves forward m" and "total_run K d n \<Psi> m" and "\<And>x. \<Psi> x \<Longrightarrow> total_run K d n \<Phi> (f x)"
  shows "total_run K d n \<Phi> (State_Monad.bind m f)"
  unfolding total_run_def
proof (intro allI impI)
  fix w assume w: "late K d w" "enough K n w"
  obtain x w' where run: "run_state m w = (x, w')" by fastforce
  with assms(2) w have x: "\<Psi> x" by (simp add: total_run_def) (metis fst_conv)
  from assms(1) run have "forward w w'" by (rule movesD)
  with w have "late K d w'" "enough K n w'" by (auto simp: forward_def late_def enough_def)
  with assms(3) [OF x] run show "\<Phi> (fst (run_state (m \<bind> f) w))" by (simp add: run_bind total_run_def)
qed

lemma total_then [total_intro]: "moves forward m \<Longrightarrow> (\<And>x. total_run K d n \<Phi> (f x)) \<Longrightarrow> total_run K d n \<Phi> (State_Monad.bind m f)"
  by (rule total_bind [where \<Psi> = "\<lambda>_. True"]) (simp_all add: total_run_def)

lemma total_if [total_intro]: "(c \<Longrightarrow> total_run K d n \<Phi> m) \<Longrightarrow> (\<not> c \<Longrightarrow> total_run K d n \<Phi> m') \<Longrightarrow> total_run K d n \<Phi> (if c then m else m')"
  by simp

lemma total_let [total_intro]: "(\<And>y. total_run K d n \<Phi> (f y)) \<Longrightarrow> total_run K d n \<Phi> (let y = x in f y)"
  by simp

lemma total_option [total_intro]: "total_run K d n \<Phi> m \<Longrightarrow> (\<And>y. total_run K d n \<Phi> (f y)) \<Longrightarrow> total_run K d n \<Phi> (case x of None \<Rightarrow> m | Some y \<Rightarrow> f y)"
  by (cases x) simp_all

lemma total_prod [total_intro]: "(\<And>a b. total_run K d n \<Phi> (f a b)) \<Longrightarrow> total_run K d n \<Phi> (case x of (a, b) \<Rightarrow> f a b)"
  by (cases x) simp

lemma total_sum [total_intro]: "(\<And>y. total_run K d n \<Phi> (f y)) \<Longrightarrow> (\<And>y. total_run K d n \<Phi> (g y)) \<Longrightarrow> total_run K d n \<Phi> (case x of Inl y \<Rightarrow> f y | Inr y \<Rightarrow> g y)"
  by (cases x) simp_all

text \<open>A loop whose head sees an open clock has fuel for its next turn.\<close>

lemma enough_next:
  assumes "enough K (Suc n) w" and "wTick w < K" and "wTick w < wTick w'"
  shows "enough K n w'"
  using assms by (auto simp: enough_def)

lemma loop_open_opened:
  assumes "run_state (loop_open d) w = (True, w')" and "late K d w"
  shows "wTick w < K" and "wTick w < wTick w'" and "wEnv w' = wEnv w"
proof -
  have now: "evNow (wEnv w (wTick w)) < d" and w': "wTick w' = wTick w + 2" "wEnv w' = wEnv w"
    using assms(1) by (auto simp: loop_open_def get_now_def ctx_done_def run_simps Let_def split: if_splits)
  show "wTick w < K"
  proof (rule ccontr)
    assume "\<not> wTick w < K"
    with assms(2) have "d \<le> evNow (wEnv w (wTick w))" by (simp add: late_def)
    with now show False by simp
  qed
  show "wTick w < wTick w'" "wEnv w' = wEnv w" using w' by simp_all
qed

lemma total_head:
  assumes stop: "total_run K d (Suc n) \<Phi> stop" and body: "total_run K d n \<Phi> body"
  shows "total_run K d (Suc n) \<Phi> (loop_open d \<bind> (\<lambda>opn. if \<not> opn then stop else body))"
  unfolding total_run_def
proof (intro allI impI)
  fix w assume w: "late K d w" "enough K (Suc n) w"
  obtain opn w' where run: "run_state (loop_open d) w = (opn, w')" by fastforce
  have "forward w w'" using quiet_wait(2) [THEN quiet_forward] run by (rule movesD)
  then have w': "late K d w'" "enough K (Suc n) w'" using w by (auto simp: forward_def late_def enough_def)
  show "\<Phi> (fst (run_state (loop_open d \<bind> (\<lambda>opn. if \<not> opn then stop else body)) w))"
  proof (cases opn)
    case False
    with run stop w' show ?thesis by (simp add: run_bind total_run_def)
  next
    case True
    with run w have "enough K n w'" using loop_open_opened [of d w w' K] by (simp add: enough_next)
    with True run body w' show ?thesis by (simp add: run_bind total_run_def)
  qed
qed

section \<open>Attempts\<close>

lemma total_attempts:
  "(\<forall>err. total_run K deadline n returned (retryPinnedKeyBusy n t dec pol req creq deadline err)) \<and>
   (\<forall>tk err sp k. total_run K deadline n returned (recoverUnknownOutcome n t dec pol req creq tk deadline err sp k))"
proof (induction n)
  case 0
  show ?case by (simp add: total_run_def enough_def)
next
  case (Suc n)
  note IH = Suc [THEN conjunct1, THEN spec] Suc [THEN conjunct2, THEN spec, THEN spec, THEN spec, THEN spec]
  have "total_run K deadline (Suc n) returned (retryPinnedKeyBusy (Suc n) t dec pol req creq deadline err)" for err
    unfolding retryPinnedKeyBusy.simps by (rule total_head; intro total_intro IH moves_intro; simp)
  moreover have "total_run K deadline (Suc n) returned (recoverUnknownOutcome (Suc n) t dec pol req creq tk deadline err sp k)"
    for tk err sp k
    unfolding recoverUnknownOutcome.simps by (rule total_head; intro total_intro IH moves_intro; simp)
  ultimately show ?case by blast
qed

lemmas total_retry [total_intro] = total_attempts [THEN conjunct1, THEN spec]
  total_attempts [THEN conjunct2, THEN spec, THEN spec, THEN spec, THEN spec]

lemma total_provider: "total_run K deadline n returned (attemptProvider n t dec cands pol req creq deadline)"
proof -
  have "total_run K deadline n returned (attempt_body n t dec cands pol req creq deadline)"
    unfolding attempt_body_def by (intro total_intro moves_intro; simp?)
  then show ?thesis unfolding attemptProvider_def
    by (rule total_bind [rotated]; (intro total_intro moves_intro total_return | simp add: attempt_body_def moves_intro))
qed

section \<open>The claim loop\<close>

lemma total_decided: "total_run K deadline n (\<lambda>r. r \<noteq> NoFuel) (decided n targets dec cands pol req creq deadline ls)"
  unfolding decided_def
  by (intro total_bind [OF forward_provider total_provider] total_intro moves_intro total_return)
    (auto simp: returned_def split: option.splits attempt_action.splits)

lemma total_no_decision: "total_run K d n (\<lambda>r. r \<noteq> NoFuel) (no_decision d' ls)"
  unfolding no_decision_def by (intro total_intro moves_intro total_return) simp_all

lemma total_turn: "total_run K deadline n (\<lambda>r. r \<noteq> NoFuel) (loop_turn n targets pinned pol req creq deadline ls)"
  unfolding loop_turn_def
  by (intro total_intro moves_intro total_return total_decided total_no_decision; simp?)

lemma claimLoop_head:
  assumes "run_state (if lsSpills ls < b_maxSpill b then get_now else ret d) w = (now, w')" and "now < d" and "late K d w"
  shows "wTick w < K" and "wTick w < wTick w'"
proof -
  from assms(1,2) have now: "now = evNow (wEnv w (wTick w))" "wTick w' = wTick w + 1"
    by (auto simp: get_now_def run_simps Let_def split: if_splits)
  with assms(2,3) show "wTick w < K" by (auto simp: late_def not_le [symmetric] intro: leI)
  from now show "wTick w < wTick w'" by simp
qed

lemma forward_claimLoop [moves_intro]: "moves forward (claimLoop n targets pinned pol req creq deadline ls)"
proof (induction n arbitrary: ls)
  case (Suc n)
  have turn: "moves forward (case t of Return r \<Rightarrow> ret (Some r)
      | Continue ls \<Rightarrow> claimLoop n targets pinned pol req creq deadline ls
      | Break ls \<Rightarrow> loop_end ls \<bind> (\<lambda>e. ret (Some (Inl e))) | NoFuel \<Rightarrow> ret None)" for t
    by (cases t) (auto intro!: moves_intro Suc)
  show ?case unfolding claimLoop.simps by (intro moves_intro turn) simp_all
qed (simp add: moves_intro)

lemma total_claimLoop: "total_run K deadline n returned (claimLoop n targets pinned pol req creq deadline ls)"
proof (induction n arbitrary: ls)
  case 0
  show ?case by (simp add: total_run_def enough_def)
next
  case (Suc n)
  have stop: "total_run K deadline m returned (loop_end ls \<bind> (\<lambda>e. ret (Some (Inl e))))" for ls m
    by (intro total_intro moves_intro)
  have turn: "total_run K deadline n returned (case t of Return r \<Rightarrow> ret (Some r)
      | Continue ls \<Rightarrow> claimLoop n targets pinned pol req creq deadline ls
      | Break ls \<Rightarrow> loop_end ls \<bind> (\<lambda>e. ret (Some (Inl e))) | NoFuel \<Rightarrow> ret None)" if "t \<noteq> NoFuel" for t
    using that by (cases t) (auto intro!: total_intro stop Suc)
  have body: "total_run K deadline n returned (loop_turn n targets pinned pol req creq deadline ls \<bind> (\<lambda>t. case t of
        Return r \<Rightarrow> ret (Some r)
      | Continue ls \<Rightarrow> claimLoop n targets pinned pol req creq deadline ls
      | Break ls \<Rightarrow> loop_end ls \<bind> (\<lambda>e. ret (Some (Inl e))) | NoFuel \<Rightarrow> ret None))"
    by (rule total_bind [OF forward_turn total_turn turn])
  show ?case unfolding total_run_def
  proof (intro allI impI)
    fix w assume w: "late K deadline w" "enough K (Suc n) w"
    obtain now w' where run: "run_state (if lsSpills ls < b_maxSpill (wB w) then get_now else ret deadline) w = (now, w')" by fastforce
    have "moves forward (if lsSpills ls < b_maxSpill (wB w) then get_now else ret deadline)" by (intro moves_intro) simp_all
    then have "forward w w'" using run by (rule movesD)
    then have w': "late K deadline w'" "enough K (Suc n) w'" using w by (auto simp: forward_def late_def enough_def)
    have peek: "run_state peek w = (wB w, w)" by (simp add: peek_def)
    have step: "run_state (claimLoop (Suc n) targets pinned pol req creq deadline ls) w = run_state
        (if \<not> now < deadline then loop_end ls \<bind> (\<lambda>e. ret (Some (Inl e)))
         else loop_turn n targets pinned pol req creq deadline ls \<bind> (\<lambda>t. case t of
              Return r \<Rightarrow> ret (Some r)
            | Continue ls \<Rightarrow> claimLoop n targets pinned pol req creq deadline ls
            | Break ls \<Rightarrow> loop_end ls \<bind> (\<lambda>e. ret (Some (Inl e))) | NoFuel \<Rightarrow> ret None)) w'"
      by (simp only: claimLoop.simps run_bind [of peek] run_bind [of "if _ then get_now else _"] peek run prod.case)
    show "returned (fst (run_state (claimLoop (Suc n) targets pinned pol req creq deadline ls) w))"
    proof (cases "now < deadline")
      case True
      have "enough K n w'" using w(2) claimLoop_head [OF run True w(1)] by (rule enough_next)
      with body w'(1) show ?thesis unfolding step total_run_def by (simp only: True not_True_eq_False if_False)
    next
      case False
      with stop [of "Suc n" ls] w' show ?thesis unfolding step total_run_def by (simp only: False not_False_eq_True if_True) blast
    qed
  qed
qed

section \<open>The flight\<close>

lemma total_flight_claim: "total_run K deadline n returned (flight_claim n targets pol req creq deadline phase)"
  unfolding flight_claim_def by (cases phase) (auto intro!: total_intro total_claimLoop)

lemma forward_flight_claim [moves_intro]: "moves forward (flight_claim n targets pol req creq deadline phase)"
  unfolding flight_claim_def by (cases phase) (auto intro!: moves_intro)

text \<open>C3: every flight returns. Whatever other goroutines, providers and limiters do, and whatever the clock shows before
  the \<open>K\<close>-th reading, if from that reading on the clock is past the claim timeout counted from the first reading, then
  fuel for \<open>K + 1\<close> turns lets the execution of the flight return an answer.\<close>

theorem flight_terminates:
  assumes clock: "\<And>i. K \<le> i \<Longrightarrow> evNow (wEnv w (wTick w)) + b_claimTimeout (evOthers (wEnv w (wTick w)) (wB w)) \<le> evNow (wEnv w i)"
  shows "\<exists>r. fst (run_state (executeFlight (Suc K) pol req creq) w) = Some r"
proof -
  let ?e = "wEnv w (wTick w)"
  let ?b = "evOthers ?e (wB w)"
  let ?d = "flight_deadline (evNow ?e) ?b req"
  have "?d \<le> evNow ?e + b_claimTimeout ?b" by (simp add: flight_deadline_def)
  then have "late K ?d (w\<lparr>wB := ?b, wTick := wTick w + 1\<rparr>)" using clock by (auto simp: late_def intro: order_trans)
  moreover have "enough K (Suc K) (w\<lparr>wB := ?b, wTick := wTick w + 1\<rparr>)" by (simp add: enough_def)
  moreover have "total_run K ?d (Suc K) returned (flight_lookup (evNow ?e) (b_targets ?b) p req creq ?d \<bind>
      flight_claim (Suc K) (b_targets ?b) p req creq ?d)" for p :: "'a policy"
    by (intro total_then forward_lookup_phase total_flight_claim)
  ultimately show ?thesis unfolding executeFlight_run total_run_def returned_def by blast
qed

theorem flight_terminates_witness:
  "\<exists>r. fst (run_state (executeFlight 11 (None :: unit policy option) ex_bind ex_claim) ex_world) = Some r"
proof -
  have "\<exists>r. fst (run_state (executeFlight (Suc 10) (None :: unit policy option) ex_bind ex_claim) ex_world) = Some r"
    by (rule flight_terminates) (simp add: ex_world_sel)
  then show ?thesis by simp
qed

end
