(* ===== verification/ClaimAnswers.thy ===== *)
theory ClaimAnswers
  imports ClaimSafety
begin

text \<open>
  What a flight answers: a result is the handle of a call that succeeded in this flight, marked as a replay if
  the call was a lookup; an error has the status of its reason.
\<close>

section \<open>Well-formed answers\<close>

definition reason_status :: "reason \<Rightarrow> int" where
  "reason_status r = (case r of
     ReasonInvalidRequest \<Rightarrow> 400
   | ReasonInvalidPolicy \<Rightarrow> 422
   | ReasonRejected \<Rightarrow> 422
   | ReasonNoCapacity \<Rightarrow> 409
   | ReasonSpecMismatch \<Rightarrow> 409
   | ReasonConstraintExcluded \<Rightarrow> 409
   | ReasonSlotsFull \<Rightarrow> 429
   | ReasonRateLimited \<Rightarrow> 429
   | ReasonTooManyJoiners \<Rightarrow> 429
   | ReasonKeyBusy \<Rightarrow> 429
   | ReasonBusy \<Rightarrow> 429
   | ReasonNoProviders \<Rightarrow> 503
   | ReasonUnavailable \<Rightarrow> 503
   | ReasonHoldOff \<Rightarrow> 503
   | ReasonStandby \<Rightarrow> 503
   | ReasonClaimsDisabled \<Rightarrow> 501
   | ReasonUnknownOutcome \<Rightarrow> 504)"

definition typed_error :: "bind_error \<Rightarrow> bool" where
  "typed_error e \<longleftrightarrow> beStatus e = reason_status (beReason e)"

text \<open>A call of the log that answered this handle, a lookup for a replay.\<close>

definition answered :: "handle \<Rightarrow> bool \<Rightarrow> event list \<Rightarrow> bool" where
  "answered h replay l \<longleftrightarrow> list_ex (\<lambda>ev. case ev of
       EvClaim p c d r \<Rightarrow> \<not> replay \<and> r = (h, None)
     | EvLookup p c d r \<Rightarrow> replay \<and> r = (h, None)
     | _ \<Rightarrow> False) l"

definition well_answered :: "bind_error + bind_result \<Rightarrow> event list \<Rightarrow> bool" where
  "well_answered a l \<longleftrightarrow> (case a of Inl e \<Rightarrow> typed_error e | Inr r \<Rightarrow> answered (brHandle r) (brReplay r) l)"

definition well_attempted :: "attempt \<Rightarrow> event list \<Rightarrow> bool" where
  "well_attempted a l \<longleftrightarrow> (case a of
     (Some r, err, act) \<Rightarrow> act = AttemptDone \<and> answered (brHandle r) (brReplay r) l
   | (None, Some e, act) \<Rightarrow> typed_error e
   | (None, None, act) \<Rightarrow> act = AttemptRetryDecision)"

lemma typed_mk [simp]: "typed_error (mk_error st rsn m ps) \<longleftrightarrow> st = reason_status rsn"
  "typed_error (mk_error st rsn m ps\<lparr>beRetryAfter := d\<rparr>) \<longleftrightarrow> st = reason_status rsn"
  "typed_error (mk_error st rsn m ps\<lparr>beExplanation := x\<rparr>) \<longleftrightarrow> st = reason_status rsn"
  "typed_error (mk_error st rsn m ps\<lparr>beRetryAfter := d, beExplanation := x\<rparr>) \<longleftrightarrow> st = reason_status rsn"
  by (simp_all add: typed_error_def mk_error_def)

lemma reason_status_simps [simp]:
  "reason_status ReasonInvalidRequest = 400" "reason_status ReasonInvalidPolicy = 422" "reason_status ReasonRejected = 422"
  "reason_status ReasonNoCapacity = 409" "reason_status ReasonSpecMismatch = 409" "reason_status ReasonConstraintExcluded = 409"
  "reason_status ReasonSlotsFull = 429" "reason_status ReasonRateLimited = 429" "reason_status ReasonTooManyJoiners = 429"
  "reason_status ReasonKeyBusy = 429" "reason_status ReasonBusy = 429" "reason_status ReasonNoProviders = 503"
  "reason_status ReasonUnavailable = 503" "reason_status ReasonHoldOff = 503" "reason_status ReasonUnknownOutcome = 504"
  "reason_status ReasonStandby = 503" "reason_status ReasonClaimsDisabled = 501"
  by (simp_all add: reason_status_def)

section \<open>Calls and attempts\<close>

abbreviation anything :: "event list \<Rightarrow> bool" where "anything \<equiv> \<lambda>_. True"

definition call_ok :: "bool \<Rightarrow> handle \<times> go_error option \<Rightarrow> event list \<Rightarrow> bool" where
  "call_ok replay r l \<longleftrightarrow> (snd r = None \<longrightarrow> answered (fst r) replay l)"

lemma call_ok_event: "call_ok False r (EvClaim p c d r # l)" "call_ok True r (EvLookup p c d r # l)"
  by (cases r; simp add: call_ok_def answered_def)+

lemma call_ok_shutdown: "call_ok replay shutting_down l"
  using not_found_shutdown by (auto simp: call_ok_def)

lemma invokeClaim_answer: "valid anything (invokeClaim t creq deadline) (call_ok False)"
  unfolding invokeClaim_def
proof (intro valid_intro valid_return call_ok_shutdown)
  fix now e r
  show "valid anything (emit (EvClaim (tgId t) creq (attemptDuration (tcTimeout (tgCfg t)) deadline now) r) \<bind>
      (\<lambda>_. get_now \<bind> (\<lambda>finish. locked finishAttempt \<bind> (\<lambda>_. ret r)))) (call_ok False)"
    by (rule valid_emit_bind [where P' = "call_ok False r"]) (auto intro!: valid_intro valid_return simp: call_ok_event)
qed

lemma lookup_call_answer: "valid anything (lookup_call t creq deadline) (call_ok True)"
  unfolding lookup_call_def
proof (intro valid_intro)
  fix now e r
  show "valid anything (emit (EvLookup (tgId t) creq (attemptDuration (tcTimeout (tgCfg t)) deadline now) r) \<bind> (\<lambda>_. ret r)) (call_ok True)"
    by (rule valid_emit_bind [where P' = "call_ok True r"]) (auto intro!: valid_return simp: call_ok_event)
qed

lemma callLookup_answer: "valid anything (callLookup t creq deadline) (call_ok True)"
  unfolding callLookup_def
  by (intro valid_intro valid_bind [OF lookup_call_answer])
    (auto intro!: valid_intro valid_return call_ok_shutdown simp: call_ok_def)

lemma callLookupNoSlot_answer: "valid anything (callLookupNoSlot t creq deadline) (call_ok True)"
  unfolding callLookupNoSlot_def
  by (intro valid_intro valid_bind [OF lookup_call_answer]) (auto intro!: valid_intro valid_return call_ok_shutdown)

lemma coalesced_answer: "valid anything (coalesced_lookup t creq deadline) (call_ok True)"
  unfolding coalesced_lookup_def
proof (intro valid_intro)
  fix now e r
  show "valid anything (emit (EvLookup (tgId t) creq (attemptDuration (tcTimeout (tgCfg t)) deadline now) r) \<bind> (\<lambda>_. ret r)) (call_ok True)"
    by (rule valid_emit_bind [where P' = "call_ok True r"]) (auto intro!: valid_return simp: call_ok_event)
qed

text \<open>An attempt that only reports.\<close>

definition reports :: "attempt \<Rightarrow> bool" where
  "reports a \<longleftrightarrow> (case a of (None, Some e, act) \<Rightarrow> typed_error e | (None, None, act) \<Rightarrow> act = AttemptRetryDecision | _ \<Rightarrow> False)"

lemma reports_well: "reports a \<Longrightarrow> well_attempted a l"
  by (auto simp: reports_def well_attempted_def split: prod.splits option.splits)

lemma reports_simps [simp]: "reports (attempt_error e a) \<longleftrightarrow> typed_error e" "reports (None, None, AttemptRetryDecision)"
  "reports (unknown_error t err)" "typed_error (spec_conflict p err)"
  by (simp_all add: reports_def attempt_error_def unknown_error_def spec_conflict_def)

definition attempted :: "attempt option \<Rightarrow> event list \<Rightarrow> bool" where
  "attempted a l \<longleftrightarrow> (case a of None \<Rightarrow> True | Some a \<Rightarrow> well_attempted a l)"

lemma attempted_report: "reports a \<Longrightarrow> valid P (ret (Some a)) attempted"
  by (intro valid_return) (simp add: attempted_def reports_well)

lemma yields_reports: "yields reports (on_refusal t req tk err j a)" "yields reports (key_busy_error t err)"
  "yields (\<lambda>c. case c of Inl a \<Rightarrow> reports a | Inr _ \<Rightarrow> True) (retry_capacity t req)"
  unfolding on_refusal_def key_busy_error_def retry_capacity_def by (intro yields_intro; simp)+

lemma report_step: "moves quiet m \<Longrightarrow> yields reports m \<Longrightarrow> valid P (m \<bind> (\<lambda>a. ret (Some a))) attempted"
  by (erule (1) valid_step) (rule attempted_report)

lemma success_step:
  "snd r = None \<Longrightarrow> valid (call_ok replay r) (success t pol dec (fst r) replay tk \<bind> (\<lambda>a. ret (Some a))) attempted"
  unfolding success_def
  by (simp add: claimed_def, intro valid_intro valid_return)
    (auto simp: run_return attempted_def well_attempted_def call_ok_def)

lemma valid_anything: "valid anything m Q \<Longrightarrow> valid P m Q"
  by (simp add: valid_def)

lemmas report_steps = report_step [OF quiet_on_refusal yields_reports(1)] report_step [OF quiet_outcome(2) yields_reports(2)]

lemmas capacity_report = valid_step [OF quiet_outcome(3) yields_reports(3)]

lemma attempts_answer:
  "(\<forall>err. valid anything (retryPinnedKeyBusy n t dec pol req creq deadline err) attempted) \<and>
   (\<forall>tk err sp k. valid anything (recoverUnknownOutcome n t dec pol req creq tk deadline err sp k) attempted)"
proof (induction n)
  case 0
  show ?case by (auto intro!: valid_return simp: attempted_def)
next
  case (Suc n)
  note IH = Suc [THEN conjunct1, THEN spec, THEN valid_anything]
    Suc [THEN conjunct2, THEN spec, THEN spec, THEN spec, THEN spec, THEN valid_anything]
  have "valid anything (retryPinnedKeyBusy (Suc n) t dec pol req creq deadline err) attempted" for err
    unfolding retryPinnedKeyBusy.simps
    by (intro valid_intro report_steps capacity_report valid_bind [OF invokeClaim_answer] success_step IH attempted_report) auto
  moreover have "valid anything (recoverUnknownOutcome (Suc n) t dec pol req creq tk deadline err sp k) attempted" for tk err sp k
  proof -
    have tok: "moves quiet (if tcElastic (tgCfg t) \<or> \<not> tkValid tk then wait_token (tgClaimRate t) deadline else ret True)"
      by (intro moves_intro) simp_all
    show ?thesis unfolding recoverUnknownOutcome.simps
      by (intro valid_intro report_steps valid_skip [OF tok] valid_bind [OF callLookupNoSlot_answer]
            valid_anything [OF valid_bind [OF invokeClaim_answer]] success_step IH attempted_report) auto
  qed
  ultimately show ?case by blast
qed

lemmas retry_answer = attempts_answer [THEN conjunct1, THEN spec, THEN valid_anything]
  attempts_answer [THEN conjunct2, THEN spec, THEN spec, THEN spec, THEN spec, THEN valid_anything]

lemma attemptProvider_answer: "valid anything (attemptProvider n t dec cands pol req creq deadline) attempted"
proof -
  have "valid anything (attempt_body n t dec cands pol req creq deadline) attempted"
    unfolding attempt_body_def
    by (intro valid_skip [OF quiet_capacity] valid_intro report_steps valid_bind [OF invokeClaim_answer] success_step retry_answer
        attempted_report) auto
  then show ?thesis unfolding attemptProvider_def by (rule valid_bind) (intro valid_intro; simp add: valid_return)
qed

section \<open>The claim loop and the lookups\<close>

definition turned :: "turn \<Rightarrow> event list \<Rightarrow> bool" where
  "turned r l \<longleftrightarrow> (case r of Return a \<Rightarrow> well_answered a l | _ \<Rightarrow> True)"

lemma turned_simps [simp]: "turned (Return (Inl e)) l \<longleftrightarrow> typed_error e" "turned (Continue ls) l" "turned (Break ls) l" "turned NoFuel l"
  by (simp_all add: turned_def well_answered_def)

lemma typed_nil_panic [simp]: "typed_error nil_panic" "typed_error (policy_error pol err)"
  by (simp_all add: nil_panic_def panic_error_def policy_error_def)

lemma attempted_turn:
  "attempted a l \<Longrightarrow> turned (case a of None \<Rightarrow> NoFuel
    | Some (res, berr, act) \<Rightarrow> (case act of
          AttemptDone \<Rightarrow> Return (case res of Some r \<Rightarrow> Inr r | None \<Rightarrow> Inl (the berr))
        | AttemptRetryDecision \<Rightarrow> Continue ls
        | AttemptSpill \<Rightarrow> Continue (f berr))) l"
  by (auto simp: attempted_def well_attempted_def turned_def well_answered_def
      split: option.splits prod.splits attempt_action.splits)

lemma decided_answer: "valid anything (decided n targets dec cands pol req creq deadline ls) turned"
  unfolding decided_def
  by (intro valid_intro valid_return valid_bind [OF attemptProvider_answer]) (erule attempted_turn | simp)+

lemma no_decision_answer: "valid P (no_decision deadline ls) turned"
proof -
  have "yields (\<lambda>r. \<forall>l. turned r l) (no_decision deadline ls)"
    unfolding no_decision_def by (intro yields_intro) simp_all
  then show ?thesis by (rule valid_quiet [OF quiet_no_decision]) blast
qed

lemma loop_turn_answer: "valid anything (loop_turn n targets pinned pol req creq deadline ls) turned"
  unfolding loop_turn_def
  by (intro valid_intro valid_skip [OF quiet_consider_all] valid_return no_decision_answer decided_answer) simp_all

lemma loop_end_typed: "yields typed_error (loop_end ls)"
  unfolding loop_end_def Let_def by (intro yields_intro) simp_all

definition well_returned :: "(bind_error + bind_result) option \<Rightarrow> event list \<Rightarrow> bool" where
  "well_returned a l \<longleftrightarrow> (case a of None \<Rightarrow> True | Some a \<Rightarrow> well_answered a l)"

lemma claimLoop_answer: "valid anything (claimLoop n targets pinned pol req creq deadline ls) well_returned"
proof (induction n arbitrary: ls)
  case 0
  show ?case by (simp add: valid_return well_returned_def)
next
  case (Suc n)
  have stop: "valid P (loop_end ls \<bind> (\<lambda>e. ret (Some (Inl e)))) well_returned" for ls P
    by (rule valid_step [OF quiet_loop_end loop_end_typed]) (simp add: valid_return well_returned_def well_answered_def)
  have turn: "valid (turned t) (case t of Return r \<Rightarrow> ret (Some r)
      | Continue ls \<Rightarrow> claimLoop n targets pinned pol req creq deadline ls
      | Break ls \<Rightarrow> loop_end ls \<bind> (\<lambda>e. ret (Some (Inl e))) | NoFuel \<Rightarrow> ret None) well_returned" for t
    by (cases t) (auto intro!: valid_return valid_anything [OF Suc] stop simp: turned_def well_returned_def)
  have clock: "moves quiet (if lsSpills ls < b_maxSpill b then get_now else ret deadline)" for b ls
    by (intro moves_intro) simp_all
  show ?case unfolding claimLoop.simps
    by (intro valid_skip [OF quiet_peek] valid_skip [OF clock] valid_if stop valid_bind [OF loop_turn_answer] turn)
qed

definition phased :: "lookup_phase \<Rightarrow> event list \<Rightarrow> bool" where
  "phased r l \<longleftrightarrow> (case r of Answer a \<Rightarrow> well_answered a l | GoOn _ \<Rightarrow> True)"

lemma phased_simps [simp]: "phased (Answer (Inl e)) l \<longleftrightarrow> typed_error e" "phased (GoOn p) l"
  by (simp_all add: phased_def well_answered_def)

lemma phased_found: "answered h True l \<Longrightarrow> phased (Answer (if \<not> ok then Inl (excluded_error req p) else Inr (replayed pol h))) l"
  by (simp add: phased_def well_answered_def replayed_def excluded_error_def)

lemma lookupPinned_answer: "valid anything (lookupPinned targets pin pol req creq deadline) phased"
proof -
  have verdict: "valid (call_ok True r) (pinned_verdict pin t pol req r) phased" for r t
  proof (cases "snd r")
    case None
    then show ?thesis unfolding pinned_verdict_def
      by (simp, intro valid_intro valid_return) (simp_all add: call_ok_def phased_def well_answered_def replayed_def excluded_error_def)
  next
    case (Some err)
    have "yields (\<lambda>x. \<forall>l. phased x l) (pinned_verdict pin t pol req r)"
      unfolding pinned_verdict_def Some option.case by (intro yields_intro) simp_all
    then show ?thesis by (rule valid_quiet [OF quiet_pinned_verdict]) blast
  qed
  have sleep: "moves quiet (if fst w > 0 then get_now \<bind> (\<lambda>now. sleepUntil (now + fst w)) else ret True)" for w :: "duration \<times> bool"
    by (intro moves_intro) simp_all
  show ?thesis unfolding lookupPinned_def
    by (intro valid_intro valid_skip [OF quiet_reserve] valid_skip [OF sleep] valid_bind [OF callLookup_answer] verdict valid_return) simp_all
qed

definition outcomes_ok :: "outcome list \<Rightarrow> event list \<Rightarrow> bool" where
  "outcomes_ok outs l \<longleftrightarrow> list_all (\<lambda>(t, h, err). err = None \<longrightarrow> answered h True l) outs"

lemma answered_mono: "answered h rp l \<Longrightarrow> answered h rp (ev # l)"
  by (simp add: answered_def)

text \<open>The calls of a run are on top of those before it.\<close>

definition extends :: "world \<Rightarrow> world \<Rightarrow> bool" where
  "extends w w' \<longleftrightarrow> (\<exists>l. calls w' = l @ calls w)"

lemma preorder_extends [simp]: "preorder extends"
  by (auto simp: preorder_def extends_def reflp_def transp_def)

lemma quiet_extends: "moves quiet m \<Longrightarrow> moves extends m"
  by (auto simp: moves_def quiet_def extends_def)

lemma extends_emit: "moves extends (emit ev)"
  by (simp add: moves_def extends_def run_simps calls_def)


lemma extends_lookups: "moves extends (callLookup t creq deadline)" "moves extends (coalesced_lookup t creq deadline)"
proof -
  have e: "moves extends (lookup_call t creq deadline)"
    unfolding lookup_call_def by (intro moves_intro extends_emit quiet_tick [THEN quiet_extends] quiet_clock [THEN quiet_extends]) simp_all
  show "moves extends (callLookup t creq deadline)"
    unfolding callLookup_def by (intro moves_intro e quiet_basic [THEN quiet_extends]) simp_all
  show "moves extends (coalesced_lookup t creq deadline)"
    unfolding coalesced_lookup_def
    by (intro moves_intro extends_emit quiet_tick [THEN quiet_extends] quiet_clock [THEN quiet_extends]) simp_all
qed

lemma extends_probe: "moves extends (probe_all creq deadline ts)"
  by (induction ts) (auto intro!: moves_intro extends_lookups)

lemma valid_frame:
  assumes "moves extends m" and "valid P m Q" and "\<And>l l'. X l \<Longrightarrow> X (l' @ l)"
  shows "valid (\<lambda>l. P l \<and> X l) m (\<lambda>r l. Q r l \<and> X l)"
  unfolding valid_def
proof (intro allI impI)
  fix w a w'
  assume run: "run_state m w = (a, w')" and P: "P (calls w) \<and> X (calls w)"
  from assms(1) run have "extends w w'" by (rule movesD)
  with P assms(3) have "X (calls w')" by (auto simp: extends_def)
  with assms(2) run P show "Q a (calls w') \<and> X (calls w')" by (simp add: valid_def)
qed

lemma probe_all_answer: "valid anything (probe_all creq deadline ts) outcomes_ok"
proof (induction ts)
  case Nil
  show ?case by (simp add: valid_return outcomes_ok_def)
next
  case (Cons t ts)
  have one: "valid anything (if tgCoalescer t \<noteq> None then coalesced_lookup t creq deadline else callLookup t creq deadline) (call_ok True)"
    by (intro valid_if coalesced_answer callLookup_answer)
  have "valid (\<lambda>l. True \<and> call_ok True r l) (probe_all creq deadline ts) (\<lambda>outs l. outcomes_ok outs l \<and> call_ok True r l)" for r
    by (rule valid_frame [OF extends_probe Cons]) (auto simp: call_ok_def answered_def)
  then have frame: "valid (call_ok True r) (probe_all creq deadline ts) (\<lambda>outs l. outcomes_ok outs l \<and> call_ok True r l)" for r
    by simp
  have rest: "valid (call_ok True r) (probe_all creq deadline ts \<bind> (\<lambda>rs. ret ((t, fst r, snd r) # rs))) outcomes_ok" for r
    by (rule valid_bind [OF frame valid_return]) (cases r, simp add: outcomes_ok_def call_ok_def)
  show ?case unfolding probe_all.simps by (intro valid_bind [OF one] rest)
qed

lemma probe_verdict_answer: "valid (outcomes_ok outs) (probe_verdict pol req outs) phased"
proof (cases "find (\<lambda>(t, h, err). err = None) outs")
  case None
  have "yields (\<lambda>x. \<forall>l. phased x l) (probe_verdict pol req outs)"
    unfolding probe_verdict_def None option.case by (intro yields_intro) simp_all
  then show ?thesis by (rule valid_quiet [OF quiet_verdict]) blast
next
  case (Some x)
  then obtain i where "i < length outs" "outs ! i = x" "case x of (t, h, err) \<Rightarrow> err = None"
    by (auto simp: find_Some_iff)
  then have "x \<in> set outs" "case x of (t, h, err) \<Rightarrow> err = None" by (metis nth_mem, simp)
  then obtain t h where x: "x = (t, h, None)" "(t, h, None) \<in> set outs" by (cases x) auto
  have "answered h True l" if "outcomes_ok outs l" for l using that x(2) by (auto simp: outcomes_ok_def list_all_set)
  then show ?thesis unfolding probe_verdict_def Some option.case x(1) prod.case
    by (intro valid_intro valid_return phased_found)
qed

lemma lookupRetryAll_answer: "valid anything (lookupRetryAll targets pol req creq deadline) phased"
proof -
  have reserve: "moves quiet (if nb = [] then ret (0, True) else reserveLookupTokens deadline nb)" for nb
    by (intro moves_intro) simp_all
  have sleep: "moves quiet (if fst w > 0 then get_now \<bind> (\<lambda>now. sleepUntil (now + fst w)) else ret True)" for w :: "duration \<times> bool"
    by (intro moves_intro) simp_all
  show ?thesis unfolding lookupRetryAll_def Let_def
    by (intro valid_if valid_skip [OF reserve] valid_skip [OF sleep] valid_bind [OF probe_all_answer] probe_verdict_answer
        valid_intro valid_return) simp_all
qed

section \<open>The flight\<close>

lemma flight_lookup_answer: "valid anything (flight_lookup now targets pol req creq deadline) phased"
proof -
  have again: "moves quiet (if bqRetry req then ret True else tick \<bind> (\<lambda>e. peek \<bind> (\<lambda>b. ret (hasEvictedUnexpired now b))))"
    by (intro moves_intro) simp_all
  show ?thesis unfolding flight_lookup_def
    by (intro valid_if valid_skip [OF again] lookupPinned_answer lookupRetryAll_answer valid_return) simp
qed

lemma flight_claim_answer: "valid (phased phase) (flight_claim n targets pol req creq deadline phase) well_returned"
  unfolding flight_claim_def
  by (cases phase) (auto intro!: valid_return valid_anything [OF claimLoop_answer] simp: phased_def well_returned_def)

text \<open>C4: what a flight answers is well-formed. An error has the HTTP status that belongs to its reason, and a result is the
  handle that a claim or a lookup of this flight returned without an error, marked as a replay exactly if it was a
  lookup.\<close>

theorem flight_answers:
  "case run_state (executeFlight n pol req creq) (w\<lparr>wLog := []\<rparr>) of
     (Some (Inl e), w') \<Rightarrow> typed_error e
   | (Some (Inr r), w') \<Rightarrow> answered (brHandle r) (brReplay r) (calls w')
   | (None, w') \<Rightarrow> True"
proof -
  obtain a w' where run: "run_state (executeFlight n pol req creq) (w\<lparr>wLog := []\<rparr>) = (a, w')" by fastforce
  note flight = valid_bind [OF flight_lookup_answer flight_claim_answer]
  from valid_runD [OF flight run [unfolded executeFlight_run]] have "well_returned a (calls w')" by simp
  then show ?thesis by (auto simp: run well_returned_def well_answered_def split: option.splits sum.splits)
qed

end
