(* ===== verification/ClaimPinned.thy ===== *)
theory ClaimPinned
  imports ClaimSafety
begin

text \<open>
  Two more guarantees of a flight: a pinned request claims nowhere else, and the lookup tokens of a request are
  taken together or not at all.
\<close>

section \<open>Where claims go\<close>

definition claims_at :: "string \<Rightarrow> event \<Rightarrow> bool" where
  "claims_at q ev \<longleftrightarrow> (case ev of EvClaim p c d r \<Rightarrow> p = q | _ \<Rightarrow> True)"

definition only_claims :: "string \<Rightarrow> world \<Rightarrow> world \<Rightarrow> bool" where
  "only_claims q w w' \<longleftrightarrow> (\<exists>l. calls w' = l @ calls w \<and> list_all (claims_at q) l)"

lemma preorder_only_claims [simp]: "preorder (only_claims q)"
proof -
  have "only_claims q w w" for w by (auto simp: only_claims_def intro: exI [of _ "[]"])
  moreover have "only_claims q w w'" if 1: "only_claims q w v" and 2: "only_claims q v w'" for w v w'
  proof -
    from 1 obtain l where l: "calls v = l @ calls w" "list_all (claims_at q) l" by (auto simp: only_claims_def)
    from 2 obtain l' where "calls w' = l' @ calls v" "list_all (claims_at q) l'" by (auto simp: only_claims_def)
    with l show ?thesis by (auto simp: only_claims_def intro!: exI [of _ "l' @ l"])
  qed
  ultimately show ?thesis by (auto simp: preorder_def reflp_def transp_def)
qed

lemma quiet_only_claims: "moves quiet m \<Longrightarrow> moves (only_claims q) m"
  by (simp add: moves_def quiet_def only_claims_def)

lemmas only_quiet [moves_intro] = quiet_basic [THEN quiet_only_claims] quiet_parts [THEN quiet_only_claims]
  quiet_tick [THEN quiet_only_claims] quiet_peek [THEN quiet_only_claims] quiet_modify [THEN quiet_only_claims]
  quiet_pinned_verdict [THEN quiet_only_claims]

lemma only_emit: "claims_at q ev \<Longrightarrow> moves (only_claims q) (emit ev)"
  by (auto simp: moves_def run_simps only_claims_def calls_def intro: exI [of _ "[]"] exI [of _ "[ev]"])

lemma only_lookup_emit [moves_intro]: "moves (only_claims q) (emit (EvLookup p c d r))"
  by (rule only_emit) (simp add: claims_at_def)

lemma only_claim_emit [moves_intro]: "p = q \<Longrightarrow> moves (only_claims q) (emit (EvClaim p c d r))"
  by (rule only_emit) (simp add: claims_at_def)

lemma only_calls [moves_intro]:
  "tgId t = q \<Longrightarrow> moves (only_claims q) (invokeClaim t creq deadline)"
  "moves (only_claims q) (callLookup t creq deadline)"
  "moves (only_claims q) (callLookupNoSlot t creq deadline)"
  unfolding invokeClaim_def callLookup_def callLookupNoSlot_def lookup_call_def by (intro moves_intro; simp)+

lemma only_attempts:
  assumes "tgId t = q"
  shows "(\<forall>err. moves (only_claims q) (retryPinnedKeyBusy n t dec pol req creq deadline err)) \<and>
   (\<forall>tk err sp k. moves (only_claims q) (recoverUnknownOutcome n t dec pol req creq tk deadline err sp k))"
proof (induction n)
  case 0
  show ?case by (simp add: moves_intro)
next
  case (Suc n)
  note IH = Suc [THEN conjunct1, THEN spec] Suc [THEN conjunct2, THEN spec, THEN spec, THEN spec, THEN spec]
  have "moves (only_claims q) (retryPinnedKeyBusy (Suc n) t dec pol req creq deadline err)" for err
    unfolding retryPinnedKeyBusy.simps by (intro moves_intro IH) (simp_all add: assms)
  moreover have "moves (only_claims q) (recoverUnknownOutcome (Suc n) t dec pol req creq tk deadline err sp k)" for tk err sp k
    unfolding recoverUnknownOutcome.simps by (intro moves_intro IH) (simp_all add: assms)
  ultimately show ?case by blast
qed

lemma only_provider: "tgId t = q \<Longrightarrow> moves (only_claims q) (attemptProvider n t dec cands pol req creq deadline)"
  unfolding attemptProvider_def attempt_body_def
  by (intro moves_intro only_attempts [THEN conjunct1, THEN spec]
      only_attempts [THEN conjunct2, THEN spec, THEN spec, THEN spec, THEN spec]) simp_all

lemma only_decided:
  assumes "named_targets targets" and "dProvider dec = q"
  shows "moves (only_claims q) (decided n targets dec cands pol req creq deadline ls)"
  unfolding decided_def
  by (intro moves_intro only_provider) (use assms named_targets_get in auto)

abbreviation at_pin :: "string \<Rightarrow> event list \<Rightarrow> bool" where
  "at_pin q \<equiv> list_all (claims_at q)"

lemma only_valid: "moves (only_claims q) m \<Longrightarrow> (\<And>x l. at_pin q l \<Longrightarrow> Q x l) \<Longrightarrow> valid (at_pin q) m Q"
  unfolding valid_def by (auto simp: only_claims_def dest!: movesD)

lemma only_turn:
  assumes "named_targets targets" and "pin \<noteq> []"
  shows "valid (at_pin pin) (loop_turn n targets pin pol req creq deadline ls) (\<lambda>_. at_pin pin)"
  unfolding loop_turn_def
proof (intro valid_intro valid_step [OF quiet_consider_all consider_all_pinned] only_valid [OF only_decided] assms(1) valid_return
    only_valid [OF quiet_no_decision [THEN quiet_only_claims]])
  fix r :: "loop_state \<times> candidate list" and e prof sreq dec
  assume "Schedule (evRnd e) prof sreq (snd r) = Inr dec" "list_all (\<lambda>c. pin = [] \<or> cProvider c = pin) (snd r)"
  with schedule_pinned assms(2) show "dProvider dec = pin" by blast
qed

lemma only_claimLoop:
  assumes "named_targets targets" and "pin \<noteq> []"
  shows "valid (at_pin pin) (claimLoop n targets pin pol req creq deadline ls) (\<lambda>_. at_pin pin)"
proof (induction n arbitrary: ls)
  case 0
  show ?case by (simp add: valid_return)
next
  case (Suc n)
  have stop: "valid (at_pin pin) (loop_end ls \<bind> (\<lambda>e. ret (Some (Inl e)))) (\<lambda>_. at_pin pin)" for ls
    by (intro valid_skip [OF quiet_loop_end] valid_return)
  have turn: "valid (at_pin pin) (case t of Return r \<Rightarrow> ret (Some r)
      | Continue ls \<Rightarrow> claimLoop n targets pin pol req creq deadline ls
      | Break ls \<Rightarrow> loop_end ls \<bind> (\<lambda>e. ret (Some (Inl e))) | NoFuel \<Rightarrow> ret None) (\<lambda>_. at_pin pin)" for t
    by (cases t) (auto intro!: valid_return Suc stop)
  have clock: "moves quiet (if lsSpills ls < b_maxSpill b then get_now else ret deadline)" for b ls
    by (intro moves_intro) simp_all
  show ?case unfolding claimLoop.simps
    by (intro valid_skip [OF quiet_peek] valid_skip [OF clock] valid_if stop valid_bind [OF only_turn [OF assms]] turn)
qed

lemma only_lookupPinned: "moves (only_claims q) (lookupPinned targets pin pol req creq deadline)"
  unfolding lookupPinned_def by (intro moves_intro) simp_all

lemma pinned_phase: "yields (\<lambda>r. case r of Answer _ \<Rightarrow> True | GoOn p \<Rightarrow> p = pin) (lookupPinned targets pin pol req creq deadline)"
proof -
  have verdict: "yields (\<lambda>r. case r of Answer _ \<Rightarrow> True | GoOn p \<Rightarrow> p = pin) (pinned_verdict pin t pol req l)" for t l
    unfolding pinned_verdict_def by (intro yields_intro) simp_all
  show ?thesis unfolding lookupPinned_def by (intro yields_intro verdict) simp_all
qed

lemma valid_yields: "valid P m Q \<Longrightarrow> yields \<Phi> m \<Longrightarrow> valid P m (\<lambda>r l. Q r l \<and> \<Phi> r)"
  unfolding valid_def yields_def by (metis fst_conv)

lemma pinned_valid:
  assumes "named_targets targets" and "bqPinProvider req \<noteq> []"
  shows "valid (at_pin (bqPinProvider req)) (flight_lookup now targets pol req creq d \<bind> flight_claim n targets pol req creq d)
     (\<lambda>_. at_pin (bqPinProvider req))"
proof -
  let ?pin = "bqPinProvider req"
  have look: "valid (at_pin ?pin) (lookupPinned targets ?pin pol req creq d)
      (\<lambda>r l. at_pin ?pin l \<and> (case r of Answer _ \<Rightarrow> True | GoOn p \<Rightarrow> p = ?pin))"
    by (rule valid_yields [OF only_valid [OF only_lookupPinned] pinned_phase]) simp
  have claim: "valid (\<lambda>l. at_pin ?pin l \<and> (case r of Answer _ \<Rightarrow> True | GoOn p \<Rightarrow> p = ?pin))
      (flight_claim n targets pol req creq d r) (\<lambda>_. at_pin ?pin)" for r
  proof (cases r)
    case (Answer x)
    then show ?thesis by (simp add: flight_claim_def valid_return)
  next
    case (GoOn p)
    then show ?thesis using only_claimLoop [OF assms] by (cases "p = ?pin") (simp_all add: flight_claim_def valid_False)
  qed
  show ?thesis using assms(2) by (simp add: flight_lookup_def valid_bind [OF look claim])
qed

text \<open>C24: a request that pins a provider claims from this provider and no other.\<close>

theorem pinned_flight_claims:
  assumes "named_targets (flight_targets w)" and "bqPinProvider req \<noteq> []"
  shows "list_all (claims_at (bqPinProvider req)) (flight_log n pol req creq w)"
proof -
  obtain a w' where run: "run_state (executeFlight n pol req creq) (w\<lparr>wLog := []\<rparr>) = (a, w')" by fastforce
  from valid_runD [OF pinned_valid run [unfolded executeFlight_run]] assms show ?thesis
    by (simp add: flight_log_def run flight_targets_def calls_def)
qed

theorem pinned_flight_claims_witness:
  "list_all (claims_at ''a'') (flight_log 20 (None :: unit policy option) (ex_bind\<lparr>bqPinProvider := ''a''\<rparr>) ex_claim ex_world)"
proof -
  have "named_targets (flight_targets ex_world)"
    by (simp add: flight_targets_def ex_world_sel named_targets_def ex_target_def)
  from pinned_flight_claims [OF this, of "ex_bind\<lparr>bqPinProvider := ''a''\<rparr>"] show ?thesis by simp
qed

section \<open>Lookup tokens\<close>

definition tokens_reserved :: "event list \<Rightarrow> nat list" where
  "tokens_reserved l = concat (map (\<lambda>ev. case ev of EvReserved ref \<Rightarrow> [ref] | _ \<Rightarrow> []) l)"

definition tokens_cancelled :: "event list \<Rightarrow> nat list" where
  "tokens_cancelled l = concat (map (\<lambda>ev. case ev of EvCancelled ref \<Rightarrow> [ref] | _ \<Rightarrow> []) l)"

text \<open>The limiters whose token this request holds.\<close>

definition tokens_held :: "event list \<Rightarrow> nat multiset" where
  "tokens_held l = mset (tokens_reserved l) - mset (tokens_cancelled l)"

lemma token_simps [simp]: "tokens_reserved [] = []" "tokens_cancelled [] = []"
  "tokens_reserved (EvReserved ref # l) = ref # tokens_reserved l" "tokens_reserved (EvCancelled ref # l) = tokens_reserved l"
  "tokens_cancelled (EvReserved ref # l) = tokens_cancelled l" "tokens_cancelled (EvCancelled ref # l) = ref # tokens_cancelled l"
  by (simp_all add: tokens_reserved_def tokens_cancelled_def)

lemma run_cancel_all:
  "run_state (cancel_all refs) w = (u, w') \<Longrightarrow> tokens_reserved (wLog w') = tokens_reserved (wLog w) \<and>
     mset (tokens_cancelled (wLog w')) = mset (tokens_cancelled (wLog w)) + mset refs"
proof (induction refs arbitrary: w)
  case Nil
  then show ?case by (simp add: run_return)
next
  case (Cons ref refs)
  let ?w = "w\<lparr>wB := evOthers (wEnv w (wTick w)) (wB w), wTick := wTick w + 1, wLog := EvCancelled ref # wLog w\<rparr>"
  from Cons.prems have "run_state (cancel_all refs) ?w = (u, w')"
    by (simp add: cancel_token_def run_simps Let_def)
  from Cons.IH [OF this] show ?case by simp
qed

lemma run_reserve_token:
  "run_state (reserve_token ref) w = (evReserve (wEnv w (wTick w)), w\<lparr>wB := evOthers (wEnv w (wTick w)) (wB w), wTick := wTick w + 1,
     wLog := (if evReserve (wEnv w (wTick w)) = None then wLog w else EvReserved ref # wLog w)\<rparr>)"
  by (simp add: reserve_token_def run_simps Let_def split: option.splits)

lemma run_reserve_loop:
  "run_state (reserve_loop got m ts) w = (r, w') \<Longrightarrow>
     (case r of
        Some (got', m') \<Rightarrow> got' = got @ map tgLookupRate ts \<and> tokens_cancelled (wLog w') = tokens_cancelled (wLog w) \<and>
          mset (tokens_reserved (wLog w')) = mset (tokens_reserved (wLog w)) + mset (map tgLookupRate ts)
      | None \<Rightarrow> mset (tokens_reserved (wLog w')) + mset got + mset (tokens_cancelled (wLog w)) =
          mset (tokens_cancelled (wLog w')) + mset (tokens_reserved (wLog w)))"
proof (induction ts arbitrary: got m w)
  case Nil
  then show ?case by (auto simp: run_return)
next
  case (Cons t ts)
  let ?e = "wEnv w (wTick w)"
  let ?w = "w\<lparr>wB := evOthers ?e (wB w), wTick := wTick w + 1,
     wLog := (if evReserve ?e = None then wLog w else EvReserved (tgLookupRate t) # wLog w)\<rparr>"
  show ?case
  proof (cases "evReserve ?e")
    case None
    with Cons.prems obtain u where "run_state (cancel_all got) ?w = (u, w')" "r = None"
      by (auto simp: run_simps run_reserve_token split: prod.splits)
    with run_cancel_all [of got ?w u w'] None show ?thesis by (simp add: ac_simps)
  next
    case (Some d)
    with Cons.prems have "run_state (reserve_loop (got @ [tgLookupRate t]) (if d > m then d else m) ts) ?w = (r, w')"
      by (simp add: run_bind run_reserve_token)
    from Cons.IH [OF this] Some show ?thesis by (auto simp: ac_simps split: option.splits)
  qed
qed

text \<open>Lookup tokens are all or nothing. When the tokens for a set of lookups are granted the request holds exactly one
  token of each target's limiter; when they are refused, whatever was reserved on the way is cancelled.\<close>

theorem lookup_tokens_all_or_nothing:
  "case run_state (reserveLookupTokens deadline ts) (w\<lparr>wLog := []\<rparr>) of
     ((wait, ok), w') \<Rightarrow> tokens_held (wLog w') = (if ok then mset (map tgLookupRate ts) else {#})"
proof -
  let ?e = "wEnv w (wTick w)"
  let ?w = "w\<lparr>wLog := [], wB := evOthers ?e (wB w), wTick := Suc (wTick w)\<rparr>"
  let ?rem = "time_sub deadline (evNow ?e)"
  obtain r v where run: "run_state (reserve_loop [] 0 ts) ?w = (r, v)" by fastforce
  note loop = run_reserve_loop [OF run]
  have start: "run_state get_now (w\<lparr>wLog := []\<rparr>) = (evNow ?e, ?w)" by (simp add: get_now_def run_simps Let_def)
  show ?thesis
  proof (cases r)
    case None
    with loop have "mset (tokens_reserved (wLog v)) = mset (tokens_cancelled (wLog v))" by simp
    with None show ?thesis by (simp add: reserveLookupTokens_def run_bind start run run_return tokens_held_def Let_def)
  next
    case (Some x)
    then obtain got m where x: "r = Some (got, m)" by (cases x) simp
    with loop have got: "got = map tgLookupRate ts" "tokens_cancelled (wLog v) = []" "mset (tokens_reserved (wLog v)) = mset (map tgLookupRate ts)"
      by simp_all
    obtain w' where cancel: "run_state (cancel_all got) v = ((), w')" by (cases "run_state (cancel_all got) v") simp
    from run_cancel_all [OF cancel] got x show ?thesis
      by (simp add: reserveLookupTokens_def run_bind start run run_return tokens_held_def cancel [unfolded got(1)] Let_def)
  qed
qed

end
