(* ===== verification/Retention.thy ===== *)
theory Retention
  imports Flights
begin

text \<open>
  What \<open>pkg/binder/binder.go\<close> remembers of successful claims: the goroutines of \<open>Flights\<close>, now with the last stage of
  \<open>ReleaseByKey\<close> as one more step. That stage deletes whatever flight the key has, so that the invariant of \<open>Flights\<close>
  does not hold here; a weaker one, over the history of the cache, says why a flight can be missing.
\<close>

section \<open>Reading the history\<close>

text \<open>A \<open>ReleaseByKey\<close> for the key came to its end after the flight began.\<close>

primrec released_since :: "string \<Rightarrow> nat \<Rightarrow> fevent list \<Rightarrow> bool" where
  "released_since key ref [] = False"
| "released_since key ref (e # h) = (case e of
      Began k r \<Rightarrow> r \<noteq> ref \<and> released_since key ref h
    | Forgot k \<Rightarrow> k = key \<or> released_since key ref h
    | _ \<Rightarrow> released_since key ref h)"

text \<open>The sandbox, or everything of its provider, was evicted after the flight succeeded.\<close>

primrec evicted_since :: "string \<Rightarrow> string \<Rightarrow> nat \<Rightarrow> fevent list \<Rightarrow> bool" where
  "evicted_since prov sid ref [] = False"
| "evicted_since prov sid ref (e # h) = (case e of
      Succeeded k r p i u \<Rightarrow> r \<noteq> ref \<and> evicted_since prov sid ref h
    | Evicted p i \<Rightarrow> (p = prov \<and> (i = [] \<or> i = sid)) \<or> evicted_since prov sid ref h
    | _ \<Rightarrow> evicted_since prov sid ref h)"

definition flight_step :: "fconf \<Rightarrow> fconf \<Rightarrow> bool" where
  "flight_step s s' \<longleftrightarrow> fstep s s' \<or> frelease s s'"

section \<open>The invariant\<close>

definition result_of :: "string \<Rightarrow> string \<Rightarrow> flight \<Rightarrow> bool" where
  "result_of p i fl \<longleftrightarrow> (case flRes fl of None \<Rightarrow> False | Some res \<Rightarrow> hProvider (brHandle res) = p \<and> hID (brHandle res) = i)"

definition cached :: "(string, nat) gomap \<Rightarrow> flight list \<Rightarrow> string \<Rightarrow> nat \<Rightarrow> string \<Rightarrow> string \<Rightarrow> gotime \<Rightarrow> bool" where
  "cached fm hp k ref p i u \<longleftrightarrow> go_get fm k = Some ref \<and> flCompletedUntil (hp ! ref) = u \<and> result_of p i (hp ! ref)"

definition running :: "nat \<Rightarrow> fproc multiset \<Rightarrow> nat" where
  "running ref P = size (filter_mset (\<lambda>p. case p of Lead k r ttl \<Rightarrow> r = ref | _ \<Rightarrow> False) P)"

definition hinv :: "(string, nat) gomap \<Rightarrow> flight list \<Rightarrow> gotime \<Rightarrow> gotime \<Rightarrow> fevent list \<Rightarrow> fproc multiset \<Rightarrow> bool" where
  "hinv fm hp ev now H P \<longleftrightarrow> wf_map fm \<and>
     (\<forall>k ref. Began k ref \<in> set H \<longrightarrow> ref < length hp) \<and>
     (\<forall>k k' ref. Began k ref \<in> set H \<longrightarrow> Began k' ref \<in> set H \<longrightarrow> k = k') \<and>
     (\<forall>k ref. go_get fm k = Some ref \<longrightarrow> Began k ref \<in> set H) \<and>
     (\<forall>k ref ttl. Lead k ref ttl \<in># P \<longrightarrow> Began k ref \<in> set H \<and> \<not> flCompleted (hp ! ref) \<and>
        (go_get fm k = Some ref \<or> released_since k ref H)) \<and>
     (\<forall>ref. running ref P \<le> 1) \<and>
     (\<forall>k ref p i u. Succeeded k ref p i u \<in> set H \<longrightarrow> Began k ref \<in> set H \<and> flCompleted (hp ! ref) \<and>
        (u \<le> now \<or> u \<le> ev \<or> cached fm hp k ref p i u \<or> evicted_since p i ref H \<or> released_since k ref H))"

lemma hinvD:
  assumes "hinv fm hp ev now H P"
  shows "wf_map fm" and "\<And>k ref. Began k ref \<in> set H \<Longrightarrow> ref < length hp"
    and "\<And>k k' ref. Began k ref \<in> set H \<Longrightarrow> Began k' ref \<in> set H \<Longrightarrow> k = k'"
    and "\<And>k ref. go_get fm k = Some ref \<Longrightarrow> Began k ref \<in> set H"
    and "\<And>k ref ttl. Lead k ref ttl \<in># P \<Longrightarrow> Began k ref \<in> set H \<and> \<not> flCompleted (hp ! ref) \<and>
        (go_get fm k = Some ref \<or> released_since k ref H)"
    and "\<And>ref. running ref P \<le> 1"
    and "\<And>k ref p i u. Succeeded k ref p i u \<in> set H \<Longrightarrow> Began k ref \<in> set H \<and> flCompleted (hp ! ref) \<and>
        (u \<le> now \<or> u \<le> ev \<or> cached fm hp k ref p i u \<or> evicted_since p i ref H \<or> released_since k ref H)"
  using assms unfolding hinv_def by blast+

lemma hinvI:
  assumes "wf_map fm" and "\<And>k ref. Began k ref \<in> set H \<Longrightarrow> ref < length hp"
    and "\<And>k k' ref. Began k ref \<in> set H \<Longrightarrow> Began k' ref \<in> set H \<Longrightarrow> k = k'"
    and "\<And>k ref. go_get fm k = Some ref \<Longrightarrow> Began k ref \<in> set H"
    and "\<And>k ref ttl. Lead k ref ttl \<in># P \<Longrightarrow> Began k ref \<in> set H \<and> \<not> flCompleted (hp ! ref) \<and>
        (go_get fm k = Some ref \<or> released_since k ref H)"
    and "\<And>ref. running ref P \<le> 1"
    and "\<And>k ref p i u. Succeeded k ref p i u \<in> set H \<Longrightarrow> Began k ref \<in> set H \<and> flCompleted (hp ! ref) \<and>
        (u \<le> now \<or> u \<le> ev \<or> cached fm hp k ref p i u \<or> evicted_since p i ref H \<or> released_since k ref H)"
  shows "hinv fm hp ev now H P"
  using assms unfolding hinv_def by blast

lemma running_simps [simp]:
  "running ref (add_mset (Lead k r ttl) P) = (if r = ref then Suc (running ref P) else running ref P)"
  "running ref (add_mset (Join r) P) = running ref P"
  "running ref (add_mset (RelWaiting key r) P) = running ref P"
  "running ref (add_mset (RelReading key) P) = running ref P"
  "running ref (add_mset (RelCached key prov sid) P) = running ref P"
  "running ref (add_mset (RelLookup key) P) = running ref P"
  by (simp_all add: running_def)

lemma running_0: "running ref P = 0 \<Longrightarrow> Lead k ref ttl \<notin># P"
  by (auto simp: running_def filter_mset_eq_conv)

lemma running_none: "(\<And>k ttl. Lead k ref ttl \<notin># P) \<Longrightarrow> running ref P = 0"
  by (auto simp: running_def filter_mset_eq_conv split: fproc.splits)

section \<open>Every step keeps it\<close>

lemma hinv_forget:
  assumes I: "hinv fm hp ev now H P" and "forgets now' hp ev' fm fm'" and "ev \<le> ev'" and "now \<le> now'"
  shows "hinv fm' hp ev' now' H P"
proof -
  note D = hinvD [OF I]
  have cases: "go_get fm' k = go_get fm k \<or> go_get fm' k = None \<and> (\<exists>ref. go_get fm k = Some ref \<and> flCompleted (hp ! ref) \<and>
      (flCompletedUntil (hp ! ref) \<le> now' \<or> flCompletedUntil (hp ! ref) \<le> ev'))" for k
    using assms(2) unfolding forgets_def by blast
  show ?thesis
  proof (rule hinvI)
    show "wf_map fm'" using assms(2) D(1) by (simp add: forgets_def)
  next
    fix k ref assume "go_get fm' k = Some ref"
    then show "Began k ref \<in> set H" using cases [of k] D(4) by auto
  next
    fix k ref ttl assume "Lead k ref ttl \<in># P"
    from D(5) [OF this] show "Began k ref \<in> set H \<and> \<not> flCompleted (hp ! ref) \<and> (go_get fm' k = Some ref \<or> released_since k ref H)"
      using cases [of k] by auto
  next
    fix k ref p i u assume "Succeeded k ref p i u \<in> set H"
    from D(7) [OF this] show "Began k ref \<in> set H \<and> flCompleted (hp ! ref) \<and>
        (u \<le> now' \<or> u \<le> ev' \<or> cached fm' hp k ref p i u \<or> evicted_since p i ref H \<or> released_since k ref H)"
      using cases [of k] assms(3,4) by (auto simp: cached_def)
  qed (use D(2,3,6) in auto)
qed

lemma hinv_now: "hinv fm hp ev now H P \<Longrightarrow> now \<le> now' \<Longrightarrow> hinv fm hp ev now' H P"
  by (rule hinv_forget [OF _ forgets_refl order_refl])

lemma hinv_lead:
  assumes I: "hinv fm hp ev now H P" and none: "go_get fm key = None"
  shows "hinv (go_put key (length hp) fm) (hp @ [new_flight spec]) ev now (Began key (length hp) # H) (add_mset (Lead key (length hp) ttl) P)"
proof -
  note D = hinvD [OF I]
  have fresh: "Began k (length hp) \<notin> set H" for k using D(2) by blast
  have lead: "r < length hp" if "Lead k r t \<in># P" for k r t using D(5) [OF that] D(2) by blast
  then have run: "running (length hp) P = 0" by (intro running_none) blast
  have old: "(hp @ [new_flight spec]) ! r = hp ! r" if "Began k r \<in> set H" for k r
    using D(2) [OF that] by (simp add: nth_append)
  have new: "\<not> flCompleted ((hp @ [new_flight spec]) ! length hp)" by (simp add: new_flight_def)
  show ?thesis
  proof (rule hinvI)
    show "wf_map (go_put key (length hp) fm)" using D(1) by (rule wf_map_put)
  next
    fix k r assume "Began k r \<in> set (Began key (length hp) # H)"
    then show "r < length (hp @ [new_flight spec])" using D(2) [of k r] by auto
  next
    fix k k' r assume "Began k r \<in> set (Began key (length hp) # H)" "Began k' r \<in> set (Began key (length hp) # H)"
    then show "k = k'" using D(3) fresh by auto
  next
    fix k r assume "go_get (go_put key (length hp) fm) k = Some r"
    then show "Began k r \<in> set (Began key (length hp) # H)" using D(4) by (auto simp: go_get_put split: if_splits)
  next
    fix k r t assume m: "Lead k r t \<in># add_mset (Lead key (length hp) ttl) P"
    show "Began k r \<in> set (Began key (length hp) # H) \<and> \<not> flCompleted ((hp @ [new_flight spec]) ! r) \<and>
        (go_get (go_put key (length hp) fm) k = Some r \<or> released_since k r (Began key (length hp) # H))"
    proof (cases "Lead k r t \<in># P")
      case True
      with D(5) [OF this] lead [OF this] old [of k r] none show ?thesis by (auto simp: go_get_put)
    next
      case False
      with m have "k = key" "r = length hp" by auto
      then show ?thesis using new by (simp add: go_get_put)
    qed
  next
    fix r show "running r (add_mset (Lead key (length hp) ttl) P) \<le> 1" using D(6) [of r] run by auto
  next
    fix k r p i u assume m: "Succeeded k r p i u \<in> set (Began key (length hp) # H)"
    then have m: "Succeeded k r p i u \<in> set H" by simp
    note d = D(7) [OF m]
    then have "r \<noteq> length hp" using fresh by blast
    with d old [of k r] none show "Began k r \<in> set (Began key (length hp) # H) \<and> flCompleted ((hp @ [new_flight spec]) ! r) \<and>
        (u \<le> now \<or> u \<le> ev \<or> cached (go_put key (length hp) fm) (hp @ [new_flight spec]) k r p i u \<or>
         evicted_since p i r (Began key (length hp) # H) \<or> released_since k r (Began key (length hp) # H))"
      by (auto simp: cached_def go_get_put)
  qed
qed

lemma hinv_fail:
  assumes I: "hinv fm hp ev now H (add_mset (Lead key ref ttl) P)"
  shows "hinv (if go_get fm key = Some ref then go_delete key fm else fm) hp ev now H P"
proof -
  note D = hinvD [OF I]
  let ?fm = "if go_get fm key = Some ref then go_delete key fm else fm"
  have run: "running ref P = 0" using D(6) [of ref] by simp
  have me: "\<not> flCompleted (hp ! ref)" using D(5) [of key ref ttl] by simp
  have keep: "go_get ?fm k = Some r" if "go_get fm k = Some r" "r \<noteq> ref" for k r
    using that by (auto simp: go_get_delete)
  show ?thesis
  proof (rule hinvI)
    show "wf_map ?fm" using D(1) by (simp add: wf_map_delete)
  next
    fix k r assume "go_get ?fm k = Some r"
    then show "Began k r \<in> set H" using D(4) by (auto simp: go_get_delete split: if_splits)
  next
    fix k r t assume m: "Lead k r t \<in># P"
    then have "r \<noteq> ref" using running_0 [OF run] by auto
    then show "Began k r \<in> set H \<and> \<not> flCompleted (hp ! r) \<and> (go_get ?fm k = Some r \<or> released_since k r H)"
      using D(5) [of k r t] m keep [of k r] by auto
  next
    fix r show "running r P \<le> 1" using D(6) [of r] by (simp split: if_splits)
  next
    fix k r p i u assume m: "Succeeded k r p i u \<in> set H"
    then have "r \<noteq> ref" using D(7) me by blast
    then show "Began k r \<in> set H \<and> flCompleted (hp ! r) \<and>
        (u \<le> now \<or> u \<le> ev \<or> cached ?fm hp k r p i u \<or> evicted_since p i r H \<or> released_since k r H)"
      using D(7) [OF m] keep [of k r] by (auto simp: cached_def)
  qed (use D(2,3) in blast)+
qed

lemma hinv_succeed:
  assumes I: "hinv fm hp ev now H (add_mset (Lead key ref ttl) P)"
    and fl: "flCompleted fl" "flCompletedUntil fl = u" "result_of p i fl"
  shows "hinv fm (hp[ref := fl]) ev now (Succeeded key ref p i u # H) P"
proof -
  note D = hinvD [OF I]
  have run: "running ref P = 0" using D(6) [of ref] by simp
  have me: "Began key ref \<in> set H" "\<not> flCompleted (hp ! ref)" "go_get fm key = Some ref \<or> released_since key ref H"
    using D(5) [of key ref ttl] by simp_all
  note len = D(2) [OF me(1)]
  show ?thesis
  proof (rule hinvI)
    fix k r t assume m: "Lead k r t \<in># P"
    then have "r \<noteq> ref" using running_0 [OF run] by auto
    then show "Began k r \<in> set (Succeeded key ref p i u # H) \<and> \<not> flCompleted (hp[ref := fl] ! r) \<and>
        (go_get fm k = Some r \<or> released_since k r (Succeeded key ref p i u # H))"
      using D(5) [of k r t] m by auto
  next
    fix r show "running r P \<le> 1" using D(6) [of r] by (simp split: if_splits)
  next
    fix k r p' i' u' assume m: "Succeeded k r p' i' u' \<in> set (Succeeded key ref p i u # H)"
    show "Began k r \<in> set (Succeeded key ref p i u # H) \<and> flCompleted (hp[ref := fl] ! r) \<and>
        (u' \<le> now \<or> u' \<le> ev \<or> cached fm (hp[ref := fl]) k r p' i' u' \<or>
         evicted_since p' i' r (Succeeded key ref p i u # H) \<or> released_since k r (Succeeded key ref p i u # H))"
    proof (cases "Succeeded k r p' i' u' \<in> set H")
      case True
      note d = D(7) [OF this]
      with me have "r \<noteq> ref" by blast
      with d show ?thesis by (auto simp: cached_def)
    next
      case False
      with m have "k = key" "r = ref" "p' = p" "i' = i" "u' = u" by simp_all
      then show ?thesis using me fl len by (auto simp: cached_def)
    qed
  qed (use D(1,2,3,4) in \<open>auto\<close>)
qed

text \<open>Changes of flights that keep what is completed.\<close>

lemma hinv_heap:
  assumes I: "hinv fm hp ev now H P" and "flCompleted fl = flCompleted (hp ! ref)"
    and "flCompleted fl \<Longrightarrow> flCompletedUntil fl = flCompletedUntil (hp ! ref) \<and> flRes fl = flRes (hp ! ref)"
  shows "hinv fm (hp[ref := fl]) ev now H P"
proof -
  note D = hinvD [OF I]
  have c: "flCompleted (hp[ref := fl] ! r) = flCompleted (hp ! r)" for r
    using assms(2) by (cases "r = ref"; cases "ref < length hp") (simp_all add: list_update_beyond)
  have k: "cached fm (hp[ref := fl]) k r p i u = cached fm hp k r p i u" if "flCompleted (hp ! r)" for k r p i u
    using assms(2,3) that by (cases "r = ref"; cases "ref < length hp") (simp_all add: cached_def result_of_def list_update_beyond)
  show ?thesis
    by (rule hinvI) (use D in \<open>auto simp: c k\<close>)
qed

lemma hinv_evict:
  assumes I: "hinv (b_flights b) (b_flight_heap b) ev now H P"
  shows "hinv (b_flights (evictCompletedFlight prov sid b)) (b_flight_heap b) ev now (Evicted prov sid # H) P"
proof -
  note D = hinvD [OF I]
  let ?fm = "b_flights (evictCompletedFlight prov sid b)"
  have get: "go_get ?fm k = (case go_get (b_flights b) k of None \<Rightarrow> None
      | Some r \<Rightarrow> if flCompleted (b_flight_heap b ! r) \<and> (case flRes (b_flight_heap b ! r) of None \<Rightarrow> False
          | Some res \<Rightarrow> hProvider (brHandle res) = prov \<and> (sid = [] \<or> hID (brHandle res) = sid)) then None else Some r)" for k
    by (simp add: evictCompletedFlight_def go_get_filter [OF D(1)] flight_of_def split: option.splits)
  show ?thesis
  proof (rule hinvI)
    show "wf_map ?fm" using D(1) by (simp add: evictCompletedFlight_def wf_map_filter)
  next
    fix k r assume "go_get ?fm k = Some r"
    then show "Began k r \<in> set (Evicted prov sid # H)" using D(4) [of k r] by (auto simp: get split: option.splits if_splits)
  next
    fix k r t assume "Lead k r t \<in># P"
    from D(5) [OF this] show "Began k r \<in> set (Evicted prov sid # H) \<and> \<not> flCompleted (b_flight_heap b ! r) \<and>
        (go_get ?fm k = Some r \<or> released_since k r (Evicted prov sid # H))"
      by (auto simp: get)
  next
    fix k r p i u assume "Succeeded k r p i u \<in> set (Evicted prov sid # H)"
    then have "Succeeded k r p i u \<in> set H" by simp
    from D(7) [OF this] show "Began k r \<in> set (Evicted prov sid # H) \<and> flCompleted (b_flight_heap b ! r) \<and>
        (u \<le> now \<or> u \<le> ev \<or> cached ?fm (b_flight_heap b) k r p i u \<or>
         evicted_since p i r (Evicted prov sid # H) \<or> released_since k r (Evicted prov sid # H))"
      by (auto simp: cached_def get result_of_def split: option.splits)
  qed (use D(2,3,6) in auto)
qed

lemma hinv_release:
  assumes I: "hinv fm hp ev now H P"
  shows "hinv (go_delete key fm) hp ev now (Forgot key # H) P"
  by (rule hinvI) (use hinvD [OF I] in \<open>auto simp: go_get_delete wf_map_delete cached_def split: if_splits\<close>)

lemma hinv_finish:
  assumes I: "hinv (b_flights b) (b_flight_heap b) (b_evictedUnexpiredUntil b) now H (add_mset (Lead key ref ttl) P)" and now: "now \<le> now'"
  shows "hinv (b_flights (flight_finish now' ttl key ref out b)) (b_flight_heap (flight_finish now' ttl key ref out b))
    (b_evictedUnexpiredUntil (flight_finish now' ttl key ref out b)) now' (record_success now' ttl key ref out @ H) P"
proof -
  let ?b1 = "update_flight ref (\<lambda>fl. fl\<lparr>flRes := fst out, flErr := snd out\<rparr>) b"
  have me: "\<not> flCompleted (b_flight_heap b ! ref)" and len: "ref < length (b_flight_heap b)"
    using hinvD(2,5) [OF I] by (metis union_single_eq_member)+
  have b1: "hinv (b_flights ?b1) (b_flight_heap ?b1) (b_evictedUnexpiredUntil ?b1) now' H (add_mset (Lead key ref ttl) P)"
    using hinv_heap [OF hinv_now [OF I now], of "(b_flight_heap b ! ref)\<lparr>flRes := fst out, flErr := snd out\<rparr>" ref] me by simp
  have done_heap: "hinv fm (hp[ref := (hp ! ref)\<lparr>flDone := True\<rparr>]) ev now' H' P" if "hinv fm hp ev now' H' P" for fm hp ev H'
    by (rule hinv_heap [OF that]) simp_all
  show ?thesis
  proof (cases "\<exists>res. out = (Some res, None)")
    case True
    then obtain res where out: "out = (Some res, None)" by blast
    let ?f = "\<lambda>fl. fl\<lparr>flRes := Some (res\<lparr>brExplanation := []\<rparr>), flCompleted := True,
      flCompletedUntil := completed_until now' ttl res\<rparr>"
    let ?b2 = "(update_flight ref ?f ?b1)\<lparr>b_completedOrder := b_completedOrder ?b1 @ [key]\<rparr>"
    let ?b3 = "enforceCompletedFlightCap now' ?b2"
    let ?H = "Succeeded key ref (hProvider (brHandle res)) (hID (brHandle res)) (completed_until now' ttl res) # H"
    have "hinv (b_flights ?b2) (b_flight_heap ?b2) (b_evictedUnexpiredUntil ?b2) now' ?H P"
      using hinv_succeed [OF b1, of "?f (b_flight_heap ?b1 ! ref)" "completed_until now' ttl res" "hProvider (brHandle res)" "hID (brHandle res)"]
      by (simp add: result_of_def)
    then have "hinv (b_flights ?b3) (b_flight_heap ?b3) (b_evictedUnexpiredUntil ?b3) now' ?H P"
      using enforce_forgets [of ?b2 now'] by (auto intro: hinv_forget)
    from done_heap [OF this] show ?thesis
      unfolding flight_finish_def out Let_def by (simp add: record_success_def)
  next
    case False
    then have c: "(case out of (Some res, None) \<Rightarrow> X res | _ \<Rightarrow> Y) = Y" for X Y
      by (auto split: prod.splits option.splits)
    have "hinv (if go_get (b_flights ?b1) key = Some ref then go_delete key (b_flights ?b1) else b_flights ?b1) (b_flight_heap ?b1)
        (b_evictedUnexpiredUntil ?b1) now' H P"
      using b1 by (rule hinv_fail)
    from done_heap [OF this] show ?thesis
      unfolding flight_finish_def record_success_def c Let_def by (simp split: if_splits)
  qed
qed

abbreviation rc_inv :: "fconf \<Rightarrow> bool" where
  "rc_inv s \<equiv> hinv (b_flights (fcB s)) (b_flight_heap (fcB s)) (b_evictedUnexpiredUntil (fcB s)) (fcNow s) (fcHist s) (fcProcs s)"

text \<open>Goroutines that lead no flight do not matter.\<close>

lemma hinv_procs:
  assumes I: "hinv fm hp ev now H P" and "\<And>k r t. Lead k r t \<in># P' \<Longrightarrow> Lead k r t \<in># P" and "\<And>r. running r P' = running r P"
  shows "hinv fm hp ev now H P'"
proof (rule hinvI)
  fix k r t assume "Lead k r t \<in># P'"
  from hinvD(5) [OF I assms(2) [OF this]]
  show "Began k r \<in> set H \<and> \<not> flCompleted (hp ! r) \<and> (go_get fm k = Some r \<or> released_since k r H)" .
next
  fix r show "running r P' \<le> 1" using hinvD(6) [OF I, of r] assms(3) by simp
qed (fact hinvD(1,2,3,4,7) [OF I] | erule (1) hinvD(3) [OF I] | erule hinvD(2,4,7) [OF I])+

lemma rc_inv_step: "fstep s s' \<Longrightarrow> rc_inv s \<Longrightarrow> rc_inv s'"
proof (induction rule: fstep.induct)
  case (lead s now key spec b ref ttl)
  obtain fm where fm: "forgets now (b_flight_heap (fcB s)) (b_evictedUnexpiredUntil (fcB s)) (b_flights (fcB s)) fm" "go_get fm key = None"
    "b_flights b = go_put key ref fm" "b_flight_heap b = b_flight_heap (fcB s) @ [new_flight spec]" "ref = length (b_flight_heap (fcB s))"
    "b_evictedUnexpiredUntil b = b_evictedUnexpiredUntil (fcB s)"
    using flight_enter_shape [OF lead(2) hinvD(1) [OF lead(3)]] by blast
  from hinv_lead [OF hinv_forget [OF lead(3) fm(1) order_refl lead(1)] fm(2)] show ?case by (simp add: fm)
next
  case (join s now key spec b ref r b')
  from flight_enter_join [OF join(2)] have "b = fcB s" by simp
  with join(3) have "b' = update_flight ref (\<lambda>fl. fl\<lparr>flJoiners := flJoiners fl + 1\<rparr>) (fcB s)"
    by (auto simp: join_begin_def Let_def split: if_splits)
  moreover have "hinv fm hp ev n H (add_mset (Join ref) P)" if "hinv fm hp ev n H P" for fm hp ev n H P
    by (rule hinv_procs [OF that]) simp_all
  ultimately show ?case using hinv_now [OF join(4,1)] by (auto intro!: hinv_heap)
next
  case (leave s ref P)
  then have "hinv (b_flights (fcB s)) (b_flight_heap (fcB s)) (b_evictedUnexpiredUntil (fcB s)) (fcNow s) (fcHist s) P"
    by (intro hinv_procs [OF leave(2)]) simp_all
  then show ?case by (auto simp: join_leave_def intro!: hinv_heap)
next
  case (finish s key ref ttl P now out)
  then show ?case by (simp add: hinv_finish)
next
  case (evict s prov sid)
  from hinv_evict [OF this] show ?case by (simp add: evictCompletedFlight_def)
next
  case (rel_begin s key)
  then have "rc_inv (s\<lparr>fcProcs := add_mset (case release_wait key (fcB s) of
      None \<Rightarrow> RelReading key | Some ref \<Rightarrow> RelWaiting key ref) (fcProcs s)\<rparr>)"
    by simp (erule hinv_procs; simp split: option.splits)
  then show ?case .
next
  case (rel_waited s key ref P)
  then show ?case by simp (rule hinv_procs [OF rel_waited(3)]; simp)
next
  case (rel_read s key P)
  show ?case by simp (rule hinv_procs [OF rel_read(2)]; auto simp: rel_read(1) split: option.splits prod.splits)
qed

lemma rc_inv_release: "frelease s s' \<Longrightarrow> rc_inv s \<Longrightarrow> rc_inv s'"
proof (induction rule: frelease.induct)
  case (1 s p P key prov sid)
  then have "hinv (b_flights (fcB s)) (b_flight_heap (fcB s)) (b_evictedUnexpiredUntil (fcB s)) (fcNow s) (fcHist s) P"
    by (intro hinv_procs [OF 1(3)]) auto
  from hinv_release [OF this] show ?case by (simp add: release_forget_def)
qed

lemma rc_inv_reachable: "flight_step\<^sup>*\<^sup>* (fc_init sha reg opts t0) s \<Longrightarrow> rc_inv s"
proof (induction rule: rtranclp_induct)
  case base
  show ?case by (rule hinvI) (simp_all add: fc_init_def New_binder_def wf_map_def running_def)
next
  case (step s1 s2)
  then show ?case using rc_inv_step rc_inv_release by (auto simp: flight_step_def)
qed

section \<open>Properties\<close>

text \<open>C22: A successful claim is not forgotten silently before it expires, however requests, finishing flights, evictions and
  releases by key (their last stage included) interleave. A later request for the key joins the completed flight, which
  holds the sandbox that was claimed, unless one of four things happened, each of them on record: the cache was full and
  remembers that it dropped a flight that had not expired; after the success this sandbox, or its whole
  provider, was evicted on purpose; or a \<open>ReleaseByKey\<close> for the key came to its end after the flight had begun, be
  it one that began before the claim and never saw its sandbox.\<close>

theorem completed_not_forgotten:
  assumes "flight_step\<^sup>*\<^sup>* (fc_init sha reg opts t0) s" and "Succeeded key ref p i until \<in> set (fcHist s)"
    and "fcNow s \<le> now" and "now < until"
  shows "(flight_enter now key spec (fcB s) = (fcB s, Inl ref) \<and> flCompleted (flight_of (fcB s) ref) \<and> result_of p i (flight_of (fcB s) ref)) \<or>
    hasEvictedUnexpired now (fcB s) \<or> evicted_since p i ref (fcHist s) \<or> released_since key ref (fcHist s)"
  using hinvD(7) [OF rc_inv_reachable [OF assms(1)] assms(2)] assms(3,4)
  by (auto simp: flight_enter_def flight_expired_def flight_of_def hasEvictedUnexpired_def cached_def)

lemma flight_steps: "fstep\<^sup>*\<^sup>* s s' \<Longrightarrow> flight_step\<^sup>*\<^sup>* s s'"
  by (induction rule: rtranclp_induct) (auto simp: flight_step_def intro: rtranclp.rtrancl_into_rtrancl)

theorem completed_not_forgotten_witness:
  "flight_enter 7 ''k'' ''s'' (fcB ex_done) = (fcB ex_done, Inl 0) \<and> result_of ''p'' ''i'' (flight_of (fcB ex_done) 0)"
proof -
  have "Succeeded ''k'' 0 ''p'' ''i'' 16 \<in> set (fcHist ex_done)" by (simp add: ex_done_def)
  from completed_not_forgotten [OF flight_steps [OF ex_done_reachable] this, of 7 "''s''"]
  have "(flight_enter 7 ''k'' ''s'' (fcB ex_done) = (fcB ex_done, Inl 0) \<and> flCompleted (flight_of (fcB ex_done) 0) \<and>
      result_of ''p'' ''i'' (flight_of (fcB ex_done) 0)) \<or> hasEvictedUnexpired 7 (fcB ex_done)"
    by (simp add: ex_done_def)
  moreover have "\<not> hasEvictedUnexpired 7 (fcB ex_done)"
    by (simp add: ex_done_def ex_led_def hasEvictedUnexpired_def flight_finish_def lead_flight_def enforceCompletedFlightCap_def
        update_flight_def new_flight_def completed_until_def ex_result_def empty_handle_def ex_binder_sel Let_def zero_time_def)
  ultimately show ?thesis by blast
qed

end
