(* ===== verification/ReleaseProps.thy ===== *)
theory ReleaseProps
  imports ClaimSafety
begin

text \<open>
  Attempts and their count: \<open>Shutdown\<close> waits until no attempt is active, so every operation has to give back the
  attempt it started. \<open>Release\<close> does, also when the adapter panics; \<open>ReleaseByKey\<close> does unless an adapter panics outside of
  \<open>Release\<close>, and then the count stays one too high for good.
\<close>

section \<open>Alone\<close>

text \<open>Worlds in which no other goroutine changes the shared state, and how the count of attempts moves there.\<close>

definition alone :: "world \<Rightarrow> bool" where
  "alone w \<longleftrightarrow> (\<forall>i. evOthers (wEnv w i) = id)"

definition attempts_by :: "int \<Rightarrow> world \<Rightarrow> world \<Rightarrow> bool" where
  "attempts_by k w w' \<longleftrightarrow> wEnv w' = wEnv w \<and> (alone w \<longrightarrow>
     b_activeAttempts (wB w') = b_activeAttempts (wB w) + k \<and> b_closing (wB w') = b_closing (wB w))"

lemma preorder_attempts [simp]: "preorder (attempts_by 0)"
  by (auto simp: preorder_def attempts_by_def reflp_def transp_def alone_def)

lemma attempts_tick: "moves (attempts_by 0) tick" "moves (attempts_by 0) peek" "moves (attempts_by 0) (emit ev)"
  by (simp_all add: moves_def attempts_by_def run_simps Let_def alone_def)

lemma attempts_locked: "(\<And>b. b_activeAttempts (f b) = b_activeAttempts b \<and> b_closing (f b) = b_closing b) \<Longrightarrow> moves (attempts_by 0) (locked f)"
  by (simp add: moves_def attempts_by_def locked_def run_simps Let_def alone_def)

lemma attempts_finish: "moves (attempts_by (- 1)) (locked finishAttempt)"
  by (simp add: moves_def attempts_by_def locked_def run_simps Let_def alone_def finishAttempt_def)

lemma attempts_start: "run_state start_attempt w = (ok, w') \<Longrightarrow> attempts_by (if ok then 1 else 0) w w'"
  by (auto simp: start_attempt_def startAttempt_def attempts_by_def run_simps Let_def alone_def split: if_splits)

lemma attempts_evict: "b_activeAttempts (evictCompletedFlight p s b) = b_activeAttempts b \<and> b_closing (evictCompletedFlight p s b) = b_closing b"
  by (simp add: evictCompletedFlight_def)

lemma attempts_clock: "moves (attempts_by 0) get_now" "moves (attempts_by 0) get_rand"
  unfolding get_now_def get_rand_def by (intro moves_intro attempts_tick; simp)+

lemma attempts_classify: "moves (attempts_by 0) (classify_release p err)"
  unfolding classify_release_def by (intro moves_intro attempts_clock) simp_all

lemma attempts_call: "moves (attempts_by 0) (release_call t h)"
  unfolding release_call_def by (intro moves_intro attempts_tick) simp_all

lemma attempts_held: "moves (attempts_by 0) (release_held ps)"
  unfolding release_held_def by (intro moves_intro attempts_tick attempts_clock) simp_all

text \<open>A step that gives the attempt back, among steps that keep the count.\<close>

lemma attempts_then: "moves (attempts_by j) m \<Longrightarrow> (\<And>x. moves (attempts_by k) (f x)) \<Longrightarrow> moves (attempts_by (j + k)) (State_Monad.bind m f)"
  unfolding moves_def attempts_by_def
  by (auto simp: run_bind alone_def split: prod.splits) (metis snd_conv)+

lemma attempts_skip: "moves (attempts_by 0) m \<Longrightarrow> (\<And>x. moves (attempts_by k) (f x)) \<Longrightarrow> moves (attempts_by k) (State_Monad.bind m f)"
  using attempts_then [of 0 m k f] by simp

lemma attempts_end: "moves (attempts_by (- 1)) (State_Monad.bind (locked finishAttempt) (\<lambda>_. ret x))"
  using attempts_then [OF attempts_finish, of 0 "\<lambda>_. ret x"] by (simp add: moves_return)

lemma attempts_started:
  assumes "moves (attempts_by 0) stop" and "moves (attempts_by (- 1)) body"
  shows "moves (attempts_by 0) (start_attempt \<bind> (\<lambda>ok. if \<not> ok then stop else body))"
  unfolding moves_def
proof
  fix w
  obtain ok v where run: "run_state start_attempt w = (ok, v)" by fastforce
  from attempts_start [OF run] assms show "attempts_by 0 w (snd (run_state (start_attempt \<bind> (\<lambda>ok. if \<not> ok then stop else body)) w))"
    by (cases ok) (auto simp: run_bind run moves_def attempts_by_def alone_def)
qed

lemma attempts_Release: "moves (attempts_by 0) (Release p i)"
  unfolding Release_def
  by (intro attempts_skip [OF attempts_held] moves_option moves_return attempts_skip [OF attempts_tick(1)] attempts_skip [OF attempts_tick(2)]
      moves_if attempts_started preorder_attempts attempts_skip [OF attempts_call] moves_adapter attempts_end
      attempts_skip [OF attempts_locked] attempts_skip [OF attempts_classify] attempts_evict)

text \<open>C25: \<open>Release\<close> gives back every attempt it starts: whether it is held off, finds no target, is refused by the shutdown,
  succeeds, fails, or the adapter panics, the number of active attempts is as before, if nobody else changes it.\<close>

theorem release_gives_back:
  assumes "alone w"
  shows "b_activeAttempts (wB (snd (run_state (Release p i) w))) = b_activeAttempts (wB w)"
  using assms attempts_Release [of p i] by (simp add: moves_def attempts_by_def)

definition ex_panic_world :: world where
  "ex_panic_world = ex_world\<lparr>wEnv := (\<lambda>i. (ex_env i)\<lparr>evHandle := AdapterPanic ''boom'', evError := AdapterPanic ''boom''\<rparr>)\<rparr>"

theorem release_gives_back_witness:
  "alone ex_panic_world \<and>
   b_activeAttempts (wB (snd (run_state (Release ''a'' ''i'') ex_panic_world))) = b_activeAttempts (wB ex_panic_world)"
proof -
  have "alone ex_panic_world" by (simp add: alone_def ex_panic_world_def)
  with release_gives_back [OF this] show ?thesis by simp
qed

lemma ex_key_valid:
  "ValidateWithDomain \<lparr>crTemplate = [], crKey = ''k'', crSpecHash = [], crOwner = own, crLabels = [], crTTL = second\<rparr>
     (b_maxTTL ex_binder) dmn = None"
  by code_simp

lemma ex_panic_sel:
  "wB ex_panic_world = ex_binder\<lparr>b_targets := [(''a'', ex_target)], b_slots := [newSlotLimiter ''a'' 1], b_claimTimeout := 10\<rparr>"
  "wTick ex_panic_world = 0" "wLog ex_panic_world = []"
  "wEnv ex_panic_world i = (ex_env i)\<lparr>evHandle := AdapterPanic ''boom'', evError := AdapterPanic ''boom''\<rparr>"
  by (simp_all add: ex_panic_world_def ex_world_def)

lemma ex_binder_fresh: "b_electedAt ex_binder = zero_time" "\<not> b_closing ex_binder" "b_activeAttempts ex_binder = 0" "b_done_closed ex_binder = 0"
  by (simp_all add: ex_binder_def New_binder_def ex_binder_options_def)

section \<open>Panics\<close>

text \<open>Programs that move the count by an amount that depends on their result.\<close>

definition ends_by :: "('a \<Rightarrow> int) \<Rightarrow> 'a act \<Rightarrow> bool" where
  "ends_by k m \<longleftrightarrow> (\<forall>w. case run_state m w of (x, w') \<Rightarrow> attempts_by (k x) w w')"

lemma ends_byD: "ends_by k m \<Longrightarrow> run_state m w = (x, w') \<Longrightarrow> attempts_by (k x) w w'"
  unfolding ends_by_def by (drule spec [of _ w]) simp

lemma attempts_trans: "attempts_by j u v \<Longrightarrow> attempts_by k v w \<Longrightarrow> attempts_by (j + k) u w"
  by (auto simp: attempts_by_def alone_def)

lemma ends_return: "k x = 0 \<Longrightarrow> ends_by k (ret x)"
  by (simp add: ends_by_def attempts_by_def run_simps)

lemma ends_bind:
  assumes "moves (attempts_by j) m" and "\<And>x. ends_by (\<lambda>y. k y - j) (f x)"
  shows "ends_by k (State_Monad.bind m f)"
  unfolding ends_by_def
proof
  fix w
  obtain x u where m: "run_state m w = (x, u)" by fastforce
  obtain y v where f: "run_state (f x) u = (y, v)" by fastforce
  from attempts_trans [OF movesD [OF assms(1) m] ends_byD [OF assms(2) f]]
  show "case run_state (State_Monad.bind m f) w of (x, w') \<Rightarrow> attempts_by (k x) w w'"
    by (simp add: run_bind m f)
qed

lemmas ends_skip = ends_bind [where j = 0, simplified]

lemma ends_cases:
  "(c \<Longrightarrow> ends_by k m) \<Longrightarrow> (\<not> c \<Longrightarrow> ends_by k m') \<Longrightarrow> ends_by k (if c then m else m')"
  "(\<And>y. x = AdapterPanic y \<Longrightarrow> ends_by k (f y)) \<Longrightarrow> (\<And>y. x = Returned y \<Longrightarrow> ends_by k (g y)) \<Longrightarrow>
   ends_by k (case x of AdapterPanic y \<Rightarrow> f y | Returned y \<Rightarrow> g y)"
  "(z = None \<Longrightarrow> ends_by k m) \<Longrightarrow> (\<And>y. z = Some y \<Longrightarrow> ends_by k (h y)) \<Longrightarrow> ends_by k (case z of None \<Rightarrow> m | Some y \<Rightarrow> h y)"
  "(\<And>a b. p = (a, b) \<Longrightarrow> ends_by k (q a b)) \<Longrightarrow> ends_by k (case p of (a, b) \<Rightarrow> q a b)"
  by (simp_all split: adapter.splits option.splits prod.splits)

definition leaked :: "'a adapter \<Rightarrow> int" where
  "leaked r = (case r of AdapterPanic m \<Rightarrow> 1 | Returned x \<Rightarrow> 0)"

lemma leaked_simps [simp]: "leaked (AdapterPanic m) = 1" "leaked (Returned x) = 0"
  by (simp_all add: leaked_def)

lemma attempts_lookup: "moves (attempts_by 0) (release_lookup t creq)"
  unfolding release_lookup_def by (intro moves_intro attempts_tick) simp_all

lemma ends_started:
  assumes "ends_by k stop" and "ends_by (\<lambda>y. k y - 1) body"
  shows "ends_by k (start_attempt \<bind> (\<lambda>ok. if \<not> ok then stop else body))"
  unfolding ends_by_def
proof
  fix w
  obtain ok u where start: "run_state start_attempt w = (ok, u)" by fastforce
  obtain y v where run: "run_state (if \<not> ok then stop else body) u = (y, v)" by fastforce
  have "attempts_by (k y - (if ok then 1 else 0)) u v"
    using run ends_byD [OF assms(1)] ends_byD [OF assms(2)] by (cases ok) auto
  from attempts_trans [OF attempts_start [OF start] this]
  show "case run_state (start_attempt \<bind> (\<lambda>ok. if \<not> ok then stop else body)) w of (x, w') \<Rightarrow> attempts_by (k x) w w'"
    by (simp add: run_bind start run)
qed

lemma ends_target: "ends_by leaked (release_target key providerID t)"
  unfolding release_target_def
  by (intro ends_started ends_skip [OF attempts_tick(2)] ends_skip [OF attempts_lookup] ends_skip [OF attempts_call]
      ends_skip [OF attempts_locked [OF attempts_evict]] ends_skip [OF attempts_classify] ends_bind [OF attempts_finish]
      ends_cases ends_return) simp_all

text \<open>While the binder is closing no attempt is started, so that no call can panic.\<close>

lemma closing_no_panic:
  "alone w \<Longrightarrow> b_closing (wB w) \<Longrightarrow> leaked (fst (run_state (release_target key providerID t) w)) = 0"
  by (simp add: release_target_def start_attempt_def startAttempt_def run_simps Let_def alone_def)

lemma closing_no_panics:
  "alone w \<Longrightarrow> b_closing (wB w) \<Longrightarrow> leaked (fst (run_state (release_targets key ts) w)) = 0"
proof (induction ts arbitrary: w)
  case (Cons pt ts)
  obtain p t where pt: "pt = (p, t)" by fastforce
  obtain r u where run: "run_state (release_target key p t) w = (r, u)" by fastforce
  have "alone u" "b_closing (wB u)" "leaked r = 0"
    using ends_byD [OF ends_target run] closing_no_panic [OF Cons.prems, of key p t] Cons.prems run
    by (auto simp: attempts_by_def alone_def)
  moreover have "leaked (fst (run_state (release_targets key ts) u)) = 0" "leaked (fst (run_state (release_targets key ts) w)) = 0"
    using calculation Cons by simp_all
  ultimately show ?case by (auto simp: pt run_bind run run_return split: adapter.splits option.splits)
qed (simp add: run_return)

lemma ends_targets: "ends_by leaked (release_targets key ts)"
proof (induction ts)
  case (Cons pt ts)
  obtain p t where pt: "pt = (p, t)" by fastforce
  have "ends_by leaked (release_target key p t \<bind> (\<lambda>r. case r of Returned None \<Rightarrow> release_targets key ts | _ \<Rightarrow> ret r))"
    unfolding ends_by_def
  proof
    fix w
    obtain r u where run: "run_state (release_target key p t) w = (r, u)" by fastforce
    obtain x v where rest: "run_state (release_targets key ts) u = (x, v)" by fastforce
    show "case run_state (release_target key p t \<bind> (\<lambda>r. case r of Returned None \<Rightarrow> release_targets key ts | _ \<Rightarrow> ret r)) w of
        (x, w') \<Rightarrow> attempts_by (leaked x) w w'"
      using ends_byD [OF ends_target run] attempts_trans [OF ends_byD [OF ends_target run] ends_byD [OF Cons.IH rest]]
      by (auto simp: run_bind run rest run_return split: adapter.splits option.splits)
  qed
  with Cons show ?case by (simp add: pt)
qed (simp add: ends_return)

text \<open>What \<open>ReleaseByKey\<close> does before it looks at the flights changes nothing, if nobody else does.\<close>

definition still :: "world \<Rightarrow> world \<Rightarrow> bool" where
  "still w w' \<longleftrightarrow> wEnv w' = wEnv w \<and> (alone w \<longrightarrow> wB w' = wB w)"

lemma preorder_still [simp]: "preorder still"
  by (auto simp: preorder_def still_def reflp_def transp_def alone_def)

lemma still_steps: "moves still tick" "moves still peek" "moves still get_now" "moves still get_rand"
  by (simp_all add: moves_def still_def run_simps Let_def alone_def get_now_def get_rand_def)

lemma still_before: "moves still (release_held ps)" "moves still (release_await key ctx_err)"
  unfolding release_held_def release_await_def by (intro moves_intro still_steps; simp)+

lemma still_attempts: "still w w' \<Longrightarrow> attempts_by 0 w w'"
  by (simp add: still_def attempts_by_def)

text \<open>The end of \<open>ReleaseByKey\<close> after a release: the flight is forgotten, if the release went well.\<close>

definition forget_if_released :: "string \<Rightarrow> bind_error option adapter \<Rightarrow> bind_error option adapter act" where
  "forget_if_released key r =
     (case r of Returned None \<Rightarrow> do { locked (release_forget key); ret (Returned None) } | _ \<Rightarrow> ret r)"

lemma forget_run:
  "run_state (forget_if_released key r) w = (x, w') \<Longrightarrow> x = r \<and> attempts_by 0 w w'"
  using movesD [OF attempts_locked [of "release_forget key"]]
  by (auto simp: forget_if_released_def run_bind run_return attempts_by_def release_forget_def split: adapter.splits option.splits prod.splits)

lemma still_tick: "alone w \<Longrightarrow> still w u \<Longrightarrow> run_state tick u = (e, v) \<Longrightarrow> still w v \<and> wB v = wB w"
  using movesD [OF still_steps(1)] by (fastforce simp: still_def alone_def)

lemma release_by_key_shape:
  assumes "alone w" and run: "run_state (ReleaseByKey ctx_err key) w = (r, w')"
  shows "(still w w' \<and> leaked r = 0) \<or>
    (\<exists>u x v. still w u \<and> run_state (case release_cached key (wB w) of
        Some (p, i) \<Rightarrow> Release p i | None \<Rightarrow> release_targets key (b_targets (wB w))) u = (x, v) \<and>
      run_state (forget_if_released key x) v = (r, w'))"
proof -
  obtain held u1 where held: "run_state (release_held []) w = (held, u1)" by fastforce
  obtain wt u2 where await: "run_state (release_await key ctx_err) u1 = (wt, u2)" by fastforce
  obtain e u3 where t3: "run_state tick u2 = (e, u3)" by fastforce
  obtain e' u4 where t4: "run_state tick u3 = (e', u4)" by fastforce
  have s1: "still w u1" by (rule movesD [OF still_before(1) held])
  have s2: "still w u2" using movesD [OF still_before(2) await] s1 by (auto simp: still_def alone_def)
  have s3: "still w u3" "wB u3 = wB w" using still_tick [OF assms(1) s2 t3] by simp_all
  have s4: "still w u4" "wB u4 = wB w" using still_tick [OF assms(1) s3(1) t4] by simp_all
  have peek: "run_state peek x = (wB x, x)" for x by (simp add: peek_def)
  show ?thesis
  proof (cases "held \<noteq> None \<or> wt \<noteq> None \<or>
      ValidateWithDomain \<lparr>crTemplate = [], crKey = key, crSpecHash = [], crOwner = b_owner (wB u1), crLabels = [],
        crTTL = second\<rparr> (b_maxTTL (wB u1)) (b_allowedLabelDomain (wB u1)) \<noteq> None")
    case True
    then have "still w w' \<and> leaked r = 0"
      using run s1 s2 by (auto simp: ReleaseByKey_def run_bind held await peek run_return split: option.splits)
    then show ?thesis by simp
  next
    case False
    then have none: "held = None" "wt = None" "ValidateWithDomain \<lparr>crTemplate = [], crKey = key, crSpecHash = [], crOwner = b_owner (wB u1),
        crLabels = [], crTTL = second\<rparr> (b_maxTTL (wB u1)) (b_allowedLabelDomain (wB u1)) = None"
      by auto
    show ?thesis
    proof (cases "release_cached key (wB w)")
      case None
      then show ?thesis
        using run none s4 
        by (auto simp: ReleaseByKey_def run_bind held await t3 t4 s3 peek run_return forget_if_released_def [symmetric] split: prod.splits)
    next
      case (Some pi)
      then show ?thesis
        using run none s3
        by (cases pi) (auto simp: ReleaseByKey_def run_bind held await t3 peek run_return forget_if_released_def [symmetric] split: prod.splits)
    qed
  qed
qed

lemma release_by_key_attempts:
  assumes "alone w" and run: "run_state (ReleaseByKey ctx_err key) w = (r, w')"
  shows "attempts_by (if release_cached key (wB w) = None then leaked r else 0) w w'"
    and "release_cached key (wB w) = None \<Longrightarrow> b_closing (wB w) \<Longrightarrow> leaked r = 0"
proof -
  have "attempts_by (if release_cached key (wB w) = None then leaked r else 0) w w' \<and>
    (release_cached key (wB w) = None \<and> b_closing (wB w) \<longrightarrow> leaked r = 0)"
    using release_by_key_shape [OF assms]
  proof (elim disjE exE conjE)
    assume "still w w'" "leaked r = 0"
    then show ?thesis using still_attempts by simp
  next
    fix u x v
    assume u: "still w u" and rel: "run_state (case release_cached key (wB w) of
        Some (p, i) \<Rightarrow> Release p i | None \<Rightarrow> release_targets key (b_targets (wB w))) u = (x, v)"
      and forget: "run_state (forget_if_released key x) v = (r, w')"
    have end_same: "x = r" "attempts_by 0 v w'" using forget_run [OF forget] by simp_all
    show ?thesis
    proof (cases "release_cached key (wB w)")
      case None
      with rel have run': "run_state (release_targets key (b_targets (wB w))) u = (x, v)" by simp
      have "leaked r = 0" if "b_closing (wB w)"
        using closing_no_panics [of u key "b_targets (wB w)"] u that assms(1) run' end_same(1) by (auto simp: still_def alone_def)
      moreover have "attempts_by (leaked r) w w'"
        using attempts_trans [OF attempts_trans [OF still_attempts [OF u] ends_byD [OF ends_targets run']] end_same(2)] end_same(1) by simp
      ultimately show ?thesis using None by simp
    next
      case (Some pi)
      then obtain p i where "run_state (Release p i) u = (x, v)" using rel by (cases pi) simp
      from attempts_trans [OF attempts_trans [OF still_attempts [OF u] movesD [OF attempts_Release this]] end_same(2)]
      show ?thesis using Some by simp
    qed
  qed
  then show "attempts_by (if release_cached key (wB w) = None then leaked r else 0) w w'"
    and "release_cached key (wB w) = None \<Longrightarrow> b_closing (wB w) \<Longrightarrow> leaked r = 0"
    by simp_all
qed

lemma finish_not_last:
  assumes "b_closing b" "int n < b_activeAttempts b"
  shows "b_closing ((finishAttempt ^^ n) b) \<and> b_activeAttempts ((finishAttempt ^^ n) b) = b_activeAttempts b - int n \<and>
    b_done_closed ((finishAttempt ^^ n) b) = b_done_closed b"
  using assms(2) by (induction n) (auto simp: finishAttempt_def Let_def assms(1))

lemma shutdown_waits:
  assumes "\<not> b_closing b" "int n < b_activeAttempts b"
  shows "b_done_closed ((finishAttempt ^^ n) (Shutdown_begin b)) = b_done_closed b \<and>
    \<not> snd (startAttempt ((finishAttempt ^^ n) (Shutdown_begin b)))"
  using finish_not_last [of "Shutdown_begin b" n] assms by (simp add: Shutdown_begin_def startAttempt_def)

text \<open>C26: \<open>ReleaseByKey\<close> gives back every attempt it starts when it returns, with or without an error, and when the panic of
  an adapter leaves it through \<open>Release\<close>, which it calls if the completed flight of the key has a result. For any other key
  it calls the adapters without a deferred function: whenever a lookup or a release panics there, one attempt stays counted for good. A
  shutdown that begins afterwards waits in vain: it starts no new attempts, and when all attempts of the others have
  finished, in however many steps, the channel it waits for is still not closed.\<close>

theorem release_by_key_leaks:
  assumes "alone w"
  shows "case run_state (ReleaseByKey ctx_err key) w of
     (Returned err, w') \<Rightarrow> b_activeAttempts (wB w') = b_activeAttempts (wB w)
   | (AdapterPanic m, w') \<Rightarrow>
       if release_cached key (wB w) \<noteq> None then b_activeAttempts (wB w') = b_activeAttempts (wB w)
       else b_activeAttempts (wB w') = b_activeAttempts (wB w) + 1 \<and>
         (if int n \<le> b_activeAttempts (wB w)
          then b_done_closed ((finishAttempt ^^ n) (Shutdown_begin (wB w'))) = b_done_closed (wB w') \<and>
            \<not> snd (startAttempt ((finishAttempt ^^ n) (Shutdown_begin (wB w'))))
          else True)"
proof -
  obtain r w' where run: "run_state (ReleaseByKey ctx_err key) w = (r, w')" by fastforce
  have moved: "attempts_by (if release_cached key (wB w) = None then leaked r else 0) w w'"
    by (rule release_by_key_attempts(1) [OF assms run])
  show ?thesis
  proof (cases "release_cached key (wB w) = None \<and> leaked r = 1")
    case True
    then have "\<not> b_closing (wB w')" and count: "b_activeAttempts (wB w') = b_activeAttempts (wB w) + 1"
      using release_by_key_attempts(2) [OF assms run] moved assms by (auto simp: attempts_by_def)
    then show ?thesis
      using True shutdown_waits [of "wB w'" n] by (auto simp: run count split: adapter.splits)
  next
    case False
    then show ?thesis using moved assms by (auto simp: run attempts_by_def leaked_def split: adapter.splits if_splits)
  qed
qed

theorem release_by_key_leaks_witness:
  "case run_state (ReleaseByKey [] ''k'') ex_panic_world of
     (r, w') \<Rightarrow> r = AdapterPanic ''boom'' \<and> b_activeAttempts (wB w') = 1 \<and> b_done_closed (Shutdown_begin (wB w')) = b_done_closed (wB w')"
proof -
  have alone: "alone ex_panic_world" by (simp add: alone_def ex_panic_world_def)
  obtain r w' where run: "run_state (ReleaseByKey [] ''k'') ex_panic_world = (r, w')" by fastforce
  then have "r = AdapterPanic ''boom''"
    by (auto simp: ReleaseByKey_def release_held_def get_now_def run_simps Let_def ex_panic_sel ex_binder_fresh ex_binder_sel
      holdOffRemaining_def ex_key_valid release_await_def release_wait_def release_cached_def claim_capable_def ex_target_def
      release_target_def start_attempt_def startAttempt_def release_lookup_def ex_env_def)
  moreover have "release_cached ''k'' (wB ex_panic_world) = None" "b_activeAttempts (wB ex_panic_world) = 0"
    by (simp_all add: release_cached_def ex_panic_sel ex_binder_sel ex_binder_fresh)
  ultimately show ?thesis
    using release_by_key_leaks [OF alone, where ctx_err = "[]" and key = "''k''" and n = 0] by (simp add: run)
qed

end
