(* ===== verification/GoDuration.thy ===== *)
theory GoDuration
  imports Float64
begin

text \<open>
  \<open>time.ParseDuration\<close> of Go's standard library, which the claim endpoint applies to the \<open>ttl\<close> and \<open>timeout\<close>
  of a request. A string is a list of bytes; the result is \<open>None\<close> for an error.
\<close>

section \<open>Digits\<close>

definition is_digit :: "char \<Rightarrow> bool" where
  "is_digit c \<longleftrightarrow> 48 \<le> (of_char c :: nat) \<and> (of_char c :: nat) \<le> 57"

definition digit_val :: "char \<Rightarrow> int" where
  "digit_val c = of_char c - 48"

text \<open>\<open>leadingInt\<close>: the digits in front, \<open>None\<close> beyond \<open>1 << 63\<close>.\<close>

fun leadingInt :: "int \<Rightarrow> string \<Rightarrow> (int \<times> string) option" where
  "leadingInt x [] = Some (x, [])"
| "leadingInt x (c # s) =
     (if \<not> is_digit c then Some (x, c # s)
      else if x > 2 ^ 63 div 10 then None
      else (let x = x * 10 + digit_val c in if x > 2 ^ 63 then None else leadingInt x s))"

text \<open>\<open>leadingFraction\<close>: digits that no longer fit are dropped.\<close>

fun leadingFraction :: "int \<Rightarrow> rat \<Rightarrow> bool \<Rightarrow> string \<Rightarrow> int \<times> rat \<times> string" where
  "leadingFraction x scale overflow [] = (x, scale, [])"
| "leadingFraction x scale overflow (c # s) =
     (if \<not> is_digit c then (x, scale, c # s)
      else if overflow then leadingFraction x scale True s
      else if x > (2 ^ 63 - 1) div 10 then leadingFraction x scale True s
      else (let y = x * 10 + digit_val c in
        if y > 2 ^ 63 then leadingFraction x scale True s
        else leadingFraction y (fmul scale 10) False s))"

section \<open>Units and terms\<close>

definition unit_of :: "string \<Rightarrow> int option" where
  "unit_of u =
     (if u = ''ns'' then Some 1
      else if u = ''us'' \<or> u = [CHR 0xC2, CHR 0xB5, CHR ''s''] \<or> u = [CHR 0xCE, CHR 0xBC, CHR ''s''] then Some 1000
      else if u = ''ms'' then Some millisecond
      else if u = ''s'' then Some second
      else if u = ''m'' then Some minute
      else if u = ''h'' then Some hour
      else None)"

text \<open>The value of a number with its fraction \<open>f / scale\<close> in a unit.\<close>

definition term_value :: "int \<Rightarrow> int \<Rightarrow> rat \<Rightarrow> int \<Rightarrow> int option" where
  "term_value v f scale u =
     (if v > 2 ^ 63 div u then None
      else (let v = v * u;
                v = (if f > 0 then v + trunc (fmul (fl64 (of_int f)) (fdiv (of_int u) scale)) else v)
            in if v > 2 ^ 63 then None else Some v))"

definition unit_char :: "char \<Rightarrow> bool" where
  "unit_char c \<longleftrightarrow> \<not> (c = CHR ''.'' \<or> is_digit c)"

text \<open>One turn of the loop: the value of the term and the rest of the string.\<close>

definition parse_term :: "string \<Rightarrow> (int \<times> string) option" where
  "parse_term s =
     (if s = [] \<or> unit_char (hd s) then None
      else (case leadingInt 0 s of
          None \<Rightarrow> None
        | Some (v, s1) \<Rightarrow>
            (let pre = length s1 \<noteq> length s;
                 (f, scale, s2, post) = (if s1 \<noteq> [] \<and> hd s1 = CHR ''.'' then
                     (case leadingFraction 0 1 False (tl s1) of (f, scale, s2) \<Rightarrow> (f, scale, s2, length s2 \<noteq> length (tl s1)))
                   else (0, 1, s1, False));
                 u = takeWhile unit_char s2
             in if \<not> pre \<and> \<not> post then None
                else if u = [] then None
                else (case unit_of u of
                    None \<Rightarrow> None
                  | Some n \<Rightarrow> (case term_value v f scale n of
                      None \<Rightarrow> None
                    | Some x \<Rightarrow> Some (x, dropWhile unit_char s2))))))"

lemma leadingInt_length: "leadingInt x s = Some (y, s') \<Longrightarrow> length s' \<le> length s"
  by (induction x s rule: leadingInt.induct) (fastforce split: if_splits simp: Let_def)+

lemma leadingFraction_length: "leadingFraction x sc ov s = (y, sc', s') \<Longrightarrow> length s' \<le> length s"
  by (induction x sc ov s rule: leadingFraction.induct) (fastforce split: if_splits simp: Let_def)+

lemma parse_term_shorter: "parse_term s = Some (x, s') \<Longrightarrow> length s' < length s"
proof -
  assume p: "parse_term s = Some (x, s')"
  have drop: "length (dropWhile unit_char t) < length t" if "takeWhile unit_char t \<noteq> []" for t
    using that by (cases t) (auto simp: le_imp_less_Suc length_dropWhile_le split: if_splits)
  from p obtain s2 where s2: "s' = dropWhile unit_char s2" "takeWhile unit_char s2 \<noteq> []" and le: "length s2 \<le> length s"
  proof -
    from p obtain v s1 where "leadingInt 0 s = Some (v, s1)" by (auto simp: parse_term_def split: if_splits option.splits)
    note l1 = leadingInt_length [OF this]
    obtain f sc t where fr: "leadingFraction 0 1 False (tl s1) = (f, sc, t)" by (cases "leadingFraction 0 1 False (tl s1)")
    note l2 = leadingFraction_length [OF this]
    show ?thesis
      using p that l1 l2 \<open>leadingInt 0 s = Some (v, s1)\<close>
      by (auto simp: parse_term_def fr Let_def split: if_splits option.splits)
  qed
  from drop [OF s2(2)] le s2(1) show ?thesis by simp
qed

function parse_terms :: "int \<Rightarrow> string \<Rightarrow> int option" where
  "parse_terms d s =
     (if s = [] then Some d
      else (case parse_term s of
          None \<Rightarrow> None
        | Some (v, s') \<Rightarrow> if d + v > 2 ^ 63 then None else parse_terms (d + v) s'))"
  by pat_completeness auto
termination by (relation "measure (length \<circ> snd)") (auto dest: parse_term_shorter)

declare parse_terms.simps [simp del]

definition ParseDuration :: "string \<Rightarrow> duration option" where
  "ParseDuration s =
     (let signed = s \<noteq> [] \<and> (hd s = CHR ''-'' \<or> hd s = CHR ''+'');
          neg = s \<noteq> [] \<and> hd s = CHR ''-'';
          s = (if signed then tl s else s)
      in if s = ''0'' then Some 0
         else if s = [] then None
         else (case parse_terms 0 s of
             None \<Rightarrow> None
           | Some d \<Rightarrow> if neg then Some (- d) else if d > 2 ^ 63 - 1 then None else Some d))"

end
