(* ===== verification/Service.thy ===== *)
theory Service
  imports BinderOps GoDuration
begin

text \<open>
  \<open>pkg/scheduler/service.go\<close>: the HTTP handlers. A handler runs in the world of the binder, whose registry is the
  service's registry. The body of a request comes decoded, or as the error of the JSON decoder; a reply is its
  status, its \<open>Retry-After\<close> header and its body before encoding. \<open>None\<close> is a panic of the handler.
\<close>

section \<open>Requests and replies\<close>

record schedule_body =
  sqName :: string
  sqLabels :: "(string, string) gomap"
  sqRequires :: "(string, string) gomap"
  sqPreferProvider :: string
  sqTemplate :: string
  sqWarmOnly :: bool

record claim_body =
  cbTemplate :: string
  cbKey :: string
  cbRetry :: bool
  cbLabels :: "(string, string) gomap"
  cbPolicyLabels :: "(string, string) gomap"
  cbSandboxLabels :: "(string, string) gomap"
  cbRequires :: "(string, string) gomap"
  cbPreferProvider :: string
  cbPinProvider :: string
  cbWarmOnly :: bool
  cbTTL :: string
  cbTTLSeconds :: "int option"
  cbTimeout :: string
  cbTimeoutSeconds :: "int option"

record schedule_response =
  srProvider :: string
  srEndpoint :: string
  srScore :: int
  srPolicy :: string
  srReason :: string
  srExplanation :: string

record claim_response =
  clID :: string
  clKey :: string
  clProvider :: string
  clEndpoint :: string
  clConnect :: "(string, string) gomap"
  clExpiresAt :: "gotime option"
  clReplay :: bool
  clWarm :: bool
  clPolicy :: string
  clScore :: int
  clExplanation :: string

record error_response =
  erError :: string
  erReason :: "reason option"
  erProviders :: "string list"
  erRetryAfterMs :: int
  erExplanation :: string

record provider_status =
  psProvider :: string
  psEndpoint :: string
  psReachable :: bool
  psStale :: bool
  psWarmCapacity :: int
  psReserved :: int
  psInFlightCold :: int
  psTemplates :: "(string, string) gomap"
  psAgeSeconds :: int
  psLastError :: string

datatype body = Placed schedule_response | Claimed claim_response | Failed error_response
  | Providers "provider_status list" | Empty

record reply =
  rpStatus :: int
  rpRetryAfter :: "int option"
  rpBody :: body

definition writeJSON :: "int \<Rightarrow> body \<Rightarrow> reply" where
  "writeJSON st bd = \<lparr>rpStatus = st, rpRetryAfter = None, rpBody = bd\<rparr>"

definition error_of :: "string \<Rightarrow> reason option \<Rightarrow> string list \<Rightarrow> error_response" where
  "error_of msg rsn provs = \<lparr>erError = msg, erReason = rsn, erProviders = provs, erRetryAfterMs = 0, erExplanation = []\<rparr>"

text \<open>\<open>writeClaimError\<close> makes the providers an array even when there are none; here both are the empty list.\<close>

definition writeClaimError :: "int \<Rightarrow> error_response \<Rightarrow> reply" where
  "writeClaimError st resp = writeJSON st (Failed resp)"

definition bad_request :: "string \<Rightarrow> reply" where
  "bad_request msg = writeClaimError 400 (error_of msg (Some ReasonInvalidRequest) [])"

definition retry_after_secs :: "duration \<Rightarrow> int" where
  "retry_after_secs d =
     (let secs = go_div (wrap64 (wrap64 (d + second) - 1)) second in if secs < 1 then 1 else secs)"

definition setRetryAfterHeader :: "duration \<Rightarrow> reply \<Rightarrow> reply" where
  "setRetryAfterHeader d r = r\<lparr>rpRetryAfter := Some (retry_after_secs d)\<rparr>"

definition milliseconds :: "duration \<Rightarrow> int" where
  "milliseconds d = go_div d millisecond"

definition writeBinderError :: "bind_error \<Rightarrow> reply" where
  "writeBinderError berr =
     (let retryMs = (if beRetryAfter berr > 0 then milliseconds (beRetryAfter berr) else 0);
          r = writeClaimError (beStatus berr) \<lparr>erError = beMessage berr, erReason = Some (beReason berr),
                erProviders = beProviders berr, erRetryAfterMs = retryMs, erExplanation = beExplanation berr\<rparr>
      in if beRetryAfter berr > 0 then setRetryAfterHeader (beRetryAfter berr) r else r)"

text \<open>\<open>writeStandby\<close>: \<open>rnd n\<close> is a random number below \<open>n\<close>.\<close>

definition writeStandby :: "(nat \<Rightarrow> nat) \<Rightarrow> reply" where
  "writeStandby rnd =
     (let retryWait = second + int (rnd (nat (3 * second)))
      in setRetryAfterHeader retryWait (writeClaimError 503
           ((error_of ''this replica is a standby; placement is served by the elected leader'' (Some ReasonStandby) [])
              \<lparr>erRetryAfterMs := milliseconds retryWait\<rparr>)))"

section \<open>The service\<close>

text \<open>
  \<open>svActive\<close> is whether \<open>Active\<close> is nil or answers true, \<open>svPolicies\<close> what the policy source answers, and
  \<open>svBinder\<close> whether there is a binder.
\<close>

record 'sel service =
  svPolicies :: "'sel policy list"
  svMatches :: "(string, string) gomap \<Rightarrow> 'sel \<Rightarrow> string + bool"
  svEndpoints :: "(string \<Rightarrow> string) option"
  svBinder :: bool
  svClaimsEnabled :: bool
  svToken :: string
  svClaimToken :: string
  svActive :: bool

definition endpoint_of :: "'sel service \<Rightarrow> string \<Rightarrow> string" where
  "endpoint_of s p = (case svEndpoints s of None \<Rightarrow> [] | Some f \<Rightarrow> f p)"

section \<open>Authorization\<close>

definition ascii_lower :: "char \<Rightarrow> char" where
  "ascii_lower c = (if 65 \<le> (of_char c :: nat) \<and> (of_char c :: nat) \<le> 90 then char_of ((of_char c :: nat) + 32) else c)"

text \<open>\<open>EqualFold\<close> with a prefix of ASCII letters none of which folds to anything else is comparison in lower case.\<close>

definition authorizedWithToken :: "string \<Rightarrow> string \<Rightarrow> bool" where
  "authorizedWithToken header expected =
     (let prefix = ''Bearer '' in
      if length header \<le> length prefix \<or> map ascii_lower (take (length prefix) header) \<noteq> map ascii_lower prefix then False
      else drop (length prefix) header = expected)"

definition requireReadAuth :: "'sel service \<Rightarrow> string \<Rightarrow> reply option act \<Rightarrow> reply option act" where
  "requireReadAuth s header next_handler =
     (if svToken s \<noteq> [] \<and> \<not> authorizedWithToken header (svToken s) then
        ret (Some (writeJSON 401 (Failed (error_of ''missing or invalid bearer token'' None []))))
      else next_handler)"

definition requireClaimAuth :: "'sel service \<Rightarrow> string \<Rightarrow> reply option act \<Rightarrow> reply option act" where
  "requireClaimAuth s header next_handler =
     (let tok = (if svClaimToken s = [] then svToken s else svClaimToken s)
      in if tok \<noteq> [] \<and> \<not> authorizedWithToken header tok then
           ret (Some (writeClaimError 401 (error_of ''missing or invalid bearer token'' None [])))
         else next_handler)"

section \<open>Scheduling\<close>

definition warmIn :: "candidate list \<Rightarrow> string \<Rightarrow> bool" where
  "warmIn candidates p = (case find (\<lambda>c. cProvider c = p) candidates of None \<Rightarrow> False | Some c \<Rightarrow> cWarmCapacity c > 0)"

definition empty_provider :: "string \<Rightarrow> candidate list \<Rightarrow> candidate list" where
  "empty_provider p candidates = map (\<lambda>c. if cProvider c = p then c\<lparr>cWarmCapacity := 0\<rparr> else c) candidates"

definition schedule_profile :: "'sel policy \<Rightarrow> schedule_body \<Rightarrow> profile \<Rightarrow> profile \<times> sched_request" where
  "schedule_profile pol req prof =
     (let prof = (if sqTemplate req \<noteq> [] \<and> \<not> hasFilter (pFilters prof) ''TemplateAvailable''
            then prof\<lparr>pFilters := pFilters prof @ [TemplateAvailable_plugin]\<rparr> else prof);
          prof = (if sqWarmOnly req \<and> \<not> hasFilter (pFilters prof) ''WarmOnly''
            then prof\<lparr>pFilters := pFilters prof @ [WarmOnly_plugin]\<rparr> else prof);
          schedReq = BuildRequest pol (sqName req) (sqRequires req) (sqPreferProvider req)
      in (prof, schedReq\<lparr>rqTemplate := sqTemplate req, rqWarmOnly := sqWarmOnly req\<rparr>))"

text \<open>
  The loop that decides until the decision's warm sandbox is reserved. \<open>Inl\<close> has the results of a failure; the
  fuel is more than the number of providers with warm capacity.
\<close>

fun schedule_loop :: "nat \<Rightarrow> profile \<Rightarrow> sched_request \<Rightarrow> candidate list
    \<Rightarrow> (candidate_result list + decision \<times> candidate list) option act" where
  "schedule_loop 0 prof sreq candidates = ret None"
| "schedule_loop (Suc n) prof sreq candidates = do {
     e \<leftarrow> tick;
     (case Schedule (evRnd e) prof sreq candidates of
        Inl results \<Rightarrow> ret (Some (Inl results))
      | Inr dec \<Rightarrow>
          (if \<not> warmIn candidates (dProvider dec) then ret (Some (Inr (dec, candidates)))
           else do {
             w \<leftarrow> reserve_warm (dProvider dec);
             if snd w then ret (Some (Inr (dec, candidates)))
             else schedule_loop n prof sreq (empty_provider (dProvider dec) candidates) })) }"

definition warm_providers :: "candidate list \<Rightarrow> nat" where
  "warm_providers candidates = length (filter (\<lambda>c. cWarmCapacity c > 0) candidates)"

definition decision_reason :: "decision \<Rightarrow> string" where
  "decision_reason dec =
     (case find (\<lambda>r. resProvider r = dProvider dec \<and> length (resDetails r) > 0) (dResults dec) of
        None \<Rightarrow> []
      | Some r \<Rightarrow> sdScorer (hd (resDetails r)))"

definition handleSchedule :: "'sel service \<Rightarrow> string + schedule_body \<Rightarrow> reply option act" where
  "handleSchedule s input =
     (if \<not> svActive s then do { e \<leftarrow> tick; ret (Some (writeStandby (evRnd e))) }
      else (case input of
        Inl err \<Rightarrow> ret (Some (writeJSON 400 (Failed (error_of (''invalid JSON body: '' @ err) None []))))
      | Inr req \<Rightarrow> do {
          candidates \<leftarrow> snapshot;
          if candidates = [] then
            ret (Some (writeJSON 503 (Failed (error_of ''no providers are configured; create a SandboxProvider'' (Some ReasonNoProviders) []))))
          else (case SelectPolicy (svMatches s (sqLabels req)) (svPolicies s) of
            Inl err \<Rightarrow> ret (Some (writeJSON 500 (Failed (error_of err None []))))
          | Inr chosen \<Rightarrow>
              (let pol = (case chosen of None \<Rightarrow> DefaultPolicy | Some p \<Rightarrow> p) in
               case BuildProfile pol candidates of
                 None \<Rightarrow> ret None
               | Some (Inl err) \<Rightarrow> ret (Some (writeJSON 422 (Failed (error_of
                   (''policy '' @ poName pol @ '' is not usable: '' @ err) (Some ReasonInvalidPolicy) []))))
               | Some (Inr prof0) \<Rightarrow> do {
                   r \<leftarrow> schedule_loop (Suc (warm_providers candidates)) (fst (schedule_profile pol req prof0))
                          (snd (schedule_profile pol req prof0)) candidates;
                   (case r of
                      None \<Rightarrow> ret None
                    | Some (Inl results) \<Rightarrow> ret (Some (writeJSON 409 (Failed
                        ((error_of (no_candidates_string results) (Some ReasonNoCapacity) [])\<lparr>erExplanation := ExplainResults results\<rparr>))))
                    | Some (Inr (dec, left)) \<Rightarrow> do {
                        u \<leftarrow> (if warmIn left (dProvider dec) then ret () else record_cold (dProvider dec));
                        ret (Some (writeJSON 200 (Placed \<lparr>srProvider = dProvider dec, srEndpoint = endpoint_of s (dProvider dec),
                          srScore = dScore dec, srPolicy = poName pol, srReason = decision_reason dec,
                          srExplanation = Explain dec\<rparr>))) }) })) }))"

section \<open>Claims\<close>

definition claims_disabled :: reply where
  "claims_disabled = writeClaimError 501
     (error_of ''sandbox claims are disabled; start the scheduler with --enable-claims'' (Some ReasonClaimsDisabled) [])"

definition maxSecondsField :: int where
  "maxSecondsField = 365 * 24 * 3600"

text \<open>The \<open>ttl\<close> and the \<open>timeout\<close> of a request, each as seconds or as a duration: the error message or the value.\<close>

definition duration_field :: "string \<Rightarrow> int option \<Rightarrow> string \<Rightarrow> string + duration" where
  "duration_field name seconds text =
     (case seconds of
        Some n \<Rightarrow>
          (if n \<le> 0 \<or> n > maxSecondsField then Inl (''invalid '' @ name @ ''Seconds: must be positive'')
           else Inr (wrap64 (n * second)))
      | None \<Rightarrow>
          (if text = [] then Inr 0
           else (case ParseDuration text of
               None \<Rightarrow> Inl (''invalid '' @ name @ '' duration: '' @ text)
             | Some d \<Rightarrow> if d \<le> 0 then Inl (''invalid '' @ name @ '' duration: '' @ text) else Inr d)))"

definition selector_labels :: "claim_body \<Rightarrow> (string, string) gomap" where
  "selector_labels raw = go_copy (cbPolicyLabels raw) (go_copy (cbLabels raw) [])"

definition forwarded_labels :: "claim_body \<Rightarrow> (string, string) gomap" where
  "forwarded_labels raw =
     (if length (cbSandboxLabels raw) > 0 then cbSandboxLabels raw
      else go_copy (filter (\<lambda>(k, v). CHR ''/'' \<in> set k) (cbLabels raw)) [])"

definition bind_request_of :: "claim_body \<Rightarrow> duration \<Rightarrow> duration \<Rightarrow> bind_request" where
  "bind_request_of raw ttl timeout =
     \<lparr>bqTemplate = cbTemplate raw, bqKey = cbKey raw, bqRetry = cbRetry raw, bqLabels = forwarded_labels raw,
      bqRequires = cbRequires raw, bqPreferProvider = cbPreferProvider raw, bqPinProvider = cbPinProvider raw,
      bqWarmOnly = cbWarmOnly raw, bqTTL = ttl, bqTimeout = timeout\<rparr>"

definition claim_reply :: "'sel service \<Rightarrow> claim_body \<Rightarrow> bind_result \<Rightarrow> reply" where
  "claim_reply s raw res =
     (let h = brHandle res;
          endpoint = (if hEndpoint h = [] then endpoint_of s (hProvider h) else hEndpoint h)
      in writeJSON (if brReplay res then 200 else 201)
           (Claimed \<lparr>clID = hID h, clKey = cbKey raw, clProvider = hProvider h, clEndpoint = endpoint, clConnect = hConnect h,
              clExpiresAt = (if hExpiresAt h = zero_time then None else Some (hExpiresAt h)), clReplay = brReplay res,
              clWarm = brWarm res, clPolicy = brPolicy res, clScore = brScore res, clExplanation = brExplanation res\<rparr>))"

text \<open>\<open>n\<close> is the fuel of \<open>Bind\<close>.\<close>

definition handleClaim :: "nat \<Rightarrow> (string \<Rightarrow> string) \<Rightarrow> 'sel service \<Rightarrow> string + claim_body \<Rightarrow> reply option act" where
  "handleClaim n sha s input =
     (if \<not> svClaimsEnabled s \<or> \<not> svBinder s then ret (Some claims_disabled)
      else if \<not> svActive s then do { e \<leftarrow> tick; ret (Some (writeStandby (evRnd e))) }
      else (case input of
        Inl err \<Rightarrow> ret (Some (bad_request (''invalid JSON body: '' @ err)))
      | Inr raw \<Rightarrow>
          (case duration_field ''ttl'' (cbTTLSeconds raw) (cbTTL raw) of
             Inl msg \<Rightarrow> ret (Some (bad_request msg))
           | Inr ttl \<Rightarrow>
              (case duration_field ''timeout'' (cbTimeoutSeconds raw) (cbTimeout raw) of
                 Inl msg \<Rightarrow> ret (Some (bad_request msg))
               | Inr timeout \<Rightarrow>
                  (case SelectPolicy (svMatches s (selector_labels raw)) (svPolicies s) of
                     Inl err \<Rightarrow> ret (Some (writeClaimError 500 (error_of err None [])))
                   | Inr chosen \<Rightarrow> do {
                       out \<leftarrow> Bind n sha (Some (case chosen of None \<Rightarrow> DefaultPolicy | Some p \<Rightarrow> p)) (bind_request_of raw ttl timeout);
                       ret (case out of
                           None \<Rightarrow> None
                         | Some (Inl berr) \<Rightarrow> Some (writeBinderError berr)
                         | Some (Inr res) \<Rightarrow> Some (claim_reply s raw res)) })))))"

section \<open>Releases and status\<close>

definition released_reply :: "bind_error option adapter \<Rightarrow> reply option" where
  "released_reply r = (case r of
     AdapterPanic m \<Rightarrow> None
   | Returned None \<Rightarrow> Some (writeJSON 204 Empty)
   | Returned (Some berr) \<Rightarrow> Some (writeBinderError berr))"

definition handleRelease :: "'sel service \<Rightarrow> string \<Rightarrow> string \<Rightarrow> reply option act" where
  "handleRelease s providerID sandboxID =
     (if \<not> svClaimsEnabled s \<or> \<not> svBinder s then ret (Some claims_disabled)
      else if \<not> svActive s then do { e \<leftarrow> tick; ret (Some (writeStandby (evRnd e))) }
      else if providerID = [] \<or> sandboxID = [] then ret (Some (bad_request ''provider and sandbox id are required''))
      else do { r \<leftarrow> Release providerID sandboxID; ret (released_reply r) })"

definition handleReleaseByKey :: "string \<Rightarrow> 'sel service \<Rightarrow> string \<Rightarrow> reply option act" where
  "handleReleaseByKey ctx_err s key =
     (if \<not> svClaimsEnabled s \<or> \<not> svBinder s then ret (Some claims_disabled)
      else if \<not> svActive s then do { e \<leftarrow> tick; ret (Some (writeStandby (evRnd e))) }
      else if key = [] then ret (Some (bad_request ''sandbox key is required''))
      else do { r \<leftarrow> ReleaseByKey ctx_err key; ret (released_reply r) })"

definition provider_status_of :: "'sel service \<Rightarrow> status \<Rightarrow> provider_status" where
  "provider_status_of s st =
     \<lparr>psProvider = stProvider st, psEndpoint = endpoint_of s (stProvider st), psReachable = stReachable st, psStale = stStale st,
      psWarmCapacity = repWarmCapacity (stReport st), psReserved = stReserved st, psInFlightCold = stInFlightCold st,
      psTemplates = pcTemplates (stConfig st), psAgeSeconds = go_div (stAge st) second,
      psLastError = (case stLastError st of None \<Rightarrow> [] | Some e \<Rightarrow> error_string e)\<rparr>"

definition handleProviders :: "'sel service \<Rightarrow> reply option act" where
  "handleProviders s = do {
     e \<leftarrow> tick;
     b \<leftarrow> peek;
     ret (Some (writeJSON 200 (Providers (map (provider_status_of s) (Statuses (evNow e) (b_reg b)))))) }"

section \<open>Routes\<close>

datatype route = RouteHealthz | RouteSchedule "string + schedule_body" | RouteProviders | RouteClaim "string + claim_body"
  | RouteRelease string string | RouteReleaseByKey string

definition serve :: "nat \<Rightarrow> (string \<Rightarrow> string) \<Rightarrow> string \<Rightarrow> 'sel service \<Rightarrow> string \<Rightarrow> route \<Rightarrow> reply option act" where
  "serve n sha ctx_err s header r =
     (case r of
        RouteHealthz \<Rightarrow> ret (Some (writeJSON 200 Empty))
      | RouteSchedule input \<Rightarrow> requireReadAuth s header (handleSchedule s input)
      | RouteProviders \<Rightarrow> requireReadAuth s header (handleProviders s)
      | RouteClaim input \<Rightarrow> requireClaimAuth s header (handleClaim n sha s input)
      | RouteRelease p i \<Rightarrow> requireClaimAuth s header (handleRelease s p i)
      | RouteReleaseByKey k \<Rightarrow> requireClaimAuth s header (handleReleaseByKey ctx_err s k))"

end
