(* ===== verification/ServiceProps.thy ===== *)
theory ServiceProps
  imports Service ClaimSafety
begin

text \<open>
  What the HTTP service guarantees: a placement takes exactly one unit of capacity, the scheduling loop ends,
  routes need their token, and a standby changes nothing.
\<close>

section \<open>Placements\<close>

text \<open>The capacity that the events of a run took: a warm reservation or a cold placement.\<close>

definition takes :: "event \<Rightarrow> string list" where
  "takes ev = (case ev of EvWarm t \<Rightarrow> (if tkValid t then [tkProvider t] else []) | EvCold p \<Rightarrow> [p] | _ \<Rightarrow> [])"

definition taken :: "world \<Rightarrow> string list" where
  "taken w = concat (map takes (wLog w))"

lemma reserve_warm_run:
  assumes "run_state (reserve_warm p) w = ((t, ok), w')"
  shows "taken w' = (if ok then [p] else []) @ taken w"
  using assms
  by (auto simp: reserve_warm_def run_simps Let_def TryReserveWarmTicket_def taken_def takes_def no_ticket_def
      split: prod.splits option.splits if_splits)

lemma tick_taken: "run_state tick w = (e, w') \<Longrightarrow> taken w' = taken w"
  by (auto simp: run_simps Let_def taken_def)

lemma schedule_loop_taken:
  "run_state (schedule_loop n prof sreq cs) w = (r, w') \<Longrightarrow>
     taken w' = (case r of Some (Inr (dec, left)) \<Rightarrow> if warmIn left (dProvider dec) then [dProvider dec] else [] | _ \<Rightarrow> []) @ taken w"
proof (induction n arbitrary: cs w)
  case 0
  then show ?case by (auto simp: run_return)
next
  case (Suc n)
  obtain e v where t: "run_state tick w = (e, v)" by fastforce
  show ?case
  proof (cases "Schedule (evRnd e) prof sreq cs")
    case (Inl rs)
    with Suc.prems t tick_taken [OF t] show ?thesis by (auto simp: run_bind run_return)
  next
    case (Inr dec)
    show ?thesis
    proof (cases "warmIn cs (dProvider dec)")
      case False
      with Inr Suc.prems t tick_taken [OF t] show ?thesis by (auto simp: run_bind run_return)
    next
      case True
      obtain tk ok v' where res: "run_state (reserve_warm (dProvider dec)) v = ((tk, ok), v')" by (metis surj_pair)
      note tk = reserve_warm_run [OF res] tick_taken [OF t]
      show ?thesis
      proof (cases ok)
        case True
        with Inr \<open>warmIn cs (dProvider dec)\<close> Suc.prems t tk show ?thesis by (auto simp: run_bind run_return res)
      next
        case False
        with Inr \<open>warmIn cs (dProvider dec)\<close> Suc.prems t
        have "run_state (schedule_loop n prof sreq (empty_provider (dProvider dec) cs)) v' = (r, w')"
          by (simp add: run_bind res)
        from Suc.IH [OF this] tk False show ?thesis by simp
      qed
    qed
  qed
qed

lemma empty_provider_fewer: "warmIn cs p \<Longrightarrow> warm_providers (empty_provider p cs) < warm_providers cs"
proof -
  assume "warmIn cs p"
  then obtain c where c: "c \<in> set cs" "cProvider c = p" "cWarmCapacity c > 0"
    by (auto simp: warmIn_def find_Some_iff split: option.splits dest: nth_mem)
  have le: "warm_providers (empty_provider p xs) \<le> warm_providers xs" for xs
    by (induction xs) (auto simp: warm_providers_def empty_provider_def)
  from c show ?thesis
  proof (induction cs)
    case (Cons x xs)
    show ?case
    proof (cases "x = c")
      case True
      with Cons.prems le [of xs] show ?thesis by (simp add: warm_providers_def empty_provider_def)
    next
      case False
      with Cons show ?thesis by (auto simp: warm_providers_def empty_provider_def)
    qed
  qed simp
qed

lemma schedule_loop_ends: "warm_providers cs < n \<Longrightarrow> yields (\<lambda>r. r \<noteq> None) (schedule_loop n prof sreq cs)"
proof (induction n arbitrary: cs)
  case (Suc n)
  show ?case unfolding schedule_loop.simps
  proof (intro yields_intro)
    fix e dec w
    assume "\<not> \<not> warmIn cs (dProvider dec)"
    then have "warm_providers (empty_provider (dProvider dec) cs) < n" using Suc.prems empty_provider_fewer by fastforce
    then show "yields (\<lambda>r. r \<noteq> None) (schedule_loop n prof sreq (empty_provider (dProvider dec) cs))" by (rule Suc.IH)
  qed simp_all
qed simp

lemma BuildProfile_total: "BuildProfile p cs \<noteq> None"
  by (cases "Policy_Validate p") (simp_all add: BuildProfile_valid, simp add: BuildProfile_def)

definition placement :: "reply \<Rightarrow> string list" where
  "placement r = (case rpBody r of Placed p \<Rightarrow> [srProvider p] | _ \<Rightarrow> [])"

text \<open>Handlers that answer, and whose placements are what they took.\<close>

definition accounts :: "reply option act \<Rightarrow> bool" where
  "accounts m \<longleftrightarrow> (\<forall>w. case run_state m w of (Some r, w') \<Rightarrow> taken w' = placement r @ taken w | (None, w') \<Rightarrow> False)"

lemma accountsI:
  "(\<And>w r w'. run_state m w = (r, w') \<Longrightarrow> \<exists>a. r = Some a \<and> taken w' = placement a @ taken w) \<Longrightarrow> accounts m"
  unfolding accounts_def by (fastforce split: prod.splits option.splits)

lemma accountsD: "accounts m \<Longrightarrow> run_state m w = (r, w') \<Longrightarrow> \<exists>a. r = Some a \<and> taken w' = placement a @ taken w"
  unfolding accounts_def by (drule spec [of _ w]) (simp split: option.splits)

lemma accounts_reply: "placement r = [] \<Longrightarrow> accounts (ret (Some r))"
  by (simp add: accounts_def run_return)

lemma accounts_quiet:
  assumes quiet: "\<And>w x v. run_state m w = (x, v) \<Longrightarrow> taken v = taken w" and f: "\<And>x. accounts (f x)"
  shows "accounts (State_Monad.bind m f)"
proof (rule accountsI)
  fix w r w'
  assume run: "run_state (m \<bind> f) w = (r, w')"
  obtain x v where m: "run_state m w = (x, v)" by fastforce
  with run have "run_state (f x) v = (r, w')" by (simp add: run_bind)
  from accountsD [OF f this] quiet [OF m] show "\<exists>a. r = Some a \<and> taken w' = placement a @ taken w" by simp
qed

lemma snapshot_taken: "run_state snapshot w = (cs, v) \<Longrightarrow> taken v = taken w"
  by (auto simp: snapshot_def run_simps Let_def taken_def)

lemma accounts_tick: "(\<And>x. accounts (f x)) \<Longrightarrow> accounts (State_Monad.bind tick f)"
  by (rule accounts_quiet [OF tick_taken])

lemma accounts_snapshot: "(\<And>x. accounts (f x)) \<Longrightarrow> accounts (State_Monad.bind snapshot f)"
  by (rule accounts_quiet [OF snapshot_taken])

lemma accounts_cases:
  "(c \<Longrightarrow> accounts m) \<Longrightarrow> (\<not> c \<Longrightarrow> accounts m') \<Longrightarrow> accounts (if c then m else m')"
  "(\<And>e. accounts (f e)) \<Longrightarrow> (\<And>y. accounts (g y)) \<Longrightarrow> accounts (case x of Inl e \<Rightarrow> f e | Inr y \<Rightarrow> g y)"
  by (simp_all split: sum.splits)

lemma accounts_build:
  "(\<And>e. accounts (f e)) \<Longrightarrow> (\<And>y. accounts (g y)) \<Longrightarrow>
     accounts (case BuildProfile p cs of None \<Rightarrow> m | Some (Inl e) \<Rightarrow> f e | Some (Inr y) \<Rightarrow> g y)"
  by (simp add: BuildProfile_total split: option.splits sum.splits)

lemma accounts_loop:
  assumes n: "warm_providers cs < n" and fail: "\<And>rs. accounts (f (Some (Inl rs)))"
    and placed: "\<And>dec left. f (Some (Inr (dec, left))) =
      (if warmIn left (dProvider dec) then ret () else record_cold (dProvider dec)) \<bind> (\<lambda>u. ret (Some (g dec)))"
    and g: "\<And>dec. placement (g dec) = [dProvider dec]"
  shows "accounts (State_Monad.bind (schedule_loop n prof sreq cs) f)"
proof (rule accountsI)
  fix w a w'
  assume "run_state (schedule_loop n prof sreq cs \<bind> f) w = (a, w')"
  moreover obtain r v where run: "run_state (schedule_loop n prof sreq cs) w = (r, v)" by fastforce
  ultimately have f: "run_state (f r) v = (a, w')" by (simp add: run_bind)
  note taken = schedule_loop_taken [OF run]
  have "r \<noteq> None" using schedule_loop_ends [OF n, of prof sreq] run by (auto simp: yields_def valid_def dest!: spec [of _ w])
  then consider rs where "r = Some (Inl rs)" | dec lft where "r = Some (Inr (dec, lft))"
    by (metis not_Some_eq surj_pair sum.exhaust_sel)
  then show "\<exists>b. a = Some b \<and> taken w' = placement b @ taken w"
  proof cases
    case 1
    with accountsD [OF fail [of rs], of v a w'] f taken show ?thesis by simp
  next
    case 2
    with f taken show ?thesis
      by (auto simp: run_bind placed g run_return record_cold_def run_simps Let_def taken_def takes_def split: if_splits)
  qed
qed

text \<open>C27: every scheduling request is answered, and a placement takes exactly one unit of capacity from the registry: a warm
  reservation or a cold placement at the provider it names. Nothing is taken when the answer is not a placement, however
  often the loop lost a warm sandbox to somebody else.\<close>

theorem schedule_takes_one:
  "case run_state (handleSchedule s input) (w\<lparr>wLog := []\<rparr>) of
     (Some r, w') \<Rightarrow> taken w' = (case rpBody r of Placed p \<Rightarrow> [srProvider p] | _ \<Rightarrow> [])
   | (None, w') \<Rightarrow> False"
proof -
  have "accounts (handleSchedule s input)"
  proof (cases "svActive s")
    case False
    have "placement (writeStandby rnd) = []" for rnd
      by (simp add: writeStandby_def Let_def setRetryAfterHeader_def writeClaimError_def writeJSON_def placement_def)
    with False show ?thesis by (simp add: handleSchedule_def accounts_tick accounts_reply)
  next
    case active: True
    have failed: "placement (writeJSON st (Failed e)) = []" for st e by (simp add: writeJSON_def placement_def)
    show ?thesis
    proof (cases input)
      case (Inl err)
      with active show ?thesis by (simp add: handleSchedule_def accounts_reply failed)
    next
      case (Inr req)
      have loop: "accounts (schedule_loop (Suc (warm_providers cs)) prof sreq cs \<bind> (\<lambda>r. case r of None \<Rightarrow> ret None
          | Some (Inl results) \<Rightarrow> ret (Some (writeJSON 409 (Failed (e results))))
          | Some (Inr (dec, left)) \<Rightarrow> (if warmIn left (dProvider dec) then ret () else record_cold (dProvider dec)) \<bind>
              (\<lambda>u. ret (Some (writeJSON 200 (Placed (p dec)))))))"
        if "\<And>dec. srProvider (p dec) = dProvider dec" for cs prof sreq e p
        by (rule accounts_loop [where g = "\<lambda>dec. writeJSON 200 (Placed (p dec))"])
          (simp_all add: accounts_reply failed that, simp add: writeJSON_def placement_def that)
      show ?thesis unfolding handleSchedule_def Inr Let_def sum.case using active
        by (simp only: not_True_eq_False if_False) (intro accounts_snapshot accounts_cases accounts_build accounts_reply failed loop, simp_all)
    qed
  qed
  then show ?thesis by (auto simp: accounts_def placement_def taken_def split: prod.splits option.splits)
qed

section \<open>Authorization\<close>

text \<open>The token that a route needs (empty: none), and the handler behind it.\<close>

definition required_token :: "'sel service \<Rightarrow> route \<Rightarrow> string" where
  "required_token s r =
     (case r of RouteHealthz \<Rightarrow> [] | RouteSchedule _ \<Rightarrow> svToken s | RouteProviders \<Rightarrow> svToken s
      | _ \<Rightarrow> if svClaimToken s = [] then svToken s else svClaimToken s)"

definition route_handler :: "nat \<Rightarrow> (string \<Rightarrow> string) \<Rightarrow> string \<Rightarrow> 'sel service \<Rightarrow> route \<Rightarrow> reply option act" where
  "route_handler n sha ctx_err s r =
     (case r of
        RouteHealthz \<Rightarrow> ret (Some (writeJSON 200 Empty))
      | RouteSchedule input \<Rightarrow> handleSchedule s input
      | RouteProviders \<Rightarrow> handleProviders s
      | RouteClaim input \<Rightarrow> handleClaim n sha s input
      | RouteRelease p i \<Rightarrow> handleRelease s p i
      | RouteReleaseByKey k \<Rightarrow> handleReleaseByKey ctx_err s k)"

lemma authorizedWithToken_iff:
  assumes "tok \<noteq> []"
  shows "authorizedWithToken header tok \<longleftrightarrow> (\<exists>scheme. header = scheme @ tok \<and> map ascii_lower scheme = ''bearer '')"
proof -
  have lower: "map ascii_lower ''Bearer '' = ''bearer ''" by (simp add: ascii_lower_def) code_simp
  have len: "length ''Bearer '' = 7" by simp
  show ?thesis
  proof
    assume a: "authorizedWithToken header tok"
    then have tok: "drop 7 header = tok" and lo: "map ascii_lower (take 7 header) = ''bearer ''"
      unfolding authorizedWithToken_def Let_def lower len by (simp_all only: de_Morgan_disj not_not split: if_splits)
    have "header = take 7 header @ tok" unfolding tok [symmetric] by (rule append_take_drop_id [symmetric])
    then show "\<exists>scheme. header = scheme @ tok \<and> map ascii_lower scheme = ''bearer ''" using lo by (intro exI conjI)
  next
    assume "\<exists>scheme. header = scheme @ tok \<and> map ascii_lower scheme = ''bearer ''"
    then obtain scheme where s: "header = scheme @ tok" "map ascii_lower scheme = ''bearer ''" by (elim exE conjE)
    from arg_cong [OF s(2), of length] have "length scheme = 7" by simp
    with s assms show "authorizedWithToken header tok"
      unfolding authorizedWithToken_def Let_def lower len by simp
  qed
qed

text \<open>A route answers exactly when its token is empty or the header is that token after the scheme \<open>bearer\<close> and a
  space, in any case; otherwise the answer is 401 and the handler does not run. Claims and releases need the claim token,
  or the read token when no claim token is set.\<close>

theorem serve_requires_token:
  "run_state (serve n sha ctx_err s header r) w =
     (let tok = required_token s r in
      if tok = [] \<or> (\<exists>scheme. header = scheme @ tok \<and> map ascii_lower scheme = ''bearer '')
      then run_state (route_handler n sha ctx_err s r) w
      else (Some \<lparr>rpStatus = 401, rpRetryAfter = None, rpBody = Failed (error_of ''missing or invalid bearer token'' None [])\<rparr>, w))"
  using authorizedWithToken_iff [of "required_token s r" header]
  by (cases r) (auto simp: serve_def required_token_def route_handler_def requireReadAuth_def requireClaimAuth_def Let_def
      writeClaimError_def writeJSON_def run_return)

section \<open>Waiting\<close>

text \<open>The \<open>Retry-After\<close> header of a refused claim is the wait of the error rounded up to a second: never less than
  the wait, and less than a second more.\<close>

theorem retry_after_ceiling:
  assumes "0 < beRetryAfter berr" "beRetryAfter berr \<le> 2 ^ 63 - 1 - second"
  shows "case rpRetryAfter (writeBinderError berr) of
      Some secs \<Rightarrow> beRetryAfter berr \<le> secs * second \<and> secs * second < beRetryAfter berr + second
    | None \<Rightarrow> False"
proof -
  define d where "d = beRetryAfter berr"
  have sec: "second = 1000000000" by (simp add: second_def)
  have w: "wrap64 (d + second) = d + second" "wrap64 (d + second - 1) = d + second - 1"
    using assms unfolding d_def [symmetric] by (simp_all add: wrap64_def sec)
  have q: "go_div (wrap64 (wrap64 (d + second) - 1)) second = (d + second - 1) div second"
    using assms unfolding w d_def [symmetric] by (subst go_div_nonneg) (simp_all add: sec)
  have "1 \<le> (d + second - 1) div second" using assms unfolding d_def [symmetric] sec by linarith
  then have "retry_after_secs d = (d + second - 1) div second" unfolding retry_after_secs_def q by simp
  moreover have "d \<le> (d + second - 1) div second * second" "(d + second - 1) div second * second < d + second"
    unfolding sec by linarith+
  ultimately show ?thesis using assms by (simp add: writeBinderError_def Let_def setRetryAfterHeader_def d_def)
qed

theorem retry_after_ceiling_witness:
  "case rpRetryAfter (writeBinderError \<lparr>beStatus = 429, beReason = ReasonRateLimited, beMessage = [], beProviders = [],
      beRetryAfter = 1500000000, beExplanation = []\<rparr>) of
      Some secs \<Rightarrow> 1500000000 \<le> secs * second \<and> secs * second < 1500000000 + second
    | None \<Rightarrow> False"
  using retry_after_ceiling [of "\<lparr>beStatus = 429, beReason = ReasonRateLimited, beMessage = [], beProviders = [],
      beRetryAfter = 1500000000, beExplanation = []\<rparr>"] by (simp add: second_def split: option.splits)

section \<open>The standby\<close>

text \<open>A replica that is not the leader changes nothing: every route but the health check and the list of providers
  answers 401, 501 or 503, without a call to an adapter, and the state of the binder and of the registry is as the other
  goroutines left it.\<close>

theorem standby_serves_nothing:
  assumes "\<not> svActive s"
  shows "case run_state (serve n sha ctx_err s header r) w of
      (Some rep, w') \<Rightarrow> (r = RouteHealthz \<or> r = RouteProviders \<or> rpStatus rep \<in> {401, 501, 503}) \<and> wLog w' = wLog w \<and>
        (wB w' = wB w \<or> wB w' = evOthers (wEnv w (wTick w)) (wB w))
    | (None, w') \<Rightarrow> False"
proof -
  show ?thesis using assms
    by (cases r) (simp_all add: serve_def requireReadAuth_def requireClaimAuth_def Let_def handleSchedule_def handleClaim_def
        handleRelease_def handleReleaseByKey_def handleProviders_def run_simps writeStandby_def setRetryAfterHeader_def
        claims_disabled_def writeClaimError_def writeJSON_def)
qed

theorem standby_serves_nothing_witness:
  "rpStatus (the (fst (run_state (serve 0 (\<lambda>s. s) [] \<lparr>svPolicies = ([] :: unit policy list), svMatches = (\<lambda>_ _. Inr True),
      svEndpoints = None, svBinder = True, svClaimsEnabled = True, svToken = [], svClaimToken = [], svActive = False\<rparr>
      [] (RouteReleaseByKey ''k'')) ex_world))) \<in> {401, 501, 503}"
  using standby_serves_nothing [where s = "\<lparr>svPolicies = ([] :: unit policy list), svMatches = (\<lambda>_ _. Inr True),
      svEndpoints = None, svBinder = True, svClaimsEnabled = True, svToken = [], svClaimToken = [], svActive = False\<rparr>"
      and n = 0 and sha = "\<lambda>s. s" and ctx_err = "[]" and header = "[]" and r = "RouteReleaseByKey ''k''" and w = ex_world]
  by (auto split: prod.splits option.splits)

end
