(* ===== verification/Reaper.thy ===== *)
theory Reaper
  imports Provider "HOL-Library.State_Monad"
begin

text \<open>
  \<open>pkg/reaper/reaper.go\<close>: the targets of the reaper and its passes. A pass over one provider is a program in a
  state monad: every elementary operation takes one step of an environment, which first changes the state that the
  callback \<open>OnReleased\<close> works on as other goroutines please, and then answers. The log holds, newest first, the calls
  to the provider and what the pass records. Logging is left out.
\<close>

section \<open>Settings\<close>

definition DefaultInterval :: duration where "DefaultInterval = 30 * second"
definition DefaultPageSize :: int where "DefaultPageSize = 500"
definition DefaultMaxPages :: int where "DefaultMaxPages = 100"
definition DefaultMaxPerCycle :: int where "DefaultMaxPerCycle = 200"
definition DefaultRatePerSecond :: rat where "DefaultRatePerSecond = 10"
definition DefaultReapTimeout :: duration where "DefaultReapTimeout = 5 * second"

datatype outcome = OutcomeDeleted | OutcomeDryRun | OutcomeError | OutcomeCircuitBreaker

record reap_config =
  rcEnabled :: bool
  rcTimeout :: duration

text \<open>A provider as the reaper sees it: whether it has a binder and a lister.\<close>

record reap_provider =
  rpBinder :: bool
  rpLister :: bool

record reap_target =
  rtId :: string
  rtProv :: reap_provider
  rtCfg :: reap_config
  rtLimiter :: nat

text \<open>Rates are finite numbers. \<open>'s\<close> is the state behind the callback \<open>OnReleased\<close>.\<close>

record 's reap_options =
  roOwner :: string
  roInterval :: duration
  roPageSize :: int
  roMaxPages :: int
  roMaxPerCycle :: int
  roRatePerSecond :: rat
  roBurst :: int
  roDryRun :: bool
  roOnReleased :: "(string \<Rightarrow> string \<Rightarrow> 's \<Rightarrow> 's) option"
  roOnDryRun :: bool

text \<open>The limiters made so far, each with its rate and its burst: a target points to one of them.\<close>

record 's reaper =
  rOwner :: string
  rInterval :: duration
  rPageSize :: int
  rMaxPages :: int
  rMaxPerCycle :: int
  rRatePerSec :: rat
  rBurst :: int
  rDryRun :: bool
  rOnReleased :: "(string \<Rightarrow> string \<Rightarrow> 's \<Rightarrow> 's) option"
  rOnDryRun :: bool
  rTargets :: "(string, reap_target) gomap"
  rLimiters :: "(rat \<times> int) list"

definition New_reaper :: "(string \<Rightarrow> string) \<Rightarrow> 's reap_options \<Rightarrow> 's reaper" where
  "New_reaper sha opts =
     (let ratePerSec = (if roRatePerSecond opts \<le> 0 then DefaultRatePerSecond else roRatePerSecond opts) in
      \<lparr>rOwner = (if roOwner opts = [] then OwnerID sha ''sandbox-scheduler'' ''sandbox-scheduler'' ''default'' else roOwner opts),
       rInterval = (if roInterval opts \<le> 0 then DefaultInterval else roInterval opts),
       rPageSize = (if roPageSize opts \<le> 0 then DefaultPageSize else roPageSize opts),
       rMaxPages = (if roMaxPages opts \<le> 0 then DefaultMaxPages else roMaxPages opts),
       rMaxPerCycle = (if roMaxPerCycle opts \<le> 0 then DefaultMaxPerCycle else roMaxPerCycle opts),
       rRatePerSec = ratePerSec,
       rBurst = (if roBurst opts \<le> 0 then (if \<lceil>ratePerSec\<rceil> < 1 then 1 else \<lceil>ratePerSec\<rceil>) else roBurst opts),
       rDryRun = roDryRun opts, rOnReleased = roOnReleased opts, rOnDryRun = roOnDryRun opts,
       rTargets = [], rLimiters = []\<rparr>)"

section \<open>Targets\<close>

definition reap_RemoveTarget :: "string \<Rightarrow> 's reaper \<Rightarrow> 's reaper" where
  "reap_RemoveTarget providerID r =
     (case go_get (rTargets r) providerID of
        None \<Rightarrow> r
      | Some _ \<Rightarrow> r\<lparr>rTargets := filter (\<lambda>(k, v). k \<noteq> providerID) (rTargets r)\<rparr>)"

definition reap_SetTarget :: "string \<Rightarrow> reap_provider \<Rightarrow> reap_config \<Rightarrow> 's reaper \<Rightarrow> 's reaper" where
  "reap_SetTarget providerID prov cfg r =
     (if \<not> rcEnabled cfg \<or> \<not> rpBinder prov \<or> \<not> rpLister prov then reap_RemoveTarget providerID r
      else
        let cfg = (if rcTimeout cfg \<le> 0 then cfg\<lparr>rcTimeout := DefaultReapTimeout\<rparr> else cfg);
            (lim, limiters) = (case go_get (rTargets r) providerID of
               Some prev \<Rightarrow> (rtLimiter prev, rLimiters r)
             | None \<Rightarrow> (length (rLimiters r), rLimiters r @ [(rRatePerSec r, rBurst r)]))
        in r\<lparr>rTargets := go_put providerID \<lparr>rtId = providerID, rtProv = prov, rtCfg = cfg, rtLimiter = lim\<rparr> (rTargets r),
             rLimiters := limiters\<rparr>)"

section \<open>The world of a pass\<close>

record 's reap_step =
  rsOthers :: "'s \<Rightarrow> 's"
  rsCtxDone :: bool
  rsNow :: gotime
  rsList :: "(handle list \<times> string) + go_error"
  rsReserve :: "duration option"
  rsTimer :: bool
  rsRelease :: "go_error option"

text \<open>
  Events: a page of a listing with its owner, token, size and time limit and the clock after it, or its error; a
  release with its time limit and its answer; a call of \<open>OnReleased\<close>; a cancelled reservation; an outcome; a dry run.
\<close>

datatype reap_event =
    RvPage string string int duration "handle list" string gotime
  | RvListError string string int duration go_error
  | RvRelease handle duration "go_error option"
  | RvEvicted string string
  | RvCancelled nat
  | RvOutcome string outcome
  | RvDryRun string "handle list"

record 's reap_world =
  rwState :: 's
  rwEnv :: "nat \<Rightarrow> 's reap_step"
  rwTick :: nat
  rwLog :: "reap_event list"

type_synonym ('s, 'a) reap = "('s reap_world, 'a) state"

abbreviation rret :: "'a \<Rightarrow> ('s, 'a) reap" where "rret \<equiv> State_Monad.return"

definition rtick :: "('s, 's reap_step) reap" where
  "rtick = State (\<lambda>w. let e = rwEnv w (rwTick w) in (e, w\<lparr>rwState := rsOthers e (rwState w), rwTick := rwTick w + 1\<rparr>))"

definition remit :: "reap_event \<Rightarrow> ('s, unit) reap" where
  "remit ev = State (\<lambda>w. ((), w\<lparr>rwLog := ev # rwLog w\<rparr>))"

definition rmodify :: "('s \<Rightarrow> 's) \<Rightarrow> ('s, unit) reap" where
  "rmodify f = State (\<lambda>w. ((), w\<lparr>rwState := f (rwState w)\<rparr>))"

text \<open>\<open>rsTimer\<close> says which case of the \<open>select\<close> runs: the timer, or the end of the context.\<close>

definition waitToken :: "nat \<Rightarrow> ('s, bool) reap" where
  "waitToken ref = do {
     e \<leftarrow> rtick;
     (case rsReserve e of
        None \<Rightarrow> rret False
      | Some delay \<Rightarrow>
          (if delay \<le> 0 then do { e \<leftarrow> rtick; rret (\<not> rsCtxDone e) }
           else do {
             e \<leftarrow> rtick;
             if rsTimer e then rret True
             else do { u \<leftarrow> remit (RvCancelled ref); rret False } })) }"

section \<open>A pass over one provider\<close>

definition reapable :: "gotime \<Rightarrow> handle \<Rightarrow> bool" where
  "reapable now h = (\<not> (hExpiresAt h = zero_time \<or> \<not> now > hExpiresAt h))"

text \<open>The expired handles of a page, after those found before: the flag says that there are more than the limit.\<close>

fun take_expired :: "gotime \<Rightarrow> int \<Rightarrow> handle list \<Rightarrow> handle list \<Rightarrow> handle list \<times> bool" where
  "take_expired now limit [] expired = (expired, False)"
| "take_expired now limit (h # hs) expired =
     (if \<not> reapable now h then take_expired now limit hs expired
      else if int (length expired) \<ge> limit then (expired, True)
      else take_expired now limit hs (expired @ [h]))"

text \<open>The loop over the pages, with the pages left. \<open>None\<close> is the early return of the pass.\<close>

fun collect_expired :: "nat \<Rightarrow> 's reaper \<Rightarrow> reap_target \<Rightarrow> string \<Rightarrow> handle list \<Rightarrow> ('s, (handle list \<times> bool) option) reap" where
  "collect_expired 0 r t pageToken expired = rret (Some (expired, False))"
| "collect_expired (Suc n) r t pageToken expired = do {
     e \<leftarrow> rtick;
     if rsCtxDone e then rret None
     else do {
       e \<leftarrow> rtick;
       (case rsList e of
          Inr err \<Rightarrow> do {
            u \<leftarrow> remit (RvListError (rOwner r) pageToken (rPageSize r) (rcTimeout (rtCfg t)) err);
            u \<leftarrow> remit (RvOutcome (rtId t) OutcomeError);
            rret None }
        | Inl (handles, nextToken) \<Rightarrow> do {
            c \<leftarrow> rtick;
            u \<leftarrow> remit (RvPage (rOwner r) pageToken (rPageSize r) (rcTimeout (rtCfg t)) handles nextToken (rsNow c));
            (case take_expired (rsNow c) (rMaxPerCycle r) handles expired of
               (expired', hit) \<Rightarrow>
                 (if hit \<or> nextToken = [] \<or> nextToken = pageToken then rret (Some (expired', hit))
                  else collect_expired n r t nextToken expired')) }) } }"

definition release_handle :: "reap_target \<Rightarrow> handle \<Rightarrow> handle" where
  "release_handle t h = empty_handle\<lparr>hProvider := rtId t, hID := hID h, hVersion := hVersion h\<rparr>"

definition released :: "go_error option \<Rightarrow> bool" where
  "released relErr = (\<not> (relErr \<noteq> None \<and> \<not> is_not_found (the relErr)))"

text \<open>One expired handle after its token was granted.\<close>

definition release_one :: "'s reaper \<Rightarrow> reap_target \<Rightarrow> handle \<Rightarrow> ('s, unit) reap" where
  "release_one r t h = do {
     e \<leftarrow> rtick;
     u \<leftarrow> remit (RvRelease (release_handle t h) (rcTimeout (rtCfg t)) (rsRelease e));
     if \<not> released (rsRelease e) then remit (RvOutcome (rtId t) OutcomeError)
     else do {
       u \<leftarrow> (if rsRelease e = None then remit (RvOutcome (rtId t) OutcomeDeleted) else rret ());
       (case rOnReleased r of
          None \<Rightarrow> rret ()
        | Some f \<Rightarrow> do { e \<leftarrow> rtick; u \<leftarrow> rmodify (f (rtId t) (hID h)); remit (RvEvicted (rtId t) (hID h)) }) } }"

text \<open>The loop over the expired handles: its result are the handles of a dry run.\<close>

fun release_expired :: "'s reaper \<Rightarrow> reap_target \<Rightarrow> handle list \<Rightarrow> handle list \<Rightarrow> ('s, handle list) reap" where
  "release_expired r t [] dry = rret dry"
| "release_expired r t (h # hs) dry = do {
     e \<leftarrow> rtick;
     if rsCtxDone e then rret dry
     else do {
       ok \<leftarrow> waitToken (rtLimiter t);
       if \<not> ok then rret dry
       else if rDryRun r then do {
         u \<leftarrow> remit (RvOutcome (rtId t) OutcomeDryRun);
         release_expired r t hs (dry @ [h]) }
       else do {
         u \<leftarrow> release_one r t h;
         release_expired r t hs dry } } }"

definition reapProvider :: "'s reaper \<Rightarrow> reap_target \<Rightarrow> ('s, unit) reap" where
  "reapProvider r t =
     (if \<not> rcEnabled (rtCfg t) \<or> \<not> rpBinder (rtProv t) \<or> \<not> rpLister (rtProv t) then rret ()
      else do {
        c \<leftarrow> collect_expired (nat (rMaxPages r)) r t [] [];
        (case c of
           None \<Rightarrow> rret ()
         | Some (expired, hit) \<Rightarrow> do {
             dry \<leftarrow> release_expired r t expired [];
             e \<leftarrow> rtick;
             u \<leftarrow> (if hit \<and> \<not> rsCtxDone e then remit (RvOutcome (rtId t) OutcomeCircuitBreaker) else rret ());
             (if length dry > 0 \<and> rOnDryRun r then remit (RvDryRun (rtId t) dry) else rret ()) }) })"

section \<open>Cycles\<close>

text \<open>
  The passes of a cycle, in the order in which they are started. They run concurrently and share nothing, so that
  each has a world of its own, in which the others are among the other goroutines.
\<close>

definition reap_RunOnce :: "bool \<Rightarrow> 's reaper \<Rightarrow> (string \<times> ('s, unit) reap) list" where
  "reap_RunOnce ctx_done r =
     (if length (rTargets r) = 0 \<or> ctx_done then []
      else map (\<lambda>i. (i, case go_get (rTargets r) i of None \<Rightarrow> rret () | Some t \<Rightarrow> reapProvider r t))
             (sort_strings (map fst (rTargets r))))"

text \<open>\<open>Run\<close> over what its \<open>select\<close> receives: the end of the context, or a tick.\<close>

datatype reap_signal = CtxDone | Ticked bool

fun reap_Run :: "'s reaper \<Rightarrow> reap_signal list \<Rightarrow> (string \<times> ('s, unit) reap) list list" where
  "reap_Run r [] = []"
| "reap_Run r (CtxDone # sigs) = []"
| "reap_Run r (Ticked ctx_done # sigs) = reap_RunOnce ctx_done r # reap_Run r sigs"

end
