(* ===== verification/ReaperProps.thy ===== *)
theory ReaperProps
  imports Reaper
begin

text \<open>
  What the reaper guarantees: it releases exactly the first expired sandboxes of the pages it listed, it tells the
  binder about each that is gone, and a pass that is not interrupted reaches every page it may read. Programs are
  related to the events they add to the log, under an assumption on the steps of the environment.
\<close>

section \<open>What a log says\<close>

fun releases :: "reap_event list \<Rightarrow> handle list" where
  "releases [] = []"
| "releases (RvRelease h d res # evs) = h # releases evs"
| "releases (_ # evs) = releases evs"

text \<open>The sandboxes that a release found or made gone, and those that \<open>OnReleased\<close> was called for.\<close>

fun gone :: "reap_event list \<Rightarrow> (string \<times> string) list" where
  "gone [] = []"
| "gone (RvRelease h d res # evs) = (case res of None \<Rightarrow> [(hProvider h, hID h)]
     | Some err \<Rightarrow> if is_not_found err then [(hProvider h, hID h)] else []) @ gone evs"
| "gone (_ # evs) = gone evs"

fun evictions :: "reap_event list \<Rightarrow> (string \<times> string) list" where
  "evictions [] = []"
| "evictions (RvEvicted p i # evs) = (p, i) # evictions evs"
| "evictions (_ # evs) = evictions evs"

text \<open>The expired handles of the pages, each page judged by the clock after it.\<close>

fun listed_expired :: "reap_event list \<Rightarrow> handle list" where
  "listed_expired [] = []"
| "listed_expired (RvPage own tok sz d hs next now # evs) =
     filter (\<lambda>h. hExpiresAt h \<noteq> zero_time \<and> hExpiresAt h < now) hs @ listed_expired evs"
| "listed_expired (_ # evs) = listed_expired evs"

text \<open>The pages of a log follow each other from a token, were listed for an owner, and ended at the last page.\<close>

fun page_chain :: "string \<Rightarrow> string \<Rightarrow> reap_event list \<Rightarrow> (string \<times> string) list \<Rightarrow> bool" where
  "page_chain own tok [] pages = (pages = [])"
| "page_chain own tok (RvPage own' tok' sz d hs nxt now # evs) pages =
     (case pages of [] \<Rightarrow> False | p # ps \<Rightarrow> own' = own \<and> tok' = tok \<and> p = (tok, nxt) \<and> page_chain own nxt evs ps)"
| "page_chain own tok (_ # evs) pages = page_chain own tok evs pages"

lemma log_append [simp]:
  "releases (xs @ ys) = releases xs @ releases ys"
  "gone (xs @ ys) = gone xs @ gone ys"
  "evictions (xs @ ys) = evictions xs @ evictions ys"
  "listed_expired (xs @ ys) = listed_expired xs @ listed_expired ys"
  by (induction xs rule: releases.induct) simp_all

section \<open>Programs and their events\<close>

definition traces :: "('s reap_step \<Rightarrow> bool) \<Rightarrow> ('s, 'a) reap \<Rightarrow> ('a \<Rightarrow> reap_event list \<Rightarrow> bool) \<Rightarrow> bool" where
  "traces ok m Q \<longleftrightarrow> (\<forall>w. (\<forall>n. ok (rwEnv w n)) \<longrightarrow>
     (case run_state m w of (x, w') \<Rightarrow> rwEnv w' = rwEnv w \<and> (\<exists>new. rwLog w' = rev new @ rwLog w \<and> Q x new)))"

lemma reap_run_bind: "run_state (State_Monad.bind m f) w = (case run_state m w of (a, w') \<Rightarrow> run_state (f a) w')"
  by (cases m) (simp add: State_Monad.bind_def split: prod.splits)

lemma traces_return: "Q x [] \<Longrightarrow> traces ok (rret x) Q"
  by (simp add: traces_def State_Monad.return_def)

lemma tracesD: "traces ok m Q \<Longrightarrow> \<forall>n. ok (rwEnv w n) \<Longrightarrow> run_state m w = (x, v) \<Longrightarrow>
    rwEnv v = rwEnv w \<and> (\<exists>new. rwLog v = rev new @ rwLog w \<and> Q x new)"
  unfolding traces_def by (drule spec [of _ w]) simp

lemma traces_bind:
  assumes m: "traces ok m R" and f: "\<And>x new. R x new \<Longrightarrow> traces ok (f x) (\<lambda>y more. Q y (new @ more))"
  shows "traces ok (State_Monad.bind m f) Q"
  unfolding traces_def reap_run_bind
proof (intro allI impI)
  fix w :: "'a reap_world"
  assume ok: "\<forall>n. ok (rwEnv w n)"
  obtain x v where run: "run_state m w = (x, v)" by fastforce
  then obtain new where v: "rwEnv v = rwEnv w" "rwLog v = rev new @ rwLog w" "R x new"
    using tracesD [OF m ok] by blast
  obtain y u where run': "run_state (f x) v = (y, u)" by fastforce
  from ok v(1) have "\<forall>n. ok (rwEnv v n)" by simp
  from tracesD [OF f [OF v(3)] this run'] obtain more where "rwEnv u = rwEnv v" "rwLog u = rev more @ rwLog v" "Q y (new @ more)"
    by blast
  with run run' v show "case case run_state m w of (a, w') \<Rightarrow> run_state (f a) w' of
      (x, w') \<Rightarrow> rwEnv w' = rwEnv w \<and> (\<exists>new. rwLog w' = rev new @ rwLog w \<and> Q x new)"
    by (auto intro!: exI [of _ "new @ more"])
qed

lemma traces_tick: "(\<And>e. ok e \<Longrightarrow> traces ok (f e) Q) \<Longrightarrow> traces ok (State_Monad.bind rtick f) Q"
  by (rule traces_bind [where R = "\<lambda>e new. ok e \<and> new = []"]) (auto simp: traces_def rtick_def Let_def)

lemma traces_emit: "traces ok (f ()) (\<lambda>y more. Q y (ev # more)) \<Longrightarrow> traces ok (State_Monad.bind (remit ev) f) Q"
  by (rule traces_bind [where R = "\<lambda>_ new. new = [ev]"]) (auto simp: traces_def remit_def)

lemma traces_last_emit: "Q () [ev] \<Longrightarrow> traces ok (remit ev) Q"
  by (simp add: traces_def remit_def)

lemma traces_modify: "traces ok (f ()) Q \<Longrightarrow> traces ok (State_Monad.bind (rmodify g) f) Q"
  by (rule traces_bind [where R = "\<lambda>_ new. new = []"]) (auto simp: traces_def rmodify_def)

lemma traces_if: "(c \<Longrightarrow> traces ok m Q) \<Longrightarrow> (\<not> c \<Longrightarrow> traces ok m' Q) \<Longrightarrow> traces ok (if c then m else m') Q"
  by simp

lemma traces_mono: "traces ok m R \<Longrightarrow> (\<And>x new. R x new \<Longrightarrow> Q x new) \<Longrightarrow> traces ok m Q"
  unfolding traces_def by (fastforce split: prod.splits)

lemma traces_then: "traces ok m (\<lambda>_ new. R new) \<Longrightarrow> (\<And>new. R new \<Longrightarrow> traces ok k (\<lambda>y more. Q y (new @ more))) \<Longrightarrow>
    traces ok (State_Monad.bind m (\<lambda>u. k)) Q"
  by (rule traces_bind)

section \<open>The pass\<close>

text \<open>An environment that does not interrupt a pass.\<close>

definition calm_step :: "'s reap_step \<Rightarrow> bool" where
  "calm_step e \<longleftrightarrow> \<not> rsCtxDone e \<and> rsReserve e \<noteq> None \<and> rsTimer e \<and> (case rsList e of Inl _ \<Rightarrow> True | Inr _ \<Rightarrow> False)"

definition calmly :: "('s reap_step \<Rightarrow> bool) \<Rightarrow> bool" where
  "calmly ok \<longleftrightarrow> (\<forall>e. ok e \<longrightarrow> calm_step e)"

lemma calmD:
  "calmly ok \<Longrightarrow> ok e \<Longrightarrow> \<not> rsCtxDone e" "calmly ok \<Longrightarrow> ok e \<Longrightarrow> rsReserve e \<noteq> None"
  "calmly ok \<Longrightarrow> ok e \<Longrightarrow> rsTimer e" "calmly ok \<Longrightarrow> ok e \<Longrightarrow> rsList e \<noteq> Inr err"
  by (auto simp: calmly_def calm_step_def split: sum.splits)

lemma take_expired_exact:
  "int (length ex) \<le> limit \<Longrightarrow> take_expired now limit hs ex =
     (take (nat limit) (ex @ filter (reapable now) hs), limit < int (length (ex @ filter (reapable now) hs)))"
proof (induction hs arbitrary: ex)
  case (Cons h hs)
  show ?case
  proof (cases "reapable now h \<and> \<not> int (length ex) \<ge> limit")
    case True
    then show ?thesis using Cons.prems by (simp add: Cons.IH)
  next
    case False
    then show ?thesis using Cons by (auto simp: nat_le_iff)
  qed
qed simp

text \<open>What the loop over the pages found.\<close>

definition collected :: "('s reap_step \<Rightarrow> bool) \<Rightarrow> nat \<Rightarrow> 's reaper \<Rightarrow> string \<Rightarrow> handle list \<Rightarrow> (handle list \<times> bool) option
    \<Rightarrow> reap_event list \<Rightarrow> bool" where
  "collected ok n r tok ex res new \<longleftrightarrow> releases new = [] \<and> evictions new = [] \<and> gone new = [] \<and>
     (case res of
        None \<Rightarrow> \<not> calmly ok
      | Some (ex', hit) \<Rightarrow>
          (let found = ex @ listed_expired new; m = nat (rMaxPerCycle r) in
           ex' = take m found \<and> hit = (m < length found) \<and>
           (\<exists>pages. page_chain (rOwner r) tok new pages \<and> length pages \<le> n \<and>
              (hit \<or> length pages = n \<or> (pages \<noteq> [] \<and> snd (last pages) \<in> {[], fst (last pages)})))))"

lemma reapable_eq: "reapable now = (\<lambda>h. hExpiresAt h \<noteq> zero_time \<and> hExpiresAt h < now)"
  by (auto simp: reapable_def fun_eq_iff)

lemma traces_collect:
  "0 \<le> rMaxPerCycle r \<Longrightarrow> length ex \<le> nat (rMaxPerCycle r) \<Longrightarrow>
     traces ok (collect_expired n r t tok ex) (collected ok n r tok ex)"
proof (induction n arbitrary: tok ex)
  case 0
  then show ?case by (auto intro!: traces_return simp: collected_def)
next
  case (Suc n)
  have next_page: "collected ok (Suc n) r tok ex res (RvPage (rOwner r) tok sz d hs nxt now # more)"
    if "collected ok n r nxt (ex @ filter (reapable now) hs) res more" for sz d hs nxt now res more
    using that unfolding collected_def
    by (auto simp: Let_def reapable_eq split: option.splits intro!: exI [of _ "(tok, nxt) # pages" for pages])
  have turn: "traces ok (case take_expired now (rMaxPerCycle r) handles ex of (expired', hit) \<Rightarrow>
        if hit \<or> nxt = [] \<or> nxt = tok then rret (Some (expired', hit)) else collect_expired n r t nxt expired')
      (\<lambda>res more. collected ok (Suc n) r tok ex res (RvPage (rOwner r) tok sz d handles nxt now # more))" for now handles nxt sz d
  proof -
    let ?found = "ex @ filter (reapable now) handles"
    have limit: "int (length ex) \<le> rMaxPerCycle r" using Suc.prems by simp
    have hit: "(rMaxPerCycle r < int (length ?found)) = (nat (rMaxPerCycle r) < length ?found)" using Suc.prems(1) by linarith
    show ?thesis unfolding take_expired_exact [OF limit] prod.case hit
    proof (rule traces_if)
      assume "nat (rMaxPerCycle r) < length ?found \<or> nxt = [] \<or> nxt = tok"
      then show "traces ok (rret (Some (take (nat (rMaxPerCycle r)) ?found, nat (rMaxPerCycle r) < length ?found)))
          (\<lambda>res more. collected ok (Suc n) r tok ex res (RvPage (rOwner r) tok sz d handles nxt now # more))"
        by (auto intro!: traces_return exI [of _ "[(tok, nxt)]"] simp: collected_def Let_def reapable_eq)
    next
      assume more: "\<not> (nat (rMaxPerCycle r) < length ?found \<or> nxt = [] \<or> nxt = tok)"
      then have "length ?found \<le> nat (rMaxPerCycle r)" by simp
      with more show "traces ok (collect_expired n r t nxt (take (nat (rMaxPerCycle r)) ?found))
          (\<lambda>res more. collected ok (Suc n) r tok ex res (RvPage (rOwner r) tok sz d handles nxt now # more))"
        using Suc.IH [OF Suc.prems(1), of ?found nxt] by (auto elim!: traces_mono intro: next_page)
    qed
  qed
  show ?case unfolding collect_expired.simps
  proof (intro traces_tick traces_if)
    fix e assume "ok e" "rsCtxDone e"
    then show "traces ok (rret None) (collected ok (Suc n) r tok ex)"
      by (auto intro!: traces_return dest: calmD simp: collected_def)
  next
    fix e assume "ok e"
    then show "traces ok (case rsList e of Inl (handles, nextToken) \<Rightarrow> rtick \<bind> (\<lambda>c.
          remit (RvPage (rOwner r) tok (rPageSize r) (rcTimeout (rtCfg t)) handles nextToken (rsNow c)) \<bind> (\<lambda>u.
          (case take_expired (rsNow c) (rMaxPerCycle r) handles ex of
            (expired', hit) \<Rightarrow> if hit \<or> nextToken = [] \<or> nextToken = tok then rret (Some (expired', hit))
              else collect_expired n r t nextToken expired')))
      | Inr err \<Rightarrow> remit (RvListError (rOwner r) tok (rPageSize r) (rcTimeout (rtCfg t)) err) \<bind> (\<lambda>u.
          remit (RvOutcome (rtId t) OutcomeError) \<bind> (\<lambda>u. rret None)))
      (collected ok (Suc n) r tok ex)"
      by (auto split: sum.split intro!: traces_tick traces_emit turn traces_return dest: calmD
          simp: collected_def)
  qed
qed

text \<open>What the loop over the expired handles did.\<close>

definition announced :: "'s reaper \<Rightarrow> reap_event list \<Rightarrow> bool" where
  "announced r new \<longleftrightarrow> evictions new = (case rOnReleased r of None \<Rightarrow> [] | Some _ \<Rightarrow> gone new)"

definition worked :: "('s reap_step \<Rightarrow> bool) \<Rightarrow> 's reaper \<Rightarrow> reap_target \<Rightarrow> handle list \<Rightarrow> handle list \<Rightarrow> handle list
    \<Rightarrow> reap_event list \<Rightarrow> bool" where
  "worked ok r t hs dry res new \<longleftrightarrow> listed_expired new = [] \<and> (\<forall>own tok. page_chain own tok new []) \<and> announced r new \<and>
     (\<exists>k. (calmly ok \<longrightarrow> k = length hs) \<and>
        (if rDryRun r then releases new = [] \<and> res = dry @ take k hs
         else releases new = map (release_handle t) (take k hs) \<and> res = dry))"

lemma page_chain_append: "page_chain own tok xs pages \<Longrightarrow> (\<forall>own tok. page_chain own tok ys []) \<Longrightarrow>
    page_chain own tok (xs @ ys) pages"
  by (induction own tok xs pages rule: page_chain.induct) (auto split: list.splits)

lemma traces_waitToken: "traces ok (waitToken ref) (\<lambda>granted new. (calmly ok \<longrightarrow> granted) \<and> new \<in> {[], [RvCancelled ref]})"
  unfolding waitToken_def
  by (auto split: option.splits intro!: traces_tick traces_return traces_emit) (use calmD in blast)+

lemma traces_release_one:
  "traces ok (release_one r t h) (\<lambda>_ new. releases new = [release_handle t h] \<and> listed_expired new = [] \<and>
     (\<forall>own tok. page_chain own tok new []) \<and> announced r new)"
proof -
  have ids: "hProvider (release_handle t h) = rtId t" "hID (release_handle t h) = hID h"
    by (simp_all add: release_handle_def)
  show ?thesis unfolding release_one_def
    by (auto intro!: traces_tick traces_emit traces_if traces_modify traces_last_emit traces_return
        simp: announced_def released_def ids split: option.splits)
qed

lemma worked_step:
  assumes "worked ok r t hs dry res evs" "\<not> rDryRun r" "releases new = [release_handle t h]" "listed_expired new = []"
    "\<forall>own tok. page_chain own tok new []" "announced r new"
  shows "worked ok r t (h # hs) dry res (new @ evs)"
proof -
  from assms(1,2) obtain k where "calmly ok \<longrightarrow> k = length hs" "releases evs = map (release_handle t) (take k hs)" "res = dry"
    by (auto simp: worked_def)
  with assms show ?thesis
    by (auto simp: worked_def announced_def page_chain_append split: option.splits intro!: exI [of _ "Suc k"])
qed

lemma worked_cancelled: "worked ok r t hs dry res evs \<Longrightarrow> worked ok r t hs dry res (RvCancelled ref # evs)"
  unfolding worked_def announced_def releases.simps listed_expired.simps gone.simps evictions.simps page_chain.simps .

lemma traces_release_expired: "traces ok (release_expired r t hs dry) (worked ok r t hs dry)"
proof (induction hs arbitrary: dry)
  case Nil
  show ?case by (auto intro!: traces_return simp: worked_def announced_def split: option.splits)
next
  case (Cons h hs)
  have stop: "worked ok r t (h # hs) dry dry new" if "\<not> calmly ok" "new \<in> {[], [RvCancelled (rtLimiter t)]}" for new
    using that by (auto simp: worked_def announced_def split: option.splits intro!: exI [of _ 0])
  have dried: "worked ok r t (h # hs) dry res (RvOutcome (rtId t) OutcomeDryRun # evs)"
    if "rDryRun r" "worked ok r t hs (dry @ [h]) res evs" for res evs
  proof -
    from that obtain k where "calmly ok \<longrightarrow> k = length hs" "releases evs = []" "res = (dry @ [h]) @ take k hs"
      by (auto simp: worked_def)
    with that show ?thesis by (auto simp: worked_def announced_def split: option.splits intro!: exI [of _ "Suc k"])
  qed
  show ?case unfolding release_expired.simps
  proof (intro traces_tick traces_if)
    fix e assume "ok e" "rsCtxDone e"
    then show "traces ok (rret dry) (worked ok r t (h # hs) dry)"
      by (auto intro!: traces_return stop dest: calmD)
  next
    show "traces ok (waitToken (rtLimiter t) \<bind> (\<lambda>granted. if \<not> granted then rret dry
        else if rDryRun r then remit (RvOutcome (rtId t) OutcomeDryRun) \<bind> (\<lambda>u. release_expired r t hs (dry @ [h]))
        else release_one r t h \<bind> (\<lambda>u. release_expired r t hs dry))) (worked ok r t (h # hs) dry)"
    proof (rule traces_bind [OF traces_waitToken], intro traces_if)
      fix granted new
      assume w: "(calmly ok \<longrightarrow> granted) \<and> new \<in> {[], [RvCancelled (rtLimiter t)]}"
      { assume "\<not> granted"
        with w show "traces ok (rret dry) (\<lambda>y evs. worked ok r t (h # hs) dry y (new @ evs))"
          by (auto intro!: traces_return stop) }
      have cancel: "worked ok r t xs d res evs \<Longrightarrow> worked ok r t xs d res (new @ evs)" for xs d res evs
        using w worked_cancelled by auto
      { assume "rDryRun r"
        then show "traces ok (remit (RvOutcome (rtId t) OutcomeDryRun) \<bind> (\<lambda>u. release_expired r t hs (dry @ [h])))
            (\<lambda>y evs. worked ok r t (h # hs) dry y (new @ evs))"
          by (intro traces_emit traces_mono [OF Cons.IH] cancel dried) }
      assume "\<not> rDryRun r"
      then show "traces ok (release_one r t h \<bind> (\<lambda>u. release_expired r t hs dry))
          (\<lambda>y evs. worked ok r t (h # hs) dry y (new @ evs))"
        by (intro traces_bind [OF traces_release_one] traces_mono [OF Cons.IH] cancel worked_step) auto
    qed
  qed
qed

definition reaped :: "('s reap_step \<Rightarrow> bool) \<Rightarrow> 's reaper \<Rightarrow> reap_target \<Rightarrow> reap_event list \<Rightarrow> bool" where
  "reaped ok r t new \<longleftrightarrow> announced r new \<and>
     (let due = take (nat (rMaxPerCycle r)) (listed_expired new) in
      \<exists>k. releases new = (if rDryRun r then [] else map (release_handle t) (take k due)) \<and>
        (calmly ok \<longrightarrow> rcEnabled (rtCfg t) \<and> rpBinder (rtProv t) \<and> rpLister (rtProv t) \<longrightarrow> k = length due \<and>
          (\<exists>pages. page_chain (rOwner r) [] new pages \<and> length pages \<le> nat (rMaxPages r) \<and>
            (nat (rMaxPerCycle r) < length (listed_expired new) \<or> length pages = nat (rMaxPages r) \<or>
             (pages \<noteq> [] \<and> snd (last pages) \<in> {[], fst (last pages)})))))"

definition silent_events :: "reap_event list \<Rightarrow> bool" where
  "silent_events new \<longleftrightarrow> releases new = [] \<and> gone new = [] \<and> evictions new = [] \<and> listed_expired new = [] \<and>
     (\<forall>own tok. page_chain own tok new [])"

lemma announced_append:
  "announced r xs \<Longrightarrow> announced r ys \<Longrightarrow> announced r (xs @ ys)"
  by (simp add: announced_def split: option.splits)

lemma traces_report:
  "traces ok (do { e \<leftarrow> rtick;
     u \<leftarrow> (if hit \<and> \<not> rsCtxDone e then remit (RvOutcome i OutcomeCircuitBreaker) else rret ());
     (if length dry > 0 \<and> rOnDryRun r then remit (RvDryRun i dry) else rret ()) }) (\<lambda>_. silent_events)"
  by (intro traces_tick traces_bind [where R = "\<lambda>_. silent_events"] traces_if traces_last_emit traces_return)
    (auto simp: silent_events_def page_chain_append)

lemma reapedI:
  assumes c: "collected ok (nat (rMaxPages r)) r [] [] (Some (due, hit)) xs" and w: "worked ok r t due [] dry ys"
    and s: "silent_events zs"
  shows "reaped ok r t (xs @ ys @ zs)"
proof -
  let ?found = "listed_expired xs" and ?m = "nat (rMaxPerCycle r)"
  from c have xs: "releases xs = []" "evictions xs = []" "gone xs = []" and due: "due = take ?m ?found"
    and hit: "hit = (?m < length ?found)"
    and pages: "\<exists>pages. page_chain (rOwner r) [] xs pages \<and> length pages \<le> nat (rMaxPages r) \<and>
       (hit \<or> length pages = nat (rMaxPages r) \<or> (pages \<noteq> [] \<and> snd (last pages) \<in> {[], fst (last pages)}))"
    unfolding collected_def Let_def option.case prod.case append_Nil by blast+
  from w have ys: "listed_expired ys = []" "\<forall>own tok. page_chain own tok ys []" "announced r ys"
    by (simp_all add: worked_def)
  from w obtain k where "(calmly ok \<longrightarrow> k = length due) \<and> (if rDryRun r then releases ys = [] \<and> dry = [] @ take k due
      else releases ys = map (release_handle t) (take k due) \<and> dry = [])"
    unfolding worked_def by blast
  then have k: "calmly ok \<longrightarrow> k = length due" "releases ys = (if rDryRun r then [] else map (release_handle t) (take k due))"
    by (cases "rDryRun r"; simp)+
  have ann: "announced r (xs @ ys @ zs)"
    using xs s ys(3) by (intro announced_append) (simp_all add: announced_def silent_events_def split: option.splits)
  have "page_chain own tok (ys @ zs) []" for own tok
    using ys(2) s by (simp add: silent_events_def page_chain_append)
  then have tail: "\<forall>own tok. page_chain own tok (ys @ zs) []" by blast
  from pages obtain pages where pages: "page_chain (rOwner r) [] xs pages" "length pages \<le> nat (rMaxPages r)"
      "hit \<or> length pages = nat (rMaxPages r) \<or> (pages \<noteq> [] \<and> snd (last pages) \<in> {[], fst (last pages)})" by blast
  from pages(2,3) page_chain_append [OF pages(1) tail]
    ann xs ys k s due hit show ?thesis
    unfolding reaped_def Let_def by (intro conjI exI [of _ k]) (auto simp: silent_events_def)
qed

lemma reaped_nothing:
  assumes "announced r new" "releases new = []" "\<not> calmly ok"
  shows "reaped ok r t new"
  using assms unfolding reaped_def by (auto simp: Let_def intro: exI [of _ 0])

lemma traces_reapProvider:
  assumes "0 \<le> rMaxPerCycle r"
  shows "traces ok (reapProvider r t) (\<lambda>_. reaped ok r t)"
proof -
  show ?thesis unfolding reapProvider_def
  proof (rule traces_if)
    assume "\<not> rcEnabled (rtCfg t) \<or> \<not> rpBinder (rtProv t) \<or> \<not> rpLister (rtProv t)"
    then show "traces ok (rret ()) (\<lambda>_. reaped ok r t)"
      by (intro traces_return) (auto simp: reaped_def announced_def split: option.splits)
  next
    show "traces ok (collect_expired (nat (rMaxPages r)) r t [] [] \<bind> (\<lambda>c. case c of None \<Rightarrow> rret ()
        | Some (expired, hit) \<Rightarrow> release_expired r t expired [] \<bind> (\<lambda>dry. rtick \<bind> (\<lambda>e.
            (if hit \<and> \<not> rsCtxDone e then remit (RvOutcome (rtId t) OutcomeCircuitBreaker) else rret ()) \<bind> (\<lambda>u.
            if length dry > 0 \<and> rOnDryRun r then remit (RvDryRun (rtId t) dry) else rret ()))))) (\<lambda>_. reaped ok r t)"
    proof (rule traces_bind [OF traces_collect])
      fix c xs
      assume c: "collected ok (nat (rMaxPages r)) r [] [] c xs"
      show "traces ok (case c of None \<Rightarrow> rret ()
          | Some (expired, hit) \<Rightarrow> release_expired r t expired [] \<bind> (\<lambda>dry. rtick \<bind> (\<lambda>e.
              (if hit \<and> \<not> rsCtxDone e then remit (RvOutcome (rtId t) OutcomeCircuitBreaker) else rret ()) \<bind> (\<lambda>u.
              if length dry > 0 \<and> rOnDryRun r then remit (RvDryRun (rtId t) dry) else rret ()))))
          (\<lambda>y more. reaped ok r t (xs @ more))"
      proof (cases c)
        case None
        with c show ?thesis
          by (auto intro!: traces_return reaped_nothing simp: collected_def announced_def split: option.splits)
      next
        case (Some res)
        obtain due hit where res: "res = (due, hit)" by fastforce
        show ?thesis unfolding Some res option.case prod.case
          by (rule traces_bind [OF traces_release_expired], rule traces_mono [OF traces_report])
            (use c Some res reapedI in blast)
      qed
    qed (use assms in simp_all)
  qed
qed

section \<open>What the reaper does\<close>

text \<open>C28: a pass releases nothing but the first expired sandboxes, at most as many as the limit allows, of the pages it
  listed, in their order and each with the identifier and the version of the listing; a dry run releases nothing. The
  callback is called for exactly the sandboxes that a release deleted or did not find.\<close>

theorem reap_releases_expired:
  assumes "0 \<le> rMaxPerCycle r"
  shows "case run_state (reapProvider r t) (w\<lparr>rwLog := []\<rparr>) of (u, w') \<Rightarrow>
    (let evs = rev (rwLog w') in
     (\<exists>k. releases evs = (if rDryRun r then [] else
        map (release_handle t) (take k (take (nat (rMaxPerCycle r)) (listed_expired evs))))) \<and>
     evictions evs = (case rOnReleased r of None \<Rightarrow> [] | Some _ \<Rightarrow> gone evs))"
proof -
  obtain u w' where run: "run_state (reapProvider r t) (w\<lparr>rwLog := []\<rparr>) = (u, w')" by (metis surj_pair)
  from tracesD [OF traces_reapProvider [OF assms, of "\<lambda>_. True"] _ this] obtain new
    where "rwLog w' = rev new" "reaped (\<lambda>_. True) r t new" by auto
  then show ?thesis unfolding run prod.case reaped_def announced_def Let_def by (simp only: rev_rev_ident) blast
qed

text \<open>C29: when the context stays open, the limiter grants tokens and no listing fails, a pass over an enabled target
  releases all of the first expired sandboxes up to the limit. It follows the page tokens from the first page until a page
  has no successor or names itself, or the bound on pages or on expired sandboxes is reached.\<close>

theorem reap_pass_complete:
  assumes "0 \<le> rMaxPerCycle r" and "\<And>n. calm_step (rwEnv w n)" and "\<not> rDryRun r"
    and "rcEnabled (rtCfg t)" "rpBinder (rtProv t)" "rpLister (rtProv t)"
  shows "case run_state (reapProvider r t) (w\<lparr>rwLog := []\<rparr>) of (u, w') \<Rightarrow>
    (let evs = rev (rwLog w') in
     releases evs = map (release_handle t) (take (nat (rMaxPerCycle r)) (listed_expired evs)) \<and>
     (\<exists>pages. page_chain (rOwner r) [] evs pages \<and> length pages \<le> nat (rMaxPages r) \<and>
        (nat (rMaxPerCycle r) < length (listed_expired evs) \<or> length pages = nat (rMaxPages r) \<or>
         (pages \<noteq> [] \<and> snd (last pages) \<in> {[], fst (last pages)}))))"
proof -
  obtain u w' where run: "run_state (reapProvider r t) (w\<lparr>rwLog := []\<rparr>) = (u, w')" by (metis surj_pair)
  from tracesD [OF traces_reapProvider [OF assms(1), of calm_step] _ this] assms(2) obtain new
    where "rwLog w' = rev new" "reaped calm_step r t new" by auto
  then show ?thesis using assms(3-6) by (auto simp: run reaped_def calmly_def Let_def)
qed

section \<open>Examples\<close>

definition ex_reaper :: "unit reaper" where
  "ex_reaper = (New_reaper (\<lambda>s. s) \<lparr>roOwner = ''o'', roInterval = 0, roPageSize = 0, roMaxPages = 2, roMaxPerCycle = 1,
     roRatePerSecond = 0, roBurst = 0, roDryRun = False, roOnReleased = Some (\<lambda>p i s. s), roOnDryRun = False\<rparr>)"

definition ex_reap_target :: reap_target where
  "ex_reap_target = \<lparr>rtId = ''p'', rtProv = \<lparr>rpBinder = True, rpLister = True\<rparr>,
     rtCfg = \<lparr>rcEnabled = True, rcTimeout = second\<rparr>, rtLimiter = 0\<rparr>"

definition ex_reap_world :: "unit reap_world" where
  "ex_reap_world = \<lparr>rwState = (), rwEnv = (\<lambda>n. \<lparr>rsOthers = (\<lambda>s. s), rsCtxDone = False, rsNow = 10,
     rsList = Inl ([empty_handle\<lparr>hID := ''a'', hExpiresAt := 5\<rparr>, empty_handle\<lparr>hID := ''b'', hExpiresAt := 5\<rparr>], []),
     rsReserve = Some 0, rsTimer = True, rsRelease = None\<rparr>), rwTick = 0, rwLog = []\<rparr>"

lemma ex_reaper_sel [simp]: "rMaxPerCycle ex_reaper = 1" "rDryRun ex_reaper = False"
  by (simp_all add: ex_reaper_def New_reaper_def Let_def)

lemma ex_reap_target_sel [simp]: "rcEnabled (rtCfg ex_reap_target)" "rpBinder (rtProv ex_reap_target)" "rpLister (rtProv ex_reap_target)"
  by (simp_all add: ex_reap_target_def)

lemma ex_reap_calm: "calm_step (rwEnv ex_reap_world n)"
  by (simp add: ex_reap_world_def calm_step_def)

theorem reap_releases_expired_witness:
  "case run_state (reapProvider ex_reaper ex_reap_target) (ex_reap_world\<lparr>rwLog := []\<rparr>) of (u, w') \<Rightarrow>
    (let evs = rev (rwLog w') in
     (\<exists>k. releases evs = map (release_handle ex_reap_target) (take k (take 1 (listed_expired evs)))))"
  using reap_releases_expired [of ex_reaper ex_reap_target ex_reap_world] by (auto simp: Let_def split: prod.splits)

theorem reap_pass_complete_witness:
  "case run_state (reapProvider ex_reaper ex_reap_target) (ex_reap_world\<lparr>rwLog := []\<rparr>) of (u, w') \<Rightarrow>
    (let evs = rev (rwLog w') in releases evs = map (release_handle ex_reap_target) (take 1 (listed_expired evs)))"
  using reap_pass_complete [of ex_reaper ex_reap_world ex_reap_target] ex_reap_calm by (auto simp: Let_def split: prod.splits)

section \<open>The targets\<close>

datatype reap_op = OpSetTarget string reap_provider reap_config | OpRemoveTarget string

fun exec_reap :: "reap_op \<Rightarrow> 's reaper \<Rightarrow> 's reaper" where
  "exec_reap (OpSetTarget i prov cfg) r = reap_SetTarget i prov cfg r"
| "exec_reap (OpRemoveTarget i) r = reap_RemoveTarget i r"

definition sound_target :: "'s reaper \<Rightarrow> string \<times> reap_target \<Rightarrow> bool" where
  "sound_target r e = (case e of (i, t) \<Rightarrow> rtId t = i \<and> rcEnabled (rtCfg t) \<and> rpBinder (rtProv t) \<and> rpLister (rtProv t) \<and>
     0 < rcTimeout (rtCfg t) \<and> rtLimiter t < length (rLimiters r))"

definition reap_inv :: "'s reaper \<Rightarrow> bool" where
  "reap_inv r \<longleftrightarrow> list_all (sound_target r) (rTargets r) \<and> wf_map (rTargets r) \<and> distinct (map (\<lambda>e. rtLimiter (snd e)) (rTargets r))"

lemma distinct_limiter_put:
  "wf_map ts \<Longrightarrow> distinct (map (\<lambda>e. rtLimiter (snd e)) ts) \<Longrightarrow>
     (case go_get ts i of Some old \<Rightarrow> rtLimiter t = rtLimiter old | None \<Rightarrow> rtLimiter t \<notin> (\<lambda>e. rtLimiter (snd e)) ` set ts) \<Longrightarrow>
     distinct (map (\<lambda>e. rtLimiter (snd e)) (go_put i t ts)) \<and>
     (\<lambda>e. rtLimiter (snd e)) ` set (go_put i t ts) = insert (rtLimiter t) ((\<lambda>e. rtLimiter (snd e)) ` set ts)"
proof (induction ts)
  case (Cons e ts)
  obtain j u where e: "e = (j, u)" by fastforce
  show ?case
  proof (cases "j = i")
    case True
    with Cons.prems e show ?thesis by auto
  next
    case False
    with Cons e have "distinct (map (\<lambda>e. rtLimiter (snd e)) (go_put i t ts)) \<and>
        (\<lambda>e. rtLimiter (snd e)) ` set (go_put i t ts) = insert (rtLimiter t) ((\<lambda>e. rtLimiter (snd e)) ` set ts)"
      by (auto simp: wf_map_def split: option.splits)
    moreover have "rtLimiter t \<noteq> rtLimiter u"
      using Cons.prems False e by (auto simp: image_iff split: option.splits dest!: map_of_SomeD)
    ultimately show ?thesis using Cons.prems False e by auto
  qed
qed simp

lemma reap_inv_Remove: "reap_inv r \<Longrightarrow> reap_inv (reap_RemoveTarget i r)"
  by (auto simp: reap_inv_def reap_RemoveTarget_def sound_target_def list_all_iff wf_map_def distinct_map inj_on_def
      split: option.splits)

lemma reap_inv_Set: "reap_inv r \<Longrightarrow> reap_inv (reap_SetTarget i prov cfg r)"
proof -
  assume inv: "reap_inv r"
  have lim: "e \<in> set (rTargets r) \<Longrightarrow> rtLimiter (snd e) < length (rLimiters r)" for e
    using inv by (auto simp: reap_inv_def sound_target_def list_all_iff)
  have put: "list_all P xs \<Longrightarrow> P (i, t) \<Longrightarrow> list_all P (go_put i t xs)" for P :: "string \<times> reap_target \<Rightarrow> bool" and t xs
    by (induction xs) auto
  show ?thesis
  proof (cases "\<not> rcEnabled cfg \<or> \<not> rpBinder prov \<or> \<not> rpLister prov")
    case True
    with inv show ?thesis by (simp add: reap_SetTarget_def reap_inv_Remove)
  next
    case False
    define c where "c = (if rcTimeout cfg \<le> 0 then cfg\<lparr>rcTimeout := DefaultReapTimeout\<rparr> else cfg)"
    have c: "rcEnabled c" "0 < rcTimeout c" using False by (auto simp: c_def DefaultReapTimeout_def second_def)
    show ?thesis
    proof (cases "go_get (rTargets r) i")
      case None
      let ?t = "\<lparr>rtId = i, rtProv = prov, rtCfg = c, rtLimiter = length (rLimiters r)\<rparr>"
      have "distinct (map (\<lambda>e. rtLimiter (snd e)) (go_put i ?t (rTargets r)))"
        using distinct_limiter_put [where ts = "rTargets r" and i = i and t = ?t] inv None lim by (fastforce simp: reap_inv_def)
      moreover have "list_all (\<lambda>e. case e of (i, t) \<Rightarrow> rtId t = i \<and> rcEnabled (rtCfg t) \<and> rpBinder (rtProv t) \<and>
          rpLister (rtProv t) \<and> 0 < rcTimeout (rtCfg t) \<and> rtLimiter t < Suc (length (rLimiters r))) (go_put i ?t (rTargets r))"
        using inv c False by (intro put) (auto simp: reap_inv_def sound_target_def list_all_iff)
      ultimately show ?thesis using inv None False
        by (simp add: reap_SetTarget_def reap_inv_def wf_map_put sound_target_def [abs_def] c_def [symmetric])
    next
      case (Some old)
      let ?t = "\<lparr>rtId = i, rtProv = prov, rtCfg = c, rtLimiter = rtLimiter old\<rparr>"
      have "rtLimiter old < length (rLimiters r)" using lim [OF map_of_SomeD [OF Some]] by simp
      moreover have "distinct (map (\<lambda>e. rtLimiter (snd e)) (go_put i ?t (rTargets r)))"
        using distinct_limiter_put [where ts = "rTargets r" and i = i and t = ?t] inv Some by (simp add: reap_inv_def)
      moreover have "list_all (\<lambda>e. case e of (i, t) \<Rightarrow> rtId t = i \<and> rcEnabled (rtCfg t) \<and> rpBinder (rtProv t) \<and>
          rpLister (rtProv t) \<and> 0 < rcTimeout (rtCfg t) \<and> rtLimiter t < length (rLimiters r)) (go_put i ?t (rTargets r))"
        using inv c False calculation(1) by (intro put) (auto simp: reap_inv_def sound_target_def list_all_iff)
      ultimately show ?thesis using inv Some False
        by (simp add: reap_SetTarget_def reap_inv_def wf_map_put sound_target_def [abs_def] c_def [symmetric])
    qed
  qed
qed

text \<open>Whatever the order in which targets are set and removed, every target of the reaper is enabled, has a binder
  and a lister and a positive time limit and is kept under its own name, and no two targets share a rate limiter.\<close>

theorem reap_targets_sound:
  "let r = fold exec_reap ops (New_reaper sha opts) in
   list_all (sound_target r) (rTargets r) \<and> wf_map (rTargets r) \<and> distinct (map (\<lambda>e. rtLimiter (snd e)) (rTargets r))"
proof -
  have "reap_inv (exec_reap x r)" if "reap_inv r" for x and r :: "'a reaper"
    using that by (cases x) (simp_all add: reap_inv_Set reap_inv_Remove)
  then have "reap_inv (fold exec_reap ops r)" if "reap_inv r" for r :: "'a reaper"
    using that by (induction ops arbitrary: r) simp_all
  moreover have "reap_inv (New_reaper sha opts :: 'a reaper)"
    by (simp add: reap_inv_def New_reaper_def Let_def wf_map_Nil)
  ultimately show ?thesis by (simp add: reap_inv_def Let_def)
qed

end
