(* ===== verification/HttpClient.thy ===== *)
theory HttpClient
  imports Provider GoDuration "HOL-Library.State_Monad"
begin

text \<open>
  What the HTTP adapters use of Go's standard library: trimming, parsing of integers, escaping for URLs and the texts
  of status codes, and a client as a state monad. Every request is answered by the environment, which also supplies the
  clock; the log holds, newest first, the requests that were sent with their answers, and another list the work that was
  handed to goroutines in the background. \<open>'b\<close> are the bodies of requests
  before encoding.
\<close>

section \<open>Strings\<close>

text \<open>The white space of \<open>unicode.IsSpace\<close> in UTF-8.\<close>

definition spaces :: "string list" where
  "spaces = map (\<lambda>n. [char_of n]) [9, 10, 11, 12, 13, 32 :: nat] @ [[CHR 0xC2, CHR 0x85], [CHR 0xC2, CHR 0xA0], [CHR 0xE1, CHR 0x9A, CHR 0x80]]
     @ map (\<lambda>n. [CHR 0xE2, CHR 0x80, char_of (0x80 + n)]) [0 ..< 11 :: nat]
     @ [[CHR 0xE2, CHR 0x80, CHR 0xA8], [CHR 0xE2, CHR 0x80, CHR 0xA9], [CHR 0xE2, CHR 0x80, CHR 0xAF], [CHR 0xE2, CHR 0x81, CHR 0x9F],
        [CHR 0xE3, CHR 0x80, CHR 0x80]]"

definition starts_with :: "string \<Rightarrow> string \<Rightarrow> bool" where
  "starts_with p s \<longleftrightarrow> take (length p) s = p"

text \<open>\<open>trim_front n ws s\<close> takes words of \<open>ws\<close> off the front of \<open>s\<close>, at most \<open>n\<close> times.\<close>

fun trim_front :: "nat \<Rightarrow> string list \<Rightarrow> string \<Rightarrow> string" where
  "trim_front 0 ws s = s"
| "trim_front (Suc n) ws s =
     (case find (\<lambda>w. starts_with w s) ws of None \<Rightarrow> s | Some w \<Rightarrow> trim_front n ws (drop (length w) s))"

definition TrimSpace :: "string \<Rightarrow> string" where
  "TrimSpace s = (let t = trim_front (length s) spaces s in rev (trim_front (length t) (map rev spaces) (rev t)))"

text \<open>
  \<open>strings.ToLower\<close> and the folding of \<open>strings.EqualFold\<close>, as far as the result is compared with an ASCII word: beside
  the ASCII capitals only the Kelvin sign, and for \<open>ToLower\<close> the dotted capital I, become ASCII letters.
\<close>

definition lower_char :: "char \<Rightarrow> char" where
  "lower_char c = (if CHR ''A'' \<le> c \<and> c \<le> CHR ''Z'' then char_of ((of_char c :: nat) + 32) else c)"

fun fold_lower :: "string \<Rightarrow> string" where
  "fold_lower (a # b # c # s) =
     (if [a, b, c] = [CHR 0xE2, CHR 0x84, CHR 0xAA] then CHR ''k'' # fold_lower s else lower_char a # fold_lower (b # c # s))"
| "fold_lower s = map lower_char s"

fun dotless :: "string \<Rightarrow> string" where
  "dotless (a # b # s) = (if [a, b] = [CHR 0xC4, CHR 0xB0] then CHR ''i'' # dotless s else a # dotless (b # s))"
| "dotless s = s"

definition ToLower :: "string \<Rightarrow> string" where
  "ToLower s = fold_lower (dotless s)"

definition EqualFold :: "string \<Rightarrow> string \<Rightarrow> bool" where
  "EqualFold s word \<longleftrightarrow> fold_lower s = fold_lower word"

definition TrimRight_slash :: "string \<Rightarrow> string" where
  "TrimRight_slash s = rev (dropWhile (\<lambda>c. c = CHR ''/'') (rev s))"

text \<open>\<open>strconv.Atoi\<close> without the error value.\<close>

fun parse_digits :: "int \<Rightarrow> string \<Rightarrow> int option" where
  "parse_digits acc [] = Some acc"
| "parse_digits acc (c # cs) = (if is_digit c then parse_digits (10 * acc + digit_val c) cs else None)"

definition Atoi :: "string \<Rightarrow> int option" where
  "Atoi s =
     (let (neg, ds) = (case s of [] \<Rightarrow> (False, []) | c # cs \<Rightarrow> if c = CHR ''-'' then (True, cs) else if c = CHR ''+'' then (False, cs) else (False, s))
      in if ds = [] then None
         else (case parse_digits 0 ds of
             None \<Rightarrow> None
           | Some n \<Rightarrow> (let v = (if neg then - n else n) in if - (2 ^ 63) \<le> v \<and> v < 2 ^ 63 then Some v else None)))"

text \<open>\<open>url.PathEscape\<close> and \<open>url.QueryEscape\<close>.\<close>

definition upper_hex :: "nat \<Rightarrow> char" where
  "upper_hex n = (if n < 10 then char_of (48 + n) else char_of (55 + n))"

definition percent :: "char \<Rightarrow> string" where
  "percent c = [CHR ''%'', upper_hex (of_char c div 16), upper_hex (of_char c mod 16)]"

definition PathEscape :: "string \<Rightarrow> string" where
  "PathEscape s = concat (map (\<lambda>c. if alnum c \<or> c \<in> set ''-_.~$&+:=@'' then [c] else percent c) s)"

definition QueryEscape :: "string \<Rightarrow> string" where
  "QueryEscape s = concat (map (\<lambda>c. if c = CHR '' '' then ''+'' else if alnum c \<or> c \<in> set ''-_.~'' then [c] else percent c) s)"

definition status_text :: "int \<Rightarrow> string" where
  "status_text code = (case map_of [
     (100, ''Continue''), (101, ''Switching Protocols''), (102, ''Processing''), (103, ''Early Hints''),
     (200, ''OK''), (201, ''Created''), (202, ''Accepted''), (203, ''Non-Authoritative Information''), (204, ''No Content''),
     (205, ''Reset Content''), (206, ''Partial Content''), (207, ''Multi-Status''), (208, ''Already Reported''), (226, ''IM Used''),
     (300, ''Multiple Choices''), (301, ''Moved Permanently''), (302, ''Found''), (303, ''See Other''), (304, ''Not Modified''),
     (305, ''Use Proxy''), (307, ''Temporary Redirect''), (308, ''Permanent Redirect''),
     (400, ''Bad Request''), (401, ''Unauthorized''), (402, ''Payment Required''), (403, ''Forbidden''), (404, ''Not Found''),
     (405, ''Method Not Allowed''), (406, ''Not Acceptable''), (407, ''Proxy Authentication Required''), (408, ''Request Timeout''),
     (409, ''Conflict''), (410, ''Gone''), (411, ''Length Required''), (412, ''Precondition Failed''),
     (413, ''Request Entity Too Large''), (414, ''Request URI Too Long''), (415, ''Unsupported Media Type''),
     (416, ''Requested Range Not Satisfiable''), (417, ''Expectation Failed''), (418, ''I'' @ [CHR 0x27] @ ''m a teapot''),
     (421, ''Misdirected Request''), (422, ''Unprocessable Entity''), (423, ''Locked''), (424, ''Failed Dependency''),
     (425, ''Too Early''), (426, ''Upgrade Required''), (428, ''Precondition Required''), (429, ''Too Many Requests''),
     (431, ''Request Header Fields Too Large''), (451, ''Unavailable For Legal Reasons''),
     (500, ''Internal Server Error''), (501, ''Not Implemented''), (502, ''Bad Gateway''), (503, ''Service Unavailable''),
     (504, ''Gateway Timeout''), (505, ''HTTP Version Not Supported''), (506, ''Variant Also Negotiates''),
     (507, ''Insufficient Storage''), (508, ''Loop Detected''), (510, ''Not Extended''), (511, ''Network Authentication Required'')]
     code of None \<Rightarrow> [] | Some t \<Rightarrow> t)"

section \<open>The client\<close>

datatype http_method = GET | POST | DELETE

record 'b http_request =
  hqMethod :: http_method
  hqURL :: string
  hqHeaders :: "(string, string) gomap"
  hqBody :: "'b option"

text \<open>An answer with its body, cut to a mebibyte, and its \<open>Retry-After\<close> header, empty if there is none.\<close>

record http_response =
  hsStatus :: int
  hsBody :: string
  hsRetryAfter :: string

text \<open>Errors of the transport wrap the error of the context when it ended; none wraps an error of the provider contract.\<close>

datatype transport_error = TrError string | TrDeadline string | TrCanceled string

fun transport_err :: "transport_error \<Rightarrow> go_error" where
  "transport_err (TrError m) = NewError m"
| "transport_err (TrDeadline m) = WrapError m DeadlineExceeded"
| "transport_err (TrCanceled m) = WrapError m Canceled"

text \<open>The request could not be built, no answer came, its body broke off, or it came.\<close>

datatype http_answer = NotBuilt transport_error | NoAnswer transport_error | BrokenBody int transport_error | Answer http_response

record http_step =
  hxAnswer :: http_answer
  hxNow :: gotime

record 'b http_world =
  hwEnv :: "nat \<Rightarrow> http_step"
  hwTick :: nat
  hwLog :: "('b http_request \<times> http_answer) list"
  hwBackground :: "string list"

type_synonym ('b, 'a) http = "('b http_world, 'a) state"

abbreviation hret :: "'a \<Rightarrow> ('b, 'a) http" where "hret \<equiv> State_Monad.return"

definition http_now :: "('b, gotime) http" where
  "http_now = State (\<lambda>w. (hxNow (hwEnv w (hwTick w)), w\<lparr>hwTick := hwTick w + 1\<rparr>))"

text \<open>\<open>http.NewRequestWithContext\<close> followed by \<open>Do\<close> and \<open>ReadAll\<close>.\<close>

definition http_do :: "'b http_request \<Rightarrow> ('b, http_answer) http" where
  "http_do req = State (\<lambda>w. let a = hxAnswer (hwEnv w (hwTick w)) in
     (a, w\<lparr>hwTick := hwTick w + 1, hwLog := (case a of NotBuilt e \<Rightarrow> hwLog w | _ \<Rightarrow> (req, a) # hwLog w)\<rparr>))"

definition http_background :: "string \<Rightarrow> ('b, unit) http" where
  "http_background job = State (\<lambda>w. ((), w\<lparr>hwBackground := job # hwBackground w\<rparr>))"

lemma transport_not_claim [simp]:
  "as_claim_error (transport_err e) = None" "KindOf (Some (transport_err e)) = KindUnknownOutcome"
  "\<not> is_not_found (transport_err e)"
  by (cases e; simp add: KindOf_def)+

end
