(* ===== verification/Adapter.thy ===== *)
theory Adapter
  imports Provider
begin

text \<open>
  \<open>pkg/adapter/adapter.go\<close>: the configuration of an adapter and the table of the factories by name. \<open>'p\<close> are the
  providers that factories build, and \<open>has_source\<close> whether such a provider has a source.
\<close>

record adapter_config =
  acProviderID :: string
  acEndpoint :: string
  acCredentials :: "(string, string) gomap"
  acOptions :: "(string, string) gomap"
  acTemplates :: "(string, string) gomap"

definition Credential :: "adapter_config \<Rightarrow> string \<Rightarrow> string" where
  "Credential c key = get_str (acCredentials c) key"

type_synonym 'p factories = "(string, adapter_config \<Rightarrow> go_error + 'p) gomap"

text \<open>\<open>None\<close> is the panic on a name that is taken.\<close>

definition Register :: "string \<Rightarrow> (adapter_config \<Rightarrow> go_error + 'p) \<Rightarrow> 'p factories \<Rightarrow> 'p factories option" where
  "Register name f fs = (case go_get fs name of Some _ \<Rightarrow> None | None \<Rightarrow> Some (go_put name f fs))"

definition Names :: "'p factories \<Rightarrow> string list" where
  "Names fs = sort_strings (map fst fs)"

definition Has :: "'p factories \<Rightarrow> string \<Rightarrow> bool" where
  "Has fs name = (go_get fs name \<noteq> None)"

text \<open>The verb \<open>%v\<close> of a list of strings.\<close>

definition list_string :: "string list \<Rightarrow> string" where
  "list_string xs = ''['' @ join '' '' xs @ '']''"

definition New_adapter :: "('p \<Rightarrow> bool) \<Rightarrow> 'p factories \<Rightarrow> string \<Rightarrow> adapter_config \<Rightarrow> go_error + 'p" where
  "New_adapter has_source fs name cfg =
     (case go_get fs name of
        None \<Rightarrow> Inl (NewError (''unknown adapter '' @ quote name @ '' (available: '' @ list_string (Names fs) @ '')''))
      | Some f \<Rightarrow>
          (if acProviderID cfg = [] then Inl (NewError (''adapter '' @ quote name @ '': provider id is required''))
           else (case f cfg of
               Inl err \<Rightarrow> Inl err
             | Inr p \<Rightarrow> if has_source p then Inr p
                 else Inl (NewError (''adapter '' @ quote name @ '' returned a Provider with nil Source'')))))"

end
