(* ===== verification/AgentSandbox.thy ===== *)
theory AgentSandbox
  imports HttpClient Adapter
begin

text \<open>
  \<open>pkg/adapter/agentsandbox/agentsandbox.go\<close>: capacity polls and claims against the gateway of a cluster that runs
  agent-sandbox. The decoders of JSON bodies and the parser of timestamps are parameters: \<open>decode body\<close> is the object that
  \<open>json.Unmarshal\<close> leaves behind and its error.
\<close>

section \<open>Settings and payloads\<close>

definition AdapterName :: string where "AdapterName = ''agent-sandbox''"
definition CredentialKey :: string where "CredentialKey = ''token''"
definition LabelOwner :: string where "LabelOwner = ''placement.agents.x-k8s.io/owner''"
definition AnnotationKey :: string where "AnnotationKey = ''placement.agents.x-k8s.io/key''"
definition AnnotationSpecHash :: string where "AnnotationSpecHash = ''placement.agents.x-k8s.io/spec-hash''"
definition AnnotationExpiresAt :: string where "AnnotationExpiresAt = ''placement.agents.x-k8s.io/expires-at''"

record gw_source =
  gsId :: string
  gsEndpoint :: string
  gsToken :: string
  gsPool :: string

record gw_binder =
  gbId :: string
  gbEndpoint :: string
  gbToken :: string
  gbTemplates :: "(string, string) gomap"

definition agent_sandbox_factory :: "adapter_config \<Rightarrow> go_error + gw_source \<times> gw_binder" where
  "agent_sandbox_factory cfg =
     (if acEndpoint cfg = [] then Inl (NewError (''adapter '' @ AdapterName @ '': endpoint is required''))
      else
        let endpoint = TrimRight_slash (acEndpoint cfg);
            token = Credential cfg CredentialKey
        in Inr (\<lparr>gsId = acProviderID cfg, gsEndpoint = endpoint, gsToken = token, gsPool = get_str (acOptions cfg) ''warmPoolName''\<rparr>,
                \<lparr>gbId = acProviderID cfg, gbEndpoint = endpoint, gbToken = token, gbTemplates = go_copy (acTemplates cfg) []\<rparr>))"

record warm_pool_response =
  wpName :: string
  wpReplicas :: "int option"
  wpReadyReplicas :: "int option"
  wpTemplate :: string

record gateway_claim =
  gcName :: string
  gcKey :: string
  gcOwner :: string
  gcSpecHash :: string
  gcTemplate :: string
  gcLabels :: "(string, string) gomap"
  gcTTLSeconds :: int
  gcShutdownPolicy :: string

record gateway_object =
  goName :: string
  goUID :: string
  goResourceVersion :: string
  goDeletionTimestamp :: string
  goLabels :: "(string, string) gomap"
  goAnnotations :: "(string, string) gomap"
  goError :: string
  goReason :: string
  goRetryAfterMs :: int

text \<open>\<open>json.Unmarshal\<close> and \<open>time.Parse\<close> with the layout of RFC 3339.\<close>

type_synonym 'o decoder = "string \<Rightarrow> 'o \<times> transport_error option"
type_synonym time_parser = "string \<Rightarrow> gotime option"

section \<open>Helpers\<close>

definition SandboxName :: "(string \<Rightarrow> string) \<Rightarrow> string \<Rightarrow> string \<Rightarrow> string" where
  "SandboxName sha owner key = ''sc-'' @ hex_encode (take 10 (sha (owner @ ''/'' @ key)))"

definition gw_resolveTemplate :: "gw_binder \<Rightarrow> string \<Rightarrow> string" where
  "gw_resolveTemplate b logical =
     (if logical = [] then []
      else case go_get (gbTemplates b) logical of
          Some mapped \<Rightarrow> if mapped \<noteq> [] then mapped else logical
        | None \<Rightarrow> logical)"

definition gw_parseRetryAfter :: "string \<Rightarrow> int \<Rightarrow> duration" where
  "gw_parseRetryAfter header bodyMs =
     (if bodyMs > 0 then wrap64 (bodyMs * millisecond)
      else case (if header \<noteq> [] then Atoi (TrimSpace header) else None) of
          Some secs \<Rightarrow> if secs > 0 then wrap64 (secs * second) else 500 * millisecond
        | None \<Rightarrow> 500 * millisecond)"

definition gw_nonEmpty :: "string \<Rightarrow> string \<Rightarrow> string" where
  "gw_nonEmpty a b = (if a \<noteq> [] then a else b)"

definition truncate_string :: "string \<Rightarrow> nat \<Rightarrow> string" where
  "truncate_string s n = (if length s \<le> n then s else take n s @ [CHR 0xE2, CHR 0x80, CHR 0xA6])"

definition credential_hint :: string where
  "credential_hint = '') '' @ [CHR 0xE2, CHR 0x80, CHR 0x94] @ '' check the Secret referenced by credentialsRef''"

definition bearer :: "string \<Rightarrow> (string, string) gomap" where
  "bearer token = (if token \<noteq> [] then [(''Authorization'', ''Bearer '' @ token)] else [])"

section \<open>Capacity\<close>

definition fetch_report :: "gw_source \<Rightarrow> (warm_pool_response) decoder \<Rightarrow> http_response \<Rightarrow> go_error + report" where
  "fetch_report s decode resp =
     (let empty = \<lparr>repWarmCapacity = 0, repElastic = False, repAttributes = []\<rparr> in
      if hsStatus resp = 404 then Inr empty
      else if hsStatus resp = 401 \<or> hsStatus resp = 403 then
        Inl (NewError (gsId s @ '': gateway rejected the credential (HTTP '' @ dec_int (hsStatus resp) @ credential_hint))
      else if hsStatus resp < 200 \<or> hsStatus resp \<ge> 300 then
        Inl (NewError (gsId s @ '': gateway returned HTTP '' @ dec_int (hsStatus resp) @ '': '' @ truncate_string (hsBody resp) 200))
      else (case decode (hsBody resp) of
          (wp, Some err) \<Rightarrow> Inl (WrapError (gsId s @ '': gateway returned unparseable JSON: '') (transport_err err))
        | (wp, None) \<Rightarrow>
            (case wpReadyReplicas wp of
               None \<Rightarrow> Inl (NewError (gsId s @ '': gateway response has no readyReplicas field; is '' @ gsEndpoint s
                          @ '' an agent-sandbox gateway?''))
             | Some ready \<Rightarrow> Inr (empty\<lparr>repWarmCapacity := (if ready < 0 then 0 else ready),
                   repAttributes := [(''warmPoolName'', wpName wp), (''template'', wpTemplate wp)]\<rparr>))))"

definition gw_Fetch :: "warm_pool_response decoder \<Rightarrow> gw_source \<Rightarrow> ('b, go_error + report) http" where
  "gw_Fetch decode s = do {
     a \<leftarrow> http_do \<lparr>hqMethod = GET,
       hqURL = gsEndpoint s @ ''/warmpool'' @ (if gsPool s \<noteq> [] then ''?name='' @ QueryEscape (gsPool s) else []),
       hqHeaders = bearer (gsToken s), hqBody = None\<rparr>;
     hret (case a of
         NotBuilt err \<Rightarrow> Inl (transport_err err)
       | NoAnswer err \<Rightarrow> Inl (WrapError (gsId s @ '': '') (transport_err err))
       | BrokenBody st err \<Rightarrow> Inl (WrapError (gsId s @ '': reading response: '') (transport_err err))
       | Answer resp \<Rightarrow> fetch_report s decode resp) }"

section \<open>Errors\<close>

definition gw_classifyHTTPError :: "gateway_object decoder \<Rightarrow> gw_binder \<Rightarrow> http_response \<Rightarrow> go_error" where
  "gw_classifyHTTPError decode b resp =
     (let parsed = fst (decode (hsBody resp));
          msg = gw_nonEmpty (goError parsed) (truncate_string (TrimSpace (hsBody resp)) 200);
          msg = (if msg = [] then status_text (hsStatus resp) else msg);
          retryAfter = gw_parseRetryAfter (hsRetryAfter resp) (goRetryAfterMs parsed);
          st = hsStatus resp
      in if st = 401 \<or> st = 403 then
           Rejected (Some (NewError (gbId b @ '': gateway rejected the credential (HTTP '' @ dec_int st @ credential_hint)))
         else if st = 400 \<or> st = 422 then
           Rejected (Some (NewError (gbId b @ '': gateway rejected request (HTTP '' @ dec_int st @ ''): '' @ msg)))
         else if st = 409 then
           (if goReason parsed = ''NoCapacity'' then NoCapacity (Some (NewError (gbId b @ '': '' @ msg)))
            else KeyConflict (Some (NewError (gbId b @ '': '' @ msg))))
         else if st = 429 then
           (if goReason parsed = ''KeyBusy'' then KeyBusy retryAfter (Some (NewError (gbId b @ '': '' @ msg)))
            else Busy retryAfter (Some (NewError (gbId b @ '': '' @ msg))))
         else if st = 502 \<or> st = 503 then
           (if goReason parsed = ''Unavailable'' then
              Unavailable (Some (NewError (gbId b @ '': gateway unavailable (HTTP '' @ dec_int st @ ''): '' @ msg)))
            else NewError (gbId b @ '': ambiguous gateway HTTP '' @ dec_int st @ '': '' @ msg))
         else NewError (gbId b @ '': gateway returned HTTP '' @ dec_int st @ '': '' @ msg))"

section \<open>Claims\<close>

text \<open>
  \<open>inspectClaimObject\<close> asks for the time only if the object carries an expiry, and again if the request has a
  lifetime and the object has none.
\<close>

definition gw_inspectClaimObject :: "time_parser \<Rightarrow> gw_binder \<Rightarrow> gateway_object \<Rightarrow> string \<Rightarrow> claim_request
    \<Rightarrow> ('b, handle \<times> go_error option) http" where
  "gw_inspectClaimObject parse_time b obj fallbackName req =
     (let claim = gbId b @ '': sandbox claim '' @ quote fallbackName;
          existingOwner = get_str (goLabels obj) LabelOwner;
          existingKey = get_str (goAnnotations obj) AnnotationKey;
          existingHash = get_str (goAnnotations obj) AnnotationSpecHash;
          fail = (\<lambda>err. hret (empty_handle, Some err))
      in if goDeletionTimestamp obj \<noteq> [] then
           fail (KeyBusy (500 * millisecond) (Some (NewError (claim @ '' for key '' @ quote (crKey req) @ '' is terminating''))))
         else if existingOwner \<noteq> [] \<and> crOwner req \<noteq> [] \<and> existingOwner \<noteq> crOwner req then
           fail (KeyConflict (Some (NewError (claim @ '' is owned by '' @ quote existingOwner @ '', not '' @ quote (crOwner req)))))
         else if existingKey \<noteq> [] \<and> existingKey \<noteq> crKey req then
           fail (KeyConflict (Some (NewError (claim @ '' belongs to key '' @ quote existingKey @ '', not '' @ quote (crKey req)))))
         else if existingHash \<noteq> [] \<and> crSpecHash req \<noteq> [] \<and> existingHash \<noteq> crSpecHash req then
           fail (KeyConflict (Some (NewError (gbId b @ '': key '' @ quote (crKey req) @ '' already exists with spec hash ''
             @ existingHash @ '' (want '' @ crSpecHash req @ '')''))))
         else
           let i = (if goName obj = [] then fallbackName else goName obj);
               rawExp = get_str (goAnnotations obj) AnnotationExpiresAt;
               finish = (\<lambda>expiresAt. do {
                 expiresAt \<leftarrow> (if expiresAt = zero_time \<and> crTTL req > 0 then do { now \<leftarrow> http_now; hret (now + crTTL req) }
                                else hret expiresAt);
                 hret (empty_handle\<lparr>hProvider := gbId b, hID := i, hVersion := goUID obj, hEndpoint := gbEndpoint b,
                         hExpiresAt := expiresAt\<rparr>, None) })
           in (case (if rawExp \<noteq> [] then parse_time rawExp else None) of
                 None \<Rightarrow> finish zero_time
               | Some t \<Rightarrow> do {
                   now \<leftarrow> http_now;
                   if \<not> t > now then
                     fail (KeyBusy (500 * millisecond) (Some (NewError (claim @ '' for key '' @ quote (crKey req) @ '' expired at '' @ rawExp))))
                   else finish t }))"

definition sandbox_url :: "gw_binder \<Rightarrow> string \<Rightarrow> string" where
  "sandbox_url b name = gbEndpoint b @ ''/sandboxes/'' @ PathEscape name"

definition gw_Lookup :: "(string \<Rightarrow> string) \<Rightarrow> gateway_object decoder \<Rightarrow> time_parser \<Rightarrow> gw_binder \<Rightarrow> claim_request
    \<Rightarrow> (gateway_claim, handle \<times> go_error option) http" where
  "gw_Lookup sha decode parse_time b req =
     (let name = SandboxName sha (crOwner req) (crKey req); fail = (\<lambda>err. hret (empty_handle, Some err)) in do {
        a \<leftarrow> http_do \<lparr>hqMethod = GET, hqURL = sandbox_url b name, hqHeaders = bearer (gbToken b), hqBody = None\<rparr>;
        (case a of
           NotBuilt err \<Rightarrow> fail (Rejected (Some (transport_err err)))
         | NoAnswer err \<Rightarrow> fail (WrapError (gbId b @ '': lookup failed: '') (transport_err err))
         | BrokenBody st err \<Rightarrow> fail (WrapError (gbId b @ '': reading lookup response: '') (transport_err err))
         | Answer resp \<Rightarrow>
             (if hsStatus resp = 404 then fail ErrNotFound
              else if hsStatus resp = 200 then
                (case decode (hsBody resp) of
                   (obj, Some err) \<Rightarrow> fail (WrapError (gbId b @ '': unparseable lookup response: '') (transport_err err))
                 | (obj, None) \<Rightarrow> gw_inspectClaimObject parse_time b obj name req)
              else fail (gw_classifyHTTPError decode b resp))) })"

definition gw_payload :: "(string \<Rightarrow> string) \<Rightarrow> gw_binder \<Rightarrow> claim_request \<Rightarrow> gateway_claim" where
  "gw_payload sha b req =
     (let ttlSec = go_div (crTTL req) second; ttlSec = (if ttlSec \<le> 0 then go_div (24 * hour) second else ttlSec)
      in \<lparr>gcName = SandboxName sha (crOwner req) (crKey req), gcKey = crKey req, gcOwner = crOwner req, gcSpecHash = crSpecHash req,
          gcTemplate = gw_resolveTemplate b (crTemplate req), gcLabels = crLabels req, gcTTLSeconds = ttlSec,
          gcShutdownPolicy = ''Delete''\<rparr>)"

definition gw_Claim :: "(string \<Rightarrow> string) \<Rightarrow> gateway_object decoder \<Rightarrow> time_parser \<Rightarrow> gw_binder \<Rightarrow> claim_request
    \<Rightarrow> (gateway_claim, handle \<times> go_error option) http" where
  "gw_Claim sha decode parse_time b req =
     (let payload = gw_payload sha b req; name = gcName payload; fail = (\<lambda>err. hret (empty_handle, Some err)) in do {
        a \<leftarrow> http_do \<lparr>hqMethod = POST, hqURL = gbEndpoint b @ ''/sandboxes'',
               hqHeaders = (''Content-Type'', ''application/json'') # bearer (gbToken b), hqBody = Some payload\<rparr>;
        (case a of
           NotBuilt err \<Rightarrow> fail (Rejected (Some (transport_err err)))
         | NoAnswer err \<Rightarrow> fail (WrapError (gbId b @ '': claim request failed: '') (transport_err err))
         | BrokenBody st err \<Rightarrow> fail (WrapError (gbId b @ '': reading claim response: '') (transport_err err))
         | Answer resp \<Rightarrow>
             (if hsStatus resp = 201 \<or> hsStatus resp = 200 then
                (case decode (hsBody resp) of
                   (obj, Some err) \<Rightarrow> fail (WrapError (gbId b @ '': unparseable claim response: '') (transport_err err))
                 | (obj, None) \<Rightarrow> gw_inspectClaimObject parse_time b obj name req)
              else if hsStatus resp = 409 then
                (let obj = fst (decode (hsBody resp)) in
                 if goReason obj = ''NoCapacity'' then
                   fail (NoCapacity (Some (NewError (gbId b @ '': '' @ gw_nonEmpty (goError obj) ''no capacity''))))
                 else if goReason obj = ''KeyConflict'' \<or> goReason obj = ''SpecMismatch'' then
                   fail (KeyConflict (Some (NewError (gbId b @ '': '' @ gw_nonEmpty (goError obj) (''spec mismatch for key '' @ crKey req)))))
                 else gw_Lookup sha decode parse_time b req)
              else fail (gw_classifyHTTPError decode b resp))) })"

text \<open>\<open>Release\<close>: a failed precondition on the version means that the sandbox was replaced already.\<close>

definition gw_Release :: "gateway_object decoder \<Rightarrow> gw_binder \<Rightarrow> handle \<Rightarrow> (gateway_claim, go_error option) http" where
  "gw_Release decode b h =
     (if hID h = [] then hret (Some (Rejected (Some (NewError ''sandbox ID is required''))))
      else do {
        a \<leftarrow> http_do \<lparr>hqMethod = DELETE,
               hqURL = sandbox_url b (hID h) @ (if hVersion h \<noteq> [] then ''?uid='' @ QueryEscape (hVersion h) else []),
               hqHeaders = bearer (gbToken b), hqBody = None\<rparr>;
        hret (case a of
           NotBuilt err \<Rightarrow> Some (Rejected (Some (transport_err err)))
         | NoAnswer err \<Rightarrow> Some (WrapError (gbId b @ '': release failed: '') (transport_err err))
         | BrokenBody st err \<Rightarrow> Some (WrapError (gbId b @ '': reading release response: '') (transport_err err))
         | Answer resp \<Rightarrow>
             (if hsStatus resp = 404 then None
              else if 200 \<le> hsStatus resp \<and> hsStatus resp < 300 then None
              else if hsStatus resp = 409 then None
              else Some (gw_classifyHTTPError decode b resp))) })"

end
