(* ===== verification/AdapterContract.thy ===== *)
theory AdapterContract
  imports HttpClient
begin

text \<open>
  What the binder needs from an adapter that speaks HTTP: a claim whose error makes the binder try another provider was
  refused in so many words, by an answer of the provider or before anything was sent, and an ambiguous answer makes the outcome
  of the claim unknown. Beside it, rules to run programs of the
  HTTP client and the inverse of URL escaping.
\<close>

section \<open>Running clients\<close>

named_theorems http_run "runs of client programs"

lemma http_run_bind [http_run]: "run_state (State_Monad.bind m f) w = (case run_state m w of (a, w') \<Rightarrow> run_state (f a) w')"
  by (cases m) (simp add: State_Monad.bind_def split: prod.splits)

lemma http_run_return [http_run]: "run_state (hret x) w = (x, w)"
  by (simp add: State_Monad.return_def)

lemma http_run_now [http_run]: "run_state http_now w = (hxNow (hwEnv w (hwTick w)), w\<lparr>hwTick := Suc (hwTick w)\<rparr>)"
  by (simp add: http_now_def)

lemma http_run_do [http_run]: "run_state (http_do req) w = (let a = hxAnswer (hwEnv w (hwTick w)) in
     (a, w\<lparr>hwTick := Suc (hwTick w), hwLog := (case a of NotBuilt e \<Rightarrow> hwLog w | _ \<Rightarrow> (req, a) # hwLog w)\<rparr>))"
  by (simp add: http_do_def Let_def)

lemma http_run_background [http_run]: "run_state (http_background job) w = ((), w\<lparr>hwBackground := job # hwBackground w\<rparr>)"
  by (simp add: http_background_def)

text \<open>The steps of the environment that a run used keep their answers, and the last one is at hand.\<close>

definition last_answer :: "'b http_world \<Rightarrow> http_answer" where
  "last_answer w = hxAnswer (hwEnv w (hwTick w - 1))"

section \<open>Refusals\<close>

text \<open>The answers that leave open what became of a request, among those to requests that are no deletions.\<close>

definition ambiguous_answers :: "('b http_request \<Rightarrow> http_answer \<Rightarrow> bool) \<Rightarrow> 'b http_world \<Rightarrow> nat" where
  "ambiguous_answers unclear w = length (filter (\<lambda>(q, a). hqMethod q \<noteq> DELETE \<and> unclear q a) (hwLog w))"

text \<open>An error that says neither that there is no sandbox nor what went wrong.\<close>

definition unresolved :: "go_error option \<Rightarrow> bool" where
  "unresolved err = (case err of None \<Rightarrow> False | Some e \<Rightarrow> KindOf (Some e) = KindUnknownOutcome \<and> \<not> is_not_found e)"

text \<open>
  From a world with \<open>n\<close> ambiguous answers a program ends in one that either has no more of them, or in one where the answer
  to its last request is the only one more, and the error says nothing.
\<close>

definition in_doubt :: "('b http_request \<Rightarrow> http_answer \<Rightarrow> bool) \<Rightarrow> nat \<Rightarrow> go_error option \<Rightarrow> 'b http_world \<Rightarrow> bool" where
  "in_doubt unclear n err w \<longleftrightarrow> ambiguous_answers unclear w = Suc n \<and> unresolved err \<and>
     (case hwLog w of [] \<Rightarrow> False | (q, a) # _ \<Rightarrow> hqMethod q \<noteq> DELETE \<and> unclear q a)"

definition doubts_end :: "('b http_request \<Rightarrow> http_answer \<Rightarrow> bool) \<Rightarrow> nat \<Rightarrow> go_error option \<Rightarrow> 'b http_world \<Rightarrow> bool" where
  "doubts_end unclear n err w \<longleftrightarrow> ambiguous_answers unclear w = n \<or> in_doubt unclear n err w"

locale refusing_adapter =
  fixes claim :: "claim_request \<Rightarrow> ('b, handle \<times> go_error option) http" and refused :: "http_answer \<Rightarrow> bool"
    and unclear :: "'b http_request \<Rightarrow> http_answer \<Rightarrow> bool"
  assumes spill_refused: "run_state (claim req) w = ((h, Some e), w') \<Longrightarrow> spilling_kind (KindOf (Some e)) \<Longrightarrow>
      hwTick w' = hwTick w \<or> (hwTick w < hwTick w' \<and> refused (last_answer w'))"
    and ambiguous_unresolved: "run_state (claim req) w = ((h, err), w') \<Longrightarrow>
      doubts_end unclear (ambiguous_answers unclear w) err w'"
    and keeps_env: "run_state (claim req) w = (r, w') \<Longrightarrow> hwEnv w' = hwEnv w"
begin

text \<open>Where no answer is a refusal, the binder never moves on after a request.\<close>

lemma no_refusal_no_spill:
  assumes "\<forall>i. \<not> refused (hxAnswer (hwEnv w i))" and "run_state (claim req) w = ((h, Some e), w')" and "hwTick w' \<noteq> hwTick w"
  shows "\<not> spilling_kind (KindOf (Some e))"
  using spill_refused [OF assms(2)] keeps_env [OF assms(2)] assms(1,3) by (auto simp: last_answer_def)

end

section \<open>Escaping\<close>

definition hex_val :: "char \<Rightarrow> nat" where
  "hex_val c = (if of_char c < (65 :: nat) then of_char c - 48 else of_char c - 55)"

fun unescape :: "(char \<Rightarrow> char) \<Rightarrow> string \<Rightarrow> string" where
  "unescape plain [] = []"
| "unescape plain (c # s) =
     (if c = CHR ''%'' then (case s of a # b # s' \<Rightarrow> char_of (16 * hex_val a + hex_val b) # unescape plain s' | _ \<Rightarrow> [])
      else plain c # unescape plain s)"

lemma hex_val_upper: "n < 16 \<Longrightarrow> hex_val (upper_hex n) = n"
  by (auto simp: hex_val_def upper_hex_def)

lemma nibbles: "(of_char c :: nat) div 16 < 16" "(of_char c :: nat) mod 16 < 16"
  by (simp_all add: less_mult_imp_div_less)

lemma unescape_percent: "unescape plain (percent c @ s) = c # unescape plain s"
proof -
  have "16 * hex_val (upper_hex (of_char c div 16)) + hex_val (upper_hex (of_char c mod 16)) = of_char c"
    unfolding hex_val_upper [OF nibbles(1)] hex_val_upper [OF nibbles(2)] by (rule mult_div_mod_eq)
  then show ?thesis by (simp add: percent_def)
qed

lemma percent_not_alnum: "\<not> alnum (CHR ''%'')" "\<not> alnum (CHR ''/'')" "\<not> alnum (CHR ''?'')" "\<not> alnum (CHR ''+'')"
  by code_simp+

lemma unescape_PathEscape: "unescape id (PathEscape s) = s"
  by (induction s) (auto simp: PathEscape_def unescape_percent percent_not_alnum)

lemma unescape_QueryEscape: "unescape (\<lambda>c. if c = CHR ''+'' then CHR '' '' else c) (QueryEscape s) = s"
  by (induction s) (auto simp: QueryEscape_def unescape_percent percent_not_alnum)

lemma upper_hex_plain: "n < 16 \<Longrightarrow> upper_hex n \<noteq> CHR ''?''" "n < 16 \<Longrightarrow> upper_hex n \<noteq> CHR ''/''"
  by (auto simp: upper_hex_def dest!: arg_cong [of _ _ "of_char :: char \<Rightarrow> nat"])

lemma percent_plain: "CHR ''?'' \<notin> set (percent c)" "CHR ''/'' \<notin> set (percent c)"
  using upper_hex_plain [OF nibbles(1)] upper_hex_plain [OF nibbles(2)] by (auto simp: percent_def dest: sym)

lemma PathEscape_plain: "CHR ''?'' \<notin> set (PathEscape s)" "CHR ''/'' \<notin> set (PathEscape s)"
  using percent_plain percent_not_alnum by (auto simp: PathEscape_def)

section \<open>Triples over clients\<close>

text \<open>A program takes worlds with \<open>P\<close> to results and worlds with \<open>Q\<close>, and never changes the environment.\<close>

definition htriple :: "('b http_world \<Rightarrow> bool) \<Rightarrow> ('b, 'a) http \<Rightarrow> ('a \<Rightarrow> 'b http_world \<Rightarrow> bool) \<Rightarrow> bool" where
  "htriple P m Q \<longleftrightarrow> (\<forall>w. P w \<longrightarrow> (case run_state m w of (x, w') \<Rightarrow> hwEnv w' = hwEnv w \<and> Q x w'))"

named_theorems ht_intro "rules for triples over clients"

lemma ht_return: "(\<And>w. P w \<Longrightarrow> Q x w) \<Longrightarrow> htriple P (hret x) Q"
  by (simp add: htriple_def http_run)

lemma ht_runD:
  assumes "htriple P m Q" "P w" "run_state m w = (x, w')"
  shows "hwEnv w' = hwEnv w" "Q x w'"
  using spec [OF assms(1) [unfolded htriple_def], of w] assms(2,3) by simp_all

lemma ht_bind:
  assumes m: "htriple P m R" and f: "\<And>x. htriple (R x) (f x) Q"
  shows "htriple P (State_Monad.bind m f) Q"
  unfolding htriple_def
proof (intro allI impI)
  fix w assume "P w"
  obtain x v where mv: "run_state m w = (x, v)" by fastforce
  obtain y u where fu: "run_state (f x) v = (y, u)" by fastforce
  from ht_runD [OF m \<open>P w\<close> mv] ht_runD [OF f _ fu]
  show "case run_state (m \<bind> f) w of (x, w') \<Rightarrow> hwEnv w' = hwEnv w \<and> Q x w'"
    by (simp add: http_run mv fu)
qed

lemma ht_if: "(c \<Longrightarrow> htriple P m Q) \<Longrightarrow> (\<not> c \<Longrightarrow> htriple P m' Q) \<Longrightarrow> htriple P (if c then m else m') Q"
  by simp

lemma ht_cases [ht_intro]:
  "(c \<Longrightarrow> htriple P m Q) \<Longrightarrow> (\<not> c \<Longrightarrow> htriple P m' Q) \<Longrightarrow> htriple P (if c then m else m') Q"
  "(y = None \<Longrightarrow> htriple P m Q) \<Longrightarrow> (\<And>x. y = Some x \<Longrightarrow> htriple P (f x) Q) \<Longrightarrow> htriple P (case y of None \<Rightarrow> m | Some x \<Rightarrow> f x) Q"
  "(\<And>e. z = Inl e \<Longrightarrow> htriple P (g e) Q) \<Longrightarrow> (\<And>x. z = Inr x \<Longrightarrow> htriple P (g' x) Q) \<Longrightarrow> htriple P (case z of Inl e \<Rightarrow> g e | Inr x \<Rightarrow> g' x) Q"
  "(\<And>a b. p = (a, b) \<Longrightarrow> htriple P (k a b) Q) \<Longrightarrow> htriple P (case p of (a, b) \<Rightarrow> k a b) Q"
  "(\<And>e. a = NotBuilt e \<Longrightarrow> htriple P (n e) Q) \<Longrightarrow> (\<And>e. a = NoAnswer e \<Longrightarrow> htriple P (l e) Q) \<Longrightarrow>
   (\<And>st e. a = BrokenBody st e \<Longrightarrow> htriple P (b st e) Q) \<Longrightarrow> (\<And>resp. a = Answer resp \<Longrightarrow> htriple P (r resp) Q) \<Longrightarrow>
   htriple P (case a of NotBuilt e \<Rightarrow> n e | NoAnswer e \<Rightarrow> l e | BrokenBody st e \<Rightarrow> b st e | Answer resp \<Rightarrow> r resp) Q"
  by (simp_all split: option.splits sum.splits prod.splits http_answer.splits)

lemma ht_let [ht_intro]: "(\<And>x. x = t \<Longrightarrow> htriple P (f x) Q) \<Longrightarrow> htriple P (Let t f) Q"
  by (simp add: Let_def)

lemma ht_pre: "htriple P m Q \<Longrightarrow> (\<And>w. P' w \<Longrightarrow> P w) \<Longrightarrow> htriple P' m Q"
  by (auto simp: htriple_def)

lemma ht_post: "htriple P m R \<Longrightarrow> (\<And>x w. R x w \<Longrightarrow> Q x w) \<Longrightarrow> htriple P m Q"
  unfolding htriple_def by (simp add: case_prod_beta)

text \<open>The steps since the \<open>k\<close>-th; an error that spills is blamed on a refusal by the last of them.\<close>

definition since :: "nat \<Rightarrow> 'b http_world \<Rightarrow> bool" where
  "since k w \<longleftrightarrow> k \<le> hwTick w"

definition blamed :: "(http_answer \<Rightarrow> bool) \<Rightarrow> nat \<Rightarrow> go_error \<Rightarrow> 'b http_world \<Rightarrow> bool" where
  "blamed refused k e w \<longleftrightarrow> since k w \<and>
     (if spilling_kind (KindOf (Some e)) then k < hwTick w \<and> refused (last_answer w) else True)"

definition answered_by :: "nat \<Rightarrow> http_response \<Rightarrow> 'b http_world \<Rightarrow> bool" where
  "answered_by k resp w \<longleftrightarrow> k < hwTick w \<and> last_answer w = Answer resp"

lemma answered_since: "answered_by k resp w \<Longrightarrow> since k w"
  by (simp add: answered_by_def since_def)

lemma blamed_since: "blamed refused k e w \<Longrightarrow> since k w"
  by (simp add: blamed_def)

lemma blamed_harmless: "since k w \<Longrightarrow> \<not> spilling_kind (KindOf (Some e)) \<Longrightarrow> blamed refused k e w"
  by (simp add: blamed_def)

lemma ht_now: "(\<And>t. htriple (since k) (f t) Q) \<Longrightarrow> htriple (since k) (State_Monad.bind http_now f) Q"
  by (rule ht_bind [where R = "\<lambda>_. since k"]) (auto simp: htriple_def http_run since_def)

lemma ht_background: "htriple (blamed refused k e) (f ()) Q \<Longrightarrow> htriple (blamed refused k e) (State_Monad.bind (http_background job) f) Q"
  by (rule ht_bind [where R = "\<lambda>_. blamed refused k e"]) (auto simp: htriple_def http_run blamed_def since_def last_answer_def)

definition blames :: "(http_answer \<Rightarrow> bool) \<Rightarrow> nat \<Rightarrow> go_error option \<Rightarrow> 'b http_world \<Rightarrow> bool" where
  "blames refused k err w \<longleftrightarrow> (case err of None \<Rightarrow> since k w | Some e \<Rightarrow> blamed refused k e w)"

lemma blames_simps [simp]:
  "blames refused k None w = since k w" "blames refused k (Some e) w = blamed refused k e w"
  by (simp_all add: blames_def)

text \<open>What the answer to a request does to the count of ambiguous answers.\<close>

definition heard :: "('b http_request \<Rightarrow> http_answer \<Rightarrow> bool) \<Rightarrow> nat \<Rightarrow> 'b http_request \<Rightarrow> http_answer \<Rightarrow> 'b http_world \<Rightarrow> bool" where
  "heard unclear n q a w \<longleftrightarrow>
     (if unclear q a then (\<forall>err. unresolved err \<longrightarrow> in_doubt unclear n err w) else ambiguous_answers unclear w = n)"

lemma heard_unclear: "heard unclear n q a w \<Longrightarrow> (unclear q a \<Longrightarrow> unresolved err) \<Longrightarrow> doubts_end unclear n err w"
  by (auto simp: heard_def doubts_end_def split: if_splits)

lemma heard_clear: "heard unclear n q a w \<Longrightarrow> \<not> unclear q a \<Longrightarrow> ambiguous_answers unclear w = n"
  by (simp add: heard_def)

lemma ht_heard:
  assumes "hqMethod q \<noteq> DELETE" "\<And>e. \<not> unclear q (NotBuilt e)"
  shows "htriple (\<lambda>w. ambiguous_answers unclear w = n) (http_do q) (heard unclear n q)"
  using assms by (auto simp: htriple_def http_run Let_def heard_def in_doubt_def ambiguous_answers_def split: http_answer.splits)

lemma ht_fail_heard:
  "(unclear q a \<Longrightarrow> unresolved (Some err)) \<Longrightarrow> htriple (heard unclear n q a) (hret (h, Some err)) (\<lambda>r. doubts_end unclear n (snd r))"
  by (rule ht_return) (simp add: heard_unclear)

lemma ht_clear_heard:
  "\<not> unclear q a \<Longrightarrow> htriple (\<lambda>w. ambiguous_answers unclear w = n) m Q \<Longrightarrow> htriple (heard unclear n q a) m Q"
  by (erule ht_pre) (simp add: heard_clear)

lemma unresolved_transport [simp]: "unresolved (Some (WrapError m (transport_err e)))"
  by (simp add: unresolved_def)

lemma spilling_simps [simp]:
  "spilling_kind KindNoCapacity" "spilling_kind KindUnavailable" "spilling_kind KindRejected" "spilling_kind KindBusy"
  "\<not> spilling_kind KindKeyConflict" "\<not> spilling_kind KindKeyBusy" "\<not> spilling_kind KindUnknownOutcome"
  by (simp_all add: spilling_kind_def)

end
