(* ===== verification/AgentSandboxProps.thy ===== *)
theory AgentSandboxProps
  imports AgentSandbox AdapterContract
begin

text \<open>
  What the agent-sandbox adapter guarantees: only an explicit refusal of the gateway lets a claim spill, a handle belongs to
  the request, and the address of a release identifies the sandbox and its version. One weakness is shown, too.
\<close>

section \<open>Refusals\<close>

definition gw_refused :: "gateway_object decoder \<Rightarrow> http_answer \<Rightarrow> bool" where
  "gw_refused decode a = (case a of
      NotBuilt e \<Rightarrow> True
    | Answer resp \<Rightarrow> (let reason = goReason (fst (decode (hsBody resp))) in
        hsStatus resp \<in> {400, 401, 403, 422} \<or> (hsStatus resp = 429 \<and> reason \<noteq> ''KeyBusy'') \<or>
        (hsStatus resp = 409 \<and> reason = ''NoCapacity'') \<or> (hsStatus resp \<in> {502, 503} \<and> reason = ''Unavailable''))
    | _ \<Rightarrow> False)"

text \<open>The request may have taken effect: no answer or a broken one, an unreadable object, or a status that says nothing about it.\<close>

definition gw_unclear :: "gateway_object decoder \<Rightarrow> 'b http_request \<Rightarrow> http_answer \<Rightarrow> bool" where
  "gw_unclear decode q a = (case a of
      NotBuilt e \<Rightarrow> False
    | NoAnswer e \<Rightarrow> True
    | BrokenBody st e \<Rightarrow> True
    | Answer resp \<Rightarrow> (if hsStatus resp \<in> {200, 201} then snd (decode (hsBody resp)) \<noteq> None
        else hsStatus resp \<notin> {400, 401, 403, 404, 409, 422, 429} \<and> \<not> gw_refused decode a))"

lemma gw_classify_unclear:
  "gw_unclear decode q (Answer resp) \<Longrightarrow> unresolved (Some (gw_classifyHTTPError decode b resp))"
  by (auto simp: gw_classifyHTTPError_def gw_refused_def gw_unclear_def unresolved_def Let_def split: if_splits)

lemma gw_classify_spill:
  "spilling_kind (KindOf (Some (gw_classifyHTTPError decode b resp))) \<Longrightarrow> gw_refused decode (Answer resp)"
  by (auto simp: gw_classifyHTTPError_def gw_refused_def Let_def split: if_splits)

text \<open>Programs that send nothing and whose errors do not spill.\<close>

definition gw_local :: "('b, handle \<times> go_error option) http \<Rightarrow> bool" where
  "gw_local m \<longleftrightarrow> (\<forall>w. case run_state m w of ((h, err), w') \<Rightarrow> hwEnv w' = hwEnv w \<and> hwLog w' = hwLog w \<and>
     (case err of None \<Rightarrow> True | Some e \<Rightarrow> \<not> spilling_kind (KindOf (Some e)) \<and> h = empty_handle))"

lemma gw_local_fail: "\<not> spilling_kind (KindOf (Some e)) \<Longrightarrow> gw_local (hret (empty_handle, Some e))"
  by (simp add: gw_local_def http_run)

lemma gw_local_ok: "gw_local (hret (h, None))"
  by (simp add: gw_local_def http_run)

lemma gw_local_now: "(\<And>t. gw_local (f t)) \<Longrightarrow> gw_local (State_Monad.bind http_now f)"
  by (fastforce simp: gw_local_def http_run split: prod.splits)

lemma gw_local_let: "(\<And>t. gw_local (f t)) \<Longrightarrow> gw_local (State_Monad.bind (if c then State_Monad.bind http_now (\<lambda>now. hret (g now)) else hret x) f)"
  by (fastforce simp: gw_local_def http_run split: prod.splits)

lemma gw_local_if: "gw_local m \<Longrightarrow> gw_local m' \<Longrightarrow> gw_local (if c then m else m')"
  by simp

lemma gw_local_option: "gw_local m \<Longrightarrow> (\<And>t. gw_local (f t)) \<Longrightarrow> gw_local (case x of None \<Rightarrow> m | Some t \<Rightarrow> f t)"
  by (simp split: option.splits)

lemma gw_inspect_local: "gw_local (gw_inspectClaimObject parse_time b obj name req)"
  unfolding gw_inspectClaimObject_def Let_def
  by (intro gw_local_if gw_local_option gw_local_now gw_local_let gw_local_ok gw_local_fail) simp_all

lemma gw_inspect_run:
  "run_state (gw_inspectClaimObject parse_time b obj name req) w = ((h, err), w') \<Longrightarrow>
     hwEnv w' = hwEnv w \<and> hwLog w' = hwLog w \<and> (case err of None \<Rightarrow> True | Some e \<Rightarrow> \<not> spilling_kind (KindOf (Some e)) \<and> h = empty_handle)"
  using gw_inspect_local [of parse_time b obj name req] unfolding gw_local_def by (drule_tac x = w in spec) simp

lemma gw_Lookup_run:
  assumes "run_state (gw_Lookup sha decode parse_time b req) w = ((h, err), w')"
  shows "hwEnv w' = hwEnv w \<and> (case err of None \<Rightarrow> True
    | Some e \<Rightarrow> h = empty_handle \<and> (spilling_kind (KindOf (Some e)) \<longrightarrow> hwTick w < hwTick w' \<and> gw_refused decode (last_answer w')))"
  using assms
  by (auto simp: doubts_end_def gw_Lookup_def Let_def http_run last_answer_def gw_refused_def dest: gw_inspect_run gw_classify_spill
      split: if_splits option.splits http_answer.splits prod.splits)

lemma gw_Claim_run:
  assumes "run_state (gw_Claim sha decode parse_time b req) w = ((h, err), w')"
  shows "hwEnv w' = hwEnv w \<and> (case err of None \<Rightarrow> True
    | Some e \<Rightarrow> h = empty_handle \<and> (spilling_kind (KindOf (Some e)) \<longrightarrow> hwTick w < hwTick w' \<and> gw_refused decode (last_answer w')))"
  using assms
  by (auto simp: gw_Claim_def Let_def http_run last_answer_def gw_refused_def
      dest!: gw_inspect_run gw_Lookup_run dest: gw_classify_spill
      split: if_splits option.splits http_answer.splits prod.splits)

lemma gw_inspect_doubts:
  "htriple (\<lambda>w. ambiguous_answers unclear w = n) (gw_inspectClaimObject parse_time b obj name req) (\<lambda>r. doubts_end unclear n (snd r))"
  using gw_inspect_run [of parse_time b obj name req] unfolding htriple_def
  by (fastforce simp: doubts_end_def ambiguous_answers_def split: prod.splits)

lemma gw_Lookup_doubts:
  "htriple (\<lambda>w. ambiguous_answers (gw_unclear decode) w = n) (gw_Lookup sha decode parse_time b req) (\<lambda>r. doubts_end (gw_unclear decode) n (snd r))"
  unfolding gw_Lookup_def Let_def
  by (intro ht_bind [OF ht_heard] ht_intro ht_fail_heard ht_clear_heard gw_inspect_doubts gw_classify_unclear)
    (simp_all add: gw_unclear_def)

lemma gw_Claim_doubts:
  "htriple (\<lambda>w. ambiguous_answers (gw_unclear decode) w = n) (gw_Claim sha decode parse_time b req) (\<lambda>r. doubts_end (gw_unclear decode) n (snd r))"
  unfolding gw_Claim_def Let_def
  by (intro ht_bind [OF ht_heard] ht_intro ht_fail_heard ht_clear_heard gw_inspect_doubts gw_Lookup_doubts gw_classify_unclear)
    (simp_all add: gw_unclear_def, blast)

interpretation gateway: refusing_adapter "gw_Claim sha decode parse_time b" "gw_refused decode" "gw_unclear decode"
proof
  fix req h e w and w' :: "gateway_claim http_world"
  assume "run_state (gw_Claim sha decode parse_time b req) w = ((h, Some e), w')" "spilling_kind (KindOf (Some e))"
  from gw_Claim_run [OF this(1)] this(2) show "hwTick w' = hwTick w \<or> (hwTick w < hwTick w' \<and> gw_refused decode (last_answer w'))"
    by simp
next
  fix req r w and w' :: "gateway_claim http_world"
  assume "run_state (gw_Claim sha decode parse_time b req) w = (r, w')"
  then show "hwEnv w' = hwEnv w" using gw_Claim_run by (cases r) blast
next
  fix req h err w and w' :: "gateway_claim http_world"
  assume "run_state (gw_Claim sha decode parse_time b req) w = ((h, err), w')"
  from ht_runD(2) [OF gw_Claim_doubts refl this] show "doubts_end (gw_unclear decode) (ambiguous_answers (gw_unclear decode) w) err w'"
    by simp
qed

section \<open>Handles\<close>

definition gw_belongs :: "gateway_object \<Rightarrow> claim_request \<Rightarrow> bool" where
  "gw_belongs obj req \<longleftrightarrow> goDeletionTimestamp obj = [] \<and>
     (get_str (goLabels obj) LabelOwner = [] \<or> crOwner req = [] \<or> get_str (goLabels obj) LabelOwner = crOwner req) \<and>
     get_str (goAnnotations obj) AnnotationKey \<in> {[], crKey req} \<and>
     (get_str (goAnnotations obj) AnnotationSpecHash = [] \<or> crSpecHash req = [] \<or>
      get_str (goAnnotations obj) AnnotationSpecHash = crSpecHash req)"

text \<open>The expiry of a handle: the one of the object if it was ahead of the clock, or else the requested lifetime from the clock on.\<close>

definition gw_expiry :: "time_parser \<Rightarrow> gateway_object \<Rightarrow> claim_request \<Rightarrow> 'b http_world \<Rightarrow> gotime \<Rightarrow> bool" where
  "gw_expiry parse_time obj req w t \<longleftrightarrow>
     (let rawExp = get_str (goAnnotations obj) AnnotationExpiresAt; clock = hxNow (hwEnv w (hwTick w - 1)) in
      case (if rawExp = [] then None else parse_time rawExp) of
        Some e \<Rightarrow> if e = zero_time \<and> crTTL req > 0 then t = clock + crTTL req
          else t = e \<and> clock < e
      | None \<Rightarrow> if crTTL req > 0 then t = clock + crTTL req else t = zero_time)"

lemma gw_inspect_ok:
  assumes "run_state (gw_inspectClaimObject parse_time b obj name req) w = ((h, None), w')"
  shows "gw_belongs obj req \<and> hProvider h = gbId b \<and> hID h = (if goName obj = [] then name else goName obj) \<and>
     hVersion h = goUID obj \<and> gw_expiry parse_time obj req w' (hExpiresAt h) \<and> hwLog w' = hwLog w"
proof -
  define found where "found = (if get_str (goAnnotations obj) AnnotationExpiresAt \<noteq> [] then
     parse_time (get_str (goAnnotations obj) AnnotationExpiresAt) else None)"
  have found_eq: "(if get_str (goAnnotations obj) AnnotationExpiresAt = [] then None
     else parse_time (get_str (goAnnotations obj) AnnotationExpiresAt)) = found"
    by (simp add: found_def)
  have belongs: "gw_belongs obj req"
    using assms unfolding gw_inspectClaimObject_def Let_def gw_belongs_def
    by (simp add: http_run_return split: if_splits; blast)
  then have run: "run_state (case found of
        None \<Rightarrow> (if zero_time = zero_time \<and> crTTL req > 0 then do { now \<leftarrow> http_now; hret (now + crTTL req) } else hret zero_time) \<bind>
          (\<lambda>t. hret (empty_handle\<lparr>hProvider := gbId b, hID := if goName obj = [] then name else goName obj, hVersion := goUID obj,
            hEndpoint := gbEndpoint b, hExpiresAt := t\<rparr>, None))
      | Some t \<Rightarrow> http_now \<bind> (\<lambda>now. if \<not> t > now then hret (empty_handle, Some ErrNotFound) else
          (if t = zero_time \<and> crTTL req > 0 then do { now \<leftarrow> http_now; hret (now + crTTL req) } else hret t) \<bind>
          (\<lambda>t. hret (empty_handle\<lparr>hProvider := gbId b, hID := if goName obj = [] then name else goName obj, hVersion := goUID obj,
            hEndpoint := gbEndpoint b, hExpiresAt := t\<rparr>, None)))) w = ((h, None), w')"
    using assms unfolding gw_inspectClaimObject_def Let_def found_def [symmetric] gw_belongs_def
    by (cases found) (auto simp: http_run split: if_splits)
  show ?thesis
  proof (cases found)
    case None
    with run belongs show ?thesis
      by (cases "crTTL req > 0") (auto simp: gw_expiry_def Let_def found_eq http_run)
  next
    case (Some t)
    with run have t: "hxNow (hwEnv w (hwTick w)) < t" by (auto simp: http_run split: if_splits)
    with run belongs Some show ?thesis
      by (cases "t = zero_time \<and> crTTL req > 0") (auto simp: gw_expiry_def Let_def found_eq http_run)
  qed
qed

definition gw_object_for :: "(string \<Rightarrow> string) \<Rightarrow> gateway_object decoder \<Rightarrow> time_parser \<Rightarrow> gw_binder \<Rightarrow> claim_request \<Rightarrow> handle
    \<Rightarrow> 'b http_world \<Rightarrow> bool" where
  "gw_object_for sha decode parse_time b req h w \<longleftrightarrow>
     (case hwLog w of [] \<Rightarrow> False | (hreq, a) # _ \<Rightarrow> (case a of
        Answer resp \<Rightarrow> hsStatus resp \<in> {200, 201} \<and>
          (case decode (hsBody resp) of
             (obj, None) \<Rightarrow> gw_belongs obj req \<and> hProvider h = gbId b \<and> hVersion h = goUID obj \<and>
               hID h = (if goName obj = [] then SandboxName sha (crOwner req) (crKey req) else goName obj) \<and>
               gw_expiry parse_time obj req w (hExpiresAt h)
           | _ \<Rightarrow> False)
      | _ \<Rightarrow> False))"

lemma gw_Lookup_ok:
  "run_state (gw_Lookup sha decode parse_time b req) w = ((h, None), w') \<Longrightarrow> gw_object_for sha decode parse_time b req h w'"
  by (auto simp: gw_Lookup_def Let_def http_run gw_object_for_def dest!: gw_inspect_ok
      split: if_splits option.splits http_answer.splits prod.splits)

lemma gw_Claim_ok:
  "run_state (gw_Claim sha decode parse_time b req) w = ((h, None), w') \<Longrightarrow> gw_object_for sha decode parse_time b req h w'"
  by (auto simp: gw_Claim_def Let_def http_run gw_payload_def dest!: gw_inspect_ok gw_Lookup_ok
      split: if_splits option.splits http_answer.splits prod.splits)
    (auto simp: gw_object_for_def)

section \<open>Examples\<close>

definition ex_answer :: "int \<Rightarrow> http_answer" where
  "ex_answer st = Answer \<lparr>hsStatus = st, hsBody = [], hsRetryAfter = []\<rparr>"

definition ex_object :: gateway_object where
  "ex_object = \<lparr>goName = [], goUID = [], goResourceVersion = [], goDeletionTimestamp = [], goLabels = [], goAnnotations = [],
     goError = [], goReason = [], goRetryAfterMs = 0\<rparr>"

section \<open>What the adapter guarantees\<close>

text \<open>Where the transport fails at every request, the outcome stays unknown.\<close>

lemma gw_transport_never_spills:
  assumes "\<forall>i. case hxAnswer (hwEnv w i) of NoAnswer _ \<Rightarrow> True | BrokenBody _ _ \<Rightarrow> True | _ \<Rightarrow> False"
    and run: "run_state (gw_Claim sha decode parse_time b req) w = ((h, Some e), w')"
  shows "\<not> spilling_kind (KindOf (Some e))"
proof (rule gateway.no_refusal_no_spill [OF _ run])
  show "\<forall>i. \<not> gw_refused decode (hxAnswer (hwEnv w i))"
    using assms(1) by (auto simp: gw_refused_def split: http_answer.splits)
  show "hwTick w' \<noteq> hwTick w"
    using run spec [OF assms(1), of "hwTick w"]
    by (auto simp: gw_Claim_def gw_payload_def Let_def http_run split: http_answer.splits)
qed

text \<open>The addresses of the requests that a program sends.\<close>

definition sent_urls :: "('b, 'a) http \<Rightarrow> 'b http_world \<Rightarrow> string list" where
  "sent_urls m w = map (hqURL \<circ> fst) (hwLog (snd (run_state m (w\<lparr>hwLog := []\<rparr>))))"

text \<open>C30: the gateway adapter lets a claim move on to another provider only after an explicit refusal: its last request could
  not be built, or the last answer it got, to the claim or to the lookup that follows a plain conflict, was a rejection (400,
  401, 403, 422), a rate limit that is not about the key (429), a conflict with the reason \<open>NoCapacity\<close>, or a 502 or 503
  with the reason \<open>Unavailable\<close>. After an ambiguous answer, which is none at all (a refused connection included), a broken
  one, an unreadable object or a failure status beside those, 404 and 409 (such as 408, 500, or 502 and 503 without the reason), no further request is sent and the claim fails with an unknown
  outcome: neither a handle, nor a conflict, nor \<open>ErrNotFound\<close>.\<close>

theorem gw_spill_needs_refusal:
  "case run_state (gw_Claim sha decode parse_time b req) w of
     ((h, err), w') \<Rightarrow>
       (if ambiguous_answers (gw_unclear decode) w' = ambiguous_answers (gw_unclear decode) w then True
        else h = empty_handle \<and> in_doubt (gw_unclear decode) (ambiguous_answers (gw_unclear decode) w) err w') \<and>
       (case err of None \<Rightarrow> True
        | Some e \<Rightarrow> h = empty_handle \<and> (if spilling_kind (KindOf (Some e)) then gw_refused decode (last_answer w') else True))"
proof -
  obtain h err w' where run: "run_state (gw_Claim sha decode parse_time b req) w = ((h, err), w')" by (metis prod.exhaust)
  show ?thesis using gw_Claim_run [OF run] gateway.ambiguous_unresolved [OF run]
    by (auto simp: run doubts_end_def in_doubt_def unresolved_def split: option.splits)
qed

text \<open>C31: a handle that a claim returns stands for the object in the gateway's last answer. The object is not being deleted,
  names no other owner, key or spec hash than the request, and had not expired when the handle was made; the handle carries
  its name and UID.\<close>

theorem gw_handle_verified:
  "case run_state (gw_Claim sha decode parse_time b req) w of
     ((h, None), w') \<Rightarrow> gw_object_for sha decode parse_time b req h w'
   | ((h, Some e), w') \<Rightarrow> True"
  using gw_Claim_ok [of sha decode parse_time b req w] by (auto split: prod.splits option.splits)

text \<open>The address of a release identifies the sandbox and the version that it asks for.\<close>

theorem gw_release_address:
  assumes "hID h \<noteq> []" "hID h' \<noteq> []"
    and "sent_urls (gw_Release decode b h) w = [u]" "sent_urls (gw_Release decode b h') w' = [u]"
  shows "hID h = hID h' \<and> hVersion h = hVersion h'"
proof -
  define url :: "handle \<Rightarrow> string" where "url = (\<lambda>h. PathEscape (hID h) @ (if hVersion h \<noteq> [] then ''?uid='' @ QueryEscape (hVersion h) else []))"
  from assms have eq: "url h = url h'"
    by (auto simp: sent_urls_def gw_Release_def http_run Let_def sandbox_url_def url_def split: http_answer.splits)
  define cut where "cut = takeWhile (\<lambda>c. c \<noteq> CHR ''?'')"
  have cut: "cut (url x) = PathEscape (hID x)" for x
    using PathEscape_plain(1) [of "hID x"] by (auto simp: cut_def url_def takeWhile_append)
  from cut [of h] cut [of h'] eq have path: "PathEscape (hID h) = PathEscape (hID h')" by simp
  then have i: "hID h = hID h'" using unescape_PathEscape by metis
  from eq path have "(if hVersion h \<noteq> [] then ''?uid='' @ QueryEscape (hVersion h) else []) =
      (if hVersion h' \<noteq> [] then ''?uid='' @ QueryEscape (hVersion h') else [])"
    by (simp add: url_def split: if_splits)
  then have "hVersion h = hVersion h'"
    using unescape_QueryEscape by (cases "hVersion h = []"; cases "hVersion h' = []") (auto, metis)
  with i show ?thesis by simp
qed

theorem gw_release_address_witness:
  "hID (empty_handle\<lparr>hID := ''a/b'', hVersion := ''1''\<rparr>) = hID (empty_handle\<lparr>hID := ''a/b'', hVersion := ''1'', hEndpoint := ''e''\<rparr>) \<and>
   hVersion (empty_handle\<lparr>hID := ''a/b'', hVersion := ''1''\<rparr>) = hVersion (empty_handle\<lparr>hID := ''a/b'', hVersion := ''1'', hEndpoint := ''e''\<rparr>)"
  by (rule gw_release_address [where decode = "\<lambda>s. (ex_object, None)" and b = "\<lparr>gbId = [], gbEndpoint = ''u'', gbToken = [], gbTemplates = []\<rparr>"
        and w = "\<lparr>hwEnv = (\<lambda>n. \<lparr>hxAnswer = Answer \<lparr>hsStatus = 204, hsBody = [], hsRetryAfter = []\<rparr>, hxNow = 0\<rparr>), hwTick = 0, hwLog = [], hwBackground = []\<rparr>"
        and w' = "\<lparr>hwEnv = (\<lambda>n. \<lparr>hxAnswer = Answer \<lparr>hsStatus = 204, hsBody = [], hsRetryAfter = []\<rparr>, hxNow = 0\<rparr>), hwTick = 0, hwLog = [], hwBackground = []\<rparr>"
        and u = "''u/sandboxes/'' @ PathEscape ''a/b'' @ ''?uid='' @ QueryEscape ''1''"])
    (simp_all add: sent_urls_def gw_Release_def http_run Let_def sandbox_url_def)

section \<open>A conflict that spills\<close>

text \<open>When the gateway answers a claim with a plain 409 because a sandbox for the key exists, and rate-limits the lookup
  that follows, the adapter reports the kind \<open>Busy\<close>, on which the binder claims from another provider although this one
  holds a sandbox for the key.\<close>

theorem gw_conflict_spills:
  "case run_state (gw_Claim sha (\<lambda>s. (ex_object, None)) parse_time b req)
       \<lparr>hwEnv = (\<lambda>n. \<lparr>hxAnswer = ex_answer (if n = 0 then 409 else 429), hxNow = now\<rparr>), hwTick = 0, hwLog = [], hwBackground = []\<rparr> of
     ((h, err), w') \<Rightarrow> KindOf err = KindBusy \<and> spilling_kind (KindOf err) \<and>
       map (\<lambda>(q, a). (hqMethod q, a)) (hwLog w') = [(GET, ex_answer 429), (POST, ex_answer 409)]"
  by (simp add: gw_payload_def gw_Claim_def gw_Lookup_def http_run Let_def ex_answer_def ex_object_def gw_classifyHTTPError_def)

end
