(* ===== verification/E2B.thy ===== *)
theory E2B
  imports HttpClient Adapter Float64
begin

text \<open>
  \<open>pkg/adapter/e2b/e2b.go\<close>: polls, claims, lookups and releases against the E2B API. Parameters are the decoders of JSON
  (each is what \<open>json.Unmarshal\<close> leaves behind and its error) and the coding of timestamps: the layouts RFC 3339 with and
  without a fraction accept the same strings, so that one parser stands for both. A deletion in the background is noted in the world;
  \<open>e2b_Release\<close> is what its goroutine runs.
\<close>

section \<open>Settings\<close>

definition DefaultEndpoint :: string where "DefaultEndpoint = ''https://api.e2b.app''"
definition DefaultDomain :: string where "DefaultDomain = ''e2b.app''"
definition DefaultTemplate :: string where "DefaultTemplate = ''base''"
definition MetaOwner :: string where "MetaOwner = ''placement.agents.x-k8s.io/owner''"
definition MetaKey :: string where "MetaKey = ''placement.agents.x-k8s.io/key''"
definition MetaSpecHash :: string where "MetaSpecHash = ''placement.agents.x-k8s.io/spec-hash''"
definition MetaExpiresAt :: string where "MetaExpiresAt = ''placement.agents.x-k8s.io/expires-at''"
definition MetaCreateDeadline :: string where "MetaCreateDeadline = ''placement.agents.x-k8s.io/create-deadline''"

record e2b_client =
  ecId :: string
  ecEndpoint :: string
  ecDomain :: string
  ecToken :: string
  ecTeamID :: string
  ecBearer :: bool
  ecTemplates :: "(string, string) gomap"
  ecDefaultTemplate :: string

definition or_else :: "string \<Rightarrow> string \<Rightarrow> string" where
  "or_else s fallback = (if s = [] then fallback else s)"

text \<open>The templates in the order in which the loop meets them: the first empty reference is the error.\<close>

fun e2b_templates :: "string \<Rightarrow> (string, string) gomap \<Rightarrow> (string, string) gomap \<Rightarrow> go_error + (string, string) gomap" where
  "e2b_templates i [] acc = Inr acc"
| "e2b_templates i ((k, v) # m) acc =
     (if TrimSpace v = [] then Inl (NewError (i @ '': template '' @ quote k @ '' has an empty e2b template reference''))
      else e2b_templates i m (go_put k v acc))"

definition e2b_factory :: "adapter_config \<Rightarrow> go_error + e2b_client" where
  "e2b_factory cfg =
     (let endpoint = or_else (TrimRight_slash (acEndpoint cfg)) DefaultEndpoint;
          token = or_else (Credential cfg ''token'') (Credential cfg ''apiKey'');
          teamID = or_else (TrimSpace (get_str (acOptions cfg) ''teamID'')) (TrimSpace (Credential cfg ''teamID''));
          mode = get_str (acOptions cfg) ''authMode'';
          authMode = ToLower (TrimSpace mode);
          bearer_auth = (authMode = ''bearer'')
      in if authMode \<notin> {[], ''x-api-key'', ''bearer''} then
           Inl (NewError (acProviderID cfg @ '': invalid e2b authMode '' @ quote mode @ '' (want '' @ quote ''x-api-key'' @ '' or '' @ quote ''bearer'' @ '')''))
         else if bearer_auth \<and> teamID = [] then
           Inl (NewError (acProviderID cfg @ '': e2b bearer authMode requires '' @ quote ''teamID'' @ '' in options or credentials''))
         else (case e2b_templates (acProviderID cfg) (acTemplates cfg) [] of
             Inl err \<Rightarrow> Inl err
           | Inr templates \<Rightarrow> Inr \<lparr>ecId = acProviderID cfg, ecEndpoint = endpoint,
               ecDomain = or_else (TrimSpace (get_str (acOptions cfg) ''domain'')) DefaultDomain, ecToken = token, ecTeamID = teamID,
               ecBearer = bearer_auth, ecTemplates = templates,
               ecDefaultTemplate = or_else (get_str (acOptions cfg) ''defaultTemplate'') DefaultTemplate\<rparr>))"

section \<open>Payloads\<close>

record create_request =
  xrTemplateID :: string
  xrTimeout :: int
  xrMetadata :: "(string, string) gomap"

datatype e2b_body = CreateBody create_request | TimeoutBody int

record sandbox_object =
  sbSandboxID :: string
  sbTemplateID :: string
  sbClientID :: string
  sbStartedAt :: string
  sbEndAt :: string
  sbState :: string
  sbDeleting :: bool
  sbVersion :: string
  sbDomain :: string
  sbEnvdToken :: string
  sbMetadata :: "(string, string) gomap"
  sbError :: string
  sbErrorCode :: string
  sbMessage :: string
  sbReason :: string

text \<open>What the client takes from the standard library: decoders of an object, a list and a wrapper of lists, and timestamps.\<close>

record e2b_codec =
  cdObject :: "string \<Rightarrow> sandbox_object \<times> transport_error option"
  cdList :: "string \<Rightarrow> transport_error + sandbox_object list"
  cdWrapper :: "string \<Rightarrow> transport_error + sandbox_object list \<times> sandbox_object list"
  cdParse :: "string \<Rightarrow> gotime option"
  cdFormat :: "gotime \<Rightarrow> string"
  cdFormatNano :: "gotime \<Rightarrow> string"

section \<open>Helpers\<close>

fun e2b_nonEmpty :: "string list \<Rightarrow> string" where
  "e2b_nonEmpty [] = []"
| "e2b_nonEmpty (v # vs) = (if TrimSpace v \<noteq> [] then v else e2b_nonEmpty vs)"

definition e2b_parseRetryAfter :: "string \<Rightarrow> duration" where
  "e2b_parseRetryAfter raw =
     (let raw = TrimSpace raw in
      if raw = [] then 500 * millisecond
      else case Atoi raw of
          Some secs \<Rightarrow> if secs > 0 then wrap64 (secs * second) else 500 * millisecond
        | None \<Rightarrow> 500 * millisecond)"

definition isNoCapacityError :: "sandbox_object \<Rightarrow> bool" where
  "isNoCapacityError sb \<longleftrightarrow> sbReason sb = ''NoCapacity'' \<or>
     ToLower (TrimSpace (sbErrorCode sb)) \<in> {''sandbox_capacity_unavailable'', ''sandbox_no_compatible_node'',
       ''insufficient_capacity'', ''no_capacity'', ''quota_exceeded''}"

definition isUnavailableError :: "sandbox_object \<Rightarrow> bool" where
  "isUnavailableError sb \<longleftrightarrow> sbReason sb = ''Unavailable'' \<or>
     ToLower (TrimSpace (sbErrorCode sb)) \<in> {''service_unavailable'', ''unavailable''}"

definition decodeSandboxList :: "e2b_codec \<Rightarrow> string \<Rightarrow> transport_error + sandbox_object list" where
  "decodeSandboxList cd body =
     (case TrimSpace body of
        [] \<Rightarrow> Inr []
      | c # cs \<Rightarrow>
          (if c = CHR ''['' then cdList cd (c # cs)
           else (case cdWrapper cd (c # cs) of
               Inl err \<Rightarrow> Inl err
             | Inr (sandboxes, items) \<Rightarrow> Inr (if length sandboxes > 0 then sandboxes else items))))"

text \<open>\<open>int64(math.Ceil(d.Seconds()))\<close>.\<close>

definition ceil_seconds :: "duration \<Rightarrow> int" where
  "ceil_seconds d =
     (let sec = go_div d second; nsec = d - sec * second
      in \<lceil>fl64 (fl64 (of_int sec) + fdiv (of_int nsec) (10 ^ 9))\<rceil>)"

definition e2b_resolveTemplate :: "e2b_client \<Rightarrow> string \<Rightarrow> go_error + string" where
  "e2b_resolveTemplate c logical =
     (if get_str (ecTemplates c) logical \<noteq> [] then Inr (get_str (ecTemplates c) logical)
      else if length (ecTemplates c) > 0 \<and> logical \<noteq> [] then
        Inl (Rejected (Some (NewError (ecId c @ '': unknown template '' @ quote logical))))
      else if logical \<noteq> [] then Inr logical
      else if get_str (ecTemplates c) ''default'' \<noteq> [] then Inr (get_str (ecTemplates c) ''default'')
      else Inr (or_else (ecDefaultTemplate c) DefaultTemplate))"

definition newRequest :: "e2b_client \<Rightarrow> http_method \<Rightarrow> string \<Rightarrow> e2b_body option \<Rightarrow> e2b_body http_request" where
  "newRequest c meth u body =
     \<lparr>hqMethod = meth, hqURL = u,
      hqHeaders = (if body \<noteq> None then [(''Content-Type'', ''application/json'')] else [])
        @ (if ecToken c \<noteq> [] then [if ecBearer c then (''Authorization'', ''Bearer '' @ ecToken c) else (''X-API-Key'', ecToken c)] else [])
        @ (if ecTeamID c \<noteq> [] then [(''X-Team-ID'', ecTeamID c)] else []),
      hqBody = body\<rparr>"

definition e2b_classifyHTTPError :: "e2b_codec \<Rightarrow> e2b_client \<Rightarrow> http_response \<Rightarrow> go_error" where
  "e2b_classifyHTTPError cd c resp =
     (let parsed = fst (cdObject cd (hsBody resp));
          msg = e2b_nonEmpty [sbError parsed, sbMessage parsed, TrimSpace (hsBody resp), status_text (hsStatus resp)];
          baseErr = NewError (ecId c @ '': HTTP '' @ dec_int (hsStatus resp) @ '': '' @ msg);
          retryAfter = e2b_parseRetryAfter (hsRetryAfter resp);
          st = hsStatus resp
      in if st = 401 \<or> st = 403 \<or> st = 400 \<or> st = 422 then Rejected (Some baseErr)
         else if st = 409 then
           (if isNoCapacityError parsed then NoCapacity (Some baseErr)
            else if sbReason parsed = ''KeyConflict'' \<or> sbReason parsed = ''SpecMismatch'' then KeyConflict (Some baseErr)
            else baseErr)
         else if st = 429 then
           (if sbReason parsed = ''KeyBusy'' then KeyBusy retryAfter (Some baseErr) else Busy retryAfter (Some baseErr))
         else if st = 503 \<or> st = 502 then
           (if isNoCapacityError parsed then NoCapacity (Some baseErr)
            else if isUnavailableError parsed then Unavailable (Some baseErr)
            else baseErr)
         else baseErr)"

text \<open>A request and its answer, or its error under the names of the operation.\<close>

definition e2b_call :: "e2b_client \<Rightarrow> string \<Rightarrow> string \<Rightarrow> e2b_body http_request \<Rightarrow> (e2b_body, go_error + http_response) http" where
  "e2b_call c failed reading hreq = do {
     a \<leftarrow> http_do hreq;
     hret (case a of
         NotBuilt err \<Rightarrow> Inl (Rejected (Some (transport_err err)))
       | NoAnswer err \<Rightarrow> Inl (WrapError (ecId c @ failed) (transport_err err))
       | BrokenBody st err \<Rightarrow> Inl (WrapError (ecId c @ reading) (transport_err err))
       | Answer resp \<Rightarrow> Inr resp) }"

section \<open>Capacity\<close>

text \<open>\<open>Fetch\<close> discards the body and does not look at errors while it reads it.\<close>

definition e2b_Fetch :: "e2b_client \<Rightarrow> (e2b_body, go_error + report) http" where
  "e2b_Fetch c = do {
     a \<leftarrow> http_do (newRequest c GET (ecEndpoint c @ ''/v2/sandboxes?state=running&limit=1'') None);
     (let status_report = (\<lambda>st. if st \<noteq> 200 then Inl (NewError (ecId c @ '': e2b poll returned HTTP '' @ dec_int st))
            else Inr \<lparr>repWarmCapacity = 0, repElastic = True, repAttributes = [(''adapter'', ''e2b'')]\<rparr>)
      in hret (case a of
         NotBuilt err \<Rightarrow> Inl (transport_err err)
       | NoAnswer err \<Rightarrow> Inl (WrapError (ecId c @ '': polling e2b: '') (transport_err err))
       | BrokenBody st err \<Rightarrow> status_report st
       | Answer resp \<Rightarrow> status_report (hsStatus resp))) }"

section \<open>Releases and timeouts\<close>

definition sandbox_path :: "e2b_client \<Rightarrow> string \<Rightarrow> string" where
  "sandbox_path c sandboxID = ecEndpoint c @ ''/sandboxes/'' @ PathEscape sandboxID"

definition e2b_Release :: "e2b_codec \<Rightarrow> e2b_client \<Rightarrow> handle \<Rightarrow> (e2b_body, go_error option) http" where
  "e2b_Release cd c h =
     (if hID h = [] then hret (Some (Rejected (Some (NewError ''sandbox ID is required''))))
      else if hVersion h \<noteq> [] then
        hret (Some (Rejected (Some (NewError (ecId c @ '': e2b delete does not support version preconditions'')))))
      else do {
        r \<leftarrow> e2b_call c '': e2b release failed: '' '': reading e2b release response: ''
               (newRequest c DELETE (sandbox_path c (hID h)) None);
        hret (case r of
            Inl err \<Rightarrow> Some err
          | Inr resp \<Rightarrow>
              (if hsStatus resp = 404 then None
               else if 200 \<le> hsStatus resp \<and> hsStatus resp < 300 then None
               else Some (e2b_classifyHTTPError cd c resp))) })"

definition setSandboxTimeout :: "e2b_codec \<Rightarrow> e2b_client \<Rightarrow> string \<Rightarrow> int \<Rightarrow> (e2b_body, go_error option) http" where
  "setSandboxTimeout cd c sandboxID timeoutSec = do {
     r \<leftarrow> e2b_call c '': setting e2b sandbox timeout: '' '': reading e2b sandbox timeout response: ''
            (newRequest c POST (sandbox_path c sandboxID @ ''/timeout'')
              (Some (TimeoutBody (if timeoutSec < 1 then 1 else timeoutSec))));
     hret (case r of
         Inl err \<Rightarrow> Some err
       | Inr resp \<Rightarrow> if 200 \<le> hsStatus resp \<and> hsStatus resp < 300 then None else Some (e2b_classifyHTTPError cd c resp)) }"

definition deleteSandboxAsync :: "string \<Rightarrow> ('b, unit) http" where
  "deleteSandboxAsync sandboxID = (if sandboxID = [] then hret () else http_background sandboxID)"

section \<open>Sandboxes and handles\<close>

definition getSandboxDetail :: "e2b_codec \<Rightarrow> e2b_client \<Rightarrow> string \<Rightarrow> (e2b_body, go_error + sandbox_object) http" where
  "getSandboxDetail cd c sandboxID = do {
     r \<leftarrow> e2b_call c '': e2b get sandbox detail failed: '' '': reading e2b sandbox detail response: ''
            (newRequest c GET (sandbox_path c sandboxID) None);
     hret (case r of
         Inl err \<Rightarrow> Inl err
       | Inr resp \<Rightarrow>
           (if hsStatus resp = 404 then Inl ErrNotFound
            else if hsStatus resp \<noteq> 200 then Inl (e2b_classifyHTTPError cd c resp)
            else (case cdObject cd (hsBody resp) of
                (detail, Some err) \<Rightarrow> Inl (WrapError (ecId c @ '': unparseable e2b sandbox detail response: '') (transport_err err))
              | (detail, None) \<Rightarrow> Inr detail))) }"

definition e2b_expiry :: "e2b_codec \<Rightarrow> sandbox_object \<Rightarrow> gotime" where
  "e2b_expiry cd sb =
     (let read = (\<lambda>raw. if raw = [] then zero_time else case cdParse cd raw of None \<Rightarrow> zero_time | Some t \<Rightarrow> t);
          t = read (sbEndAt sb)
      in if t = zero_time then read (get_str (sbMetadata sb) MetaExpiresAt) else t)"

definition toHandle :: "e2b_codec \<Rightarrow> e2b_client \<Rightarrow> sandbox_object \<Rightarrow> handle" where
  "toHandle cd c sb =
     (let dmn = or_else (or_else (sbDomain sb) (ecDomain c)) DefaultDomain
      in empty_handle\<lparr>hProvider := ecId c, hID := sbSandboxID sb, hEndpoint := ecEndpoint c,
           hConnect := [(''sandboxID'', sbSandboxID sb), (''domain'', dmn)]
             @ (if sbSandboxID sb \<noteq> [] then [(''envdUrl'', ''https://49983-'' @ sbSandboxID sb @ ''.'' @ dmn)] else [])
             @ (if sbClientID sb \<noteq> [] then [(''clientID'', sbClientID sb)] else [])
             @ (if sbEnvdToken sb \<noteq> [] then [(''envdAccessToken'', sbEnvdToken sb)] else []),
           hExpiresAt := e2b_expiry cd sb\<rparr>)"

definition terminating :: "sandbox_object \<Rightarrow> bool" where
  "terminating sb \<longleftrightarrow> sbDeleting sb \<or> EqualFold (sbState sb) ''killing''"

definition terminating_error :: "e2b_client \<Rightarrow> string \<Rightarrow> claim_request \<Rightarrow> string \<Rightarrow> go_error" where
  "terminating_error c sandboxID req what =
     KeyBusy (500 * millisecond) (Some (NewError (ecId c @ '': e2b sandbox '' @ quote sandboxID @ '' for key '' @ quote (crKey req) @ what)))"

text \<open>The checks of \<open>inspectSandbox\<close> that need no request.\<close>

definition inspect_refusal :: "e2b_client \<Rightarrow> sandbox_object \<Rightarrow> claim_request \<Rightarrow> go_error option" where
  "inspect_refusal c sb req =
     (let existingOwner = get_str (sbMetadata sb) MetaOwner;
          existingKey = get_str (sbMetadata sb) MetaKey;
          existingHash = get_str (sbMetadata sb) MetaSpecHash
      in if terminating sb then Some (terminating_error c (sbSandboxID sb) req '' is terminating'')
         else if existingOwner \<noteq> [] \<and> crOwner req \<noteq> [] \<and> existingOwner \<noteq> crOwner req then
           Some (KeyConflict (Some (NewError (ecId c @ '': e2b sandbox '' @ quote (sbSandboxID sb) @ '' is owned by ''
             @ quote existingOwner @ '', not '' @ quote (crOwner req)))))
         else if existingKey \<noteq> [] \<and> crKey req \<noteq> [] \<and> existingKey \<noteq> crKey req then
           Some (KeyConflict (Some (NewError (ecId c @ '': e2b sandbox '' @ quote (sbSandboxID sb) @ '' belongs to key ''
             @ quote existingKey @ '', not '' @ quote (crKey req)))))
         else if existingHash \<noteq> [] \<and> crSpecHash req \<noteq> [] \<and> existingHash \<noteq> crSpecHash req then
           Some (KeyConflict (Some (NewError (ecId c @ '': key '' @ quote (crKey req) @ '' already exists with spec hash ''
             @ existingHash @ '' (want '' @ crSpecHash req @ '')''))))
         else None)"

text \<open>
  The part of \<open>inspectSandbox\<close> about the create deadline: a sandbox that still has the short timeout of its creation is
  deleted if it started late, and otherwise gets the rest of its lifetime. \<open>Inl\<close> ends the inspection.
\<close>

definition promote_timeout :: "e2b_codec \<Rightarrow> e2b_client \<Rightarrow> sandbox_object \<Rightarrow> claim_request
    \<Rightarrow> (e2b_body, go_error + sandbox_object) http" where
  "promote_timeout cd c sb req =
     (let rawDeadline = get_str (sbMetadata sb) MetaCreateDeadline in
      if rawDeadline = [] then hret (Inr sb)
      else (case (cdParse cd rawDeadline, cdParse cd (get_str (sbMetadata sb) MetaExpiresAt), cdParse cd (sbEndAt sb)) of
          (Some createDeadline, Some targetExpires, Some currentEnd) \<Rightarrow>
            (if \<not> time_sub targetExpires currentEnd > 2 * second then hret (Inr sb)
             else if (case cdParse cd (sbStartedAt sb) of None \<Rightarrow> False
                 | Some startedAt \<Rightarrow> startedAt > (if startedAt mod second = 0 then createDeadline - createDeadline mod second else createDeadline))
             then do {
               r \<leftarrow> e2b_Release cd c (empty_handle\<lparr>hProvider := ecId c, hID := sbSandboxID sb\<rparr>);
               hret (Inl ErrNotFound) }
             else do {
               now \<leftarrow> http_now;
               (let remSec = ceil_seconds (time_sub targetExpires now) in
                if remSec \<le> 0 then hret (Inl (terminating_error c (sbSandboxID sb) req '' has expired and is awaiting cleanup''))
                else do {
                  err \<leftarrow> setSandboxTimeout cd c (sbSandboxID sb) remSec;
                  hret (case err of
                      Some e \<Rightarrow> Inl e
                    | None \<Rightarrow> Inr (sb\<lparr>sbEndAt := cdFormat cd targetExpires\<rparr>)) }) })
        | _ \<Rightarrow> hret (Inr sb)))"

definition with_detail :: "sandbox_object \<Rightarrow> sandbox_object \<Rightarrow> sandbox_object" where
  "with_detail sb detail =
     sb\<lparr>sbDomain := or_else (sbDomain detail) (sbDomain sb), sbEnvdToken := or_else (sbEnvdToken detail) (sbEnvdToken sb),
        sbClientID := or_else (sbClientID detail) (sbClientID sb), sbState := or_else (sbState detail) (sbState sb),
        sbDeleting := sbDeleting detail \<or> sbDeleting sb, sbEndAt := or_else (sbEndAt detail) (sbEndAt sb)\<rparr>"

text \<open>The connection credentials that a list omits.\<close>

definition hydrate :: "e2b_codec \<Rightarrow> e2b_client \<Rightarrow> sandbox_object \<Rightarrow> claim_request \<Rightarrow> (e2b_body, go_error + sandbox_object) http" where
  "hydrate cd c sb req =
     (if sbEnvdToken sb = [] \<and> sbSandboxID sb \<noteq> [] then do {
        r \<leftarrow> getSandboxDetail cd c (sbSandboxID sb);
        hret (case r of
            Inl err \<Rightarrow> Inl err
          | Inr detail \<Rightarrow>
              (let sb = with_detail sb detail in
               if terminating sb then Inl (terminating_error c (sbSandboxID sb) req '' is terminating'') else Inr sb)) }
      else hret (Inr sb))"

definition finish_handle :: "e2b_codec \<Rightarrow> e2b_client \<Rightarrow> sandbox_object \<Rightarrow> claim_request \<Rightarrow> (e2b_body, handle \<times> go_error option) http" where
  "finish_handle cd c sb req =
     (let h = toHandle cd c sb in
      if hExpiresAt h = zero_time then hret (h, None)
      else do {
        now \<leftarrow> http_now;
        if \<not> now < hExpiresAt h then
          hret (empty_handle, Some (terminating_error c (hID h) req '' has expired and is awaiting cleanup''))
        else hret (h, None) })"

definition inspectSandbox :: "e2b_codec \<Rightarrow> e2b_client \<Rightarrow> sandbox_object \<Rightarrow> claim_request \<Rightarrow> (e2b_body, handle \<times> go_error option) http" where
  "inspectSandbox cd c sb req =
     (case inspect_refusal c sb req of
        Some err \<Rightarrow> hret (empty_handle, Some err)
      | None \<Rightarrow> do {
          p \<leftarrow> promote_timeout cd c sb req;
          (case p of
             Inl err \<Rightarrow> hret (empty_handle, Some err)
           | Inr sb \<Rightarrow> do {
               d \<leftarrow> hydrate cd c sb req;
               (case d of
                  Inl err \<Rightarrow> hret (empty_handle, Some err)
                | Inr sb \<Rightarrow> finish_handle cd c sb req) }) })"

section \<open>Lookups and claims\<close>

text \<open>\<open>url.Values.Encode\<close> sorts the keys.\<close>

definition lookup_url :: "e2b_client \<Rightarrow> claim_request \<Rightarrow> string" where
  "lookup_url c req =
     (let meta = QueryEscape MetaKey @ ''='' @ QueryEscape (crKey req)
            @ (if crOwner req \<noteq> [] then ''&'' @ QueryEscape MetaOwner @ ''='' @ QueryEscape (crOwner req) else [])
      in ecEndpoint c @ ''/v2/sandboxes?limit=10&metadata='' @ QueryEscape meta)"

fun first_match :: "e2b_codec \<Rightarrow> e2b_client \<Rightarrow> claim_request \<Rightarrow> sandbox_object list \<Rightarrow> (e2b_body, handle \<times> go_error option) http" where
  "first_match cd c req [] = hret (empty_handle, Some ErrNotFound)"
| "first_match cd c req (sb # sbs) =
     (if get_str (sbMetadata sb) MetaKey \<noteq> crKey req then first_match cd c req sbs
      else if crOwner req \<noteq> [] \<and> get_str (sbMetadata sb) MetaOwner \<noteq> [] \<and> get_str (sbMetadata sb) MetaOwner \<noteq> crOwner req
      then first_match cd c req sbs
      else do {
        r \<leftarrow> inspectSandbox cd c sb req;
        (case snd r of
           Some err \<Rightarrow> if is_not_found err then first_match cd c req sbs else hret r
         | None \<Rightarrow> hret r) })"

definition e2b_Lookup :: "e2b_codec \<Rightarrow> e2b_client \<Rightarrow> claim_request \<Rightarrow> (e2b_body, handle \<times> go_error option) http" where
  "e2b_Lookup cd c req = do {
     r \<leftarrow> e2b_call c '': e2b lookup failed: '' '': reading e2b lookup response: '' (newRequest c GET (lookup_url c req) None);
     (case r of
        Inl err \<Rightarrow> hret (empty_handle, Some err)
      | Inr resp \<Rightarrow>
          (if hsStatus resp = 404 then hret (empty_handle, Some ErrNotFound)
           else if hsStatus resp \<noteq> 200 then hret (empty_handle, Some (e2b_classifyHTTPError cd c resp))
           else (case decodeSandboxList cd (hsBody resp) of
               Inl err \<Rightarrow> hret (empty_handle, Some (WrapError (ecId c @ '': unparseable e2b lookup response: '') (transport_err err)))
             | Inr list \<Rightarrow> first_match cd c req list))) }"

text \<open>What a claim asks for: its lifetime, the timeout of the creation, the deadline of the creation and the expiry.\<close>

record create_plan =
  cpTTLSec :: int
  cpInitialTimeoutSec :: int
  cpCreateDeadline :: gotime
  cpExpiresAt :: gotime

text \<open>\<open>None\<close> if the deadline of the context has passed.\<close>

definition plan_create :: "gotime option \<Rightarrow> gotime \<Rightarrow> duration \<Rightarrow> create_plan option" where
  "plan_create deadline now ttl =
     (let ttlSec = (if ttl > 0 then max 1 (ceil_seconds ttl) else go_div (24 * hour) second);
          expiresAt = now + wrap64 (ttlSec * second)
      in case deadline of
          None \<Rightarrow> Some \<lparr>cpTTLSec = ttlSec, cpInitialTimeoutSec = ttlSec, cpCreateDeadline = zero_time, cpExpiresAt = expiresAt\<rparr>
        | Some dl \<Rightarrow>
            (let remaining = time_sub dl now in
             if remaining \<le> 0 then None
             else Some \<lparr>cpTTLSec = ttlSec, cpInitialTimeoutSec = min ttlSec (max 1 (ceil_seconds remaining)),
                    cpCreateDeadline = dl, cpExpiresAt = expiresAt\<rparr>))"

definition create_metadata :: "e2b_codec \<Rightarrow> create_plan \<Rightarrow> claim_request \<Rightarrow> (string, string) gomap" where
  "create_metadata cd pl req =
     (let meta = go_copy (crLabels req) [];
          meta = go_put MetaOwner (crOwner req) meta;
          meta = go_put MetaKey (crKey req) meta;
          meta = go_put MetaSpecHash (crSpecHash req) meta;
          meta = go_put MetaExpiresAt (cdFormat cd (cpExpiresAt pl)) meta
      in if cpCreateDeadline pl \<noteq> zero_time then go_put MetaCreateDeadline (cdFormatNano cd (cpCreateDeadline pl)) meta else meta)"

text \<open>After the creation succeeded.\<close>

definition created :: "e2b_codec \<Rightarrow> e2b_client \<Rightarrow> create_plan \<Rightarrow> claim_request \<Rightarrow> sandbox_object \<Rightarrow> (e2b_body, handle \<times> go_error option) http" where
  "created cd c pl req sb =
     (let late = (\<lambda>err. do { u \<leftarrow> deleteSandboxAsync (sbSandboxID sb); hret (empty_handle, Some err) }) in do {
        overdue \<leftarrow> (if cpCreateDeadline pl \<noteq> zero_time then do { now \<leftarrow> http_now; hret (now > cpCreateDeadline pl) } else hret False);
        if overdue then late DeadlineExceeded
        else if cpInitialTimeoutSec pl < cpTTLSec pl \<and> sbSandboxID sb \<noteq> [] then do {
          now \<leftarrow> http_now;
          (let remSec = ceil_seconds (time_sub (cpExpiresAt pl) now) in
           if remSec \<le> 0 then late DeadlineExceeded
           else do {
             err \<leftarrow> setSandboxTimeout cd c (sbSandboxID sb) remSec;
             (case err of
                Some e \<Rightarrow> late e
              | None \<Rightarrow> inspectSandbox cd c (sb\<lparr>sbEndAt := cdFormat cd (cpExpiresAt pl)\<rparr>) req) }) }
        else inspectSandbox cd c sb req })"

definition e2b_create :: "e2b_codec \<Rightarrow> e2b_client \<Rightarrow> string \<Rightarrow> create_plan \<Rightarrow> claim_request \<Rightarrow> (e2b_body, handle \<times> go_error option) http" where
  "e2b_create cd c templateID pl req =
     (let meta = create_metadata cd pl req; fail = (\<lambda>err. hret (empty_handle, Some err)) in do {
        r \<leftarrow> e2b_call c '': e2b claim request failed: '' '': reading e2b claim response: ''
               (newRequest c POST (ecEndpoint c @ ''/v2/sandboxes'')
                 (Some (CreateBody \<lparr>xrTemplateID = templateID, xrTimeout = cpInitialTimeoutSec pl, xrMetadata = meta\<rparr>)));
        (case r of
           Inl err \<Rightarrow> fail err
         | Inr resp \<Rightarrow>
             (if hsStatus resp = 201 \<or> hsStatus resp = 200 then
                (case cdObject cd (hsBody resp) of
                   (sb, Some err) \<Rightarrow> fail (WrapError (ecId c @ '': unparseable e2b claim response: '') (transport_err err))
                 | (sb, None) \<Rightarrow> created cd c pl req (if sbMetadata sb = [] then sb\<lparr>sbMetadata := meta\<rparr> else sb))
              else if hsStatus resp = 409 then
                (let sb = fst (cdObject cd (hsBody resp)) in
                 if isNoCapacityError sb then
                   fail (NoCapacity (Some (NewError (ecId c @ '': '' @ e2b_nonEmpty [sbError sb, sbMessage sb, ''no capacity'']))))
                 else if sbReason sb = ''KeyConflict'' \<or> sbReason sb = ''SpecMismatch'' then
                   fail (KeyConflict (Some (NewError (ecId c @ '': '' @
                     e2b_nonEmpty [sbError sb, sbMessage sb, ''spec mismatch for key '' @ crKey req]))))
                 else e2b_Lookup cd c req)
              else fail (e2b_classifyHTTPError cd c resp))) })"

definition e2b_Claim :: "e2b_codec \<Rightarrow> e2b_client \<Rightarrow> gotime option \<Rightarrow> claim_request \<Rightarrow> (e2b_body, handle \<times> go_error option) http" where
  "e2b_Claim cd c deadline req =
     (case e2b_resolveTemplate c (crTemplate req) of
        Inl err \<Rightarrow> hret (empty_handle, Some err)
      | Inr templateID \<Rightarrow> do {
          found \<leftarrow> e2b_Lookup cd c req;
          (case snd found of
             None \<Rightarrow> hret found
           | Some err \<Rightarrow>
               (if \<not> is_not_found err then hret (empty_handle, Some err)
                else do {
                  now \<leftarrow> http_now;
                  (case plan_create deadline now (crTTL req) of
                     None \<Rightarrow> hret (empty_handle, Some DeadlineExceeded)
                   | Some pl \<Rightarrow> e2b_create cd c templateID pl req) })) })"

end
