(* ===== verification/E2BProps.thy ===== *)
theory E2BProps
  imports E2B AdapterContract
begin

text \<open>
  What the E2B adapter guarantees: only an explicit refusal spills, and a claim creates at most one sandbox, after a lookup
  that found none. One weakness: a refusal after the creation spills as well.
\<close>

section \<open>Refusals\<close>

definition e2b_refused :: "e2b_codec \<Rightarrow> http_answer \<Rightarrow> bool" where
  "e2b_refused cd a = (case a of
      NotBuilt e \<Rightarrow> True
    | Answer resp \<Rightarrow> (let sb = fst (cdObject cd (hsBody resp)) in
        hsStatus resp \<in> {400, 401, 403, 422} \<or> (hsStatus resp = 429 \<and> sbReason sb \<noteq> ''KeyBusy'') \<or>
        (hsStatus resp \<in> {409, 502, 503} \<and> isNoCapacityError sb) \<or> (hsStatus resp \<in> {502, 503} \<and> isUnavailableError sb))
    | _ \<Rightarrow> False)"

lemma e2b_classify_spill:
  "answered_by k resp w \<Longrightarrow> blamed (e2b_refused cd) k (e2b_classifyHTTPError cd c resp) w"
  by (auto simp: e2b_classifyHTTPError_def e2b_refused_def blamed_def answered_by_def since_def Let_def split: if_splits)

lemma ht_call:
  "htriple (since k) (e2b_call c failed reading hreq)
     (\<lambda>r w. case r of Inl e \<Rightarrow> blamed (e2b_refused cd) k e w | Inr resp \<Rightarrow> answered_by k resp w)"
  by (auto simp: htriple_def e2b_call_def http_run Let_def blamed_def since_def answered_by_def last_answer_def e2b_refused_def
      split: http_answer.splits)

lemma ht_Release: "htriple (since k) (e2b_Release cd c h) (\<lambda>_. since k)"
  unfolding e2b_Release_def
  by (intro ht_intro ht_bind [OF ht_call] ht_return)
    (auto dest: answered_since blamed_since split: sum.splits)

lemma ht_setTimeout: "htriple (since k) (setSandboxTimeout cd c i n) (blames (e2b_refused cd) k)"
  unfolding setSandboxTimeout_def
  by (intro ht_bind [OF ht_call] ht_return)
    (auto split: sum.splits simp: e2b_classify_spill answered_since)

lemma ht_detail: "htriple (since k) (getSandboxDetail cd c i)
     (\<lambda>r w. case r of Inl e \<Rightarrow> blamed (e2b_refused cd) k e w | Inr sb \<Rightarrow> since k w)"
  unfolding getSandboxDetail_def
  by (intro ht_bind [OF ht_call] ht_return)
    (auto split: sum.splits option.splits prod.splits simp: e2b_classify_spill answered_since blamed_harmless)

lemma terminating_harmless [simp]: "\<not> spilling_kind (KindOf (Some (terminating_error c i req what)))"
  by (simp add: terminating_error_def)

lemma refusal_harmless: "inspect_refusal c sb req = Some e \<Longrightarrow> \<not> spilling_kind (KindOf (Some e))"
  by (auto simp: inspect_refusal_def Let_def split: if_splits)

text \<open>A result with a handle blames its error, one with an intermediate value its \<open>Inl\<close>.\<close>

abbreviation answers :: "e2b_codec \<Rightarrow> nat \<Rightarrow> handle \<times> go_error option \<Rightarrow> 'b http_world \<Rightarrow> bool" where
  "answers cd k r w \<equiv> blames (e2b_refused cd) k (snd r) w"

abbreviation proceeds :: "e2b_codec \<Rightarrow> nat \<Rightarrow> go_error + 'a \<Rightarrow> 'b http_world \<Rightarrow> bool" where
  "proceeds cd k r w \<equiv> blames (e2b_refused cd) k (case r of Inl e \<Rightarrow> Some e | Inr x \<Rightarrow> None) w"

lemma ht_promote: "htriple (since k) (promote_timeout cd c sb req) (proceeds cd k)"
proof -
  have gone: "htriple (since k) (e2b_Release cd c h \<bind> (\<lambda>r. hret (Inl ErrNotFound))) (proceeds cd k)" for h
    by (intro ht_bind [OF ht_Release] ht_return) (simp add: blamed_harmless)
  have extend: "htriple (since k) (setSandboxTimeout cd c (sbSandboxID sb) n \<bind> (\<lambda>err. hret (case err of Some e \<Rightarrow> Inl e | None \<Rightarrow> Inr x)))
      (proceeds cd k)" for n and x :: sandbox_object
    by (intro ht_bind [OF ht_setTimeout] ht_return) (auto split: option.splits)
  show ?thesis unfolding promote_timeout_def Let_def
    by (intro ht_intro ht_now gone extend ht_return) (simp_all add: blamed_harmless)
qed

lemma ht_hydrate: "htriple (since k) (hydrate cd c sb req) (proceeds cd k)"
  unfolding hydrate_def
  by (intro ht_intro ht_bind [OF ht_detail] ht_return) (auto simp: Let_def blamed_harmless split: sum.splits)

lemma ht_finish: "htriple (since k) (finish_handle cd c sb req) (answers cd k)"
  unfolding finish_handle_def Let_def by (intro ht_intro ht_now ht_return) (simp_all add: blamed_harmless)

lemma ht_inspect: "htriple (since k) (inspectSandbox cd c sb req) (answers cd k)"
  unfolding inspectSandbox_def
proof (intro ht_intro ht_bind [OF ht_promote])
  fix e assume "inspect_refusal c sb req = Some e"
  then show "htriple (since k) (hret (empty_handle, Some e)) (answers cd k)"
    by (intro ht_return) (simp add: blamed_harmless refusal_harmless)
next
  fix p :: "go_error + sandbox_object" and e assume "p = Inl e"
  then show "htriple (proceeds cd k p) (hret (empty_handle, Some e)) (answers cd k)"
    by (intro ht_return) simp
next
  fix p :: "go_error + sandbox_object" and sb' assume p: "p = Inr sb'"
  have fail: "htriple (proceeds cd k (Inl e :: go_error + sandbox_object)) (hret (empty_handle, Some e)) (answers cd k)" for e
    by (intro ht_return) simp
  have ok: "htriple (proceeds cd k (Inr x)) (finish_handle cd c x req) (answers cd k)" for x :: sandbox_object
    using ht_finish by simp
  have "htriple (proceeds cd k d) (case d of Inl err \<Rightarrow> hret (empty_handle, Some err) | Inr sb \<Rightarrow> finish_handle cd c sb req) (answers cd k)" for d
    using fail ok by (cases d) simp_all
  then show "htriple (proceeds cd k p) (hydrate cd c sb' req \<bind> (\<lambda>d. case d of Inl err \<Rightarrow> hret (empty_handle, Some err)
      | Inr sb \<Rightarrow> finish_handle cd c sb req)) (answers cd k)"
    using p by (simp add: ht_bind [OF ht_hydrate])
qed

lemma ht_first_match: "htriple (since k) (first_match cd c req sbs) (answers cd k)"
proof (induction sbs)
  case Nil
  show ?case by (auto intro: ht_return simp: blamed_harmless)
next
  case (Cons sb sbs)
  have rest: "htriple (answers cd k r) (case snd r of Some err \<Rightarrow> if is_not_found err then first_match cd c req sbs else hret r | None \<Rightarrow> hret r)
      (answers cd k)" for r
  proof -
    have "htriple (answers cd k r) (first_match cd c req sbs) (answers cd k)" if "snd r = Some e" for e
      by (rule ht_pre [OF Cons.IH]) (use that in \<open>auto dest: blamed_since\<close>)
    then show ?thesis by (intro ht_intro ht_return) simp_all
  qed
  show ?case unfolding first_match.simps by (intro ht_intro Cons.IH ht_bind [OF ht_inspect rest])
qed

text \<open>After a call: its error is passed on, or the answer is looked at.\<close>

lemma ht_call_then:
  assumes "\<And>resp. htriple (answered_by k resp) (g resp) (answers cd k)"
  shows "htriple (since k) (e2b_call c failed reading hreq \<bind> (\<lambda>r. case r of Inl err \<Rightarrow> hret (empty_handle, Some err) | Inr resp \<Rightarrow> g resp))
     (answers cd k)"
proof (rule ht_bind [OF ht_call [where cd = cd]])
  fix r
  show "htriple (\<lambda>w. case r of Inl e \<Rightarrow> blamed (e2b_refused cd) k e w | Inr resp \<Rightarrow> answered_by k resp w)
      (case r of Inl err \<Rightarrow> hret (empty_handle, Some err) | Inr resp \<Rightarrow> g resp) (answers cd k)"
    by (cases r) (simp_all add: assms ht_return)
qed

lemma ht_Lookup: "htriple (since k) (e2b_Lookup cd c req) (answers cd k)"
proof -
  have matches: "htriple (answered_by k resp) (first_match cd c req l) (answers cd k)" for resp l
    by (rule ht_pre [OF ht_first_match]) (rule answered_since)
  show ?thesis unfolding e2b_Lookup_def
    by (intro ht_call_then ht_intro matches ht_return) (simp_all add: answered_since blamed_harmless e2b_classify_spill)
qed

lemma ht_created: "htriple (since k) (created cd c pl req sb) (answers cd k)"
proof -
  have late: "htriple (blamed (e2b_refused cd) k e) (deleteSandboxAsync i \<bind> (\<lambda>u. hret (empty_handle, Some e))) (answers cd k)" for e i
  proof (cases "i = []")
    case True
    then show ?thesis
      by (auto simp: deleteSandboxAsync_def htriple_def http_run)
  next
    case False
    then show ?thesis unfolding deleteSandboxAsync_def by (simp, intro ht_background ht_return) simp
  qed
  have overdue: "htriple (since k) (deleteSandboxAsync i \<bind> (\<lambda>u. hret (empty_handle, Some DeadlineExceeded))) (answers cd k)" for i
    by (rule ht_pre [OF late]) (simp add: blamed_harmless)
  have extend: "htriple (since k) (setSandboxTimeout cd c (sbSandboxID sb) n \<bind> (\<lambda>err. case err of
      Some e \<Rightarrow> deleteSandboxAsync (sbSandboxID sb) \<bind> (\<lambda>u. hret (empty_handle, Some e))
    | None \<Rightarrow> inspectSandbox cd c sb' req)) (answers cd k)" for n sb'
  proof (rule ht_bind [OF ht_setTimeout])
    fix err
    show "htriple (blames (e2b_refused cd) k err) (case err of
        Some e \<Rightarrow> deleteSandboxAsync (sbSandboxID sb) \<bind> (\<lambda>u. hret (empty_handle, Some e))
      | None \<Rightarrow> inspectSandbox cd c sb' req) (answers cd k)"
      by (cases err) (auto intro: ht_pre [OF late] ht_pre [OF ht_inspect])
  qed
  have clock: "htriple (since k) (if z then do { now \<leftarrow> http_now; hret (f now) } else hret False) (\<lambda>_. since k)" for z and f :: "gotime \<Rightarrow> bool"
    by (intro ht_intro ht_now ht_return)
  show ?thesis unfolding created_def Let_def
    by (intro ht_bind [OF clock] ht_intro overdue ht_now extend ht_inspect)
qed


lemma ht_create: "htriple (since k) (e2b_create cd c templateID pl req) (answers cd k)"
proof -
  have made: "htriple (answered_by k resp) (created cd c pl req sb) (answers cd k)" for resp sb
    by (rule ht_pre [OF ht_created]) (rule answered_since)
  have again: "htriple (answered_by k resp) (e2b_Lookup cd c req) (answers cd k)" for resp
    by (rule ht_pre [OF ht_Lookup]) (rule answered_since)
  have full: "htriple (answered_by k resp) (hret (empty_handle, Some (NoCapacity err))) (answers cd k)"
    if "hsStatus resp = 409" "isNoCapacityError (fst (cdObject cd (hsBody resp)))" for resp err
    using that by (intro ht_return) (auto simp: blamed_def answered_by_def since_def e2b_refused_def Let_def)
  have other: "htriple (answered_by k resp) (hret (empty_handle, Some (e2b_classifyHTTPError cd c resp))) (answers cd k)" for resp
    by (intro ht_return) (simp add: e2b_classify_spill)
  have fail: "htriple (answered_by k resp) (hret (empty_handle, Some e)) (answers cd k)" if "\<not> spilling_kind (KindOf (Some e))" for resp e
    using that by (intro ht_return) (simp add: blamed_harmless answered_since)
  show ?thesis unfolding e2b_create_def Let_def
    by (intro ht_call_then ht_cases made again full other fail) simp_all
qed

lemma ht_Claim:
  assumes "e2b_resolveTemplate c (crTemplate req) = Inr templateID"
  shows "htriple (since k) (e2b_Claim cd c deadline req) (answers cd k)"
proof -
  have claim: "htriple (since k) (do {
      now \<leftarrow> http_now;
      (case plan_create deadline now (crTTL req) of
         None \<Rightarrow> hret (empty_handle, Some DeadlineExceeded)
       | Some pl \<Rightarrow> e2b_create cd c templateID pl req) }) (answers cd k)"
    by (intro ht_now ht_intro ht_create ht_return) (simp add: blamed_harmless)
  have step: "htriple (answers cd k found) (case snd found of None \<Rightarrow> hret found
      | Some err \<Rightarrow> if \<not> is_not_found err then hret (empty_handle, Some err) else do {
          now \<leftarrow> http_now;
          (case plan_create deadline now (crTTL req) of
             None \<Rightarrow> hret (empty_handle, Some DeadlineExceeded)
           | Some pl \<Rightarrow> e2b_create cd c templateID pl req) }) (answers cd k)" for found
  proof -
    have "answers cd k found w \<Longrightarrow> since k w" for w
      by (cases "snd found") (auto dest: blamed_since)
    then show ?thesis
      by (intro ht_intro ht_pre [OF claim] ht_return) simp_all
  qed
  show ?thesis unfolding e2b_Claim_def using ht_bind [OF ht_Lookup step] assms by simp
qed

lemma unknown_template: "e2b_resolveTemplate c logical = Inl err \<Longrightarrow> run_state (e2b_Claim cd c deadline req) w = r \<Longrightarrow>
    logical = crTemplate req \<Longrightarrow> r = ((empty_handle, Some err), w)"
  by (simp add: e2b_Claim_def http_run)

lemma answers_spill: "answers cd k (h, Some e) w \<Longrightarrow> spilling_kind (KindOf (Some e)) \<Longrightarrow> k < hwTick w \<and> e2b_refused cd (last_answer w)"
  by (simp add: blamed_def)

lemma e2b_spill_refused:
  assumes run: "run_state (e2b_Claim cd c deadline req) w = ((h, Some e), w')" and spill: "spilling_kind (KindOf (Some e))"
  shows "hwTick w' = hwTick w \<or> (hwTick w < hwTick w' \<and> e2b_refused cd (last_answer w'))"
proof (cases "e2b_resolveTemplate c (crTemplate req)")
  case (Inl err)
  show ?thesis using unknown_template [OF Inl run] by simp
next
  case (Inr templateID)
  have "since (hwTick w) w" by (simp add: since_def)
  from answers_spill [OF ht_runD(2) [OF ht_Claim [OF Inr] this run] spill] show ?thesis by simp
qed

lemma e2b_keeps_env: "run_state (e2b_Claim cd c deadline req) w = (r, w') \<Longrightarrow> hwEnv w' = hwEnv w"
proof (cases "e2b_resolveTemplate c (crTemplate req)")
  case (Inl err)
  assume "run_state (e2b_Claim cd c deadline req) w = (r, w')"
  from unknown_template [OF Inl this] show ?thesis by simp
next
  case (Inr templateID)
  assume run: "run_state (e2b_Claim cd c deadline req) w = (r, w')"
  have "since (hwTick w) w" by (simp add: since_def)
  from ht_runD(1) [OF ht_Claim [OF Inr] this run] show ?thesis .
qed

section \<open>Ambiguous answers\<close>

definition is_create :: "e2b_body http_request \<times> http_answer \<Rightarrow> bool" where
  "is_create entry = (case hqBody (fst entry) of Some (CreateBody x) \<Rightarrow> True | _ \<Rightarrow> False)"

text \<open>
  The request may have taken effect: no answer or a broken one, a status that says nothing about it, or for a creation a
  success without a readable sandbox.
\<close>

definition e2b_unclear :: "e2b_codec \<Rightarrow> e2b_body http_request \<Rightarrow> http_answer \<Rightarrow> bool" where
  "e2b_unclear cd q a = (case a of
      NotBuilt e \<Rightarrow> False
    | NoAnswer e \<Rightarrow> True
    | BrokenBody st e \<Rightarrow> True
    | Answer resp \<Rightarrow> (if 200 \<le> hsStatus resp \<and> hsStatus resp < 300
        then is_create (q, a) \<and> (if hsStatus resp \<in> {200, 201} then snd (cdObject cd (hsBody resp)) \<noteq> None else True)
        else hsStatus resp \<notin> {400, 401, 403, 404, 409, 422, 429} \<and> \<not> e2b_refused cd a))"

lemma e2b_classify_unclear:
  "e2b_unclear cd q (Answer resp) \<Longrightarrow> unresolved (Some (e2b_classifyHTTPError cd c resp))"
  by (auto simp: e2b_classifyHTTPError_def e2b_refused_def e2b_unclear_def unresolved_def Let_def split: if_splits)

abbreviation certain :: "e2b_codec \<Rightarrow> nat \<Rightarrow> e2b_body http_world \<Rightarrow> bool" where
  "certain cd n w \<equiv> ambiguous_answers (e2b_unclear cd) w = n"

abbreviation leaves_doubt :: "e2b_codec \<Rightarrow> nat \<Rightarrow> go_error option \<Rightarrow> e2b_body http_world \<Rightarrow> bool" where
  "leaves_doubt cd \<equiv> doubts_end (e2b_unclear cd)"

abbreviation fails_with :: "go_error + 'a \<Rightarrow> go_error option" where
  "fails_with r \<equiv> (case r of Inl e \<Rightarrow> Some e | Inr x \<Rightarrow> None)"

lemma doubt_call:
  assumes "hqMethod q \<noteq> DELETE"
  shows "htriple (certain cd n) (e2b_call c failed reading q)
     (\<lambda>r w. case r of Inl e \<Rightarrow> leaves_doubt cd n (Some e) w | Inr resp \<Rightarrow> heard (e2b_unclear cd) n q (Answer resp) w)"
  unfolding e2b_call_def
  by (intro ht_bind [OF ht_heard] ht_return) (auto simp: assms e2b_unclear_def intro: heard_unclear split: http_answer.splits)

lemma doubt_Release: "htriple (certain cd n) (e2b_Release cd c h) (\<lambda>_. certain cd n)"
  by (auto simp: htriple_def e2b_Release_def e2b_call_def http_run Let_def ambiguous_answers_def newRequest_def
      split: http_answer.splits)

lemma method_newRequest [simp]: "hqMethod (newRequest c m u b) = m" "hqBody (newRequest c m u b) = b"
  by (simp_all add: newRequest_def)

lemma doubt_setTimeout: "htriple (certain cd n) (setSandboxTimeout cd c i t) (leaves_doubt cd n)"
  unfolding setSandboxTimeout_def
  by (intro ht_bind [OF doubt_call] ht_return)
    (auto split: sum.splits intro!: heard_unclear e2b_classify_unclear simp: e2b_unclear_def is_create_def)

lemma doubt_detail: "htriple (certain cd n) (getSandboxDetail cd c i) (\<lambda>r. leaves_doubt cd n (fails_with r))"
  unfolding getSandboxDetail_def
  by (intro ht_bind [OF doubt_call] ht_return)
    (auto split: sum.splits option.splits prod.splits intro!: heard_unclear e2b_classify_unclear simp: e2b_unclear_def is_create_def)

lemma leaves_doubt_None [simp]: "leaves_doubt cd n None = (\<lambda>w. certain cd n w)"
  by (simp add: fun_eq_iff doubts_end_def in_doubt_def unresolved_def)

lemma leaves_doubt_certain [intro]: "certain cd n w \<Longrightarrow> leaves_doubt cd n err w"
  by (simp add: doubts_end_def)

lemma leaves_doubt_not_found: "leaves_doubt cd n (Some e) w \<Longrightarrow> is_not_found e \<Longrightarrow> certain cd n w"
  by (simp add: doubts_end_def in_doubt_def unresolved_def)

lemma doubt_now: "(\<And>t. htriple (certain cd n) (f t) Q) \<Longrightarrow> htriple (certain cd n) (http_now \<bind> f) Q"
  by (rule ht_bind [where R = "\<lambda>_. certain cd n"]) (auto simp: htriple_def http_run ambiguous_answers_def)

lemma doubt_background: "htriple (leaves_doubt cd n err) (http_background job) (\<lambda>_. leaves_doubt cd n err)"
  by (simp add: htriple_def http_run doubts_end_def in_doubt_def ambiguous_answers_def)

lemma doubt_ret: "htriple (certain cd n) (hret x) (\<lambda>r. leaves_doubt cd n (g r))"
  by (auto intro: ht_return)

lemma doubt_promote: "htriple (certain cd n) (promote_timeout cd c sb req) (\<lambda>r. leaves_doubt cd n (fails_with r))"
  unfolding promote_timeout_def Let_def
  by (intro ht_intro doubt_now doubt_ret ht_bind [OF doubt_Release] ht_bind [OF doubt_setTimeout] ht_return)
    (auto split: option.splits)

lemma doubt_hydrate: "htriple (certain cd n) (hydrate cd c sb req) (\<lambda>r. leaves_doubt cd n (fails_with r))"
  unfolding hydrate_def
  by (intro ht_intro doubt_ret ht_bind [OF doubt_detail] ht_return) (auto simp: Let_def split: sum.splits)

lemma doubt_finish: "htriple (certain cd n) (finish_handle cd c sb req) (\<lambda>r. leaves_doubt cd n (snd r))"
  unfolding finish_handle_def Let_def by (intro ht_intro doubt_now doubt_ret)

text \<open>After an intermediate value: its error is passed on, or the program continues.\<close>

lemma doubt_then:
  assumes "\<And>x. htriple (certain cd n) (f x) (\<lambda>r. leaves_doubt cd n (snd r))"
  shows "htriple (leaves_doubt cd n (fails_with p)) (case p of Inl e \<Rightarrow> hret (empty_handle, Some e) | Inr x \<Rightarrow> f x) (\<lambda>r. leaves_doubt cd n (snd r))"
  using assms by (cases p) (simp_all add: ht_return)

lemma doubt_inspect: "htriple (certain cd n) (inspectSandbox cd c sb req) (\<lambda>r. leaves_doubt cd n (snd r))"
  unfolding inspectSandbox_def
  by (intro ht_cases(2) doubt_ret ht_bind [OF doubt_promote] ht_bind [OF doubt_hydrate] doubt_then doubt_finish)

lemma doubt_first_match: "htriple (certain cd n) (first_match cd c req sbs) (\<lambda>r. leaves_doubt cd n (snd r))"
proof (induction sbs)
  case Nil
  show ?case unfolding first_match.simps by (rule doubt_ret)
next
  case (Cons sb sbs)
  have rest: "htriple (leaves_doubt cd n (snd r)) (case snd r of Some err \<Rightarrow> if is_not_found err then first_match cd c req sbs else hret r | None \<Rightarrow> hret r)
      (\<lambda>r. leaves_doubt cd n (snd r))" for r
    by (intro ht_intro ht_return ht_pre [OF Cons.IH]) (simp_all add: leaves_doubt_not_found)
  show ?case unfolding first_match.simps by (intro ht_cases(1) Cons.IH ht_bind [OF doubt_inspect rest])
qed

text \<open>The answer to a request that may be ambiguous.\<close>

lemma doubt_call_then:
  assumes "hqMethod q \<noteq> DELETE"
    and "\<And>resp. htriple (heard (e2b_unclear cd) n q (Answer resp)) (g resp) (\<lambda>r. leaves_doubt cd n (snd r))"
  shows "htriple (certain cd n) (e2b_call c failed reading q \<bind> (\<lambda>r. case r of Inl err \<Rightarrow> hret (empty_handle, Some err) | Inr resp \<Rightarrow> g resp))
     (\<lambda>r. leaves_doubt cd n (snd r))"
proof (rule ht_bind [OF doubt_call [OF assms(1), where cd = cd and n = n]])
  fix r
  show "htriple (\<lambda>w. case r of Inl e \<Rightarrow> leaves_doubt cd n (Some e) w | Inr resp \<Rightarrow> heard (e2b_unclear cd) n q (Answer resp) w)
      (case r of Inl err \<Rightarrow> hret (empty_handle, Some err) | Inr resp \<Rightarrow> g resp) (\<lambda>r. leaves_doubt cd n (snd r))"
    by (cases r) (simp_all add: assms(2) ht_return)
qed

lemma doubt_Lookup: "htriple (certain cd n) (e2b_Lookup cd c req) (\<lambda>r. leaves_doubt cd n (snd r))"
  unfolding e2b_Lookup_def
  by (intro doubt_call_then ht_intro ht_fail_heard ht_clear_heard doubt_first_match e2b_classify_unclear)
    (auto simp: e2b_unclear_def is_create_def)

lemma doubt_created: "htriple (certain cd n) (created cd c pl req sb) (\<lambda>r. leaves_doubt cd n (snd r))"
proof -
  have late: "htriple (leaves_doubt cd n (Some e)) (deleteSandboxAsync i \<bind> (\<lambda>u. hret (empty_handle, Some e))) (\<lambda>r. leaves_doubt cd n (snd r))" for e i
    unfolding deleteSandboxAsync_def
    by (intro ht_bind [where R = "\<lambda>_. leaves_doubt cd n (Some e)"] ht_cases(1) doubt_background ht_return) simp_all
  have overdue: "htriple (certain cd n) (deleteSandboxAsync i \<bind> (\<lambda>u. hret (empty_handle, Some e))) (\<lambda>r. leaves_doubt cd n (snd r))" for e i
    by (rule ht_pre [OF late]) (rule leaves_doubt_certain)
  have extended: "htriple (leaves_doubt cd n err) (case err of Some e \<Rightarrow> deleteSandboxAsync i \<bind> (\<lambda>u. hret (empty_handle, Some e))
      | None \<Rightarrow> inspectSandbox cd c sb' req) (\<lambda>r. leaves_doubt cd n (snd r))" for err i sb'
    using late doubt_inspect by (cases err) simp_all
  have clock: "htriple (certain cd n) (if z then do { now \<leftarrow> http_now; hret (f now) } else hret False) (\<lambda>_. certain cd n)" for z and f :: "gotime \<Rightarrow> bool"
    by (intro ht_intro doubt_now ht_return)
  show ?thesis unfolding created_def Let_def
    by (intro ht_bind [OF clock] ht_cases(1) overdue doubt_now ht_bind [OF doubt_setTimeout extended] doubt_inspect)
qed

lemma doubt_create: "htriple (certain cd n) (e2b_create cd c templateID pl req) (\<lambda>r. leaves_doubt cd n (snd r))"
  unfolding e2b_create_def Let_def
  by (intro doubt_call_then ht_cases ht_fail_heard ht_clear_heard doubt_created doubt_Lookup e2b_classify_unclear)
    (auto simp: e2b_unclear_def is_create_def e2b_refused_def)

lemma doubt_Claim: "htriple (certain cd n) (e2b_Claim cd c deadline req) (\<lambda>r. leaves_doubt cd n (snd r))"
proof -
  have again: "htriple (leaves_doubt cd n (snd found)) (case snd found of None \<Rightarrow> hret found
      | Some err \<Rightarrow> if \<not> is_not_found err then hret (empty_handle, Some err) else do {
          now \<leftarrow> http_now;
          (case plan_create deadline now (crTTL req) of
             None \<Rightarrow> hret (empty_handle, Some DeadlineExceeded)
           | Some pl \<Rightarrow> e2b_create cd c templateID pl req) }) (\<lambda>r. leaves_doubt cd n (snd r))" for found templateID
  proof (cases "snd found")
    case (Some err)
    have "htriple (certain cd n) (http_now \<bind> (\<lambda>now. case plan_create deadline now (crTTL req) of
        None \<Rightarrow> hret (empty_handle, Some DeadlineExceeded) | Some pl \<Rightarrow> e2b_create cd c templateID pl req)) (\<lambda>r. leaves_doubt cd n (snd r))"
      by (intro doubt_now ht_cases(2) doubt_ret doubt_create)
    then show ?thesis using Some leaves_doubt_not_found by (auto intro: ht_return ht_pre)
  qed (simp add: ht_return)
  show ?thesis unfolding e2b_Claim_def by (intro ht_cases(3) doubt_ret ht_bind [OF doubt_Lookup again])
qed

lemma e2b_doubts:
  "run_state (e2b_Claim cd c deadline req) w = ((h, err), w') \<Longrightarrow> leaves_doubt cd (ambiguous_answers (e2b_unclear cd) w) err w'"
  using ht_runD(2) [OF doubt_Claim refl] by fastforce

interpretation e2b: refusing_adapter "e2b_Claim cd c deadline" "e2b_refused cd" "e2b_unclear cd"
  by unfold_locales (rule e2b_spill_refused e2b_keeps_env e2b_doubts; assumption)+

section \<open>At most one creation\<close>

definition creates :: "e2b_body http_world \<Rightarrow> nat" where
  "creates w = length (filter is_create (hwLog w))"

abbreviation keeps :: "(e2b_body http_world \<Rightarrow> bool) \<Rightarrow> (e2b_body, 'a) http \<Rightarrow> bool" where
  "keeps I m \<equiv> htriple I m (\<lambda>_. I)"

lemma keeps_ret: "keeps I (hret x)"
  by (rule ht_return)

lemma keeps_now: "(\<And>t. htriple (\<lambda>w. creates w = n) (f t) Q) \<Longrightarrow> htriple (\<lambda>w. creates w = n) (http_now \<bind> f) Q"
  by (rule ht_bind [where R = "\<lambda>_ w. creates w = n"]) (auto simp: htriple_def http_run creates_def)

lemma keeps_background: "keeps (\<lambda>w. creates w = n) (http_background job)"
  by (simp add: htriple_def http_run creates_def)

lemma keeps_call:
  assumes "\<And>x. body \<noteq> Some (CreateBody x)"
  shows "keeps (\<lambda>w. creates w = n) (e2b_call c failed reading (newRequest c meth u body))"
proof -
  have "\<not> is_create (newRequest c meth u body, a)" for a
    using assms by (auto simp: is_create_def newRequest_def split: option.split e2b_body.split)
  then show ?thesis by (auto simp: htriple_def e2b_call_def http_run Let_def creates_def split: http_answer.splits)
qed

lemma one_create: "htriple (\<lambda>w. creates w = n) (e2b_call c failed reading hreq) (\<lambda>_ w. creates w = n \<or> creates w = Suc n)"
  by (auto simp: htriple_def e2b_call_def http_run Let_def creates_def split: http_answer.splits)

lemmas keeps_rules = ht_intro keeps_ret keeps_now keeps_call keeps_background

lemma keeps_Release: "keeps (\<lambda>w. creates w = n) (e2b_Release cd c h)"
  unfolding e2b_Release_def by (intro keeps_rules ht_bind [where R = "\<lambda>_ w. creates w = n"]) simp_all

lemma keeps_setTimeout: "keeps (\<lambda>w. creates w = n) (setSandboxTimeout cd c i t)"
  unfolding setSandboxTimeout_def by (intro keeps_rules ht_bind [where R = "\<lambda>_ w. creates w = n"]) simp_all

lemma keeps_detail: "keeps (\<lambda>w. creates w = n) (getSandboxDetail cd c i)"
  unfolding getSandboxDetail_def by (intro keeps_rules ht_bind [where R = "\<lambda>_ w. creates w = n"]) simp_all

lemma keeps_promote: "keeps (\<lambda>w. creates w = n) (promote_timeout cd c sb req)"
  unfolding promote_timeout_def Let_def
  by (intro keeps_rules keeps_Release keeps_setTimeout ht_bind [where R = "\<lambda>_ w. creates w = n"])

lemma keeps_inspect: "keeps (\<lambda>w. creates w = n) (inspectSandbox cd c sb req)"
  unfolding inspectSandbox_def hydrate_def finish_handle_def Let_def
  by (intro keeps_rules keeps_promote keeps_detail ht_bind [where R = "\<lambda>_ w. creates w = n"])

lemma keeps_first_match: "keeps (\<lambda>w. creates w = n) (first_match cd c req sbs)"
  by (induction sbs) (simp_all only: first_match.simps keeps_ret,
    intro keeps_rules keeps_inspect ht_bind [where R = "\<lambda>_ w. creates w = n"])

lemma keeps_Lookup: "keeps (\<lambda>w. creates w = n) (e2b_Lookup cd c req)"
  unfolding e2b_Lookup_def by (intro keeps_rules keeps_first_match ht_bind [where R = "\<lambda>_ w. creates w = n"]) simp_all

lemma keeps_created: "keeps (\<lambda>w. creates w = n) (created cd c pl req sb)"
  unfolding created_def deleteSandboxAsync_def Let_def
  by (intro keeps_rules keeps_inspect keeps_setTimeout ht_bind [where R = "\<lambda>_ w. creates w = n"])

lemma create_once: "htriple (\<lambda>w. creates w = n) (e2b_create cd c templateID pl req) (\<lambda>_ w. creates w = n \<or> creates w = Suc n)"
proof -
  have late: "keeps (\<lambda>w. creates w = n \<or> creates w = Suc n) m" if "\<And>n. keeps (\<lambda>w. creates w = n) m" for m :: "(e2b_body, 'a) http"
    using that [of n] that [of "Suc n"] unfolding htriple_def by (simp add: case_prod_beta)
  show ?thesis unfolding e2b_create_def Let_def
    by (intro ht_bind [OF one_create] ht_intro late keeps_ret keeps_created keeps_Lookup)
qed

section \<open>The deadline of a creation\<close>

lemma ceil_seconds_bounds:
  assumes "0 \<le> d" "d \<le> max_duration"
  shows "d div second \<le> ceil_seconds d" "ceil_seconds d \<le> d div second + (if d mod second = 0 then 0 else 1)"
proof -
  define n where "n = nat (d div second)"
  define r where "r = d mod second"
  have sec: "go_div d second = int n" and r: "d - int n * second = r" "0 \<le> r" "r < second"
    using assms(1) by (auto simp: n_def r_def go_div_nonneg second_def minus_div_mult_eq_mod)
  have n: "n + 1 \<le> 2 ^ 53"
    using assms(2) zdiv_mono1 [of d max_duration second] by (simp add: n_def second_def max_duration_def)
  define f where "f = fdiv (of_int r) (10 ^ 9)"
  have f: "0 \<le> f" "f \<le> of_nat (if r = 0 then 0 else 1)"
    using r fl64_nonneg [of "of_int r / 10 ^ 9"] fl64_le_nat [of "of_int r / 10 ^ 9" 1]
    by (auto simp: f_def fdiv_def second_def)
  have x: "ceil_seconds d = \<lceil>fl64 (of_nat n + f)\<rceil>"
    unfolding ceil_seconds_def Let_def sec r(1) f_def using n by (simp add: fl64_of_nat)
  have "fl64 (of_nat n) \<le> fl64 (of_nat n + f)" using f by (intro fl64_mono) simp_all
  then have "(of_nat n :: rat) \<le> fl64 (of_nat n + f)" using n by (simp add: fl64_of_nat)
  then have lower: "int n \<le> ceil_seconds d"
    unfolding x by (metis ceiling_mono ceiling_of_int of_int_of_nat_eq)
  have "fl64 (of_nat n + f) \<le> of_nat (n + (if r = 0 then 0 else 1))"
    using n f by (intro fl64_le_nat) auto
  then have upper: "ceil_seconds d \<le> int (n + (if r = 0 then 0 else 1))"
    unfolding x by (subst ceiling_le_iff) simp
  have nd: "int n = d div second" using assms(1) by (simp add: n_def second_def pos_imp_zdiv_nonneg_iff)
  show "d div second \<le> ceil_seconds d" "ceil_seconds d \<le> d div second + (if d mod second = 0 then 0 else 1)"
    using lower upper by (simp_all add: nd r_def split: if_splits)
qed

lemma ceil_seconds_pos: "second \<le> d \<Longrightarrow> d \<le> max_duration \<Longrightarrow> 0 < ceil_seconds d"
  using ceil_seconds_bounds(1) [of d] zdiv_mono1 [of second d second] by (simp add: second_def)

lemma ceil_seconds_below:
  assumes "0 < d" "d \<le> max_duration"
  shows "(ceil_seconds d - 1) * second < d"
proof -
  have "ceil_seconds d \<le> d div second + (if d mod second = 0 then 0 else 1)"
    using ceil_seconds_bounds(2) [of d] assms by simp
  then have "(ceil_seconds d - 1) * second \<le> (d div second + (if d mod second = 0 then 0 else 1) - 1) * second"
    by (intro mult_right_mono) (simp_all add: second_def)
  also have "\<dots> = d - d mod second - (if d mod second = 0 then second else 0)"
    by (simp add: algebra_simps minus_mod_eq_mult_div [symmetric])
  also have "\<dots> < d"
    using assms(1) pos_mod_sign [of second d] by (auto simp: second_def less_le)
  finally show ?thesis .
qed

text \<open>C34: a claim creates its sandbox with a timeout of at least a second that exceeds neither its lifetime nor, by a second
  or more, the rest of its own deadline, whatever floating point does to the quotients; nothing is created after the deadline. \<close>

theorem e2b_create_timeout:
  "case plan_create deadline now ttl of
     None \<Rightarrow> (case deadline of None \<Rightarrow> False | Some dl \<Rightarrow> dl \<le> now)
   | Some pl \<Rightarrow> 1 \<le> cpInitialTimeoutSec pl \<and> cpInitialTimeoutSec pl \<le> cpTTLSec pl \<and>
       (case deadline of
          None \<Rightarrow> cpInitialTimeoutSec pl = cpTTLSec pl
        | Some dl \<Rightarrow> now < dl \<and> cpCreateDeadline pl = dl \<and> now + (cpInitialTimeoutSec pl - 1) * second < dl)"
proof (cases deadline)
  case None
  then show ?thesis by (simp add: plan_create_def Let_def go_div_def second_def hour_def minute_def)
next
  case (Some dl)
  define d where "d = time_sub dl now"
  have d: "d \<le> max_duration" "0 < d \<longleftrightarrow> now < dl" by (simp_all add: d_def time_sub_bounded time_sub_pos)
  have below: "now + (min t (max 1 (ceil_seconds d)) - 1) * second < dl" if "now < dl" for t
  proof -
    have "(min t (max 1 (ceil_seconds d)) - 1) * second \<le> (max 1 (ceil_seconds d) - 1) * second"
      by (intro mult_right_mono) (simp_all add: second_def)
    also have "\<dots> < d" using ceil_seconds_below [of d] d that by (simp add: max_def)
    also have "d \<le> dl - now" using that by (simp add: d_def time_sub_def min_duration_def)
    finally show ?thesis by simp
  qed
  define T where "T = (if ttl > 0 then max 1 (ceil_seconds ttl) else go_div (24 * hour) second)"
  have T: "1 \<le> T" by (simp add: T_def go_div_def second_def hour_def minute_def)
  have "plan_create deadline now ttl = (if d \<le> 0 then None
      else Some \<lparr>cpTTLSec = T, cpInitialTimeoutSec = min T (max 1 (ceil_seconds d)), cpCreateDeadline = dl, cpExpiresAt = now + wrap64 (T * second)\<rparr>)"
    by (simp add: plan_create_def Let_def Some d_def T_def)
  then show ?thesis using below [of T] d(2) T by (auto simp: Some)
qed

section \<open>What claims guarantee\<close>

text \<open>C32: a claim of the E2B adapter fails with an error on which the binder tries another provider only if the template is
  unknown, in which case nothing was sent, or the last answer of the provider, to whichever request of the claim, was an
  explicit refusal. After an ambiguous answer to any of its requests but a deletion, which is none at all (a refused
  connection included), a broken one, a failure status that says nothing about the request or a creation without a readable
  sandbox, the claim sends no further request and fails with an unknown outcome: neither a handle, nor a conflict, nor
  \<open>ErrNotFound\<close>.\<close>

theorem e2b_spill_needs_refusal:
  "case run_state (e2b_Claim cd c deadline req) w of
     ((h, err), w') \<Rightarrow>
       (if ambiguous_answers (e2b_unclear cd) w' = ambiguous_answers (e2b_unclear cd) w then True
        else in_doubt (e2b_unclear cd) (ambiguous_answers (e2b_unclear cd) w) err w') \<and>
       (case err of None \<Rightarrow> True
        | Some e \<Rightarrow> if spilling_kind (KindOf (Some e)) then hwTick w' = hwTick w \<or> e2b_refused cd (last_answer w') else True)"
proof -
  obtain h err w' where run: "run_state (e2b_Claim cd c deadline req) w = ((h, err), w')" by (metis prod.exhaust)
  have "leaves_doubt cd (ambiguous_answers (e2b_unclear cd) w) err w'" by (rule e2b.ambiguous_unresolved [OF run])
  then show ?thesis
    using e2b.spill_refused [of cd c deadline req w h _ w'] by (auto simp: run doubts_end_def split: option.splits)
qed

text \<open>C33: a claim sends at most one request that creates a sandbox, and only after a lookup of the key found nothing.\<close>

theorem e2b_claims_once:
  "case run_state (e2b_Claim cd c deadline req) w of (r, w') \<Rightarrow>
     if creates w' = creates w then True
     else creates w' = Suc (creates w) \<and>
       (case run_state (e2b_Lookup cd c req) w of
          ((h, Some e), v) \<Rightarrow> is_not_found e \<and> creates v = creates w
        | ((h, None), v) \<Rightarrow> False)"
proof -
  obtain h err v where look: "run_state (e2b_Lookup cd c req) w = ((h, err), v)" by (metis prod.exhaust)
  have v: "creates v = creates w" using ht_runD(2) [OF keeps_Lookup refl look] .
  define u where "u = v\<lparr>hwTick := Suc (hwTick v)\<rparr>"
  have u: "creates u = creates w" using v by (simp add: u_def creates_def)
  have made: "creates y = creates w \<or> creates y = Suc (creates w)" if "run_state (e2b_create cd c templateID pl req) u = (x, y)" for templateID pl x y
    using ht_runD(2) [OF create_once u that] .
  show ?thesis
    using v u
    by (auto simp: e2b_Claim_def http_run look u_def dest!: made [unfolded u_def] split: sum.splits option.splits prod.splits)
qed

section \<open>A refusal after the creation\<close>

definition e2b_reply :: "int \<Rightarrow> string \<Rightarrow> http_answer" where
  "e2b_reply st body = Answer \<lparr>hsStatus = st, hsBody = body, hsRetryAfter = []\<rparr>"

text \<open>C35: a claim creates a sandbox with the short timeout of its deadline, and when the provider rate-limits the request
  that extends it, the adapter reports the kind \<open>Busy\<close>, on which the binder claims from another provider, although a
  sandbox for the key exists: its deletion is left to the background.\<close>

theorem e2b_spills_after_create:
  assumes "e2b_resolveTemplate c (crTemplate req) = Inr templateID"
    and "plan_create (Some dl) (hxNow (env 1)) (crTTL req) = Some pl" "cpInitialTimeoutSec pl < cpTTLSec pl" "dl \<noteq> zero_time"
    and "hxAnswer (env 0) = e2b_reply 404 lookup_body"
    and "hxAnswer (env 2) = e2b_reply 201 create_body" "cdObject cd create_body = (sb, None)" "sbSandboxID sb \<noteq> []"
    and "hxNow (env 3) \<le> dl" "hxNow (env 4) + second \<le> cpExpiresAt pl"
    and "hxAnswer (env 5) = e2b_reply 429 limit_body" "sbReason (fst (cdObject cd limit_body)) \<noteq> ''KeyBusy''"
  shows "case run_state (e2b_Claim cd c (Some dl) req) \<lparr>hwEnv = env, hwTick = 0, hwLog = [], hwBackground = []\<rparr> of
     ((h, err), w') \<Rightarrow> KindOf err = KindBusy \<and> spilling_kind (KindOf err) \<and> h = empty_handle \<and> creates w' = 1 \<and>
       hwBackground w' = [sbSandboxID sb]"
proof -
  have pl: "cpCreateDeadline pl = dl"
    using assms(2) by (auto simp: plan_create_def Let_def split: if_splits)
  have "second \<le> time_sub (cpExpiresAt pl) (hxNow (env 4))"
    using assms(10) by (simp add: time_sub_def second_def max_duration_def)
  then have rem: "0 < ceil_seconds (time_sub (cpExpiresAt pl) (hxNow (env 4)))"
    by (intro ceil_seconds_pos) (simp_all add: time_sub_bounded)
  have limit: "KindOf (Some (e2b_classifyHTTPError cd c \<lparr>hsStatus = 429, hsBody = limit_body, hsRetryAfter = []\<rparr>)) = KindBusy"
    using assms(12) by (simp add: e2b_classifyHTTPError_def Let_def)
  show ?thesis
    using assms(1,3-9,11) pl rem limit assms(2)
    by (simp add: e2b_Claim_def e2b_Lookup_def e2b_create_def created_def setSandboxTimeout_def deleteSandboxAsync_def e2b_call_def
      e2b_reply_def http_run Let_def creates_def is_create_def newRequest_def eval_nat_numeral)
qed

lemma ceil_seconds_exact: "0 \<le> d \<Longrightarrow> d \<le> max_duration \<Longrightarrow> d mod second = 0 \<Longrightarrow> ceil_seconds d = d div second"
  using ceil_seconds_bounds [of d] by simp

definition ex_sandbox :: sandbox_object where
  "ex_sandbox = \<lparr>sbSandboxID = ''i1'', sbTemplateID = [], sbClientID = [], sbStartedAt = [], sbEndAt = [], sbState = [], sbDeleting = False,
     sbVersion = [], sbDomain = [], sbEnvdToken = [], sbMetadata = [], sbError = [], sbErrorCode = [], sbMessage = [], sbReason = []\<rparr>"

definition ex_codec :: e2b_codec where
  "ex_codec = \<lparr>cdObject = (\<lambda>s. (ex_sandbox, None)), cdList = (\<lambda>s. Inr []), cdWrapper = (\<lambda>s. Inr ([], [])), cdParse = (\<lambda>s. None),
     cdFormat = (\<lambda>t. []), cdFormatNano = (\<lambda>t. [])\<rparr>"

definition ex_e2b :: e2b_client where
  "ex_e2b = \<lparr>ecId = ''e'', ecEndpoint = ''u'', ecDomain = ''d'', ecToken = [], ecTeamID = [], ecBearer = False, ecTemplates = [],
     ecDefaultTemplate = ''base''\<rparr>"

definition ex_request :: claim_request where
  "ex_request = \<lparr>crTemplate = ''t'', crKey = ''k'', crSpecHash = ''s'', crOwner = ''o'', crLabels = [], crTTL = 60 * second\<rparr>"

definition ex_env :: "nat \<Rightarrow> http_step" where
  "ex_env n = \<lparr>hxAnswer = e2b_reply (if n = 0 then 404 else if n = 2 then 201 else 429) [], hxNow = second\<rparr>"

theorem e2b_spills_after_create_witness:
  "case run_state (e2b_Claim ex_codec ex_e2b (Some (11 * second)) ex_request) \<lparr>hwEnv = ex_env, hwTick = 0, hwLog = [], hwBackground = []\<rparr> of
     ((h, err), w') \<Rightarrow> KindOf err = KindBusy \<and> spilling_kind (KindOf err) \<and> h = empty_handle \<and> creates w' = 1 \<and>
       hwBackground w' = [sbSandboxID ex_sandbox]"
proof (rule e2b_spills_after_create [where templateID = "''t''"])
  have times: "ceil_seconds (60 * second) = 60" "time_sub (11 * second) second = 10 * second" "ceil_seconds (10 * second) = 10"
    by (simp_all add: ceil_seconds_exact time_sub_def max_duration_def min_duration_def second_def)
  show "plan_create (Some (11 * second)) (hxNow (ex_env 1)) (crTTL ex_request) =
      Some \<lparr>cpTTLSec = 60, cpInitialTimeoutSec = 10, cpCreateDeadline = 11 * second, cpExpiresAt = 61 * second\<rparr>"
    using times by (simp add: plan_create_def Let_def ex_env_def ex_request_def second_def wrap64_def)
qed (simp_all add: e2b_resolveTemplate_def get_str_def ex_e2b_def ex_request_def ex_env_def ex_codec_def ex_sandbox_def second_def zero_time_def)

end
