(* ===== verification/Controller.thy ===== *)
theory Controller
  imports Reaper BinderState Adapter
begin

text \<open>
  \<open>internal/controller\<close>: the reconcilers that keep the registry, the binder and the reaper in step with the objects of
  the cluster. The API server, the clock, the digest and the layout RFC 3339 are inputs; reconciles of one replica run one
  after the other. \<open>'s\<close> is the state behind the callbacks of the reaper.
\<close>

section \<open>Objects and state\<close>

abbreviation ConditionReady :: string where "ConditionReady \<equiv> ''Ready''"
abbreviation ConditionClaiming :: string where "ConditionClaiming \<equiv> ''Claiming''"
abbreviation ConditionValid :: string where "ConditionValid \<equiv> ''Valid''"

datatype cond_status = CondTrue | CondFalse | CondUnknown

record condition_object =
  cnType :: string
  cnStatus :: cond_status
  cnReason :: string
  cnMessage :: string
  cnObservedGeneration :: int
  cnLastTransition :: gotime

record claims_status =
  clLastSuccessTime :: "gotime option"
  clLastFailureReason :: string

record object_status =
  ssConditions :: "condition_object list"
  ssWarmCapacity :: int
  ssLastReportTime :: "gotime option"
  ssLastError :: string
  ssObservedAttributes :: "(string, string) gomap"
  ssClaims :: "claims_status option"

text \<open>\<open>obKubeAPI\<close> is the only field of \<open>spec.kubeapi\<close>, its namespace.\<close>

record provider_object =
  obName :: string
  obUID :: string
  obAnnotations :: "(string, string) gomap"
  obGeneration :: int
  obSpec :: provider_spec
  obKubeAPI :: "string option"
  obStatus :: object_status

text \<open>A \<open>provider.Provider\<close>: its source and which of the other capabilities are there.\<close>

record built_provider =
  bpSource :: "source option"
  bpCaps :: provider_caps
  bpLister :: bool

text \<open>
  The state that reconciles of providers change: the registry, the binder and the reaper, which may be missing, and the
  provider built for each object with the digest of its configuration. The binder holds the same registry.
\<close>

record 's controller =
  ctRegistry :: registry
  ctBinder :: "binder_state option"
  ctReaper :: "'s reaper option"
  ctBuilt :: "(string, string) gomap"
  ctProviders :: "(string, built_provider) gomap"

record readiness =
  rdStatus :: cond_status
  rdReason :: string
  rdMessage :: string

definition not_ready :: "string \<Rightarrow> string \<Rightarrow> readiness" where
  "not_ready reason msg = \<lparr>rdStatus = CondFalse, rdReason = reason, rdMessage = msg\<rparr>"

text \<open>The reconciler's fields that do not change; the digest and the layout of times are the library's.\<close>

record reconciler =
  kcFactories :: "built_provider factories"
  kcSecretNamespace :: string
  kcEventInstance :: string
  kcStatusInterval :: duration
  kcHasClient :: bool
  kcSha :: "string \<Rightarrow> string"
  kcRFC3339 :: "gotime \<Rightarrow> string"

text \<open>What one reconcile reads: the object, secrets, the clock at its places, whether it may write, and the answer to the write.\<close>

datatype 'a api_answer = Got 'a | Missing | ApiFailed go_error
datatype patch_answer = Patched | PatchConflict | PatchFailed go_error

record reconcile_input =
  riSecret :: "string \<Rightarrow> string \<Rightarrow> (string, string) gomap api_answer"
  riNow :: gotime
  riStatusNow :: gotime
  riStampReady :: gotime
  riStampClaiming :: gotime
  riMayWrite :: bool
  riPatch :: patch_answer

section \<open>Operations on the shared components\<close>

definition on_registry :: "(registry \<Rightarrow> registry) \<Rightarrow> 's controller \<Rightarrow> 's controller" where
  "on_registry f st = (let reg = f (ctRegistry st) in
     st\<lparr>ctRegistry := reg, ctBinder := map_option (\<lambda>b. b\<lparr>b_reg := reg\<rparr>) (ctBinder st)\<rparr>)"

definition on_binder :: "(binder_state \<Rightarrow> binder_state) \<Rightarrow> 's controller \<Rightarrow> 's controller" where
  "on_binder f st = st\<lparr>ctBinder := map_option f (ctBinder st)\<rparr>"

definition on_reaper :: "('s reaper \<Rightarrow> 's reaper) \<Rightarrow> 's controller \<Rightarrow> 's controller" where
  "on_reaper f st = st\<lparr>ctReaper := map_option f (ctReaper st)\<rparr>"

text \<open>\<open>New\<close> never returns a provider without a source.\<close>

definition add_source :: "built_provider \<Rightarrow> 's controller \<Rightarrow> 's controller" where
  "add_source prov st = (case bpSource prov of None \<Rightarrow> st | Some s \<Rightarrow> on_registry (AddSource s) st)"

definition deregister :: "string \<Rightarrow> 's controller \<Rightarrow> 's controller" where
  "deregister name st =
     (let st = on_registry (RemoveSource name) st;
          st = on_binder (RemoveTarget name) st;
          st = on_reaper (reap_RemoveTarget name) st
      in st\<lparr>ctBuilt := go_delete name (ctBuilt st), ctProviders := go_delete name (ctProviders st)\<rparr>)"

definition builtProvider :: "string \<Rightarrow> string \<Rightarrow> 's controller \<Rightarrow> built_provider option" where
  "builtProvider name digest st =
     (case go_get (ctBuilt st) name of
        None \<Rightarrow> None
      | Some d \<Rightarrow> if d \<noteq> digest \<or> \<not> HasSource name (ctRegistry st) then None else go_get (ctProviders st) name)"

definition setBuilt :: "string \<Rightarrow> string \<Rightarrow> built_provider \<Rightarrow> 's controller \<Rightarrow> 's controller" where
  "setBuilt name digest prov st =
     st\<lparr>ctBuilt := go_put name digest (ctBuilt st), ctProviders := go_put name prov (ctProviders st)\<rparr>"

section \<open>The configuration of an adapter\<close>

definition map_bytes :: "(string, string) gomap \<Rightarrow> string" where
  "map_bytes m =
     (let keys = sort_strings (map fst m) in
      be_bytes 8 (length keys) @ concat (map (\<lambda>k. write_bytes k @ write_bytes (get_str m k)) keys))"

definition config_preimage :: "string \<Rightarrow> adapter_config \<Rightarrow> string" where
  "config_preimage adapterName cfg =
     write_bytes adapterName @ write_bytes (acProviderID cfg) @ write_bytes (acEndpoint cfg)
       @ map_bytes (acOptions cfg) @ map_bytes (acCredentials cfg) @ map_bytes (acTemplates cfg)"

definition configDigest :: "(string \<Rightarrow> string) \<Rightarrow> string \<Rightarrow> adapter_config \<Rightarrow> string" where
  "configDigest sha adapterName cfg = sha (config_preimage adapterName cfg)"

definition templateMap :: "TemplateMapping list \<Rightarrow> (string, string) gomap" where
  "templateMap list = fold (\<lambda>tm. go_put (tmName tm) (tmRef tm)) list []"

definition option_prefix :: string where
  "option_prefix = ''placement.agents.x-k8s.io/option-''"

definition providerOptions :: "(string, string) gomap \<Rightarrow> (string, string) gomap" where
  "providerOptions annotations =
     fold (\<lambda>(k, v) opts. if length k > length option_prefix \<and> take (length option_prefix) k = option_prefix
         then go_put (drop (length option_prefix) k) v opts else opts) annotations []"

definition resolveCredentials :: "reconciler \<Rightarrow> reconcile_input \<Rightarrow> provider_object \<Rightarrow> go_error + (string, string) gomap" where
  "resolveCredentials rc inp p =
     (case spCredentialsRef (obSpec p) of
        None \<Rightarrow> Inr []
      | Some name \<Rightarrow>
          (if kcSecretNamespace rc = [] then
             Inl (NewError ''credentialsRef is set but the scheduler has no secret namespace configured'')
           else (case riSecret inp (kcSecretNamespace rc) name of
               Missing \<Rightarrow> Inl (NewError (''secret '' @ kcSecretNamespace rc @ ''/'' @ name @ '' not found''))
             | ApiFailed err \<Rightarrow> Inl (WrapError (''reading secret '' @ kcSecretNamespace rc @ ''/'' @ name @ '': '') err)
             | Got data \<Rightarrow> Inr data)))"

text \<open>The configuration that \<open>sync\<close> and \<open>syncReaperWhenDisabled\<close> build.\<close>

definition adapter_config_of :: "provider_object \<Rightarrow> (string, string) gomap \<Rightarrow> adapter_config" where
  "adapter_config_of p creds =
     (let opts = providerOptions (obAnnotations p);
          opts = (case obKubeAPI p of
              None \<Rightarrow> opts
            | Some ns \<Rightarrow> if ns \<noteq> [] \<and> go_get opts ''namespace'' = None then go_put ''namespace'' ns opts else opts)
      in \<lparr>acProviderID = obName p, acEndpoint = spEndpoint (obSpec p), acCredentials = creds, acOptions = opts,
          acTemplates = templateMap (spTemplates (obSpec p))\<rparr>)"

definition build_provider :: "reconciler \<Rightarrow> string \<Rightarrow> adapter_config \<Rightarrow> go_error + built_provider" where
  "build_provider rc name cfg = New_adapter (\<lambda>p. bpSource p \<noteq> None) (kcFactories rc) name cfg"

section \<open>Claims and lifecycle\<close>

definition positive :: "int option \<Rightarrow> int" where
  "positive v = (case v of None \<Rightarrow> 0 | Some n \<Rightarrow> if n > 0 then n else 0)"

definition claims_enabled :: "provider_object \<Rightarrow> bool" where
  "claims_enabled p = (case spClaims (obSpec p) of None \<Rightarrow> False | Some cs \<Rightarrow> csEnabled cs)"

definition target_config_of :: "provider_object \<Rightarrow> built_provider \<Rightarrow> (string, string) gomap \<Rightarrow> bool \<Rightarrow> target_config" where
  "target_config_of p prov templates isElastic =
     (let base = \<lparr>tcEnabled = claims_enabled p \<and> pvBinder (bpCaps prov), tcMaxInFlight = 0, tcTimeout = 0, tcMaxRate = 0,
            tcLookupRate = 0, tcElastic = isElastic, tcElasticWarmScore = None, tcTemplates = templates\<rparr>
      in case spClaims (obSpec p) of
          None \<Rightarrow> base
        | Some cs \<Rightarrow> base\<lparr>tcMaxInFlight := positive (csMaxInFlight cs), tcTimeout := positive (csTimeout cs),
            tcMaxRate := positive (csMaxRate cs), tcLookupRate := positive (csLookupRate cs),
            tcElasticWarmScore := csElasticWarmScore cs\<rparr>)"

definition reap_provider_of :: "built_provider \<Rightarrow> reap_provider" where
  "reap_provider_of prov = \<lparr>rpBinder = pvBinder (bpCaps prov), rpLister = bpLister prov\<rparr>"

definition reap_config_of :: "built_provider \<Rightarrow> duration \<Rightarrow> reap_config" where
  "reap_config_of prov timeout = \<lparr>rcEnabled = pvBinder (bpCaps prov) \<and> bpLister prov, rcTimeout = timeout\<rparr>"

text \<open>\<open>Rfc3339Copy\<close>: times at the precision of the API server.\<close>

definition rfc3339_copy :: "gotime \<Rightarrow> gotime" where
  "rfc3339_copy t = t - t mod second"

text \<open>The claim health on the status.\<close>

definition show_health :: "claim_health_status \<Rightarrow> object_status \<Rightarrow> object_status" where
  "show_health hs s =
     (if chLastSuccessTime hs \<noteq> zero_time \<or> chLastFailureReason hs \<noteq> [] then
        (let cl = (case ssClaims s of None \<Rightarrow> \<lparr>clLastSuccessTime = None, clLastFailureReason = []\<rparr> | Some cl \<Rightarrow> cl);
             cl = (if chLastSuccessTime hs \<noteq> zero_time then cl\<lparr>clLastSuccessTime := Some (rfc3339_copy (chLastSuccessTime hs))\<rparr> else cl)
         in s\<lparr>ssClaims := Some (cl\<lparr>clLastFailureReason := chLastFailureReason hs\<rparr>)\<rparr>)
      else s)"

definition claims_off :: readiness where
  "claims_off = not_ready ''ClaimsDisabled'' ''claims are not enabled on this provider (set spec.claims.enabled=true)''"

definition scheduler_claims_off :: readiness where
  "scheduler_claims_off = not_ready ''ClaimsDisabled'' ''sandbox claims are disabled on the scheduler (start with --enable-claims)''"

text \<open>The condition that the health of the target's claims gives.\<close>

definition claim_readiness :: "claim_health_status option \<Rightarrow> readiness" where
  "claim_readiness hs =
     (case hs of
        Some hs \<Rightarrow>
          (if chCredentialsError hs then not_ready ''ClaimRejected'' (''provider rejected recent claim: '' @ chLastFailureReason hs)
           else if \<not> chHealthy hs then not_ready ''CircuitOpen'' (''claim circuit breaker open: '' @ chLastFailureReason hs)
           else \<lparr>rdStatus = CondTrue, rdReason = ''ClaimCapable'', rdMessage = ''provider is ready to serve sandbox claims''\<rparr>)
      | None \<Rightarrow> \<lparr>rdStatus = CondTrue, rdReason = ''ClaimCapable'', rdMessage = ''provider is ready to serve sandbox claims''\<rparr>)"

definition syncClaims :: "provider_object \<Rightarrow> built_provider \<Rightarrow> (string, string) gomap \<Rightarrow> bool \<Rightarrow> 's controller
    \<Rightarrow> 's controller \<times> provider_object \<times> readiness" where
  "syncClaims p prov templates isElastic st =
     (let tcfg = target_config_of p prov templates isElastic;
          st = on_binder (SetTarget (obName p) (bpCaps prov) tcfg) st;
          st = on_reaper (reap_SetTarget (obName p) (reap_provider_of prov) (reap_config_of prov (tcTimeout tcfg))) st
      in if \<not> claims_enabled p then (st, p, claims_off)
         else (case ctBinder st of
             None \<Rightarrow> (st, p, scheduler_claims_off)
           | Some b \<Rightarrow>
               (if \<not> pvBinder (bpCaps prov) then
                  (st, p, not_ready ''AdapterPollOnly'' (''adapter '' @ quote (spAdapter (obSpec p)) @ '' supports capacity polling only''))
                else
                  (let hs = HealthStatus (obName p) b;
                       p = (case hs of None \<Rightarrow> p | Some h \<Rightarrow> p\<lparr>obStatus := show_health h (obStatus p)\<rparr>)
                   in (st, p, claim_readiness hs)))))"

definition syncReaperWhenDisabled :: "reconciler \<Rightarrow> reconcile_input \<Rightarrow> provider_object \<Rightarrow> 's controller \<Rightarrow> 's controller" where
  "syncReaperWhenDisabled rc inp p st =
     (if ctReaper st = None then st
      else (case resolveCredentials rc inp p of
          Inl err \<Rightarrow> on_reaper (reap_RemoveTarget (obName p)) st
        | Inr creds \<Rightarrow>
            (let cfg = adapter_config_of p creds;
                 digest = configDigest (kcSha rc) (spAdapter (obSpec p)) cfg;
                 timeout = (case spClaims (obSpec p) of None \<Rightarrow> 0 | Some cs \<Rightarrow> positive (csTimeout cs));
                 watch = (\<lambda>prov. on_reaper (reap_SetTarget (obName p) (reap_provider_of prov) (reap_config_of prov timeout)))
             in case (go_get (ctBuilt st) (obName p), go_get (ctProviders st) (obName p)) of
                 (Some d, Some prov) \<Rightarrow>
                   (if d = digest then watch prov st
                    else (case build_provider rc (spAdapter (obSpec p)) cfg of
                        Inl err \<Rightarrow> deregister (obName p) st
                      | Inr prov \<Rightarrow> watch prov (setBuilt (obName p) digest prov st)))
               | _ \<Rightarrow>
                   (case build_provider rc (spAdapter (obSpec p)) cfg of
                      Inl err \<Rightarrow> deregister (obName p) st
                    | Inr prov \<Rightarrow> watch prov (setBuilt (obName p) digest prov st)))))"

section \<open>Readiness\<close>

definition wrap32 :: "int \<Rightarrow> int" where
  "wrap32 x = (x + 2 ^ 31) mod 2 ^ 32 - 2 ^ 31"

definition no_report_yet :: readiness where
  "no_report_yet = not_ready ''NoReportYet'' ''registered, but no capacity report yet''"

text \<open>What the registry's view of a provider means.\<close>

definition status_readiness :: "reconciler \<Rightarrow> status \<Rightarrow> readiness" where
  "status_readiness rc st =
     (let reporting = (\<lambda>msg. \<lparr>rdStatus = CondTrue, rdReason = ''Reporting'', rdMessage = msg\<rparr>);
          last_error = (case stLastError st of None \<Rightarrow> ''<nil>'' | Some e \<Rightarrow> error_string e)
      in if stReachable st \<and> stLastError st \<noteq> None then
           reporting (''serving last known capacity; most recent fetch failed: '' @ last_error)
         else if stReachable st then reporting (dec_int (repWarmCapacity (stReport st)) @ '' warm sandboxes available'')
         else if stStale st then
           not_ready ''ReportStale'' (''no successful report since '' @ kcRFC3339 rc (stUpdatedAt st) @ ''; last error: '' @ last_error)
         else if stLastError st \<noteq> None then not_ready ''FetchFailed'' last_error
         else no_report_yet)"

definition show_report :: "status \<Rightarrow> object_status \<Rightarrow> object_status" where
  "show_report st s =
     (let s = s\<lparr>ssWarmCapacity := wrap32 (repWarmCapacity (stReport st)), ssObservedAttributes := repAttributes (stReport st),
            ssLastError := (case stLastError st of None \<Rightarrow> [] | Some e \<Rightarrow> error_string e)\<rparr>
      in if stReachable st \<or> stStale st then s\<lparr>ssLastReportTime := Some (rfc3339_copy (stUpdatedAt st))\<rparr> else s)"

definition registryReadiness :: "reconciler \<Rightarrow> gotime \<Rightarrow> provider_object \<Rightarrow> registry \<Rightarrow> provider_object \<times> readiness \<times> bool" where
  "registryReadiness rc now p reg =
     (case find (\<lambda>st. stProvider st = obName p) (Statuses now reg) of
        None \<Rightarrow> (p, no_report_yet, False)
      | Some st \<Rightarrow> (p\<lparr>obStatus := show_report st (obStatus p)\<rparr>, status_readiness rc st, repElastic (stReport st)))"

section \<open>A reconcile\<close>

definition registry_config_of :: "provider_object \<Rightarrow> provider_config" where
  "registry_config_of p = \<lparr>pcAttributes = spAttributes (obSpec p), pcTemplates = templateMap (spTemplates (obSpec p)),
     pcCostPerHour = (case spCostPerHour (obSpec p) of None \<Rightarrow> 0 | Some q \<Rightarrow> q),
     pcElasticWarmScore = (case spClaims (obSpec p) of None \<Rightarrow> None | Some cs \<Rightarrow> csElasticWarmScore cs)\<rparr>"

text \<open>The second half of \<open>sync\<close>, with the provider at hand.\<close>

definition sync_built :: "reconciler \<Rightarrow> reconcile_input \<Rightarrow> provider_object \<Rightarrow> built_provider \<Rightarrow> 's controller
    \<Rightarrow> 's controller \<times> provider_object \<times> readiness \<times> readiness" where
  "sync_built rc inp p prov st =
     (let interval = (case spRefreshInterval (obSpec p) of None \<Rightarrow> 0 | Some d \<Rightarrow> d);
          st = on_registry (SetRefreshInterval (riNow inp) (obName p) interval) st;
          st = on_registry (SetConfig (obName p) (registry_config_of p)) st
      in case registryReadiness rc (riStatusNow inp) p (ctRegistry st) of
          (p, ready, isElastic) \<Rightarrow>
            (case syncClaims p prov (templateMap (spTemplates (obSpec p))) isElastic st of
               (st, p, claiming) \<Rightarrow> (st, p, ready, claiming)))"

definition sync :: "reconciler \<Rightarrow> reconcile_input \<Rightarrow> provider_object \<Rightarrow> 's controller
    \<Rightarrow> 's controller \<times> provider_object \<times> readiness \<times> readiness" where
  "sync rc inp p st =
     (if \<not> Has (kcFactories rc) (spAdapter (obSpec p)) then
        (let msg = ''unknown adapter '' @ quote (spAdapter (obSpec p)) @ '' (available: '' @ list_string (Names (kcFactories rc)) @ '')''
         in (deregister (obName p) st, p, not_ready ''UnknownAdapter'' msg, not_ready ''UnknownAdapter'' msg))
      else if spDisabled (obSpec p) then
        (let st = on_registry (RemoveSource (obName p)) st;
             st = on_binder (RemoveTarget (obName p)) st
         in (syncReaperWhenDisabled rc inp p st, p,
             not_ready ''Disabled'' ''provider is disabled and will not be considered for placement'',
             not_ready ''Disabled'' ''provider is disabled''))
      else
        (let st = (if \<not> claims_enabled p then on_binder (RemoveTarget (obName p)) st else st) in
         case resolveCredentials rc inp p of
           Inl err \<Rightarrow>
             (let st = on_binder (RemoveTarget (obName p)) st;
                  st = on_reaper (reap_RemoveTarget (obName p)) st;
                  claiming = (if \<not> claims_enabled p then claims_off
                    else if ctBinder st = None then scheduler_claims_off
                    else not_ready ''CredentialsUnavailable'' (error_string err))
              in (st, p, not_ready ''CredentialsUnavailable'' (error_string err), claiming))
         | Inr creds \<Rightarrow>
             (let cfg = adapter_config_of p creds;
                  digest = configDigest (kcSha rc) (spAdapter (obSpec p)) cfg
              in case builtProvider (obName p) digest st of
                  Some prov \<Rightarrow> sync_built rc inp p prov st
                | None \<Rightarrow>
                    (case build_provider rc (spAdapter (obSpec p)) cfg of
                       Inl err \<Rightarrow> (deregister (obName p) st, p, not_ready ''AdapterConfigInvalid'' (error_string err),
                         not_ready ''AdapterConfigInvalid'' (error_string err))
                     | Inr prov \<Rightarrow> sync_built rc inp p prov (setBuilt (obName p) digest prov (add_source prov st))))))"

section \<open>Conditions\<close>

fun setCondition :: "condition_object list \<Rightarrow> condition_object \<Rightarrow> condition_object list" where
  "setCondition [] nxt = [nxt]"
| "setCondition (c # cs) nxt =
     (if cnType c \<noteq> cnType nxt then c # setCondition cs nxt
      else (if cnStatus c = cnStatus nxt then nxt\<lparr>cnLastTransition := cnLastTransition c\<rparr> else nxt) # cs)"

definition findCondition :: "condition_object list \<Rightarrow> string \<Rightarrow> condition_object option" where
  "findCondition conditions condType = find (\<lambda>c. cnType c = condType) conditions"

definition claimingTransitioned :: "condition_object option \<Rightarrow> readiness \<Rightarrow> bool \<Rightarrow> bool" where
  "claimingTransitioned prev nxt claimsEnabled =
     (case prev of
        None \<Rightarrow> claimsEnabled \<or> rdStatus nxt = CondTrue
      | Some c \<Rightarrow> cnStatus c \<noteq> rdStatus nxt \<or> cnReason c \<noteq> rdReason nxt)"

definition condition_of :: "string \<Rightarrow> int \<Rightarrow> gotime \<Rightarrow> readiness \<Rightarrow> condition_object" where
  "condition_of ctype generation now r =
     \<lparr>cnType = ctype, cnStatus = rdStatus r, cnReason = rdReason r, cnMessage = rdMessage r,
      cnObservedGeneration = generation, cnLastTransition = now\<rparr>"

section \<open>Writing the status\<close>

text \<open>\<open>equality.Semantic.DeepEqual\<close>: maps by their entries, and an empty one like a missing one.\<close>

definition same_status :: "object_status \<Rightarrow> object_status \<Rightarrow> bool" where
  "same_status s t \<longleftrightarrow> s\<lparr>ssObservedAttributes := []\<rparr> = t\<lparr>ssObservedAttributes := []\<rparr> \<and>
     set (ssObservedAttributes s) = set (ssObservedAttributes t)"

datatype ctrl_result = Done | RequeueAfter duration | Requeue | ReconcileError go_error

record emitted_event =
  evType :: string
  evAction :: string
  evReason :: string
  evNote :: string
  evInstance :: string
  evProvider :: string
  evUID :: string

text \<open>What a reconcile sends to the API server: the statuses it patches and the events it creates, whose errors it ignores.\<close>

datatype api_write = StatusPatch string object_status | PolicyUpdate string "condition_object list" | EventCreate emitted_event

definition emitEvent :: "reconciler \<Rightarrow> provider_object \<Rightarrow> string \<Rightarrow> string \<Rightarrow> string \<Rightarrow> string \<Rightarrow> api_write list" where
  "emitEvent rc p eventType action reason note =
     (if \<not> kcHasClient rc then []
      else [EventCreate \<lparr>evType = eventType, evAction = action, evReason = reason,
        evNote = (if length note > 1024 then take 1024 note else note),
        evInstance = (if kcEventInstance rc = [] then ''sandbox-scheduler'' else kcEventInstance rc),
        evProvider = obName p, evUID = obUID p\<rparr>])"

definition statusInterval :: "reconciler \<Rightarrow> duration" where
  "statusInterval rc = (if kcStatusInterval rc > 0 then kcStatusInterval rc else 15 * second)"

definition with_conditions :: "reconcile_input \<Rightarrow> provider_object \<Rightarrow> readiness \<Rightarrow> readiness option \<Rightarrow> provider_object" where
  "with_conditions inp p ready claiming =
     (let cs = setCondition (ssConditions (obStatus p)) (condition_of ConditionReady (obGeneration p) (riStampReady inp) ready);
          cs = (case claiming of None \<Rightarrow> cs
            | Some cl \<Rightarrow> setCondition cs (condition_of ConditionClaiming (obGeneration p) (riStampClaiming inp) cl))
      in p\<lparr>obStatus := (obStatus p)\<lparr>ssConditions := cs\<rparr>\<rparr>)"

definition claiming_event :: "reconciler \<Rightarrow> provider_object \<Rightarrow> condition_object option \<Rightarrow> readiness option \<Rightarrow> api_write list" where
  "claiming_event rc p prev claiming =
     (case claiming of
        None \<Rightarrow> []
      | Some cl \<Rightarrow>
          (if claimingTransitioned prev cl (claims_enabled p) then
             emitEvent rc p
               (if rdStatus cl = CondFalse \<and> rdReason cl \<noteq> ''ClaimsDisabled'' \<and> rdReason cl \<noteq> ''Disabled'' then ''Warning'' else ''Normal'')
               ''ReconcileClaiming'' (rdReason cl) (rdMessage cl)
           else []))"

definition writeStatus :: "reconciler \<Rightarrow> reconcile_input \<Rightarrow> provider_object \<Rightarrow> object_status \<Rightarrow> readiness \<Rightarrow> readiness option
    \<Rightarrow> ctrl_result \<times> api_write list" where
  "writeStatus rc inp p observed ready claiming =
     (if \<not> riMayWrite inp then (RequeueAfter (statusInterval rc), [])
      else
        (let prev = findCondition (ssConditions observed) ConditionClaiming;
             p = with_conditions inp p ready claiming
         in if same_status observed (obStatus p) then (RequeueAfter (statusInterval rc), [])
            else (let patch = StatusPatch (obName p) (obStatus p) in
              case riPatch inp of
                PatchConflict \<Rightarrow> (Requeue, [patch])
              | PatchFailed err \<Rightarrow> (ReconcileError err, [patch])
              | Patched \<Rightarrow> (RequeueAfter (statusInterval rc), patch # claiming_event rc p prev claiming))))"

definition Reconcile_provider :: "reconciler \<Rightarrow> reconcile_input \<Rightarrow> string \<Rightarrow> provider_object api_answer \<Rightarrow> 's controller
    \<Rightarrow> 's controller \<times> ctrl_result \<times> api_write list" where
  "Reconcile_provider rc inp name obj st =
     (case obj of
        Missing \<Rightarrow> (deregister name st, Done, [])
      | ApiFailed err \<Rightarrow> (st, ReconcileError err, [])
      | Got p \<Rightarrow>
          (let observed = obStatus p in
           case sync rc inp p st of
             (st, p, ready, claiming) \<Rightarrow>
               (case writeStatus rc inp p observed ready (Some claiming) of
                  (result, writes) \<Rightarrow> (st, result, writes))))"

definition RecordReapDryRunEvent :: "reconciler \<Rightarrow> bool \<Rightarrow> provider_object api_answer \<Rightarrow> handle list \<Rightarrow> api_write list" where
  "RecordReapDryRunEvent rc mayWrite obj handles =
     (if length handles = 0 \<or> \<not> kcHasClient rc then []
      else if \<not> mayWrite then []
      else (case obj of
          Got p \<Rightarrow> emitEvent rc p ''Normal'' ''ReapDryRun'' ''ReapDryRun''
            (''dry-run: would reap '' @ dec_int (int (length handles)) @ '' expired sandbox(es) (first: '' @ hID (handles ! 0) @ '')'')
        | _ \<Rightarrow> []))"

text \<open>The secrets' mapper: the providers to reconcile when a secret of a namespace changes.\<close>

definition providersForSecret :: "reconciler \<Rightarrow> string \<Rightarrow> string \<Rightarrow> provider_object list api_answer \<Rightarrow> string list" where
  "providersForSecret rc ns name listed =
     (if ns \<noteq> kcSecretNamespace rc then []
      else (case listed of
          Got ps \<Rightarrow> map obName (filter (\<lambda>p. spCredentialsRef (obSpec p) = Some name) ps)
        | _ \<Rightarrow> []))"

section \<open>Policies\<close>

record 'sel policy_object =
  poObject :: "'sel policy"
  poGeneration :: int
  poConditions :: "condition_object list"

definition policy_verdict :: "'sel policy \<Rightarrow> readiness" where
  "policy_verdict p =
     (case Policy_Validate p of
        Some msg \<Rightarrow> \<lparr>rdStatus = CondFalse, rdReason = ''Rejected'', rdMessage = msg\<rparr>
      | None \<Rightarrow> \<lparr>rdStatus = CondTrue, rdReason = ''Accepted'', rdMessage = ''policy is valid and will be used for placement''\<rparr>)"

definition Reconcile_policy :: "gotime \<Rightarrow> patch_answer \<Rightarrow> 'sel policy_object api_answer \<Rightarrow> ctrl_result \<times> api_write list" where
  "Reconcile_policy now answer obj =
     (case obj of
        Missing \<Rightarrow> (Done, [])
      | ApiFailed err \<Rightarrow> (ReconcileError err, [])
      | Got p \<Rightarrow>
          (let cs = setCondition (poConditions p) (condition_of ConditionValid (poGeneration p) now (policy_verdict (poObject p)));
               update = [PolicyUpdate (poName (poObject p)) cs]
           in case answer of
               Patched \<Rightarrow> (Done, update)
             | PatchConflict \<Rightarrow> (Requeue, update)
             | PatchFailed err \<Rightarrow> (ReconcileError err, update)))"

end
