(* ===== verification/ControllerProps.thy ===== *)
theory ControllerProps
  imports Controller
begin

text \<open>
  What the reconciler of providers guarantees: the conditions it shows tell what the registry, the binder and the reaper do
  with the provider, and a reconcile that follows a successful one changes and writes nothing.
\<close>

section \<open>What the components do with a provider\<close>

definition binder_serves :: "'s controller \<Rightarrow> string \<Rightarrow> bool" where
  "binder_serves st name = (case ctBinder st of None \<Rightarrow> False
     | Some b \<Rightarrow> (case go_get (b_targets b) name of None \<Rightarrow> False | Some t \<Rightarrow> claim_capable t))"

definition reaper_watches :: "'s controller \<Rightarrow> string \<Rightarrow> bool" where
  "reaper_watches st name = (case ctReaper st of None \<Rightarrow> False | Some r \<Rightarrow> go_get (rTargets r) name \<noteq> None)"

named_theorems ct_views "what the operations on the components do to the views"

lemma evict_targets [simp]: "b_targets (evictCompletedFlight a s b) = b_targets b"
  by (simp add: evictCompletedFlight_def)

lemma evict_health [simp]: "b_health (evictCompletedFlight a s b) = b_health b"
  by (simp add: evictCompletedFlight_def)

lemma dom_go_copy: "fst ` set (go_copy m out) = fst ` set m \<union> fst ` set out"
proof (induction m arbitrary: out)
  case (Cons kv m)
  have "go_copy (kv # m) out = go_copy m (go_put (fst kv) (snd kv) out)"
    by (simp add: go_copy_def case_prod_unfold)
  then show ?case by (simp only: Cons.IH dom_go_put list.set image_insert Un_insert_left Un_insert_right)
qed (simp add: go_copy_def)

lemma RemoveTarget_get: "go_get (b_targets (RemoveTarget name b)) name = None"
proof (cases "go_get (b_targets b) name")
  case (Some t)
  have "name \<notin> fst ` set (go_copy (filter (\<lambda>(k, v). k \<noteq> name) (b_targets b)) [])"
    unfolding dom_go_copy by auto
  then show ?thesis by (simp add: RemoveTarget_def Some map_of_eq_None_iff)
qed (simp add: RemoveTarget_def)

lemma default_config_enabled: "tcEnabled (default_config cfg) = tcEnabled cfg"
  by (simp add: default_config_def Let_def)

lemma SetTarget_get: "\<exists>t. go_get (b_targets (SetTarget name prov cfg b)) name = Some t \<and> tgProv t = prov \<and> tcEnabled (tgCfg t) = tcEnabled cfg"
  by (simp add: SetTarget_def Let_def case_prod_unfold go_get_put default_config_enabled)

lemma serves_registry [ct_views]: "binder_serves (on_registry f st) name = binder_serves st name"
  by (simp add: binder_serves_def on_registry_def Let_def split: option.splits)

lemma serves_reaper [ct_views]: "binder_serves (on_reaper f st) name = binder_serves st name"
  by (simp add: binder_serves_def on_reaper_def)

lemma serves_built [ct_views]: "binder_serves (setBuilt a d prov st) name = binder_serves st name"
  by (simp add: binder_serves_def setBuilt_def)

lemma serves_source [ct_views]: "binder_serves (add_source prov st) name = binder_serves st name"
  by (simp add: add_source_def ct_views split: option.splits)

lemma serves_Remove [ct_views]: "\<not> binder_serves (on_binder (RemoveTarget name) st) name"
  by (simp add: binder_serves_def on_binder_def RemoveTarget_get split: option.splits)

lemma serves_Set [ct_views]:
  "binder_serves (on_binder (SetTarget name prov cfg) st) name = (ctBinder st \<noteq> None \<and> tcEnabled cfg \<and> pvBinder prov)"
proof (cases "ctBinder st")
  case (Some b)
  with SetTarget_get [of name prov cfg b] show ?thesis
    by (auto simp: binder_serves_def on_binder_def claim_capable_def)
qed (simp add: binder_serves_def on_binder_def)

lemma serves_fields [ct_views]:
  "binder_serves (st\<lparr>ctBuilt := x\<rparr>) name = binder_serves st name" "binder_serves (st\<lparr>ctProviders := y\<rparr>) name = binder_serves st name"
  by (simp_all add: binder_serves_def)

lemma serves_deregister [ct_views]: "\<not> binder_serves (deregister name st) name"
  by (simp add: deregister_def Let_def ct_views)

lemma parts_simps [simp]:
  "ctBinder (on_reaper g st) = ctBinder st" "ctBinder (on_binder f st) = map_option f (ctBinder st)"
  "ctReaper (on_binder f st) = ctReaper st" "ctReaper (on_reaper g st) = map_option g (ctReaper st)"
  "ctRegistry (on_binder f st) = ctRegistry st" "ctRegistry (on_reaper g st) = ctRegistry st"
  by (simp_all add: on_binder_def on_reaper_def)

lemma serves_disabled [ct_views]: "\<not> binder_serves st (obName p) \<Longrightarrow> \<not> binder_serves (syncReaperWhenDisabled rc inp p st) (obName p)"
  by (auto simp: syncReaperWhenDisabled_def Let_def ct_views split: option.splits sum.splits if_splits)

abbreviation serving_reasons :: "string set" where
  "serving_reasons \<equiv> {''ClaimCapable'', ''CircuitOpen'', ''ClaimRejected''}"

lemma claim_readiness_serving: "rdReason (claim_readiness hs) \<in> serving_reasons"
  by (auto simp: claim_readiness_def not_ready_def split: option.splits)

lemma syncClaims_serves:
  assumes "syncClaims p prov templates isElastic st = (st', p', claiming)"
  shows "binder_serves st' (obName p) \<longleftrightarrow> rdReason claiming \<in> serving_reasons"
    and "rdReason claiming \<in> serving_reasons \<Longrightarrow> claims_enabled p"
proof -
  have tc: "tcEnabled (target_config_of p prov templates isElastic) \<longleftrightarrow> claims_enabled p \<and> pvBinder (bpCaps prov)"
    by (simp add: target_config_of_def Let_def split: option.splits)
  have st': "st' = on_reaper (reap_SetTarget (obName p) (reap_provider_of prov)
      (reap_config_of prov (tcTimeout (target_config_of p prov templates isElastic))))
      (on_binder (SetTarget (obName p) (bpCaps prov) (target_config_of p prov templates isElastic)) st)"
    using assms by (auto simp: syncClaims_def Let_def split: option.splits if_splits)
  have serves: "binder_serves st' (obName p) \<longleftrightarrow> ctBinder st \<noteq> None \<and> claims_enabled p \<and> pvBinder (bpCaps prov)"
    by (auto simp: st' ct_views tc)
  have off: "rdReason claims_off \<notin> serving_reasons" "rdReason scheduler_claims_off \<notin> serving_reasons"
    "rdReason (not_ready ''AdapterPollOnly'' msg) \<notin> serving_reasons" for msg
    by (simp_all add: claims_off_def scheduler_claims_off_def not_ready_def)
  have reason: "rdReason claiming \<in> serving_reasons \<longleftrightarrow> ctBinder st \<noteq> None \<and> claims_enabled p \<and> pvBinder (bpCaps prov)"
  proof (cases "claims_enabled p")
    case False
    then show ?thesis using assms off by (auto simp: syncClaims_def Let_def simp del: insert_iff)
  next
    case True
    then show ?thesis using assms off claim_readiness_serving
      by (cases "ctBinder st") (auto simp: syncClaims_def Let_def simp del: insert_iff split: if_splits)
  qed
  show "binder_serves st' (obName p) \<longleftrightarrow> rdReason claiming \<in> serving_reasons" "rdReason claiming \<in> serving_reasons \<Longrightarrow> claims_enabled p"
    unfolding serves reason by simp_all
qed


section \<open>Sources\<close>

abbreviation polls :: "'s controller \<Rightarrow> string \<Rightarrow> bool" where
  "polls st name \<equiv> HasSource name (ctRegistry st)"

text \<open>Factories build providers with a source that has the name of the configuration.\<close>

definition names_sources :: "reconciler \<Rightarrow> bool" where
  "names_sources rc \<longleftrightarrow> (\<forall>name f cfg prov. go_get (kcFactories rc) name = Some f \<longrightarrow> f cfg = Inr prov \<longrightarrow>
     (\<forall>s. bpSource prov = Some s \<longrightarrow> soProviderID s = acProviderID cfg))"

lemma build_source:
  assumes "names_sources rc" "build_provider rc a cfg = Inr prov"
  obtains s where "bpSource prov = Some s" "soProviderID s = acProviderID cfg"
  using assms by (auto simp: build_provider_def New_adapter_def names_sources_def split: option.splits sum.splits if_splits)

lemma sources_ensure [simp]: "r_sources (ensure_entry i r) = r_sources r"
  by (simp add: ensure_entry_def publishLedgers_def split: option.splits)

lemma sources_config [simp]: "r_sources (SetConfig i cfg r) = r_sources r"
  by (simp add: SetConfig_def update_entry_def)

lemma polls_Remove [ct_views]: "\<not> HasSource name (RemoveSource name r)"
  by (simp add: HasSource_def RemoveSource_def Let_def publishLedgers_def go_get_delete)

lemma polls_Interval [ct_views]: "HasSource name (SetRefreshInterval now i d r) = HasSource name r"
  by (auto simp: HasSource_def SetRefreshInterval_def Let_def wakeRun_def go_get_put split: option.splits)

lemma polls_Config [ct_views]: "HasSource name (SetConfig i cfg r) = HasSource name r"
  by (simp add: HasSource_def)

lemma polls_Add [ct_views]: "HasSource (soProviderID s) (AddSource s r)"
  by (simp add: HasSource_def AddSource_def Let_def retire_def wakeRun_def go_get_put)

lemma registry_parts [simp]:
  "ctRegistry (on_registry f st) = f (ctRegistry st)" "ctRegistry (setBuilt a d prov st) = ctRegistry st"
  "ctReaper (on_registry f st) = ctReaper st" "ctReaper (setBuilt a d prov st) = ctReaper st"
  "ctBuilt (on_registry f st) = ctBuilt st" "ctBuilt (on_binder g st) = ctBuilt st" "ctBuilt (on_reaper h st) = ctBuilt st"
  "ctProviders (on_registry f st) = ctProviders st" "ctProviders (on_binder g st) = ctProviders st"
  "ctProviders (on_reaper h st) = ctProviders st"
  by (simp_all add: on_registry_def on_binder_def on_reaper_def setBuilt_def Let_def)

lemma source_parts [simp]:
  "ctReaper (add_source prov st) = ctReaper st" "ctBuilt (add_source prov st) = ctBuilt st" "ctProviders (add_source prov st) = ctProviders st"
  by (simp_all add: add_source_def split: option.splits)

lemma deregister_parts [simp]:
  "ctRegistry (deregister name st) = RemoveSource name (ctRegistry st)"
  "ctReaper (deregister name st) = map_option (reap_RemoveTarget name) (ctReaper st)"
  "ctBuilt (deregister name st) = go_delete name (ctBuilt st)" "ctProviders (deregister name st) = go_delete name (ctProviders st)"
  by (simp_all add: deregister_def Let_def)

lemma polls_built [ct_views]:
  assumes "names_sources rc" "build_provider rc a cfg = Inr prov"
  shows "polls (add_source prov st) (acProviderID cfg)"
proof -
  from build_source [OF assms] obtain s where "bpSource prov = Some s" "soProviderID s = acProviderID cfg" by blast
  then show ?thesis using polls_Add [of s] by (simp add: add_source_def)
qed

lemma config_id [simp]: "acProviderID (adapter_config_of p creds) = obName p"
  by (simp add: adapter_config_of_def Let_def)

section \<open>The reaper\<close>

lemma reap_Remove_get: "go_get (rTargets (reap_RemoveTarget name r)) name = None"
  by (auto simp: reap_RemoveTarget_def map_of_eq_None_iff split: option.splits)

lemma reap_Set_get: "go_get (rTargets (reap_SetTarget name prov cfg r)) name \<noteq> None \<longleftrightarrow> rcEnabled cfg \<and> rpBinder prov \<and> rpLister prov"
  by (auto simp: reap_SetTarget_def reap_Remove_get Let_def go_get_put split: option.splits)

lemma watches_Remove [ct_views]: "\<not> reaper_watches (on_reaper (reap_RemoveTarget name) st) name"
  by (simp add: reaper_watches_def reap_Remove_get split: option.splits)

definition reapable_provider :: "built_provider \<Rightarrow> bool" where
  "reapable_provider prov \<longleftrightarrow> pvBinder (bpCaps prov) \<and> bpLister prov"

lemma watches_Set [ct_views]:
  "reaper_watches (on_reaper (reap_SetTarget name (reap_provider_of prov) (reap_config_of prov t)) st) name \<longleftrightarrow>
   ctReaper st \<noteq> None \<and> reapable_provider prov"
  by (cases "ctReaper st") (auto simp: reaper_watches_def reap_Set_get reap_provider_of_def reap_config_of_def reapable_provider_def
    simp del: not_None_eq)

lemma watches_other [ct_views]:
  "reaper_watches (on_registry f st) name = reaper_watches st name" "reaper_watches (on_binder g st) name = reaper_watches st name"
  "reaper_watches (setBuilt a d prov st) name = reaper_watches st name"
  by (simp_all add: reaper_watches_def)

lemma watches_deregister [ct_views]: "\<not> reaper_watches (deregister name st) name"
  by (simp add: reaper_watches_def reap_Remove_get split: option.splits)

definition built_reapable :: "'s controller \<Rightarrow> string \<Rightarrow> bool" where
  "built_reapable st name = (case go_get (ctProviders st) name of None \<Rightarrow> False | Some prov \<Rightarrow> reapable_provider prov)"


section \<open>One reconcile\<close>

lemma readiness_object:
  assumes "registryReadiness rc now p reg = (p', ready, e)"
  shows "\<exists>x. p' = p\<lparr>obStatus := x\<rparr>" and "rdReason ready \<in> {''Reporting'', ''ReportStale'', ''FetchFailed'', ''NoReportYet''}"
proof -
  show "\<exists>x. p' = p\<lparr>obStatus := x\<rparr>"
    using assms by (cases p; cases p') (auto simp: registryReadiness_def split: option.splits)
  have "rdReason (status_readiness rc s) \<in> {''Reporting'', ''ReportStale'', ''FetchFailed'', ''NoReportYet''}" for s
    by (auto simp: status_readiness_def Let_def not_ready_def no_report_yet_def)
  then show "rdReason ready \<in> {''Reporting'', ''ReportStale'', ''FetchFailed'', ''NoReportYet''}"
    using assms by (auto simp: registryReadiness_def no_report_yet_def not_ready_def split: option.splits)
qed

definition reporting_reasons :: "string set" where
  "reporting_reasons = {''Reporting'', ''ReportStale'', ''FetchFailed'', ''NoReportYet''}"

lemma syncClaims_parts:
  assumes "syncClaims p prov templates isElastic st = (st', p', claiming)"
  shows "ctRegistry st' = ctRegistry st" and "ctBuilt st' = ctBuilt st" and "ctProviders st' = ctProviders st"
    and "reaper_watches st' (obName p) \<longleftrightarrow> ctReaper st \<noteq> None \<and> reapable_provider prov"
proof -
  define tcfg where "tcfg = target_config_of p prov templates isElastic"
  have st': "st' = on_reaper (reap_SetTarget (obName p) (reap_provider_of prov) (reap_config_of prov (tcTimeout tcfg)))
      (on_binder (SetTarget (obName p) (bpCaps prov) tcfg) st)"
    using assms by (auto simp: syncClaims_def Let_def tcfg_def split: option.splits if_splits)
  show "ctRegistry st' = ctRegistry st" "ctBuilt st' = ctBuilt st" "ctProviders st' = ctProviders st"
    "reaper_watches st' (obName p) \<longleftrightarrow> ctReaper st \<noteq> None \<and> reapable_provider prov"
    by (simp_all add: st' ct_views)
qed

lemma sync_built_agrees:
  assumes "sync_built rc inp p prov st = (st', p', ready, claiming)"
  shows "binder_serves st' (obName p) \<longleftrightarrow> rdReason claiming \<in> serving_reasons"
    and "rdReason claiming \<in> serving_reasons \<Longrightarrow> claims_enabled p"
    and "rdReason ready \<in> reporting_reasons"
    and "polls st' (obName p) = polls st (obName p)" and "ctProviders st' = ctProviders st"
    and "reaper_watches st' (obName p) \<longleftrightarrow> ctReaper st \<noteq> None \<and> reapable_provider prov"
proof -
  define st1 where "st1 = on_registry (SetConfig (obName p) (registry_config_of p)) (on_registry (SetRefreshInterval (riNow inp) (obName p)
      (case spRefreshInterval (obSpec p) of None \<Rightarrow> 0 | Some d \<Rightarrow> d)) st)"
  obtain q r e where reg: "registryReadiness rc (riStatusNow inp) p (ctRegistry st1) = (q, r, e)" by (metis prod_cases3)
  obtain x where q: "q = p\<lparr>obStatus := x\<rparr>" using readiness_object(1) [OF reg] by blast
  have qn: "obName q = obName p" "claims_enabled q = claims_enabled p" by (simp_all add: q claims_enabled_def)
  have claims: "syncClaims q prov (templateMap (spTemplates (obSpec p))) e st1 = (st', p', claiming)" and r: "ready = r"
    using assms unfolding sync_built_def Let_def st1_def [symmetric] by (simp_all add: reg q split: prod.splits)
  show "binder_serves st' (obName p) \<longleftrightarrow> rdReason claiming \<in> serving_reasons" "rdReason claiming \<in> serving_reasons \<Longrightarrow> claims_enabled p"
    using syncClaims_serves [OF claims] qn by simp_all
  show "rdReason ready \<in> reporting_reasons" using readiness_object(2) [OF reg] by (simp add: r reporting_reasons_def)
  show "polls st' (obName p) = polls st (obName p)" by (simp add: syncClaims_parts(1) [OF claims] st1_def ct_views)
  show "ctProviders st' = ctProviders st" by (simp add: syncClaims_parts(3) [OF claims] st1_def)
  show "reaper_watches st' (obName p) \<longleftrightarrow> ctReaper st \<noteq> None \<and> reapable_provider prov"
    using syncClaims_parts(4) [OF claims] qn by (simp add: st1_def)
qed

lemma disabled_agrees:
  "polls (syncReaperWhenDisabled rc inp p st) (obName p) \<Longrightarrow> polls st (obName p)"
  "ctReaper st \<noteq> None \<Longrightarrow> reaper_watches (syncReaperWhenDisabled rc inp p st) (obName p) \<longleftrightarrow>
     (case resolveCredentials rc inp p of Inl e \<Rightarrow> False | Inr c \<Rightarrow> built_reapable (syncReaperWhenDisabled rc inp p st) (obName p))"
proof -
  show "polls (syncReaperWhenDisabled rc inp p st) (obName p) \<Longrightarrow> polls st (obName p)"
    by (auto simp: syncReaperWhenDisabled_def Let_def ct_views split: if_splits sum.splits option.splits)
  assume "ctReaper st \<noteq> None"
  then show "reaper_watches (syncReaperWhenDisabled rc inp p st) (obName p) \<longleftrightarrow>
     (case resolveCredentials rc inp p of Inl e \<Rightarrow> False | Inr c \<Rightarrow> built_reapable (syncReaperWhenDisabled rc inp p st) (obName p))"
    by (auto simp: syncReaperWhenDisabled_def Let_def ct_views built_reapable_def setBuilt_def go_get_put go_get_delete
      simp del: not_None_eq split: if_splits sum.splits option.splits)
qed


text \<open>The outcomes of \<open>sync\<close>: a refusal that withdraws the provider, or a built provider.\<close>

lemma sync_withdraws:
  assumes "sync rc inp p st = (st', p', ready, claiming)"
  shows "\<not> Has (kcFactories rc) (spAdapter (obSpec p)) \<Longrightarrow>
      st' = deregister (obName p) st \<and> rdReason ready = ''UnknownAdapter'' \<and> rdReason claiming = ''UnknownAdapter''"
    and "Has (kcFactories rc) (spAdapter (obSpec p)) \<Longrightarrow> spDisabled (obSpec p) \<Longrightarrow>
      st' = syncReaperWhenDisabled rc inp p (on_binder (RemoveTarget (obName p)) (on_registry (RemoveSource (obName p)) st)) \<and>
      rdReason ready = ''Disabled'' \<and> rdReason claiming = ''Disabled''"
    and "Has (kcFactories rc) (spAdapter (obSpec p)) \<Longrightarrow> \<not> spDisabled (obSpec p) \<Longrightarrow> resolveCredentials rc inp p = Inl err \<Longrightarrow>
      \<not> binder_serves st' (obName p) \<and> \<not> reaper_watches st' (obName p) \<and> ctRegistry st' = ctRegistry st \<and>
      rdReason ready = ''CredentialsUnavailable'' \<and> rdReason claiming \<in> {''ClaimsDisabled'', ''CredentialsUnavailable''}"
  using assms by (auto simp: sync_def Let_def not_ready_def claims_off_def scheduler_claims_off_def ct_views)

lemma sync_proceeds:
  assumes "sync rc inp p st = (st', p', ready, claiming)"
    and "Has (kcFactories rc) (spAdapter (obSpec p))" "\<not> spDisabled (obSpec p)" "resolveCredentials rc inp p = Inr creds"
  obtains prov st1 where "sync_built rc inp p prov st1 = (st', p', ready, claiming)"
      "ctReaper st1 = ctReaper st" "go_get (ctProviders st1) (obName p) = Some prov" "names_sources rc \<Longrightarrow> polls st1 (obName p)"
  | st1 where "st' = deregister (obName p) st1" "rdReason ready = ''AdapterConfigInvalid''" "rdReason claiming = ''AdapterConfigInvalid''"
proof -
  define st0 where "st0 = (if \<not> claims_enabled p then on_binder (RemoveTarget (obName p)) st else st)"
  define cfg where "cfg = adapter_config_of p creds"
  define digest where "digest = configDigest (kcSha rc) (spAdapter (obSpec p)) cfg"
  have st0: "ctReaper st0 = ctReaper st" by (simp add: st0_def)
  note cases = that
  have run: "(case builtProvider (obName p) digest st0 of
      Some prov \<Rightarrow> sync_built rc inp p prov st0
    | None \<Rightarrow> (case build_provider rc (spAdapter (obSpec p)) cfg of
         Inl err \<Rightarrow> (deregister (obName p) st0, p, not_ready ''AdapterConfigInvalid'' (error_string err), not_ready ''AdapterConfigInvalid'' (error_string err))
       | Inr prov \<Rightarrow> sync_built rc inp p prov (setBuilt (obName p) digest prov (add_source prov st0)))) = (st', p', ready, claiming)"
    using assms unfolding sync_def Let_def st0_def cfg_def digest_def by (simp split del: if_split)
  show thesis
  proof (cases "builtProvider (obName p) digest st0")
    case (Some prov)
    show thesis
      by (rule cases(1) [of prov st0]) (use run Some st0 in \<open>auto simp: builtProvider_def split: option.splits if_splits\<close>)
  next
    case None
    show thesis
    proof (cases "build_provider rc (spAdapter (obSpec p)) cfg")
      case (Inl err)
      show thesis by (rule cases(2) [of st0]) (use run None Inl in \<open>auto simp: not_ready_def\<close>)
    next
      case (Inr prov)
      show thesis
      proof (rule cases(1) [of prov "setBuilt (obName p) digest prov (add_source prov st0)"])
        show "polls (setBuilt (obName p) digest prov (add_source prov st0)) (obName p)" if "names_sources rc"
          using polls_built [OF that Inr, of st0] by (simp add: cfg_def)
      qed (use run None Inr st0 in \<open>simp_all add: setBuilt_def go_get_put\<close>)
    qed
  qed
qed


text \<open>C36: the binder can claim from a provider exactly when the reconciler shows the condition \<open>Claiming\<close> with a reason
  of a provider that takes claims, and then claims are enabled on the object, it is not disabled, its adapter is known and
  its credentials were read: a reconcile that fails withdraws the provider from claims.\<close>

theorem sync_claims_agree:
  "case sync rc inp p st of (st', p', ready, claiming) \<Rightarrow>
     binder_serves st' (obName p) = (rdReason claiming \<in> {''ClaimCapable'', ''CircuitOpen'', ''ClaimRejected''}) \<and>
     (if binder_serves st' (obName p) then
        claims_enabled p \<and> \<not> spDisabled (obSpec p) \<and> Has (kcFactories rc) (spAdapter (obSpec p)) \<and>
        (case resolveCredentials rc inp p of Inl err \<Rightarrow> False | Inr creds \<Rightarrow> True)
      else True)"
proof -
  obtain st' p' ready claiming where run: "sync rc inp p st = (st', p', ready, claiming)" by (metis prod_cases4)
  consider (unknown) "\<not> Has (kcFactories rc) (spAdapter (obSpec p))"
    | (disabled) "Has (kcFactories rc) (spAdapter (obSpec p))" "spDisabled (obSpec p)"
    | (no_creds) err where "Has (kcFactories rc) (spAdapter (obSpec p))" "\<not> spDisabled (obSpec p)" "resolveCredentials rc inp p = Inl err"
    | (creds) creds where "Has (kcFactories rc) (spAdapter (obSpec p))" "\<not> spDisabled (obSpec p)" "resolveCredentials rc inp p = Inr creds"
    by (cases "resolveCredentials rc inp p") blast+
  then show ?thesis
  proof cases
    case unknown
    with sync_withdraws(1) [OF run] show ?thesis by (simp add: run ct_views)
  next
    case disabled
    with sync_withdraws(2) [OF run] show ?thesis by (simp add: run ct_views)
  next
    case no_creds
    with sync_withdraws(3) [OF run] show ?thesis by (auto simp: run)
  next
    case creds
    show ?thesis
    proof (rule sync_proceeds [OF run creds])
      fix prov st1 assume "sync_built rc inp p prov st1 = (st', p', ready, claiming)"
      from sync_built_agrees(1,2) [OF this] creds show ?thesis by (simp add: run)
    qed (simp add: run ct_views)
  qed
qed

text \<open>C37: after a reconcile the registry polls the provider unless its adapter is unknown, it is disabled or its configuration
  is refused; missing credentials leave the polling as it was. The reaper watches it exactly if the credentials were read and the
  provider that is built can list and release, whether or not it is disabled.\<close>

theorem sync_follows:
  assumes "names_sources rc" "ctReaper st \<noteq> None"
  shows "case sync rc inp p st of (st', p', ready, claiming) \<Rightarrow>
     HasSource (obName p) (ctRegistry st') =
       (if rdReason ready \<in> {''UnknownAdapter'', ''Disabled'', ''AdapterConfigInvalid''} then False
        else if rdReason ready = ''CredentialsUnavailable'' then HasSource (obName p) (ctRegistry st) else True) \<and>
     reaper_watches st' (obName p) =
       (Has (kcFactories rc) (spAdapter (obSpec p)) \<and>
        (case resolveCredentials rc inp p of Inl err \<Rightarrow> False | Inr creds \<Rightarrow> built_reapable st' (obName p)))"
proof -
  obtain st' p' ready claiming where run: "sync rc inp p st = (st', p', ready, claiming)" by (metis prod_cases4)
  consider (unknown) "\<not> Has (kcFactories rc) (spAdapter (obSpec p))"
    | (disabled) "Has (kcFactories rc) (spAdapter (obSpec p))" "spDisabled (obSpec p)"
    | (no_creds) err where "Has (kcFactories rc) (spAdapter (obSpec p))" "\<not> spDisabled (obSpec p)" "resolveCredentials rc inp p = Inl err"
    | (creds) creds where "Has (kcFactories rc) (spAdapter (obSpec p))" "\<not> spDisabled (obSpec p)" "resolveCredentials rc inp p = Inr creds"
    by (cases "resolveCredentials rc inp p") blast+
  then show ?thesis
  proof cases
    case unknown
    with sync_withdraws(1) [OF run] show ?thesis by (simp add: run ct_views)
  next
    case disabled
    define st0 where "st0 = on_binder (RemoveTarget (obName p)) (on_registry (RemoveSource (obName p)) st)"
    have st0: "\<not> polls st0 (obName p)" "ctReaper st0 \<noteq> None" using assms(2) by (simp_all add: st0_def ct_views)
    have st': "st' = syncReaperWhenDisabled rc inp p st0" "rdReason ready = ''Disabled''"
      using sync_withdraws(2) [OF run disabled] by (simp_all add: st0_def)
    have "\<not> polls st' (obName p)" using disabled_agrees(1) [where rc = rc and inp = inp and p = p and st = st0] st0 by (auto simp: st')
    with disabled_agrees(2) [OF st0(2), where rc = rc and inp = inp and p = p] show ?thesis by (simp add: run st' disabled)
  next
    case no_creds
    with sync_withdraws(3) [OF run] show ?thesis by (auto simp: run)
  next
    case creds
    show ?thesis
    proof (rule sync_proceeds [OF run creds])
      fix prov st1 assume built: "sync_built rc inp p prov st1 = (st', p', ready, claiming)"
        and st1: "ctReaper st1 = ctReaper st" "go_get (ctProviders st1) (obName p) = Some prov" "names_sources rc \<Longrightarrow> polls st1 (obName p)"
      have "built_reapable st' (obName p) = reapable_provider prov"
        by (simp add: built_reapable_def sync_built_agrees(5) [OF built] st1)
      then show ?thesis
        using sync_built_agrees(3,4,6) [OF built] st1 assms creds by (auto simp: run reporting_reasons_def simp del: not_None_eq)
    qed (simp add: run ct_views built_reapable_def go_get_delete creds)
  qed
qed


text \<open>The registry stays the one that the binder holds.\<close>

definition shared :: "'s controller \<Rightarrow> bool" where
  "shared st = (case ctBinder st of None \<Rightarrow> True | Some b \<Rightarrow> b_reg b = ctRegistry st)"

lemma pick_reg:
  "b_reg (snd (pick_slots i cfg prev b)) = b_reg b" "b_reg (snd (pick_health prev b)) = b_reg b"
  "b_reg (snd (snd (pick_claim_rate cfg prev b))) = b_reg b" "b_reg (snd (pick_lookup_rate cfg prev b)) = b_reg b"
  "b_reg (snd (pick_coalescer prov l s b)) = b_reg b"
  by (simp_all add: pick_slots_def pick_health_def pick_claim_rate_def pick_lookup_rate_def pick_coalescer_def Let_def split: option.split)

lemma SetTarget_reg: "b_reg (SetTarget name prov cfg b) = b_reg b"
  by (simp add: SetTarget_def Let_def case_prod_unfold pick_reg)

lemma RemoveTarget_reg: "b_reg (RemoveTarget name b) = b_reg b"
  by (simp add: RemoveTarget_def evictCompletedFlight_def split: option.splits)

lemma shared_parts:
  "shared (on_registry f st)" "shared st \<Longrightarrow> shared (on_binder (SetTarget name prov cfg) st)"
  "shared st \<Longrightarrow> shared (on_binder (RemoveTarget name) st)" "shared (on_reaper g st) = shared st" "shared (setBuilt a d built st) = shared st"
  by (auto simp: shared_def on_registry_def on_binder_def on_reaper_def setBuilt_def Let_def SetTarget_reg RemoveTarget_reg split: option.splits)

lemma shared_source: "shared st \<Longrightarrow> shared (add_source prov st)"
  by (simp add: add_source_def shared_parts split: option.split)

lemma shared_deregister: "shared (deregister name st)"
proof -
  have "shared (st\<lparr>ctBuilt := x, ctProviders := y\<rparr>) = shared st" for st :: "'a controller" and x y
    by (cases "ctBinder st") (simp_all add: shared_def)
  then show ?thesis by (simp add: deregister_def Let_def shared_parts)
qed

lemma shared_claims:
  assumes "syncClaims p prov templates e st = (st', p', claiming)" "shared st"
  shows "shared st'"
proof -
  obtain f g where "st' = on_reaper g (on_binder f st)" "f = SetTarget (obName p) (bpCaps prov) (target_config_of p prov templates e)"
    using assms(1) by (auto simp: syncClaims_def Let_def split: option.splits if_splits)
  with assms(2) show ?thesis by (simp add: shared_parts)
qed

lemma shared_built:
  assumes "sync_built rc inp p prov st = (st', p', ready, claiming)"
  shows "shared st'"
proof -
  define st1 where "st1 = on_registry (SetConfig (obName p) (registry_config_of p)) (on_registry (SetRefreshInterval (riNow inp) (obName p)
      (case spRefreshInterval (obSpec p) of None \<Rightarrow> 0 | Some d \<Rightarrow> d)) st)"
  obtain q r e where "registryReadiness rc (riStatusNow inp) p (ctRegistry st1) = (q, r, e)" by (metis prod_cases3)
  then have "syncClaims q prov (templateMap (spTemplates (obSpec q))) e st1 = (st', p', claiming)"
    using assms unfolding sync_built_def Let_def st1_def [symmetric] by (simp split: prod.splits)
  moreover have "shared st1" by (simp add: st1_def shared_parts)
  ultimately show ?thesis by (rule shared_claims)
qed

lemma shared_disabled: "shared st \<Longrightarrow> shared (syncReaperWhenDisabled rc inp p st)"
  by (simp add: syncReaperWhenDisabled_def Let_def shared_parts shared_deregister split: option.split sum.split)

lemma sync_shared:
  assumes run: "sync rc inp p st = (st', p', ready, claiming)" and st: "shared st"
  shows "shared st'"
proof -
  consider "\<not> Has (kcFactories rc) (spAdapter (obSpec p))" | "Has (kcFactories rc) (spAdapter (obSpec p))" "spDisabled (obSpec p)"
    | "Has (kcFactories rc) (spAdapter (obSpec p))" "\<not> spDisabled (obSpec p)" by blast
  then show ?thesis
  proof cases
    case 1
    with sync_withdraws(1) [OF run] show ?thesis by (simp add: shared_deregister)
  next
    case 2
    with sync_withdraws(2) [OF run] show ?thesis by (simp add: shared_disabled shared_parts)
  next
    case 3
    show ?thesis
    proof (cases "resolveCredentials rc inp p")
      case (Inl err)
      with 3 run st show ?thesis by (auto simp: sync_def Let_def shared_parts)
    next
      case (Inr creds)
      show ?thesis by (rule sync_proceeds [OF run 3 Inr]) (simp_all add: shared_built shared_deregister)
    qed
  qed
qed

section \<open>Reconciles that find nothing to do\<close>

text \<open>The operations are idempotent.\<close>

lemma RemoveSource_again: "RemoveSource name (RemoveSource name r) = RemoveSource name r"
  by (simp add: RemoveSource_def Let_def publishLedgers_def go_get_delete delete_idem)

lemma ensure_again: "go_get (r_entries r) i \<noteq> None \<Longrightarrow> ensure_entry i r = r"
  by (auto simp: ensure_entry_def)

lemma ensure_entry_get: "go_get (r_entries (ensure_entry i r)) i \<noteq> None"
  by (auto simp: ensure_entry_def publishLedgers_def go_get_put split: option.splits)

lemma update_entry_get: "go_get (r_entries (update_entry i f r)) j \<noteq> None \<longleftrightarrow> go_get (r_entries r) j \<noteq> None"
proof -
  have "fst ` (\<lambda>(k, e). (k, if k = i then f e else e)) ` X = fst ` X" for X by force
  then show ?thesis by (simp add: update_entry_def map_of_eq_None_iff del: not_None_eq)
qed

lemma SetConfig_again: "SetConfig i cfg (SetConfig i cfg r) = SetConfig i cfg r"
proof -
  have entry: "go_get (r_entries (SetConfig i cfg r)) i \<noteq> None"
    by (simp add: SetConfig_def update_entry_get ensure_entry_get del: not_None_eq)
  have "update_entry i f (update_entry i f r) = update_entry i f r" if "\<And>e. f (f e) = f e" for f r
    using that by (simp add: update_entry_def case_prod_unfold)
  then have "update_entry i (eConfig_update (\<lambda>_. cfg)) (SetConfig i cfg r) = SetConfig i cfg r" by (simp add: SetConfig_def)
  then show ?thesis unfolding SetConfig_def [of i cfg "SetConfig i cfg r"] ensure_again [OF entry] .
qed

lemma SetRefreshInterval_again: "SetRefreshInterval now' i d (SetConfig i cfg (SetRefreshInterval now i d r)) = SetConfig i cfg (SetRefreshInterval now i d r)"
proof -
  define s where "s = SetConfig i cfg (SetRefreshInterval now i d r)"
  have sources: "r_sources s = r_sources (SetRefreshInterval now i d r)" by (simp add: s_def)
  have "plInterval q = (if d < 0 then 0 else d)" if "go_get (r_sources s) i = Some q" for q
    using that unfolding sources by (auto simp: SetRefreshInterval_def Let_def wakeRun_def go_get_put split: option.splits if_splits)
  then show ?thesis unfolding s_def [symmetric] by (simp add: SetRefreshInterval_def split: option.splits)
qed


text \<open>What \<open>sync\<close> does depends on the status only where it fills it in.\<close>

lemma status_irrelevant [simp]:
  "resolveCredentials rc inp (p\<lparr>obStatus := y\<rparr>) = resolveCredentials rc inp p"
  "adapter_config_of (p\<lparr>obStatus := y\<rparr>) creds = adapter_config_of p creds"
  "claims_enabled (p\<lparr>obStatus := y\<rparr>) = claims_enabled p"
  "target_config_of (p\<lparr>obStatus := y\<rparr>) prov templates e = target_config_of p prov templates e"
  "registry_config_of (p\<lparr>obStatus := y\<rparr>) = registry_config_of p"
  by (simp_all add: resolveCredentials_def adapter_config_of_def claims_enabled_def target_config_of_def registry_config_of_def)

lemma status_fields: "obName (p\<lparr>obStatus := y\<rparr>) = obName p" "obSpec (p\<lparr>obStatus := y\<rparr>) = obSpec p"
  by simp_all

lemma self_status: "p\<lparr>obStatus := obStatus p\<rparr> = p"
  by simp

lemma disabled_status [simp]: "syncReaperWhenDisabled rc inp (p\<lparr>obStatus := y\<rparr>) st = syncReaperWhenDisabled rc inp p st"
  unfolding syncReaperWhenDisabled_def status_irrelevant status_fields ..

lemma same_secrets: "riSecret inp' = riSecret inp \<Longrightarrow> resolveCredentials rc inp' p = resolveCredentials rc inp p"
  by (simp add: resolveCredentials_def split: option.split)

definition settles :: "(object_status \<Rightarrow> object_status) \<Rightarrow> bool" where
  "settles f \<longleftrightarrow> (\<forall>y cs. f ((f y)\<lparr>ssConditions := cs\<rparr>) = (f y)\<lparr>ssConditions := cs\<rparr>)"

definition up_report :: "status option \<Rightarrow> object_status \<Rightarrow> object_status" where
  "up_report found = (case found of None \<Rightarrow> id | Some st \<Rightarrow> show_report st)"

definition up_health :: "claim_health_status option \<Rightarrow> object_status \<Rightarrow> object_status" where
  "up_health hs = (case hs of None \<Rightarrow> id | Some h \<Rightarrow> show_health h)"

lemma settles_report: "settles (up_report found)"
  by (cases found) (auto simp: settles_def up_report_def show_report_def Let_def)

lemma settles_health: "settles (up_health hs \<circ> up_report found)"
  by (cases found; cases hs)
    (auto simp: settles_def up_report_def up_health_def show_report_def show_health_def Let_def split: option.splits)

lemma settles_id: "settles id"
  by (simp add: settles_def)

lemma readiness_report: "\<exists>found ready e. \<forall>y. registryReadiness rc now (p\<lparr>obStatus := y\<rparr>) reg = (p\<lparr>obStatus := up_report found y\<rparr>, ready, e)"
  by (cases "find (\<lambda>st. stProvider st = obName p) (Statuses now reg)")
    (fastforce simp: registryReadiness_def up_report_def intro: exI [of _ None] exI [of _ "Some x" for x])+

lemma health_again: "go_get (b_targets b) name \<noteq> None \<Longrightarrow> HealthStatus name (SetTarget name prov cfg b) = HealthStatus name b"
  by (auto simp: HealthStatus_def SetTarget_def Let_def case_prod_unfold go_get_put pick_health_def pick_slots_def pick_claim_rate_def
      pick_lookup_rate_def pick_coalescer_def split: option.splits)


lemma binder_view: "ctBinder st = Some b \<Longrightarrow> ctBinder (on_registry f st) = Some (b\<lparr>b_reg := f (ctRegistry st)\<rparr>)"
  by (simp add: on_registry_def Let_def)

lemma no_binder [simp]: "ctBinder (on_registry f st) = None \<longleftrightarrow> ctBinder st = None"
  by (simp add: on_registry_def Let_def)

text \<open>A second run of \<open>syncClaims\<close>, with the status that the first run and the reports before it left.\<close>

lemma syncClaims_again:
  assumes run: "syncClaims p prov templates e st = (st1, p1, claiming)"
    and again: "ctBinder st2 = None \<longleftrightarrow> ctBinder st = None"
      "\<And>b1. claims_enabled p \<Longrightarrow> ctBinder st1 = Some b1 \<Longrightarrow> \<exists>g. ctBinder st2 = Some (b1\<lparr>b_reg := g\<rparr>)"
  shows "\<exists>hs. p1 = p\<lparr>obStatus := up_health hs (obStatus p)\<rparr> \<and>
    (\<forall>y. \<exists>st3. syncClaims (p\<lparr>obStatus := y\<rparr>) prov templates e st2 = (st3, p\<lparr>obStatus := up_health hs y\<rparr>, claiming))"
proof (cases "claims_enabled p \<and> ctBinder st \<noteq> None \<and> pvBinder (bpCaps prov)")
  case False
  have "p\<lparr>obStatus := up_health None (obStatus p)\<rparr> = p" by (simp add: up_health_def)
  moreover from False run have "p1 = p"
    by (auto simp: syncClaims_def Let_def split: option.splits if_splits)
  moreover have "\<exists>st3. syncClaims (p\<lparr>obStatus := y\<rparr>) prov templates e st2 = (st3, p\<lparr>obStatus := y\<rparr>, claiming)" for y
    using False run again(1) by (auto simp: syncClaims_def Let_def split: option.splits if_splits)
  ultimately show ?thesis by (intro exI [of _ None]) (simp add: up_health_def)
next
  case True
  then obtain b where b: "ctBinder st = Some b" by blast
  define tcfg where "tcfg = target_config_of p prov templates e"
  define b1 where "b1 = SetTarget (obName p) (bpCaps prov) tcfg b"
  have st1: "ctBinder st1 = Some b1"
    using run True b by (auto simp: syncClaims_def Let_def b1_def tcfg_def)
  from again(2) [OF _ this] True obtain g where st2: "ctBinder st2 = Some (b1\<lparr>b_reg := g\<rparr>)" by blast
  define hs where "hs = HealthStatus (obName p) b1"
  obtain t where "go_get (b_targets b1) (obName p) = Some t" using SetTarget_get [of "obName p" "bpCaps prov" tcfg b] by (auto simp: b1_def)
  then have "HealthStatus (obName p) (SetTarget (obName p) (bpCaps prov) tcfg (b1\<lparr>b_reg := g\<rparr>)) = HealthStatus (obName p) (b1\<lparr>b_reg := g\<rparr>)"
    by (intro health_again) simp
  then have hs2: "HealthStatus (obName p) (SetTarget (obName p) (bpCaps prov) tcfg (b1\<lparr>b_reg := g\<rparr>)) = hs"
    by (simp add: hs_def HealthStatus_def)
  have p1: "p1 = p\<lparr>obStatus := up_health hs (obStatus p)\<rparr>" "claiming = claim_readiness hs"
    using run True b by (auto simp: syncClaims_def Let_def up_health_def hs_def b1_def tcfg_def split: option.splits)
  have "\<exists>st3. syncClaims (p\<lparr>obStatus := y\<rparr>) prov templates e st2 = (st3, p\<lparr>obStatus := up_health hs y\<rparr>, claiming)" for y
    using True hs2 st2 by (auto simp: syncClaims_def Let_def tcfg_def p1(2) up_health_def split: option.splits)
  with p1 show ?thesis by blast
qed


lemma registry_binder: "ctBinder st1 = map_option f (ctBinder st) \<Longrightarrow>
    ctBinder (on_registry g st1) = map_option (\<lambda>b. (f b)\<lparr>b_reg := g (ctRegistry st1)\<rparr>) (ctBinder st)"
  by (cases "ctBinder st") (simp_all add: on_registry_def Let_def)

lemma syncClaims_binder: "syncClaims p prov templates e st = (st1, p1, claiming) \<Longrightarrow> ctBinder st1 = None \<longleftrightarrow> ctBinder st = None"
  by (auto simp: syncClaims_def Let_def split: option.splits if_splits)

definition tick_registry :: "reconcile_input \<Rightarrow> provider_object \<Rightarrow> 's controller \<Rightarrow> 's controller" where
  "tick_registry inp p st = on_registry (SetConfig (obName p) (registry_config_of p)) (on_registry (SetRefreshInterval (riNow inp) (obName p)
     (case spRefreshInterval (obSpec p) of None \<Rightarrow> 0 | Some d \<Rightarrow> d)) st)"

lemma tick_again: "ctRegistry st2 = ctRegistry (tick_registry inp p st) \<Longrightarrow> ctRegistry (tick_registry inp' p st2) = ctRegistry st2"
  by (simp add: tick_registry_def SetRefreshInterval_again SetConfig_again)

lemma tick_status [simp]: "tick_registry inp (p\<lparr>obStatus := y\<rparr>) st = tick_registry inp p st"
  by (simp add: tick_registry_def)

lemma tick_binder: "ctBinder st = Some b \<Longrightarrow> \<exists>g. ctBinder (tick_registry inp p st) = Some (b\<lparr>b_reg := g\<rparr>)"
  "ctBinder (tick_registry inp p st) = None \<longleftrightarrow> ctBinder st = None"
  by (auto simp: tick_registry_def on_registry_def Let_def)

lemma sync_built_ticks: "sync_built rc inp p prov st =
    (case registryReadiness rc (riStatusNow inp) p (ctRegistry (tick_registry inp p st)) of (q, ready, e) \<Rightarrow>
       (case syncClaims q prov (templateMap (spTemplates (obSpec q))) e (tick_registry inp p st) of
          (st, p, claiming) \<Rightarrow> (st, p, ready, claiming)))"
  unfolding sync_built_def Let_def tick_registry_def ..

lemma sync_built_again:
  assumes run: "sync_built rc inp p prov st = (st1, p1, ready, claiming)" and now: "riStatusNow inp' = riStatusNow inp"
    and st2: "ctRegistry st2 = ctRegistry st1" "ctBinder st2 = None \<longleftrightarrow> ctBinder st1 = None" "claims_enabled p \<Longrightarrow> st2 = st1"
  shows "\<exists>f. settles f \<and> p1 = p\<lparr>obStatus := f (obStatus p)\<rparr> \<and>
    (\<forall>y. \<exists>st3. sync_built rc inp' (p\<lparr>obStatus := y\<rparr>) prov st2 = (st3, p\<lparr>obStatus := f y\<rparr>, ready, claiming) \<and> ctRegistry st3 = ctRegistry st1)"
proof -
  define reg where "reg = ctRegistry (tick_registry inp p st)"
  obtain found r e where rr: "\<And>y. registryReadiness rc (riStatusNow inp) (p\<lparr>obStatus := y\<rparr>) reg = (p\<lparr>obStatus := up_report found y\<rparr>, r, e)"
    using readiness_report by blast
  have r0: "registryReadiness rc (riStatusNow inp) p reg = (p\<lparr>obStatus := up_report found (obStatus p)\<rparr>, r, e)"
    using rr [of "obStatus p"] by simp
  define q where "q = p\<lparr>obStatus := up_report found (obStatus p)\<rparr>"
  have claims: "syncClaims q prov (templateMap (spTemplates (obSpec p))) e (tick_registry inp p st) = (st1, p1, claiming)" and r: "ready = r"
    using run by (simp_all add: sync_built_ticks reg_def [symmetric] r0 q_def split: prod.splits)
  have reg1: "ctRegistry st1 = reg" using syncClaims_parts(1) [OF claims] by (simp add: reg_def)
  define st2' where "st2' = tick_registry inp' p st2"
  have reg2: "ctRegistry st2' = reg"
    unfolding st2'_def using tick_again [of st2 inp p st inp'] st2(1) reg1 by (simp add: reg_def)
  have b0: "ctBinder st2' = None \<longleftrightarrow> ctBinder (tick_registry inp p st) = None"
    using st2(2) syncClaims_binder [OF claims] tick_binder(2) [of inp' p st2] by (simp add: st2'_def)
  have b1: "\<exists>g. ctBinder st2' = Some (b1\<lparr>b_reg := g\<rparr>)" if "claims_enabled q" "ctBinder st1 = Some b1" for b1
    using that st2(3) tick_binder(1) by (simp add: st2'_def q_def)
  obtain hs where hs: "p1 = q\<lparr>obStatus := up_health hs (obStatus q)\<rparr>"
    and again: "\<And>y. \<exists>st3. syncClaims (q\<lparr>obStatus := y\<rparr>) prov (templateMap (spTemplates (obSpec p))) e st2'
      = (st3, q\<lparr>obStatus := up_health hs y\<rparr>, claiming)"
    using syncClaims_again [OF claims b0 b1] by blast
  have "\<exists>st3. sync_built rc inp' (p\<lparr>obStatus := y\<rparr>) prov st2 = (st3, p\<lparr>obStatus := up_health hs (up_report found y)\<rparr>, ready, claiming) \<and>
      ctRegistry st3 = ctRegistry st1" for y
  proof -
    from again [of "up_report found y"] obtain st3 where run3: "syncClaims (p\<lparr>obStatus := up_report found y\<rparr>) prov
        (templateMap (spTemplates (obSpec p))) e st2' = (st3, p\<lparr>obStatus := up_health hs (up_report found y)\<rparr>, claiming)"
      by (auto simp: q_def)
    have "ctRegistry st3 = reg" using syncClaims_parts(1) [OF run3] reg2 by simp
    with run3 show ?thesis by (simp add: sync_built_ticks st2'_def [symmetric] reg2 now rr r reg1)
  qed
  then show ?thesis
    by (intro exI [of _ "up_health hs \<circ> up_report found"]) (simp add: settles_health hs q_def)
qed


lemma disabled_registry: "ctRegistry (syncReaperWhenDisabled rc inp p st) \<in> {ctRegistry st, RemoveSource (obName p) (ctRegistry st)}"
  by (auto simp: syncReaperWhenDisabled_def Let_def split: option.splits sum.splits if_splits)

lemma disabled_again: "ctRegistry st = RemoveSource (obName p) reg \<Longrightarrow> ctRegistry (syncReaperWhenDisabled rc inp p st) = RemoveSource (obName p) reg"
  using disabled_registry [of rc inp p st] by (auto simp: RemoveSource_again)

lemma Remove_unserved [simp]: "ctBinder (deregister name st) = None \<longleftrightarrow> ctBinder st = None"
  by (simp add: deregister_def Let_def)

lemma sync_built_keeps:
  assumes "sync_built rc inp p prov st = (st', p', ready, claiming)"
  shows "ctBuilt st' = ctBuilt st"
proof -
  obtain q r e where reg: "registryReadiness rc (riStatusNow inp) p (ctRegistry (tick_registry inp p st)) = (q, r, e)" by (metis prod_cases3)
  then have "syncClaims q prov (templateMap (spTemplates (obSpec q))) e (tick_registry inp p st) = (st', p', claiming)"
    using assms by (simp add: sync_built_ticks split: prod.splits)
  from syncClaims_parts(2) [OF this] show ?thesis by (simp add: tick_registry_def)
qed

lemma sync_again:
  assumes named: "names_sources rc" and run: "sync rc inp p st = (st1, p1, ready, claiming)"
    and inp': "riSecret inp' = riSecret inp" "riStatusNow inp' = riStatusNow inp"
  shows "\<exists>f. settles f \<and> p1 = p\<lparr>obStatus := f (obStatus p)\<rparr> \<and>
    (\<forall>y. \<exists>st2. sync rc inp' (p\<lparr>obStatus := y\<rparr>) st1 = (st2, p\<lparr>obStatus := f y\<rparr>, ready, claiming) \<and> ctRegistry st2 = ctRegistry st1)"
proof -
  have stays: ?thesis if "p1 = p" "\<And>y. \<exists>st2. sync rc inp' (p\<lparr>obStatus := y\<rparr>) st1 = (st2, p\<lparr>obStatus := y\<rparr>, ready, claiming)
      \<and> ctRegistry st2 = ctRegistry st1"
    using that settles_id by (intro exI [of _ id]) simp
  note secrets = same_secrets [OF inp'(1), of rc p]
  consider (unknown) "\<not> Has (kcFactories rc) (spAdapter (obSpec p))"
    | (disabled) "Has (kcFactories rc) (spAdapter (obSpec p))" "spDisabled (obSpec p)"
    | (no_creds) err where "Has (kcFactories rc) (spAdapter (obSpec p))" "\<not> spDisabled (obSpec p)" "resolveCredentials rc inp p = Inl err"
    | (creds) creds where "Has (kcFactories rc) (spAdapter (obSpec p))" "\<not> spDisabled (obSpec p)" "resolveCredentials rc inp p = Inr creds"
    by (cases "resolveCredentials rc inp p") blast+
  then show ?thesis
  proof cases
    case unknown
    show ?thesis by (rule stays) (use run unknown in \<open>auto simp: sync_def Let_def RemoveSource_again\<close>)
  next
    case disabled
    define st0 where "st0 = on_binder (RemoveTarget (obName p)) (on_registry (RemoveSource (obName p)) st)"
    have st1: "st1 = syncReaperWhenDisabled rc inp p st0" using run disabled by (auto simp: sync_def Let_def st0_def)
    have reg1: "ctRegistry st1 = RemoveSource (obName p) (ctRegistry st)"
      unfolding st1 by (rule disabled_again) (simp add: st0_def)
    show ?thesis
    proof (rule stays)
      have "ctRegistry (syncReaperWhenDisabled rc inp' p (on_binder (RemoveTarget (obName p)) (on_registry (RemoveSource (obName p)) st1)))
          = ctRegistry st1"
        unfolding reg1 by (rule disabled_again) (simp add: reg1 RemoveSource_again)
      then show "\<exists>st2. sync rc inp' (p\<lparr>obStatus := y\<rparr>) st1 = (st2, p\<lparr>obStatus := y\<rparr>, ready, claiming) \<and> ctRegistry st2 = ctRegistry st1" for y
        using run disabled by (auto simp: sync_def Let_def)
    qed (use run disabled in \<open>auto simp: sync_def Let_def\<close>)
  next
    case (no_creds err)
    show ?thesis by (rule stays) (use run no_creds secrets in \<open>auto simp: sync_def Let_def\<close>)
  next
    case (creds creds)
    define cfg where "cfg = adapter_config_of p creds"
    define digest where "digest = configDigest (kcSha rc) (spAdapter (obSpec p)) cfg"
    have unfolded: "sync rc i (p\<lparr>obStatus := y\<rparr>) s = (let s = (if \<not> claims_enabled p then on_binder (RemoveTarget (obName p)) s else s) in
        case builtProvider (obName p) digest s of
          Some prov \<Rightarrow> sync_built rc i (p\<lparr>obStatus := y\<rparr>) prov s
        | None \<Rightarrow> (case build_provider rc (spAdapter (obSpec p)) cfg of
             Inl err \<Rightarrow> (deregister (obName p) s, p\<lparr>obStatus := y\<rparr>, not_ready ''AdapterConfigInvalid'' (error_string err),
               not_ready ''AdapterConfigInvalid'' (error_string err))
           | Inr prov \<Rightarrow> sync_built rc i (p\<lparr>obStatus := y\<rparr>) prov (setBuilt (obName p) digest prov (add_source prov s))))"
      if "resolveCredentials rc i p = Inr creds" for i s y
      using creds that unfolding sync_def status_irrelevant status_fields Let_def cfg_def digest_def by (simp split del: if_split)
    define s0 where "s0 = (if \<not> claims_enabled p then on_binder (RemoveTarget (obName p)) st else st)"
    define s1 where "s1 = (if \<not> claims_enabled p then on_binder (RemoveTarget (obName p)) st1 else st1)"
    have s1: "ctRegistry s1 = ctRegistry st1" "ctBinder s1 = None \<longleftrightarrow> ctBinder st1 = None" "claims_enabled p \<Longrightarrow> s1 = st1"
      "ctBuilt s1 = ctBuilt st1" "ctProviders s1 = ctProviders st1"
      by (simp_all add: s1_def)
    note again = unfolded [OF secrets [unfolded creds(3)], of _ st1, unfolded Let_def, folded s1_def]
    have run0: "(case builtProvider (obName p) digest s0 of
          Some prov \<Rightarrow> sync_built rc inp p prov s0
        | None \<Rightarrow> (case build_provider rc (spAdapter (obSpec p)) cfg of
             Inl err \<Rightarrow> (deregister (obName p) s0, p, not_ready ''AdapterConfigInvalid'' (error_string err),
               not_ready ''AdapterConfigInvalid'' (error_string err))
           | Inr prov \<Rightarrow> sync_built rc inp p prov (setBuilt (obName p) digest prov (add_source prov s0)))) = (st1, p1, ready, claiming)"
      using run unfolded [OF creds(3), of "obStatus p" st] unfolding Let_def s0_def [symmetric] self_status by simp
    have kept: ?thesis if built: "sync_built rc inp p prov sa = (st1, p1, ready, claiming)"
        and sa: "go_get (ctBuilt sa) (obName p) = Some digest" "go_get (ctProviders sa) (obName p) = Some prov" "polls sa (obName p)" for prov sa
    proof -
      have "builtProvider (obName p) digest s1 = Some prov"
        using sa sync_built_keeps [OF built] sync_built_agrees(4,5) [OF built] by (simp add: builtProvider_def s1)
      then have eq: "sync rc inp' (p\<lparr>obStatus := y\<rparr>) st1 = sync_built rc inp' (p\<lparr>obStatus := y\<rparr>) prov s1" for y
        by (simp add: again)
      show ?thesis unfolding eq by (rule sync_built_again [OF built inp'(2) s1(1-3)])
    qed
    show ?thesis
    proof (cases "builtProvider (obName p) digest s0")
      case (Some prov)
      show ?thesis
        by (rule kept [of prov s0]) (use run0 Some in \<open>auto simp: builtProvider_def split: option.splits if_splits\<close>)
    next
      case None
      show ?thesis
      proof (cases "build_provider rc (spAdapter (obSpec p)) cfg")
        case (Inl err)
        then have st1: "st1 = deregister (obName p) s0" "p1 = p" and out: "ready = not_ready ''AdapterConfigInvalid'' (error_string err)"
          "claiming = not_ready ''AdapterConfigInvalid'' (error_string err)"
          using run0 None by auto
        have "builtProvider (obName p) digest s1 = None" by (simp add: builtProvider_def s1 st1 go_get_delete)
        then show ?thesis
          by (intro stays) (simp_all add: again Inl st1(2) out s1, simp add: st1 RemoveSource_again)
      next
        case (Inr prov)
        have "polls (setBuilt (obName p) digest prov (add_source prov s0)) (obName p)"
          using polls_built [OF named Inr, of s0] by (simp add: cfg_def)
        then show ?thesis
          by (intro kept [of prov "setBuilt (obName p) digest prov (add_source prov s0)"])
            (use run0 None Inr in \<open>simp_all add: setBuilt_def go_get_put\<close>)
      qed
    qed
  qed
qed


section \<open>Conditions\<close>

definition stamped :: "condition_object option \<Rightarrow> condition_object \<Rightarrow> condition_object" where
  "stamped prev nxt = (case prev of None \<Rightarrow> nxt
     | Some c \<Rightarrow> if cnStatus c = cnStatus nxt then nxt\<lparr>cnLastTransition := cnLastTransition c\<rparr> else nxt)"

lemma findCondition_simps [simp]:
  "findCondition [] t = None" "findCondition (c # cs) t = (if cnType c = t then Some c else findCondition cs t)"
  by (simp_all add: findCondition_def)

lemma find_setCondition:
  "findCondition (setCondition cs nxt) t =
     (if t = cnType nxt then Some (stamped (findCondition cs t) nxt) else findCondition cs t)"
  by (induction cs) (auto simp: stamped_def)

lemma types_setCondition: "map cnType (setCondition cs nxt) =
    (if cnType nxt \<in> set (map cnType cs) then map cnType cs else map cnType cs @ [cnType nxt])"
  by (induction cs) auto

lemma setCondition_same: "findCondition cs (cnType nxt) = Some c \<Longrightarrow> c = nxt\<lparr>cnLastTransition := cnLastTransition c\<rparr> \<Longrightarrow> setCondition cs nxt = cs"
proof (induction cs)
  case (Cons d cs)
  show ?case
  proof (cases "cnType d = cnType nxt")
    case True
    with Cons.prems have d: "d = nxt\<lparr>cnLastTransition := cnLastTransition d\<rparr>" by simp
    then have "cnStatus d = cnStatus nxt" by (metis condition_object.select_convs(2) condition_object.surjective condition_object.update_convs(6))
    with True d show ?thesis by simp
  qed (use Cons in simp)
qed simp

lemma stamped_again: "stamped prev nxt = nxt\<lparr>cnLastTransition := cnLastTransition (stamped prev nxt)\<rparr>"
  by (simp add: stamped_def split: option.split)

lemma condition_of_again: "condition_of t g now r = (condition_of t g now' r)\<lparr>cnLastTransition := now\<rparr>"
  by (simp add: condition_of_def)

lemma set_again:
  assumes "t \<noteq> t'"
  shows "setCondition (setCondition (setCondition (setCondition cs (condition_of t g a r)) (condition_of t' g b r')) (condition_of t g a' r))
      (condition_of t' g b' r') = setCondition (setCondition cs (condition_of t g a r)) (condition_of t' g b r')"
proof -
  define cs1 where "cs1 = setCondition (setCondition cs (condition_of t g a r)) (condition_of t' g b r')"
  have types: "cnType (condition_of u g x y) = u" for u x y by (simp add: condition_of_def)
  have kept: "setCondition cs1 (condition_of u g x' y) = cs1" if "findCondition cs1 u = Some (stamped prev (condition_of u g x y))" for u x x' y prev
  proof (rule setCondition_same)
    show "findCondition cs1 (cnType (condition_of u g x' y)) = Some (stamped prev (condition_of u g x y))"
      using that by (simp add: types)
    show "stamped prev (condition_of u g x y) = (condition_of u g x' y)\<lparr>cnLastTransition := cnLastTransition (stamped prev (condition_of u g x y))\<rparr>"
      using stamped_again [of prev "condition_of u g x y"] condition_of_again [of u g x y x'] by simp
  qed
  have "findCondition cs1 t = Some (stamped (findCondition cs t) (condition_of t g a r))"
    "findCondition cs1 t' = Some (stamped (findCondition (setCondition cs (condition_of t g a r)) t') (condition_of t' g b r'))"
    using assms by (simp_all add: cs1_def find_setCondition types)
  from this [THEN kept] show ?thesis unfolding cs1_def [symmetric] by simp
qed

lemma with_conditions_again:
  "obStatus (with_conditions inp' (p\<lparr>obStatus := obStatus (with_conditions inp (p\<lparr>obStatus := y\<rparr>) ready (Some claiming))\<rparr>) ready (Some claiming))
     = obStatus (with_conditions inp (p\<lparr>obStatus := y\<rparr>) ready (Some claiming))"
  by (simp add: with_conditions_def Let_def set_again)

text \<open>C38: after a reconcile whose status reached the API server, a reconcile with the same secrets and the same ages of reports
  writes nothing and leaves the registry exactly as it is: no source is rebuilt, no schedule restarted, no watcher woken.\<close>

theorem reconcile_converges:
  assumes "names_sources rc" and first: "Reconcile_provider rc inp name (Got p) st = (st1, r1, StatusPatch n s # events)"
    and inp': "riSecret inp' = riSecret inp" "riStatusNow inp' = riStatusNow inp"
  shows "case Reconcile_provider rc inp' name (Got (p\<lparr>obStatus := s\<rparr>)) st1 of
     (st2, result, writes) \<Rightarrow> result = RequeueAfter (statusInterval rc) \<and> writes = [] \<and> ctRegistry st2 = ctRegistry st1"
proof -
  obtain st1' p1 ready claiming where run: "sync rc inp p st = (st1', p1, ready, claiming)" by (metis prod_cases4)
  from sync_again [OF assms(1) run inp'] obtain f where f: "settles f" "p1 = p\<lparr>obStatus := f (obStatus p)\<rparr>"
    and again: "\<And>y. \<exists>st2. sync rc inp' (p\<lparr>obStatus := y\<rparr>) st1' = (st2, p\<lparr>obStatus := f y\<rparr>, ready, claiming) \<and> ctRegistry st2 = ctRegistry st1'"
    by blast
  have s: "s = obStatus (with_conditions inp (p\<lparr>obStatus := f (obStatus p)\<rparr>) ready (Some claiming))" and st1: "st1 = st1'"
    using first by (auto simp: Reconcile_provider_def run Let_def writeStatus_def f(2) split: if_splits patch_answer.splits)
  have fs: "f s = s"
    using f(1) unfolding s settles_def by (simp add: with_conditions_def Let_def)
  obtain st2 where run2: "sync rc inp' (p\<lparr>obStatus := s\<rparr>) st1 = (st2, p\<lparr>obStatus := s\<rparr>, ready, claiming)" "ctRegistry st2 = ctRegistry st1"
    using again [of s] by (auto simp: fs st1)
  have "obStatus (with_conditions inp' (p\<lparr>obStatus := s\<rparr>) ready (Some claiming)) = s"
    unfolding s by (rule with_conditions_again)
  then show ?thesis by (simp add: Reconcile_provider_def run2 Let_def writeStatus_def same_status_def)
qed


section \<open>The digest of a configuration\<close>

definition digestible :: "(string, string) gomap \<Rightarrow> bool" where
  "digestible m \<longleftrightarrow> wf_map m \<and> short m \<and> list_all short (label_fields m)"

lemma map_bytes_fields: "map_bytes m = be_bytes 8 (length m) @ concat (map write_bytes (label_fields m))"
proof -
  have "concat (map (\<lambda>k. write_bytes k @ write_bytes (get_str m k)) ks)
      = concat (map write_bytes (concat (map (\<lambda>k. [k, get_str m k]) ks)))" for ks
    by (induction ks) auto
  then show ?thesis by (simp add: map_bytes_def label_fields_def Let_def sort_strings_def)
qed

lemma map_bytes_append:
  assumes "map_bytes m @ u = map_bytes m' @ v" "digestible m" "digestible m'"
  shows "map_of m = map_of m' \<and> u = v"
proof -
  have "length m = length m' \<and> concat (map write_bytes (label_fields m)) @ u = concat (map write_bytes (label_fields m')) @ v"
    using assms by (intro be_bytes_append) (simp_all add: map_bytes_fields digestible_def)
  moreover from this have "length (label_fields m) = length (label_fields m')"
    by (simp add: label_fields_def length_pairs sort_strings_def)
  ultimately have "label_fields m = label_fields m' \<and> u = v"
    using assms(2,3) by (intro fields_append) (auto simp: digestible_def list_all_iff)
  then show ?thesis using label_fields_inj by blast
qed

lemma map_bytes_cong:
  assumes "digestible m" "digestible m'" "map_of m = map_of m'"
  shows "map_bytes m = map_bytes m'"
proof -
  have "set (map fst m) = set (map fst m')"
    using assms(3) by (metis dom_map_of_conv_image_fst list.set_map)
  then have "mset (map fst m) = mset (map fst m')"
    using assms(1,2) set_eq_iff_mset_eq_distinct unfolding wf_map_def digestible_def by blast
  then have k: "sort_strings (map fst m) = sort_strings (map fst m')"
    by (rule sort_strings_unique)
  have "get_str m = get_str m'" using assms(3) by (simp add: get_str_def fun_eq_iff)
  with k show ?thesis by (simp add: map_bytes_def)
qed

definition digestible_config :: "string \<Rightarrow> adapter_config \<Rightarrow> bool" where
  "digestible_config a cfg \<longleftrightarrow> short a \<and> short (acProviderID cfg) \<and> short (acEndpoint cfg) \<and>
     digestible (acOptions cfg) \<and> digestible (acCredentials cfg) \<and> digestible (acTemplates cfg)"

text \<open>The digest by which a reconcile decides whether to rebuild a source changes exactly when the adapter, the provider, the
  endpoint or an option, a credential or a template does, provided SHA-256 does not collide on the two configurations.\<close>

theorem configDigest_identifies:
  assumes "digestible_config a c" "digestible_config a' c'"
    and "configDigest sha a c = configDigest sha a' c' \<longrightarrow> config_preimage a c = config_preimage a' c'"
  shows "configDigest sha a c = configDigest sha a' c' \<longleftrightarrow>
    a = a' \<and> acProviderID c = acProviderID c' \<and> acEndpoint c = acEndpoint c' \<and> go_get (acOptions c) = go_get (acOptions c') \<and>
    go_get (acCredentials c) = go_get (acCredentials c') \<and> go_get (acTemplates c) = go_get (acTemplates c')"
proof -
  note ok = assms(1,2) [unfolded digestible_config_def]
  have inj: "a = a' \<and> acProviderID c = acProviderID c' \<and> acEndpoint c = acEndpoint c' \<and> go_get (acOptions c) = go_get (acOptions c') \<and>
      go_get (acCredentials c) = go_get (acCredentials c') \<and> go_get (acTemplates c) = go_get (acTemplates c')"
    if eq: "config_preimage a c = config_preimage a' c'"
  proof -
    from write_bytes_append [OF eq [unfolded config_preimage_def]] ok
    have 1: "a = a'" and e1: "write_bytes (acProviderID c) @ write_bytes (acEndpoint c) @ map_bytes (acOptions c) @ map_bytes (acCredentials c)
        @ map_bytes (acTemplates c) = write_bytes (acProviderID c') @ write_bytes (acEndpoint c') @ map_bytes (acOptions c')
        @ map_bytes (acCredentials c') @ map_bytes (acTemplates c')" by blast+
    from write_bytes_append [OF e1] ok have 2: "acProviderID c = acProviderID c'"
      and e2: "write_bytes (acEndpoint c) @ map_bytes (acOptions c) @ map_bytes (acCredentials c) @ map_bytes (acTemplates c)
        = write_bytes (acEndpoint c') @ map_bytes (acOptions c') @ map_bytes (acCredentials c') @ map_bytes (acTemplates c')" by blast+
    from write_bytes_append [OF e2] ok have 3: "acEndpoint c = acEndpoint c'"
      and e3: "map_bytes (acOptions c) @ map_bytes (acCredentials c) @ map_bytes (acTemplates c)
        = map_bytes (acOptions c') @ map_bytes (acCredentials c') @ map_bytes (acTemplates c')" by blast+
    from map_bytes_append [OF e3] ok have 4: "go_get (acOptions c) = go_get (acOptions c')"
      and e4: "map_bytes (acCredentials c) @ map_bytes (acTemplates c) = map_bytes (acCredentials c') @ map_bytes (acTemplates c')" by blast+
    from map_bytes_append [OF e4] ok have 5: "go_get (acCredentials c) = go_get (acCredentials c')"
      and e5: "map_bytes (acTemplates c) @ [] = map_bytes (acTemplates c') @ []" by auto
    from map_bytes_append [OF e5] ok 1 2 3 4 5 show ?thesis by blast
  qed
  show ?thesis
  proof
    assume "configDigest sha a c = configDigest sha a' c'"
    with assms(3) inj show "a = a' \<and> acProviderID c = acProviderID c' \<and> acEndpoint c = acEndpoint c' \<and> go_get (acOptions c) = go_get (acOptions c') \<and>
      go_get (acCredentials c) = go_get (acCredentials c') \<and> go_get (acTemplates c) = go_get (acTemplates c')" by blast
  next
    assume "a = a' \<and> acProviderID c = acProviderID c' \<and> acEndpoint c = acEndpoint c' \<and> go_get (acOptions c) = go_get (acOptions c') \<and>
      go_get (acCredentials c) = go_get (acCredentials c') \<and> go_get (acTemplates c) = go_get (acTemplates c')"
    moreover from this have "map_bytes (acOptions c) = map_bytes (acOptions c')" "map_bytes (acCredentials c) = map_bytes (acCredentials c')"
      "map_bytes (acTemplates c) = map_bytes (acTemplates c')" using ok by (blast intro: map_bytes_cong)+
    ultimately show "configDigest sha a c = configDigest sha a' c'" by (simp add: configDigest_def config_preimage_def)
  qed
qed

theorem configDigest_identifies_witness:
  "configDigest (\<lambda>s. s) ''e2b'' \<lparr>acProviderID = ''p'', acEndpoint = [], acCredentials = [(''a'', ''1''), (''b'', ''2'')], acOptions = [], acTemplates = []\<rparr>
   = configDigest (\<lambda>s. s) ''e2b'' \<lparr>acProviderID = ''p'', acEndpoint = [], acCredentials = [(''b'', ''2''), (''a'', ''1'')], acOptions = [], acTemplates = []\<rparr>"
  (is "configDigest _ _ ?c = configDigest _ _ ?d")
proof -
  have ok: "digestible_config ''e2b'' ?c" "digestible_config ''e2b'' ?d"
    by (auto simp: digestible_config_def digestible_def wf_map_def label_fields_def get_str_def list_all_iff)
  have m: "go_get [(''a'', ''1''), (''b'', ''2'')] = go_get [(''b'', ''2''), (''a'', ''1'')]" by (auto simp: fun_eq_iff)
  show ?thesis by (rule configDigest_identifies [THEN iffD2, OF ok]) (use m in \<open>simp_all add: configDigest_def\<close>)
qed

section \<open>Witnesses\<close>

definition ex_spec :: provider_spec where
  "ex_spec = \<lparr>spAdapter = ''e2b'', spEndpoint = [], spCredentialsRef = None, spTemplates = [], spClaims = None, spAttributes = [],
     spCostPerHour = None, spRefreshInterval = None, spDisabled = False\<rparr>"

definition ex_provider_object :: provider_object where
  "ex_provider_object = \<lparr>obName = ''p'', obUID = ''u'', obAnnotations = [], obGeneration = 1, obSpec = ex_spec, obKubeAPI = None,
     obStatus = \<lparr>ssConditions = [], ssWarmCapacity = 0, ssLastReportTime = None, ssLastError = [], ssObservedAttributes = [], ssClaims = None\<rparr>\<rparr>"

definition ex_reconciler :: reconciler where
  "ex_reconciler = \<lparr>kcFactories = [(''e2b'', \<lambda>cfg. Inr \<lparr>bpSource = Some \<lparr>soProviderID = acProviderID cfg, soToken = 1\<rparr>,
       bpCaps = \<lparr>pvBinder = True, pvBatchLookup = False\<rparr>, bpLister = True\<rparr>)],
     kcSecretNamespace = [], kcEventInstance = [], kcStatusInterval = 0, kcHasClient = True, kcSha = (\<lambda>s. s), kcRFC3339 = (\<lambda>t. [])\<rparr>"

definition ex_input :: reconcile_input where
  "ex_input = \<lparr>riSecret = (\<lambda>ns n. Missing), riNow = 0, riStatusNow = 0, riStampReady = 0, riStampClaiming = 0, riMayWrite = True, riPatch = Patched\<rparr>"

definition ex_state :: "unit controller" where
  "ex_state = \<lparr>ctRegistry = New_registry \<lparr>oStaleAfter = 0, oFetchTimeout = 0, oReservationGrace = 0, oColdStartWindow = 0\<rparr>, ctBinder = None,
     ctReaper = Some (New_reaper (\<lambda>s. s) \<lparr>roOwner = ''o'', roInterval = 0, roPageSize = 0, roMaxPages = 0, roMaxPerCycle = 0,
       roRatePerSecond = 0, roBurst = 0, roDryRun = False, roOnReleased = None, roOnDryRun = False\<rparr>), ctBuilt = [], ctProviders = []\<rparr>"

lemma ex_named: "names_sources ex_reconciler"
  by (auto simp: names_sources_def ex_reconciler_def split: if_splits)

theorem sync_follows_witness:
  "case sync ex_reconciler ex_input ex_provider_object ex_state of (st', p', ready, claiming) \<Rightarrow>
     HasSource (obName ex_provider_object) (ctRegistry st') =
       (if rdReason ready \<in> {''UnknownAdapter'', ''Disabled'', ''AdapterConfigInvalid''} then False
        else if rdReason ready = ''CredentialsUnavailable'' then HasSource (obName ex_provider_object) (ctRegistry ex_state) else True) \<and>
     reaper_watches st' (obName ex_provider_object) =
       (Has (kcFactories ex_reconciler) (spAdapter (obSpec ex_provider_object)) \<and>
        (case resolveCredentials ex_reconciler ex_input ex_provider_object of Inl err \<Rightarrow> False | Inr creds \<Rightarrow> built_reapable st' (obName ex_provider_object)))"
  by (rule sync_follows [OF ex_named]) (simp add: ex_state_def)


theorem reconcile_converges_witness:
  "case Reconcile_provider ex_reconciler ex_input ''p'' (Got ex_provider_object) ex_state of
     (st1, r1, StatusPatch n s # events) \<Rightarrow>
       (case Reconcile_provider ex_reconciler ex_input ''p'' (Got (ex_provider_object\<lparr>obStatus := s\<rparr>)) st1 of
          (st2, result, writes) \<Rightarrow>
            result = RequeueAfter (statusInterval ex_reconciler) \<and> writes = [] \<and> ctRegistry st2 = ctRegistry st1)
   | (st1, r1, writes) \<Rightarrow> False"
proof -
  obtain st' p' ready claiming where run: "sync ex_reconciler ex_input ex_provider_object ex_state = (st', p', ready, claiming)"
    by (metis prod_cases4)
  from sync_again [OF ex_named run refl refl] obtain f where "p' = ex_provider_object\<lparr>obStatus := f (obStatus ex_provider_object)\<rparr>" by blast
  define q where "q = with_conditions ex_input p' ready (Some claiming)"
  have "findCondition (ssConditions (obStatus q)) ''Ready'' \<noteq> None"
    by (simp add: q_def with_conditions_def Let_def find_setCondition condition_of_def)
  then have "ssConditions (obStatus q) \<noteq> []" by auto
  then have changed: "\<not> same_status (obStatus ex_provider_object) (obStatus q)"
    by (auto simp: same_status_def ex_provider_object_def dest: arg_cong [of _ _ ssConditions])
  have writes: "riMayWrite ex_input" "riPatch ex_input = Patched" by (simp_all add: ex_input_def)
  obtain events where first: "Reconcile_provider ex_reconciler ex_input ''p'' (Got ex_provider_object) ex_state
      = (st', RequeueAfter (statusInterval ex_reconciler), StatusPatch (obName q) (obStatus q) # events)"
    using changed writes by (simp add: Reconcile_provider_def run writeStatus_def Let_def q_def)
  from reconcile_converges [OF ex_named first refl refl] show ?thesis by (simp add: first)
qed

section \<open>Policies\<close>

text \<open>The reconciler of policies writes the verdict of the validation: the condition \<open>Valid\<close> is true exactly if the policy
  passes, every other condition is kept, and its time changes only when the verdict does.\<close>

theorem policy_verdict_shown:
  "case Reconcile_policy now answer (Got p) of
     (result, [PolicyUpdate name cs]) \<Rightarrow> name = poName (poObject p) \<and>
       (case findCondition cs ''Valid'' of
          None \<Rightarrow> False
        | Some c \<Rightarrow> (cnStatus c = CondTrue) = (Policy_Validate (poObject p) = None) \<and>
            cnLastTransition c = (case findCondition (poConditions p) ''Valid'' of
               None \<Rightarrow> now | Some prev \<Rightarrow> if cnStatus prev = cnStatus c then cnLastTransition prev else now)) \<and>
       (findCondition cs)(''Valid'' := None) = (findCondition (poConditions p))(''Valid'' := None)
   | (result, writes) \<Rightarrow> False"
proof -
  define cs where "cs = setCondition (poConditions p) (condition_of ConditionValid (poGeneration p) now (policy_verdict (poObject p)))"
  obtain result where run: "Reconcile_policy now answer (Got p) = (result, [PolicyUpdate (poName (poObject p)) cs])"
    by (cases answer) (simp_all add: Reconcile_policy_def Let_def cs_def)
  have find: "findCondition cs t = (if t = ''Valid'' then Some (stamped (findCondition (poConditions p) ''Valid'')
      (condition_of ConditionValid (poGeneration p) now (policy_verdict (poObject p)))) else findCondition (poConditions p) t)" for t
    by (simp add: cs_def find_setCondition) (simp add: condition_of_def)
  show ?thesis
    unfolding run by (auto simp: find stamped_def condition_of_def policy_verdict_def fun_eq_iff split: option.splits)
qed

end
