(* ===== verification/LeaderLabel.thy ===== *)
theory LeaderLabel
  imports Prelude
begin

text \<open>
  \<open>internal/leader/label.go\<close>: the loop that keeps the label of the serving replica on its own pod, as a step relation. The
  pod's labels are the API server's; a patch whose answer is an error may or may not have been applied. Beside the code's
  state, \<open>lbElected\<close> records whether the channel of the election was seen closed.
\<close>

definition ActiveLabel :: string where
  "ActiveLabel = ''placement.agents.x-k8s.io/active''"

text \<open>Where \<open>Start\<close> is: in a patch or between two tries of it, waiting to be elected, serving, in its last patch, or back.\<close>

datatype label_phase = Clearing | ClearRetry | Waiting | Setting | SetRetry | Serving | Removing | Returned

record labeler =
  lbLabels :: "(string, string) gomap"
  lbCleared :: bool
  lbElected :: bool
  lbPhase :: label_phase

definition start_labeler :: "(string, string) gomap \<Rightarrow> labeler" where
  "start_labeler labels = \<lparr>lbLabels = labels, lbCleared = False, lbElected = False, lbPhase = Clearing\<rparr>"

text \<open>What \<open>patchOnce\<close> asks for: a merge patch, in which null deletes the key.\<close>

definition merge_label :: "string option \<Rightarrow> (string, string) gomap \<Rightarrow> (string, string) gomap" where
  "merge_label v labels = (case v of None \<Rightarrow> go_delete ActiveLabel labels | Some s \<Rightarrow> go_put ActiveLabel s labels)"

definition patched :: "bool \<Rightarrow> string option \<Rightarrow> labeler \<Rightarrow> labeler" where
  "patched applied v l = (if applied then l\<lparr>lbLabels := merge_label v (lbLabels l)\<rparr> else l)"

text \<open>The answer to a try of a patch (applied, and whether without error), the timer of a retry, the end of the context, the election.\<close>

datatype label_event = Answer bool bool | Timer | CtxDone | ElectedClosed

inductive label_step :: "labeler \<Rightarrow> label_event \<Rightarrow> labeler \<Rightarrow> bool" where
  cleared: "lbPhase l = Clearing \<Longrightarrow> label_step l (Answer True True) ((patched True None l)\<lparr>lbCleared := True, lbPhase := Waiting\<rparr>)"
| clear_failed: "lbPhase l = Clearing \<Longrightarrow> label_step l (Answer applied False) ((patched applied None l)\<lparr>lbPhase := ClearRetry\<rparr>)"
| clear_again: "lbPhase l = ClearRetry \<Longrightarrow> label_step l Timer (l\<lparr>lbPhase := Clearing\<rparr>)"
| clear_ends: "lbPhase l = ClearRetry \<Longrightarrow> label_step l CtxDone (l\<lparr>lbPhase := Returned\<rparr>)"
| wait_ends: "lbPhase l = Waiting \<Longrightarrow> label_step l CtxDone (l\<lparr>lbPhase := Returned\<rparr>)"
| elected: "lbPhase l = Waiting \<Longrightarrow> label_step l ElectedClosed (l\<lparr>lbElected := True, lbPhase := Setting\<rparr>)"
| set: "lbPhase l = Setting \<Longrightarrow> label_step l (Answer True True) ((patched True (Some ''true'') l)\<lparr>lbPhase := Serving\<rparr>)"
| set_failed: "lbPhase l = Setting \<Longrightarrow> label_step l (Answer applied False) ((patched applied (Some ''true'') l)\<lparr>lbPhase := SetRetry\<rparr>)"
| set_again: "lbPhase l = SetRetry \<Longrightarrow> label_step l Timer (l\<lparr>lbPhase := Setting\<rparr>)"
| set_ends: "lbPhase l = SetRetry \<Longrightarrow> label_step l CtxDone (l\<lparr>lbPhase := Returned\<rparr>)"
| serve_ends: "lbPhase l = Serving \<Longrightarrow> label_step l CtxDone (l\<lparr>lbPhase := Removing\<rparr>)"
| removed: "lbPhase l = Removing \<Longrightarrow> (ok \<longrightarrow> applied) \<Longrightarrow> label_step l (Answer applied ok) ((patched applied None l)\<lparr>lbPhase := Returned\<rparr>)"

text \<open>\<open>Ready\<close>: \<open>None\<close>, or the error of the health check.\<close>

definition labeler_Ready :: "labeler \<Rightarrow> string option" where
  "labeler_Ready l = (if lbCleared l then None else Some (''clearing a stale '' @ ActiveLabel @ '' label from a previous run''))"

inductive label_run :: "labeler \<Rightarrow> label_event list \<Rightarrow> labeler \<Rightarrow> bool" where
  stop: "label_run l [] l"
| step: "label_step l e m \<Longrightarrow> label_run m es n \<Longrightarrow> label_run l (e # es) n"

inductive_cases label_step_cases [elim]: "label_step l e m"

section \<open>The label and the election\<close>

abbreviation active :: "labeler \<Rightarrow> string option" where
  "active l \<equiv> go_get (lbLabels l) ActiveLabel"

text \<open>The invariant: readiness, election and label go by the phase.\<close>

definition label_inv :: "labeler \<Rightarrow> bool" where
  "label_inv l \<longleftrightarrow> (lbPhase l \<in> {Clearing, ClearRetry} \<longrightarrow> \<not> lbCleared l \<and> \<not> lbElected l) \<and>
     (lbPhase l = Waiting \<longrightarrow> lbCleared l \<and> \<not> lbElected l \<and> active l = None) \<and>
     (lbPhase l \<in> {Setting, SetRetry} \<longrightarrow> lbCleared l \<and> lbElected l) \<and>
     (lbPhase l = Serving \<longrightarrow> lbCleared l \<and> lbElected l \<and> active l = Some ''true'') \<and>
     (lbPhase l = Removing \<longrightarrow> lbCleared l \<and> lbElected l) \<and>
     (lbPhase l = Returned \<longrightarrow> lbCleared l \<and> \<not> lbElected l \<longrightarrow> active l = None)"

lemma active_patched: "active (patched applied v l) = (if applied then v else active l)"
  by (simp add: patched_def merge_label_def go_get_put go_get_delete split: option.split)

lemma patched_simps [simp]:
  "lbCleared (patched a v l) = lbCleared l" "lbElected (patched a v l) = lbElected l" "lbPhase (patched a v l) = lbPhase l"
  by (simp_all add: patched_def)

lemma label_inv_step: "label_step l e m \<Longrightarrow> label_inv l \<Longrightarrow> label_inv m"
  by (induction rule: label_step.induct) (auto simp: label_inv_def active_patched)

lemma label_inv_run: "label_run l es m \<Longrightarrow> label_inv l \<Longrightarrow> label_inv m"
  by (induction rule: label_run.induct) (auto dest: label_inv_step)

lemma label_inv_start: "label_inv (start_labeler labels)"
  by (simp add: label_inv_def start_labeler_def)

lemma others_step: "label_step l e m \<Longrightarrow> k \<noteq> ActiveLabel \<Longrightarrow> go_get (lbLabels m) k = go_get (lbLabels l) k"
  by (induction rule: label_step.induct)
    (auto simp: patched_def merge_label_def go_get_put go_get_delete split: option.splits)

lemma others_run: "label_run l es m \<Longrightarrow> k \<noteq> ActiveLabel \<Longrightarrow> go_get (lbLabels m) k = go_get (lbLabels l) k"
  by (induction rule: label_run.induct) (simp_all add: others_step)

text \<open>C39: whatever labels a previous run left, whichever patches fail and whichever of those were applied all the same: a replica that
  is ready and was not elected does not carry the label, one that serves carries it, and all other labels stay as they were.\<close>

theorem label_follows_election:
  assumes "label_run (start_labeler labels) es l"
  shows "(if labeler_Ready l = None \<and> \<not> lbElected l then active l = None else True) \<and>
    (if lbPhase l = Serving then labeler_Ready l = None \<and> lbElected l \<and> active l = Some ''true'' else True) \<and>
    (if k = ActiveLabel then True else go_get (lbLabels l) k = go_get labels k)"
proof -
  have "label_inv l" by (rule label_inv_run [OF assms label_inv_start])
  moreover have "k \<noteq> ActiveLabel \<Longrightarrow> go_get (lbLabels l) k = go_get labels k"
    using others_run [OF assms] by (simp add: start_labeler_def)
  ultimately show ?thesis
    by (cases "lbPhase l") (auto simp: label_inv_def labeler_Ready_def split: if_splits)
qed

theorem label_follows_election_witness:
  "\<exists>l. label_run (start_labeler [(ActiveLabel, ''true''), (''a'', ''b'')]) [Answer False False, Timer, Answer True True, ElectedClosed, Answer True True] l \<and>
     (if lbPhase l = Serving then labeler_Ready l = None \<and> lbElected l \<and> active l = Some ''true'' else True) \<and> go_get (lbLabels l) ''a'' = Some ''b''"
proof -
  let ?s = "start_labeler [(ActiveLabel, ''true''), (''a'', ''b'')]"
  let ?l1 = "(patched False None ?s)\<lparr>lbPhase := ClearRetry\<rparr>" and ?l2 = "((patched False None ?s)\<lparr>lbPhase := ClearRetry\<rparr>)\<lparr>lbPhase := Clearing\<rparr>"
  define l3 where "l3 = (patched True None ?l2)\<lparr>lbCleared := True, lbPhase := Waiting\<rparr>"
  define l4 where "l4 = l3\<lparr>lbElected := True, lbPhase := Setting\<rparr>"
  define l5 where "l5 = (patched True (Some ''true'') l4)\<lparr>lbPhase := Serving\<rparr>"
  have 1: "label_step ?s (Answer False False) ?l1" by (rule label_step.clear_failed) (simp add: start_labeler_def)
  have 2: "label_step ?l1 Timer ?l2" by (rule label_step.clear_again) simp
  have 3: "label_step ?l2 (Answer True True) l3" unfolding l3_def by (rule label_step.cleared) simp
  have 4: "label_step l3 ElectedClosed l4" unfolding l4_def by (rule label_step.elected) (simp add: l3_def)
  have 5: "label_step l4 (Answer True True) l5" unfolding l5_def by (rule label_step.set) (simp add: l4_def)
  have run: "label_run ?s [Answer False False, Timer, Answer True True, ElectedClosed, Answer True True] l5"
    by (rule label_run.step [OF 1], rule label_run.step [OF 2], rule label_run.step [OF 3], rule label_run.step [OF 4],
        rule label_run.step [OF 5], rule label_run.stop)
  from label_follows_election [OF run, of "''a''"] run show ?thesis
    by (intro exI [of _ l5]) (auto simp: ActiveLabel_def)
qed

end
