(* ===== verification/Spec2Isabelle.thy ===== *)
theory Spec2Isabelle
  imports Policy ColdStarts LedgerConc Provider Registry Slots Health Coalescer ClaimTermination ClaimAnswers ClaimPinned Retention ReleaseProps ServiceProps ReaperProps AgentSandboxProps E2BProps ControllerProps LeaderLabel
begin

text \<open>
  A verification library for sandbox-scheduler, a Go service that places agent sandboxes on providers and claims them.

  \<^bold>\<open>The program.\<close> A provider reports warm capacity. The registry (\<open>pkg/registry\<close>) polls providers and subtracts what
  was placed since from what they reported. The framework (\<open>pkg/framework\<close>) filters and scores a snapshot of the registry
  with the plugins (\<open>pkg/plugins\<close>) that the governing policy (\<open>api/v1alpha1/convert.go\<close>) selects. The binder
  (\<open>pkg/binder\<close>) claims a sandbox at the chosen provider: one execution per idempotency key, at most so many attempts at
  once, a claim with an unknown outcome recovered by lookups before another provider is tried. The service
  (\<open>pkg/scheduler\<close>) answers HTTP requests with both, the reaper (\<open>pkg/reaper\<close>) deletes expired sandboxes, adapters
  (\<open>pkg/adapter\<close>) speak to providers, and controllers (\<open>internal/controller\<close>) keep everything in step with the
  objects of a Kubernetes cluster.

  \<^bold>\<open>How code became definitions.\<close> Definitions carry the names of the code where these are free. Structs are records,
  enumerations datatypes, errors values (\<open>go_error\<close>, sums and options), maps association lists whose order stands for the
  arbitrary order of Go's \<open>range\<close>, instants and durations nanoseconds (\<open>int\<close>) with the wrap-around of 64 bits written out
  (\<open>wrap64\<close>), the words of the ledger words of their width, \<open>float64\<close> rationals with rounding. Shared state is passed
  explicitly. Code that runs concurrently is cut at its atomic operations or locked sections and becomes a step relation
  (\<open>lstep\<close>, \<open>gstep\<close>, \<open>fstep\<close>, the steps of the coalescer), or a program in a state monad in which the environment changes
  the shared state before every operation as it likes (\<open>act\<close>, \<open>reap\<close>); a statement about all environments is one about all
  interleavings. SHA-256, label selectors, JSON coding, the parser of timestamps, rate limiters, timers and providers are
  parameters or answers of the environment.

  \<^bold>\<open>The theories.\<close>
  \<^item> \<open>Prelude\<close>: time, wrap-around, decimal and quoted strings, maps, stable sorting by a less function; the locale
    \<open>strict_weak_order\<close>, interpreted on the orders of strings, of results and of policies.
  \<^item> \<open>Provider\<close> (\<open>pkg/provider/provider.go\<close>): error kinds, validation of claims with its regular expressions, the bytes under
    the spec hash and the owner hash. Lemmas: exactly which requests are accepted, hashes identify specs, kinds survive the
    wire protocol.
  \<^item> \<open>Framework\<close>, \<open>Float64\<close>, \<open>Plugins\<close>, \<open>Policy\<close>: filtering, scoring, picking; costs in \<open>float64\<close>; policies compiled to profiles; the locale
    \<open>bounded_scorer\<close> is interpreted on every built-in scorer. Lemmas: the winner is feasible and of maximal total, requirements of a policy are enforced, and a validated weight may
    overflow.
  \<^item> \<open>Ledger\<close>, \<open>LedgerConc\<close>, \<open>ColdStarts\<close>, \<open>Registry\<close>: the lock-free ledger of reservations, its interleavings, the window of cold
    starts as a refinement of the list of all cold starts, and the registry with its polling; the locale
    \<open>capacity_counter\<close> is interpreted on the ledger. Lemmas: reservations never
    exceed capacity, counts are exact, snapshots are exact, an answer of a replaced source is ignored.
  \<^item> \<open>Slots\<close>, \<open>Health\<close>, \<open>Coalescer\<close> (\<open>pkg/binder/slots.go\<close>): limits on attempts, demotion of failing providers as a refinement of
    the whole history, and batches of lookups. Lemmas: limits are kept, a wakeup can be lost, lookups are answered once.
  \<^item> \<open>BinderState\<close>, \<open>Flights\<close>, \<open>Retention\<close>, \<open>ClaimEffects\<close>, \<open>ClaimLoop\<close>, \<open>BinderOps\<close> (\<open>pkg/binder/binder.go\<close>): the state of the binder, the cache of
    flights and its history, the effects of a claim, the claim loop with its recovery, and \<open>Bind\<close>, \<open>Release\<close> and \<open>ReleaseByKey\<close>.
    \<open>ClaimLogic\<close> has rules for programs over effects (\<open>moves\<close>, \<open>yields\<close>, \<open>valid\<close>); \<open>ClaimSafety\<close>, \<open>ClaimTermination\<close>,
    \<open>ClaimAnswers\<close>, \<open>ClaimPinned\<close> and \<open>ReleaseProps\<close> use them: no sandbox is claimed while another provider may hold one for the
    key, a flight ends after its deadline, answers are well-formed, pins are respected, attempts are given back. \<open>Flights\<close> runs without the last stage of
    \<open>ReleaseByKey\<close>, which breaks its invariant (\<open>release_breaks_single_flight\<close>); \<open>Retention\<close> runs with it, and shows for
    which recorded reasons a successful claim can be missing from the cache. \<open>release_by_key_leaks\<close> is the exact count
    of attempts after \<open>ReleaseByKey\<close>, which a panic leaves one too high.
  \<^item> \<open>GoDuration\<close>, \<open>Service\<close>, \<open>ServiceProps\<close> (\<open>pkg/scheduler/service.go\<close>): parsing of durations, the handlers and their
    authorization. Lemmas: a placement takes exactly one unit of capacity, tokens are required, a standby changes nothing.
  \<^item> \<open>Reaper\<close>, \<open>ReaperProps\<close> (\<open>pkg/reaper/reaper.go\<close>): the passes of the reaper over its targets. Lemmas: only listed expired
    sandboxes are released, an uninterrupted pass is complete, targets are sound.
  \<^item> \<open>Adapter\<close>, \<open>HttpClient\<close>, \<open>AgentSandbox\<close>, \<open>E2B\<close> (\<open>pkg/adapter\<close>): the table of adapter factories; the parts of the standard
    library that the HTTP adapters use, and clients as programs whose requests the environment answers (\<open>http\<close>); the adapters of
    the agent-sandbox gateway and of E2B. The locale \<open>refusing_adapter\<close> of \<open>AdapterContract\<close> is what the binder needs from an
    adapter; \<open>AgentSandboxProps\<close> and \<open>E2BProps\<close> interpret it on the adapters' claims, the second with the triples of
    \<open>AdapterContract\<close>. Lemmas: only explicit refusals spill, an ambiguous answer
    (\<open>gw_unclear\<close>, \<open>e2b_unclear\<close>; a refused connection is one) is the last and makes the outcome unknown, handles belong to the request, a claim creates at most one sandbox,
    the timeout of a creation follows the deadline, and cases in which a claim spills although a sandbox exists.
  \<^item> \<open>Controller\<close>, \<open>ControllerProps\<close> (\<open>internal/controller\<close>): the reconcilers as functions on the registry, the binder, the reaper
    and the cache of built providers. Lemmas: conditions tell what the components do with a provider, the digest changes exactly
    with the configuration, the binder keeps the controller's registry, and a second reconcile finds nothing to do.
  \<^item> \<open>LeaderLabel\<close> (\<open>internal/leader/label.go\<close>): the loop that labels the serving pod as a step relation, and its invariant.

  \<^bold>\<open>Fuel.\<close> Loops of the code recurse on what they consume: a list, the bits of a number, the pages left, or a number that
  a lemma bounds. The loop of \<open>claimLoop\<close> and the loops of its recovery turn until the deadline; their fuel is the number of
  turns, and \<open>flight_terminates\<close> shows that \<open>K + 1\<close> suffices if from its \<open>K\<close>-th step on the environment shows a clock
  past the deadline. The loop of \<open>handleSchedule\<close> has one turn more than there are providers with warm capacity,
  and \<open>schedule_takes_one\<close> shows that it answers. Each step of the parser in \<open>GoDuration\<close> shortens its input.

  \<^bold>\<open>Not modelled.\<close> Metrics (\<open>pkg/metrics\<close>) and log messages, which nothing reads; the wiring of the process
  (\<open>cmd/sandbox-scheduler\<close>), which is flags, environment variables and calls into Kubernetes and \<open>net/http\<close>; generated deep
  copies and the registration of the API group; the conformance suite and the fake provider of \<open>pkg/provider/adaptertest\<close>,
  which only tests run; transport and coding of HTTP bodies. Of the controllers, the constant
  fields of events and the registration with the manager are left out; reconciles run one after the other, and what other
  goroutines do to the registry between two calls of a reconcile is not modelled.
\<close>

end
